(* ===== verification/Prelude.thy ===== *)
theory Prelude
  imports Main "HOL-Library.Word"
begin

text \<open>
  Shared vocabulary of the development: the theorem collections the component proofs draw
  on, the names of the Go types that every component uses, Go's integer conversions, and the
  generic facts about lists, options and sums that the components share.
\<close>

named_theorems keeps_intros \<open>rules that decompose "this program keeps that invariant"\<close>
named_theorems stmt_defs \<open>definitions of the SQL statements as store programs\<close>

subsection \<open>Names of the Go types\<close>

text \<open>
  A Go \<^verbatim>\<open>string\<close> and a \<^verbatim>\<open>[]byte\<close> are both sequences of bytes, and a HOL character is a
  byte, so both are \<open>char list\<close>; the conversions \<^verbatim>\<open>[]byte(s)\<close> and \<^verbatim>\<open>string(b)\<close> are the identity.
  A \<^verbatim>\<open>pgtype.UUID\<close> holds 16 bytes, read as a 128-bit word (the byte order is the SQL order); the
  nullable pgtype values are options. An instant is its distance from the Unix epoch in
  nanoseconds, a \<^verbatim>\<open>time.Duration\<close> is a number of nanoseconds.
\<close>

type_synonym bytes = "char list"
type_synonym uuid = "128 word"
type_synonym time = int
type_synonym duration = int

text \<open>\<^verbatim>\<open>tenancy.DefaultTenantID\<close>: fifteen zero bytes and a 1.\<close>

definition DefaultTenantID :: uuid where "DefaultTenantID = 1"

definition second :: duration where "second = 1000000000"
definition millisecond :: duration where "millisecond = 1000000"

text \<open>The field read \<^verbatim>\<open>t.String\<close> of a nullable text: the empty string when it is not valid.\<close>

definition text_String :: "string option \<Rightarrow> string" where
  "text_String t = (case t of None \<Rightarrow> '''' | Some s \<Rightarrow> s)"

lemma text_String_simps [simp]:
  "text_String None = ''''" "text_String (Some s) = s"
  by (simp_all add: text_String_def)

text \<open>\<^verbatim>\<open>int32(x)\<close>: the low 32 bits, read as two's complement.\<close>

definition int32_of :: "int \<Rightarrow> int" where
  "int32_of x = signed_take_bit 31 x"

lemma int32_of_id: "- (2 ^ 31) \<le> x \<Longrightarrow> x < 2 ^ 31 \<Longrightarrow> int32_of x = x"
  unfolding int32_of_def by (rule signed_take_bit_int_eq_self) auto

lemma int32_of_bounds: "- (2 ^ 31) \<le> int32_of x \<and> int32_of x < 2 ^ 31"
  unfolding int32_of_def
  using signed_take_bit_int_greater_eq_minus_exp [of 31 x] signed_take_bit_int_less_exp [of 31 x]
  by simp

text \<open>int64 arithmetic wraps around.\<close>

definition int64_of :: "int \<Rightarrow> int" where
  "int64_of x = signed_take_bit 63 x"

lemma int64_of_id: "- (2 ^ 63) \<le> x \<Longrightarrow> x < 2 ^ 63 \<Longrightarrow> int64_of x = x"
  unfolding int64_of_def by (rule signed_take_bit_int_eq_self) auto

lemma int64_of_above:
  assumes "2 ^ 63 \<le> x" "x < 3 * 2 ^ 63"
  shows "int64_of x = x - 2 ^ 64"
proof -
  have "(x + 2 ^ 63) mod 2 ^ 64 = (x - 2 ^ 63 + 2 ^ 64) mod 2 ^ 64" by (simp add: algebra_simps)
  also have "\<dots> = x - 2 ^ 63" unfolding mod_add_self2 using assms by (simp add: mod_pos_pos_trivial)
  finally show ?thesis
    by (simp add: int64_of_def signed_take_bit_eq_take_bit_shift take_bit_eq_mod)
qed

text \<open>Go's integer division truncates towards zero.\<close>

definition go_div :: "int \<Rightarrow> int \<Rightarrow> int" where
  "go_div a b = sgn a * sgn b * (\<bar>a\<bar> div \<bar>b\<bar>)"

lemma go_div_nonneg: "0 \<le> a \<Longrightarrow> 0 < b \<Longrightarrow> go_div a b = a div b"
  by (cases "a = 0") (simp_all add: go_div_def sgn_if)

subsection \<open>Lists\<close>

lemma list_all_take: "list_all P xs \<Longrightarrow> list_all P (take n xs)"
  by (auto simp: list_all_iff dest: in_set_takeD)

lemma find_append_Some: "P x \<Longrightarrow> \<forall>y \<in> set ys. \<not> P y \<Longrightarrow> find P (ys @ x # zs) = Some x"
  by (induction ys) auto

lemma find_None_all: "find P xs = None \<longleftrightarrow> (\<forall>x \<in> set xs. \<not> P x)"
  by (induction xs) auto

lemma find_Some_split:
  "find P xs = Some x \<longleftrightarrow> (\<exists>ys zs. xs = ys @ x # zs \<and> P x \<and> (\<forall>y \<in> set ys. \<not> P y))"
proof
  assume f: "find P xs = Some x"
  then have "\<exists>x \<in> set xs. P x"
    using find_None_all [of P xs] by auto
  then obtain ys z zs where xs: "xs = ys @ z # zs" "P z" "\<forall>y \<in> set ys. \<not> P y"
    by (metis split_list_first_prop)
  then have "find P xs = Some z" by (simp add: find_append_Some)
  with f xs show "\<exists>ys zs. xs = ys @ x # zs \<and> P x \<and> (\<forall>y \<in> set ys. \<not> P y)" by auto
qed (auto simp: find_append_Some)

lemma find_SomeD: "find P xs = Some x \<Longrightarrow> x \<in> set xs \<and> P x"
  by (auto simp: find_Some_split)

lemma filter_filter_eq: "filter P (filter Q xs) = filter (\<lambda>x. P x \<and> Q x) xs"
  by (simp add: conj_commute)

text \<open>Updating the rows of a table that satisfy a condition, in place.\<close>

definition update_where :: "('a \<Rightarrow> bool) \<Rightarrow> ('a \<Rightarrow> 'a) \<Rightarrow> 'a list \<Rightarrow> 'a list" where
  "update_where P f xs = map (\<lambda>x. if P x then f x else x) xs"

lemma update_where_simps [simp]:
  "update_where P f [] = []"
  "update_where P f (x # xs) = (if P x then f x else x) # update_where P f xs"
  by (simp_all add: update_where_def)

lemma length_update_where [simp]: "length (update_where P f xs) = length xs"
  by (simp add: update_where_def)

lemma set_update_where:
  "set (update_where P f xs) = f ` {x \<in> set xs. P x} \<union> {x \<in> set xs. \<not> P x}"
  by (auto simp: update_where_def)

lemma in_set_update_whereE:
  assumes "y \<in> set (update_where P f xs)"
  obtains x where "x \<in> set xs" "P x" "y = f x" | "y \<in> set xs" "\<not> P y"
  using assms by (auto simp: set_update_where)

lemma map_update_where: "(\<And>x. P x \<Longrightarrow> g (f x) = g x) \<Longrightarrow> map g (update_where P f xs) = map g xs"
  by (simp add: update_where_def)

lemma map_eq_set: "map f xs = map f ys \<Longrightarrow> f ` set xs = f ` set ys"
  by (metis set_map)

end
