(* ===== verification/Go_Strings.thy ===== *)
theory Go_Strings
  imports Prelude
begin

text \<open>
  The parts of Go's standard library for text that the gateway calls: \<^verbatim>\<open>strings\<close> (prefixes, cutting
  and splitting at a separator, trimming white space), \<^verbatim>\<open>strconv\<close> (decimal integers) and the header
  map of \<^verbatim>\<open>net/http\<close> with its canonical keys. The lemmas are the round trips the verifiers and the
  session cookies rest on.
\<close>

subsection \<open>Prefixes\<close>

definition HasPrefix :: "string \<Rightarrow> string \<Rightarrow> bool" where
  "HasPrefix s p = (take (length p) s = p)"

definition TrimPrefix :: "string \<Rightarrow> string \<Rightarrow> string" where
  "TrimPrefix s p = (if HasPrefix s p then drop (length p) s else s)"

lemma HasPrefix_append [simp]: "HasPrefix (p @ s) p"
  by (simp add: HasPrefix_def)

lemma HasPrefix_iff: "HasPrefix s p \<longleftrightarrow> (\<exists>r. s = p @ r)"
  by (metis HasPrefix_append HasPrefix_def append_take_drop_id)

lemma TrimPrefix_append [simp]: "TrimPrefix (p @ s) p = s"
  by (simp add: TrimPrefix_def)

lemma TrimPrefix_Nil [simp]: "TrimPrefix s [] = s"
  by (simp add: TrimPrefix_def HasPrefix_def)

subsection \<open>Cutting and splitting at a one-byte separator\<close>

primrec Cut :: "char \<Rightarrow> string \<Rightarrow> (string \<times> string) option" where
  "Cut c [] = None"
| "Cut c (x # xs) = (if x = c then Some ([], xs)
                     else map_option (\<lambda>(a, b). (x # a, b)) (Cut c xs))"

lemma Cut_append [simp]: "c \<notin> set a \<Longrightarrow> Cut c (a @ c # b) = Some (a, b)"
  by (induction a) auto

lemma Cut_None_iff: "Cut c s = None \<longleftrightarrow> c \<notin> set s"
  by (induction s) auto

lemma Cut_SomeD: "Cut c s = Some (a, b) \<Longrightarrow> s = a @ c # b \<and> c \<notin> set a"
  by (induction s arbitrary: a) (auto split: if_splits)

text \<open>\<^verbatim>\<open>i := strings.LastIndex(s, c)\<close> with the slices \<^verbatim>\<open>s[:i]\<close> and \<^verbatim>\<open>s[i+1:]\<close>.\<close>

definition CutLast :: "char \<Rightarrow> string \<Rightarrow> (string \<times> string) option" where
  "CutLast c s = (case Cut c (rev s) of None \<Rightarrow> None | Some (a, b) \<Rightarrow> Some (rev b, rev a))"

lemma CutLast_append [simp]:
  assumes "c \<notin> set b"
  shows "CutLast c (a @ c # b) = Some (a, b)"
proof -
  have "Cut c (rev b @ c # rev a) = Some (rev b, rev a)" using assms by simp
  then show ?thesis by (simp add: CutLast_def)
qed

lemma CutLast_SomeD: "CutLast c s = Some (a, b) \<Longrightarrow> s = a @ c # b \<and> c \<notin> set b"
  by (auto simp: CutLast_def rev_swap dest!: Cut_SomeD split: option.splits)

text \<open>\<^verbatim>\<open>strings.Split\<close> and \<^verbatim>\<open>strings.SplitSeq\<close>: always at least one part.\<close>

primrec Split :: "char \<Rightarrow> string \<Rightarrow> string list" where
  "Split c [] = [[]]"
| "Split c (x # xs) = (if x = c then [] # Split c xs
                       else (case Split c xs of [] \<Rightarrow> [[x]] | y # ys \<Rightarrow> (x # y) # ys))"

lemma Split_ne [simp]: "Split c s \<noteq> []"
  by (induction s) (auto split: list.splits)

lemma Split_none [simp]: "c \<notin> set s \<Longrightarrow> Split c s = [s]"
  by (induction s) auto

lemma Split_append [simp]: "c \<notin> set a \<Longrightarrow> Split c (a @ c # b) = a # Split c b"
  by (induction a) auto

subsection \<open>Trimming white space\<close>

text \<open>
  \<^verbatim>\<open>strings.TrimSpace\<close> removes Unicode white space. The strings are bytes, so the multi-byte code
  points (U+0085, U+00A0, U+1680, U+2000 to U+200A, U+2028, U+2029, U+202F, U+205F, U+3000) are
  written out as their UTF-8 sequences, read forwards at the front and backwards at the end.
\<close>

definition ascii_space :: "char \<Rightarrow> bool" where
  "ascii_space c = (let n = (of_char c :: nat) in (9 \<le> n \<and> n \<le> 13) \<or> n = 32)"

definition wide_space2 :: "char \<Rightarrow> char \<Rightarrow> bool" where
  "wide_space2 a b = ((of_char a :: nat) = 0xC2 \<and> (of_char b :: nat) \<in> {0x85, 0xA0})"

definition wide_space3 :: "char \<Rightarrow> char \<Rightarrow> char \<Rightarrow> bool" where
  "wide_space3 a b c =
     (let x = (of_char a :: nat); y = (of_char b :: nat); z = (of_char c :: nat) in
        (x = 0xE1 \<and> y = 0x9A \<and> z = 0x80) \<or>
        (x = 0xE2 \<and> y = 0x80 \<and> (0x80 \<le> z \<and> z \<le> 0x8A \<or> z \<in> {0xA8, 0xA9, 0xAF})) \<or>
        (x = 0xE2 \<and> y = 0x81 \<and> z = 0x9F) \<or>
        (x = 0xE3 \<and> y = 0x80 \<and> z = 0x80))"

fun trim_left :: "string \<Rightarrow> string" where
  "trim_left (a # b # c # s) =
     (if ascii_space a then trim_left (b # c # s)
      else if wide_space2 a b then trim_left (c # s)
      else if wide_space3 a b c then trim_left s
      else a # b # c # s)"
| "trim_left [a, b] =
     (if ascii_space a then trim_left [b] else if wide_space2 a b then [] else [a, b])"
| "trim_left [a] = (if ascii_space a then [] else [a])"
| "trim_left [] = []"

fun trim_right_rev :: "string \<Rightarrow> string" where
  "trim_right_rev (a # b # c # s) =
     (if ascii_space a then trim_right_rev (b # c # s)
      else if wide_space2 b a then trim_right_rev (c # s)
      else if wide_space3 c b a then trim_right_rev s
      else a # b # c # s)"
| "trim_right_rev [a, b] =
     (if ascii_space a then trim_right_rev [b] else if wide_space2 b a then [] else [a, b])"
| "trim_right_rev [a] = (if ascii_space a then [] else [a])"
| "trim_right_rev [] = []"

definition TrimSpace :: "string \<Rightarrow> string" where
  "TrimSpace s = rev (trim_right_rev (rev (trim_left s)))"

text \<open>A printable ASCII character other than the blank: nothing that trimming touches.\<close>

definition graphic :: "char \<Rightarrow> bool" where
  "graphic c = (33 \<le> (of_char c :: nat) \<and> (of_char c :: nat) \<le> 126)"

lemma graphic_not_space:
  assumes "graphic c"
  shows "\<not> ascii_space c" "\<not> wide_space2 c b" "\<not> wide_space2 b c"
    "\<not> wide_space3 c b d" "\<not> wide_space3 b d c"
  using assms by (auto simp: graphic_def ascii_space_def wide_space2_def wide_space3_def Let_def)

lemma trim_left_graphic: "list_all graphic s \<Longrightarrow> trim_left s = s"
  by (cases s rule: trim_left.cases) (auto simp: graphic_not_space)

lemma trim_right_rev_graphic: "list_all graphic s \<Longrightarrow> trim_right_rev s = s"
  by (cases s rule: trim_right_rev.cases) (auto simp: graphic_not_space)

lemma TrimSpace_graphic: "list_all graphic s \<Longrightarrow> TrimSpace s = s"
  by (simp add: TrimSpace_def trim_left_graphic trim_right_rev_graphic)

text \<open>\<^verbatim>\<open>strings.TrimSuffix\<close>\<close>

definition HasSuffix :: "string \<Rightarrow> string \<Rightarrow> bool" where
  "HasSuffix s p = HasPrefix (rev s) (rev p)"

definition TrimSuffix :: "string \<Rightarrow> string \<Rightarrow> string" where
  "TrimSuffix s p = rev (TrimPrefix (rev s) (rev p))"

lemma TrimSuffix_append [simp]: "TrimSuffix (s @ p) p = s"
  by (simp add: TrimSuffix_def)

subsection \<open>Decimal integers\<close>

definition digit_char :: "nat \<Rightarrow> char" where
  "digit_char n = char_of (48 + n)"

definition digit_val :: "char \<Rightarrow> nat option" where
  "digit_val c = (let n = of_char c in if 48 \<le> n \<and> n \<le> 57 then Some (n - 48) else None)"

lemma digit_val_char [simp]: "n < 10 \<Longrightarrow> digit_val (digit_char n) = Some n"
  by (simp add: digit_val_def digit_char_def)

fun show_nat :: "nat \<Rightarrow> string" where
  "show_nat n = (if n < 10 then [digit_char n] else show_nat (n div 10) @ [digit_char (n mod 10)])"

declare show_nat.simps [simp del]

text \<open>\<^verbatim>\<open>strconv.FormatInt(i, 10)\<close>, which is also the \<^verbatim>\<open>%d\<close> of fmt.\<close>

definition FormatInt :: "int \<Rightarrow> string" where
  "FormatInt i = (if i < 0 then CHR ''-'' # show_nat (nat (- i)) else show_nat (nat i))"

primrec parse_digits :: "nat \<Rightarrow> string \<Rightarrow> nat option" where
  "parse_digits acc [] = Some acc"
| "parse_digits acc (c # cs) =
     (case digit_val c of None \<Rightarrow> None | Some d \<Rightarrow> parse_digits (10 * acc + d) cs)"

text \<open>
  \<^verbatim>\<open>strconv.ParseInt(s, 10, 64)\<close> (and \<^verbatim>\<open>strconv.Atoi\<close>, an int being 64 bits): an optional sign, at
  least one digit, nothing else, and a value an int64 can hold; \<open>None\<close> is the error.
\<close>

definition ParseInt64 :: "string \<Rightarrow> int option" where
  "ParseInt64 s =
     (let (neg, ds) = (case s of [] \<Rightarrow> (False, [])
                       | c # cs \<Rightarrow> if c = CHR ''-'' then (True, cs)
                                   else if c = CHR ''+'' then (False, cs) else (False, s))
      in if ds = [] then None
         else (case parse_digits 0 ds of None \<Rightarrow> None
               | Some n \<Rightarrow> let i = (if neg then - int n else int n)
                           in if - (2 ^ 63) \<le> i \<and> i < 2 ^ 63 then Some i else None))"

lemma parse_digits_append:
  "parse_digits acc (xs @ ys) = Option.bind (parse_digits acc xs) (\<lambda>a. parse_digits a ys)"
  by (induction xs arbitrary: acc) (auto split: option.splits)

lemma parse_show_nat: "parse_digits 0 (show_nat n) = Some n"
proof (induction n rule: show_nat.induct)
  case (1 n)
  show ?case
  proof (cases "n < 10")
    case True
    then show ?thesis by (simp add: show_nat.simps [of n])
  next
    case False
    then have "parse_digits 0 (show_nat (n div 10)) = Some (n div 10)" by (rule "1.IH")
    with False show ?thesis by (simp add: show_nat.simps [of n] parse_digits_append)
  qed
qed

definition is_digit :: "char \<Rightarrow> bool" where
  "is_digit c = (48 \<le> (of_char c :: nat) \<and> (of_char c :: nat) \<le> 57)"

lemma is_digit_char: "n < 10 \<Longrightarrow> is_digit (digit_char n)"
  by (simp add: is_digit_def digit_char_def)

lemma show_nat_digits: "list_all is_digit (show_nat n)"
proof (induction n rule: show_nat.induct)
  case (1 n)
  show ?case
  proof (cases "n < 10")
    case True
    then show ?thesis by (simp add: show_nat.simps [of n] is_digit_char)
  next
    case False
    with "1.IH" show ?thesis by (simp add: show_nat.simps [of n] is_digit_char)
  qed
qed

lemma show_nat_ne [simp]: "show_nat n \<noteq> []"
  by (subst show_nat.simps) simp

lemma is_digit_graphic: "is_digit c \<Longrightarrow> graphic c"
  by (simp add: is_digit_def graphic_def)

lemma digit_not_sign: "is_digit c \<Longrightarrow> c \<noteq> CHR ''-'' \<and> c \<noteq> CHR ''+'' \<and> c \<noteq> CHR '','' \<and> c \<noteq> CHR ''.'' \<and> c \<noteq> CHR ''=''"
  by (auto simp: is_digit_def)

lemma FormatInt_chars: "list_all (\<lambda>c. is_digit c \<or> c = CHR ''-'') (FormatInt i)"
proof -
  have "list_all (\<lambda>c. is_digit c \<or> c = CHR ''-'') (show_nat n)" for n
    using show_nat_digits [of n] by (auto simp: list_all_iff)
  then show ?thesis by (simp add: FormatInt_def)
qed

lemma FormatInt_ne [simp]: "FormatInt i \<noteq> []"
  by (simp add: FormatInt_def)

lemma FormatInt_graphic: "list_all graphic (FormatInt i)"
  using FormatInt_chars [of i] by (auto simp: list_all_iff is_digit_graphic graphic_def is_digit_def)

lemma FormatInt_no_sep:
  "CHR '','' \<notin> set (FormatInt i)" "CHR ''.'' \<notin> set (FormatInt i)" "CHR ''='' \<notin> set (FormatInt i)"
  using FormatInt_chars [of i] by (auto simp: list_all_iff dest: digit_not_sign)

text \<open>Parsing what was printed gives the number back, for every int64.\<close>

lemma ParseInt_FormatInt:
  assumes "- (2 ^ 63) \<le> i" "i < 2 ^ 63"
  shows "ParseInt64 (FormatInt i) = Some i"
proof (cases "i < 0")
  case True
  then show ?thesis using assms by (simp add: FormatInt_def ParseInt64_def parse_show_nat)
next
  case False
  obtain c cs where s: "show_nat (nat i) = c # cs"
    by (cases "show_nat (nat i)") auto
  then have "is_digit c" using show_nat_digits [of "nat i"] by simp
  then have sign: "c \<noteq> CHR ''-''" "c \<noteq> CHR ''+''" by (auto dest: digit_not_sign)
  from s have p: "parse_digits 0 (c # cs) = Some (nat i)" by (metis parse_show_nat)
  from False s sign assms show ?thesis
    by (simp add: FormatInt_def ParseInt64_def p del: parse_digits.simps)
qed

text \<open>\<^verbatim>\<open>strconv.ParseBool\<close>\<close>

definition ParseBool :: "string \<Rightarrow> bool option" where
  "ParseBool s =
     (if s \<in> {''1'', ''t'', ''T'', ''TRUE'', ''true'', ''True''} then Some True
      else if s \<in> {''0'', ''f'', ''F'', ''FALSE'', ''false'', ''False''} then Some False
      else None)"

subsection \<open>HTTP headers\<close>

definition upper_char :: "char \<Rightarrow> char" where
  "upper_char c = (let n = (of_char c :: nat) in if 97 \<le> n \<and> n \<le> 122 then char_of (n - 32) else c)"

definition lower_char :: "char \<Rightarrow> char" where
  "lower_char c = (let n = (of_char c :: nat) in if 65 \<le> n \<and> n \<le> 90 then char_of (n + 32) else c)"

text \<open>The bytes of a header field name: the token characters of RFC 7230.\<close>

definition header_field_byte :: "char \<Rightarrow> bool" where
  "header_field_byte c =
     (let n = (of_char c :: nat) in
        48 \<le> n \<and> n \<le> 57 \<or> 65 \<le> n \<and> n \<le> 90 \<or> 97 \<le> n \<and> n \<le> 122 \<or>
        c \<in> set ''!#$%&*+-.^_`|~'' \<or> n = 39)"

primrec canonical_from :: "bool \<Rightarrow> string \<Rightarrow> string" where
  "canonical_from up [] = []"
| "canonical_from up (c # cs) =
     (if up then upper_char c else lower_char c) # canonical_from (c = CHR ''-'') cs"

text \<open>
  \<^verbatim>\<open>http.CanonicalHeaderKey\<close>: upper case after every hyphen and at the start, lower case elsewhere;
  a key with a byte that is no token character is left alone.
\<close>

definition CanonicalHeaderKey :: "string \<Rightarrow> string" where
  "CanonicalHeaderKey k = (if list_all header_field_byte k then canonical_from True k else k)"

text \<open>
  \<^verbatim>\<open>http.Header\<close> is a map from canonical keys to the list of values: an association list here, read
  through \<open>map_of\<close>, whose order stands for the unspecified order of a Go map.
\<close>

type_synonym header = "(string \<times> string list) list"

definition header_Get :: "header \<Rightarrow> string \<Rightarrow> string" where
  "header_Get h k = (case map_of h (CanonicalHeaderKey k) of Some (v # vs) \<Rightarrow> v | _ \<Rightarrow> [])"

definition header_Set :: "header \<Rightarrow> string \<Rightarrow> string \<Rightarrow> header" where
  "header_Set h k v =
     (CanonicalHeaderKey k, [v]) # filter (\<lambda>kv. fst kv \<noteq> CanonicalHeaderKey k) h"

lemma map_of_filter_other: "k \<noteq> k' \<Longrightarrow> map_of (filter (\<lambda>kv. fst kv \<noteq> k') h) k = map_of h k"
  by (induction h) auto

lemma header_Get_Set [simp]: "header_Get (header_Set h k v) k = v"
  by (simp add: header_Get_def header_Set_def)

lemma header_Get_Set_other:
  "CanonicalHeaderKey k' \<noteq> CanonicalHeaderKey k \<Longrightarrow>
     header_Get (header_Set h k v) k' = header_Get h k'"
  by (simp add: header_Get_def header_Set_def map_of_filter_other)

text \<open>The values under a canonical key, and \<^verbatim>\<open>Header.Add\<close>.\<close>

definition header_Values :: "header \<Rightarrow> string \<Rightarrow> string list" where
  "header_Values h k = (case map_of h k of None \<Rightarrow> [] | Some vs \<Rightarrow> vs)"

definition header_Add :: "header \<Rightarrow> string \<Rightarrow> string \<Rightarrow> header" where
  "header_Add h k v = (let K = CanonicalHeaderKey k in
     if K \<in> fst ` set h then map (\<lambda>(n, vs). (n, if n = K then vs @ [v] else vs)) h else (K, [v]) # h)"

lemma header_Values_simps [simp]:
  "header_Values [] k = []" "header_Values ((n, vs) # h) k = (if n = k then vs else header_Values h k)"
  by (simp_all add: header_Values_def)

lemma header_Values_Add [simp]:
  "header_Values (header_Add h name v) k = header_Values h k @ (if k = CanonicalHeaderKey name then [v] else [])"
proof (cases "CanonicalHeaderKey name \<in> fst ` set h")
  case True
  have "header_Values (map (\<lambda>(n, vs). (n, if n = K then vs @ [v] else vs)) h) k =
      header_Values h k @ (if k = K \<and> K \<in> fst ` set h then [v] else [])" for K
  proof (induction h)
    case (Cons a h)
    obtain n vs where "a = (n, vs)" by fastforce
    with Cons show ?case by (cases "n = k"; cases "k = K") simp_all
  qed simp
  with True show ?thesis by (simp add: header_Add_def)
next
  case False
  then have "header_Values h (CanonicalHeaderKey name) = []" by (induction h) auto
  with False show ?thesis by (auto simp: header_Add_def Let_def)
qed

lemma header_Values_Set [simp]:
  "header_Values (header_Set h name v) k = (if k = CanonicalHeaderKey name then [v] else header_Values h k)"
proof -
  have "k \<noteq> K \<Longrightarrow> header_Values (filter (\<lambda>kv. fst kv \<noteq> K) h) k = header_Values h k" for K
    by (induction h) auto
  then show ?thesis by (simp add: header_Set_def)
qed

end
