(* ===== verification/Codecs.thy ===== *)
theory Codecs
  imports Go_Strings
begin

text \<open>
  Byte encodings: \<^verbatim>\<open>encoding/hex\<close>, the standard and the unpadded URL alphabet of \<^verbatim>\<open>encoding/base64\<close>,
  and the canonical text of a UUID that every package of the gateway prints with its own copy of
  \<^verbatim>\<open>uuidString\<close>. The lemmas are the round trips and the shape of the output.
\<close>

subsection \<open>Hexadecimal\<close>

definition hex_char :: "nat \<Rightarrow> char" where
  "hex_char n = char_of (if n < 10 then 48 + n else 87 + n)"

definition hex_val :: "char \<Rightarrow> nat option" where
  "hex_val c = (let n = of_char c in
     if 48 \<le> n \<and> n \<le> 57 then Some (n - 48)
     else if 97 \<le> n \<and> n \<le> 102 then Some (n - 87)
     else if 65 \<le> n \<and> n \<le> 70 then Some (n - 55)
     else None)"

definition hex_byte :: "char \<Rightarrow> string" where
  "hex_byte b = [hex_char (of_char b div 16), hex_char (of_char b mod 16)]"

text \<open>\<^verbatim>\<open>hex.EncodeToString\<close>\<close>

definition hex_Encode :: "bytes \<Rightarrow> string" where
  "hex_Encode bs = concat (map hex_byte bs)"

text \<open>\<^verbatim>\<open>hex.DecodeString\<close>: both cases accepted, an odd length or another byte is an error.\<close>

fun hex_Decode :: "string \<Rightarrow> bytes option" where
  "hex_Decode [] = Some []"
| "hex_Decode [c] = None"
| "hex_Decode (a # b # s) =
     (case (hex_val a, hex_val b) of
        (Some x, Some y) \<Rightarrow> map_option ((#) (char_of (16 * x + y))) (hex_Decode s)
      | _ \<Rightarrow> None)"

lemma hex_val_char [simp]: "n < 16 \<Longrightarrow> hex_val (hex_char n) = Some n"
  by (simp add: hex_val_def hex_char_def)

lemma of_char_div16 [simp]: "of_char (c :: char) div (16 :: nat) < 16"
  using nat_of_char_less_256 [of c] by (simp add: less_mult_imp_div_less)

lemma hex_Decode_Encode: "hex_Decode (hex_Encode bs) = Some bs"
proof (induction bs)
  case (Cons b bs)
  have "16 * (of_char b div 16) + of_char b mod 16 = (of_char b :: nat)" by simp
  with Cons show ?case by (simp add: hex_Encode_def hex_byte_def)
qed (simp add: hex_Encode_def)

definition is_hex :: "char \<Rightarrow> bool" where
  "is_hex c = (let n = (of_char c :: nat) in 48 \<le> n \<and> n \<le> 57 \<or> 97 \<le> n \<and> n \<le> 102)"

lemma is_hex_char: "n < 16 \<Longrightarrow> is_hex (hex_char n)"
  by (simp add: is_hex_def hex_char_def)

lemma hex_byte_hex: "list_all is_hex (hex_byte b)"
  by (simp add: hex_byte_def is_hex_char)

lemma hex_Encode_hex: "list_all is_hex (hex_Encode bs)"
  by (induction bs) (auto simp: hex_Encode_def hex_byte_hex)

lemma length_hex_Encode [simp]: "length (hex_Encode bs) = 2 * length bs"
  by (induction bs) (auto simp: hex_Encode_def hex_byte_def)

subsection \<open>Base64\<close>

definition b64_std_char :: "nat \<Rightarrow> char" where
  "b64_std_char n = (if n < 26 then char_of (65 + n) else if n < 52 then char_of (71 + n)
     else if n < 62 then char_of (n - 4) else if n = 62 then CHR ''+'' else CHR ''/'')"

definition b64_url_char :: "nat \<Rightarrow> char" where
  "b64_url_char n = (if n < 26 then char_of (65 + n) else if n < 52 then char_of (71 + n)
     else if n < 62 then char_of (n - 4) else if n = 62 then CHR ''-'' else CHR ''_'')"

definition b64_std_val :: "char \<Rightarrow> nat option" where
  "b64_std_val c = (let n = of_char c in
     if 65 \<le> n \<and> n \<le> 90 then Some (n - 65)
     else if 97 \<le> n \<and> n \<le> 122 then Some (n - 71)
     else if 48 \<le> n \<and> n \<le> 57 then Some (n + 4)
     else if n = 43 then Some 62 else if n = 47 then Some 63 else None)"

lemma of_char_b64_std:
  "n < 64 \<Longrightarrow> of_char (b64_std_char n) =
     (if n < 26 then 65 + n else if n < 52 then 71 + n else if n < 62 then n - 4
      else if n = 62 then 43 else 47 :: nat)"
  by (simp add: b64_std_char_def)

lemma of_char_b64_url:
  "n < 64 \<Longrightarrow> of_char (b64_url_char n) =
     (if n < 26 then 65 + n else if n < 52 then 71 + n else if n < 62 then n - 4
      else if n = 62 then 45 else 95 :: nat)"
  by (simp add: b64_url_char_def)

lemma b64_std_val_char [simp]: "n < 64 \<Longrightarrow> b64_std_val (b64_std_char n) = Some n"
  unfolding b64_std_val_def Let_def of_char_b64_std by (simp split: if_splits) arith?

lemma b64_std_char_graphic: "n < 64 \<Longrightarrow> graphic (b64_std_char n)"
  by (auto simp: graphic_def of_char_b64_std split: if_splits)

lemma char_neI: "(of_char c :: nat) \<noteq> of_char d \<Longrightarrow> c \<noteq> d"
  by auto

lemma b64_std_char_plain [simp]:
  assumes "n < 64"
  shows "b64_std_char n \<noteq> CHR ''=''" "b64_std_char n \<noteq> CHR 0x0A" "b64_std_char n \<noteq> CHR 0x0D"
    "b64_std_char n \<noteq> CHR '',''"
  using assms by (auto intro!: char_neI simp: of_char_b64_std split: if_splits)

lemma b64_url_char_plain: "n < 64 \<Longrightarrow> b64_url_char n \<noteq> CHR ''.''"
  by (auto intro!: char_neI simp: of_char_b64_url split: if_splits)

text \<open>Three bytes give four six-bit groups; \<open>pad\<close> is the padding character or nothing.\<close>

fun b64_encode :: "(nat \<Rightarrow> char) \<Rightarrow> string \<Rightarrow> bytes \<Rightarrow> string" where
  "b64_encode ch pad [] = []"
| "b64_encode ch pad [a] =
     (let x = of_char a in [ch (x div 4), ch (x mod 4 * 16)] @ pad @ pad)"
| "b64_encode ch pad [a, b] =
     (let x = of_char a; y = of_char b in
        [ch (x div 4), ch (x mod 4 * 16 + y div 16), ch (y mod 16 * 4)] @ pad)"
| "b64_encode ch pad (a # b # c # s) =
     (let x = of_char a; y = of_char b; z = of_char c in
        [ch (x div 4), ch (x mod 4 * 16 + y div 16), ch (y mod 16 * 4 + z div 64), ch (z mod 64)]
        @ b64_encode ch pad s)"

text \<open>\<^verbatim>\<open>base64.StdEncoding.EncodeToString\<close> and \<^verbatim>\<open>base64.RawURLEncoding.EncodeToString\<close>\<close>

definition b64_std_Encode :: "bytes \<Rightarrow> string" where
  "b64_std_Encode = b64_encode b64_std_char ''=''"

definition b64_url_Encode :: "bytes \<Rightarrow> string" where
  "b64_url_Encode = b64_encode b64_url_char []"

text \<open>
  \<^verbatim>\<open>base64.StdEncoding.DecodeString\<close>: carriage returns and newlines are skipped, padding may stand
  only at the end, and the unused bits before padding are not checked.
\<close>

fun b64_quads :: "string \<Rightarrow> bytes option" where
  "b64_quads [] = Some []"
| "b64_quads (a # b # c # d # s) =
     (case (b64_std_val a, b64_std_val b) of
        (Some w, Some x) \<Rightarrow>
          (if c = CHR ''='' then
             (if d = CHR ''='' \<and> s = [] then Some [char_of (w * 4 + x div 16)] else None)
           else (case b64_std_val c of None \<Rightarrow> None
             | Some y \<Rightarrow>
                 if d = CHR ''='' then
                   (if s = [] then Some [char_of (w * 4 + x div 16), char_of (x mod 16 * 16 + y div 4)]
                    else None)
                 else (case b64_std_val d of None \<Rightarrow> None
                   | Some z \<Rightarrow>
                       map_option
                         (\<lambda>r. char_of (w * 4 + x div 16) # char_of (x mod 16 * 16 + y div 4)
                              # char_of (y mod 4 * 64 + z) # r)
                         (b64_quads s))))
      | _ \<Rightarrow> None)"
| "b64_quads s = None"

definition b64_std_Decode :: "string \<Rightarrow> bytes option" where
  "b64_std_Decode s = b64_quads (filter (\<lambda>c. c \<noteq> CHR 0x0A \<and> c \<noteq> CHR 0x0D) s)"


lemma byte_groups [simp]:
  fixes c :: char
  shows "of_char c div (4 :: nat) < 64" "of_char c div (16 :: nat) < 16"
    "of_char c div (64 :: nat) < 4"
  using nat_of_char_less_256 [of c] by (simp_all add: less_mult_imp_div_less)

lemma six_bits [simp]:
  fixes x y :: nat
  shows "x mod 4 * 16 < 64" "x mod 16 * 4 < 64"
    "y < 16 \<Longrightarrow> x mod 4 * 16 + y < 64" "y < 4 \<Longrightarrow> x mod 16 * 4 + y < 64"
proof -
  have "x mod 4 \<le> 3" "x mod 16 \<le> 15" by (simp_all add: less_Suc_eq_le [symmetric])
  then show "x mod 4 * 16 < 64" "x mod 16 * 4 < 64"
    "y < 16 \<Longrightarrow> x mod 4 * 16 + y < 64" "y < 4 \<Longrightarrow> x mod 16 * 4 + y < 64" by linarith+
qed

lemma b64_quads_encode: "b64_quads (b64_encode b64_std_char ''='' bs) = Some bs"
proof (induction b64_std_char "''=''" bs rule: b64_encode.induct)
  case (2 a)
  then show ?case by (simp add: Let_def)
next
  case (3 a b)
  have "of_char b div (16 :: nat) div 16 = 0" "of_char b div (16 :: nat) mod 16 = of_char b div 16"
    by simp_all
  then show ?case by (simp add: Let_def)
next
  case (4 a b c s)
  have "of_char b div (16 :: nat) div 16 = 0" "of_char b div (16 :: nat) mod 16 = of_char b div 16"
    "of_char c div (64 :: nat) div 4 = 0" "of_char c div (64 :: nat) mod 4 = of_char c div 64"
    by simp_all
  with 4 show ?case by (simp add: Let_def)
qed simp

lemma b64_encode_all:
  "(\<And>n. n < 64 \<Longrightarrow> P (ch n)) \<Longrightarrow> list_all P pad \<Longrightarrow> list_all P (b64_encode ch pad bs)"
  by (induction ch pad bs rule: b64_encode.induct) (auto simp: Let_def)

lemma b64_std_Decode_Encode: "b64_std_Decode (b64_std_Encode bs) = Some bs"
proof -
  have "list_all (\<lambda>c. c \<noteq> CHR 0x0A \<and> c \<noteq> CHR 0x0D) (b64_std_Encode bs)"
    unfolding b64_std_Encode_def by (rule b64_encode_all) auto
  then have "filter (\<lambda>c. c \<noteq> CHR 0x0A \<and> c \<noteq> CHR 0x0D) (b64_std_Encode bs) = b64_std_Encode bs"
    by (simp add: list_all_iff)
  then show ?thesis by (simp add: b64_std_Decode_def b64_std_Encode_def b64_quads_encode)
qed

lemma b64_std_Encode_graphic: "list_all graphic (b64_std_Encode bs)"
  unfolding b64_std_Encode_def
  by (rule b64_encode_all) (erule b64_std_char_graphic, simp add: graphic_def)

lemma b64_std_Encode_no_comma: "CHR '','' \<notin> set (b64_std_Encode bs)"
proof -
  have "list_all (\<lambda>c. c \<noteq> CHR '','') (b64_std_Encode bs)"
    unfolding b64_std_Encode_def by (rule b64_encode_all) auto
  then show ?thesis by (auto simp: list_all_iff)
qed

lemma b64_url_Encode_no_dot: "CHR ''.'' \<notin> set (b64_url_Encode bs)"
proof -
  have "list_all (\<lambda>c. c \<noteq> CHR ''.'') (b64_url_Encode bs)"
    unfolding b64_url_Encode_def by (rule b64_encode_all) (auto dest: b64_url_char_plain)
  then show ?thesis by (auto simp: list_all_iff)
qed

lemma length_b64_url_Encode: "length (b64_url_Encode bs) = (length bs * 4 + 2) div 3"
  unfolding b64_url_Encode_def
  by (induction b64_url_char "[] :: string" bs rule: b64_encode.induct) (auto simp: Let_def)

lemma is_hex_graphic: "is_hex c \<Longrightarrow> graphic c"
  by (auto simp: is_hex_def graphic_def Let_def)

lemma hex_Encode_graphic: "list_all graphic (hex_Encode bs)"
  using hex_Encode_hex [of bs] by (auto simp: list_all_iff is_hex_graphic)

lemma hex_Encode_no_comma: "CHR '','' \<notin> set (hex_Encode bs)"
  using hex_Encode_hex [of bs] by (auto simp: list_all_iff is_hex_def)

subsection \<open>UUIDs\<close>

text \<open>The 16 bytes of a UUID, most significant first, and back.\<close>

definition uuid_bytes :: "uuid \<Rightarrow> bytes" where
  "uuid_bytes u = map (\<lambda>k. char_of (unat (drop_bit (8 * (15 - k)) u))) [0..<16]"

definition bytes_uuid :: "bytes \<Rightarrow> uuid" where
  "bytes_uuid bs = of_nat (foldl (\<lambda>n b. n * 256 + of_char b) 0 bs)"

text \<open>\<^verbatim>\<open>fmt.Sprintf("%x-%x-%x-%x-%x", b[0:4], b[4:6], b[6:8], b[8:10], b[10:16])\<close>\<close>

definition uuidString :: "uuid \<Rightarrow> string" where
  "uuidString u =
     (let b = uuid_bytes u in
        hex_Encode (take 4 b) @ ''-'' @ hex_Encode (take 2 (drop 4 b)) @ ''-'' @
        hex_Encode (take 2 (drop 6 b)) @ ''-'' @ hex_Encode (take 2 (drop 8 b)) @ ''-'' @
        hex_Encode (drop 10 b))"

lemma length_uuid_bytes [simp]: "length (uuid_bytes u) = 16"
  by (simp add: uuid_bytes_def)

lemma length_uuidString: "length (uuidString u) = 36"
  by (simp add: uuidString_def Let_def)

lemma foldl_digits:
  "foldl (\<lambda>n b. n * 256 + b) 0 (map (\<lambda>k. N div 256 ^ (m - 1 - k) mod 256) [0..<m]) = N mod (256 :: nat) ^ m"
proof (induction m arbitrary: N)
  case (Suc m)
  have "map (\<lambda>k. N div 256 ^ (Suc m - 1 - k) mod 256) [0..<m] =
        map (\<lambda>k. N div 256 div 256 ^ (m - 1 - k) mod 256) [0..<m]"
    by (auto simp: div_mult2_eq [symmetric] power_Suc [symmetric] Suc_diff_Suc simp del: power_Suc)
  then have "foldl (\<lambda>n b. n * 256 + b) 0 (map (\<lambda>k. N div 256 ^ (Suc m - 1 - k) mod 256) [0..<m]) =
      N div 256 mod 256 ^ m"
    using Suc.IH [of "N div 256"] by (simp only:)
  then show ?case by (simp add: mod_mult2_eq mult.commute)
qed simp

lemma bytes_uuid_inverse: "bytes_uuid (uuid_bytes u) = u"
proof -
  have p: "(2 :: nat) ^ (8 * (15 - k)) = 256 ^ (15 - k)" for k
    by (simp add: power_mult)
  have d: "unat (drop_bit (8 * (15 - k)) u) = unat u div 256 ^ (15 - k)" for k
    by (subst unat_drop_bit_eq) (simp only: drop_bit_eq_div p)
  have "foldl (\<lambda>n b. n * 256 + of_char b) 0 (uuid_bytes u) =
        foldl (\<lambda>n b. n * 256 + b) 0 (map (\<lambda>k. unat u div 256 ^ (16 - 1 - k) mod 256) [0..<16])"
    unfolding uuid_bytes_def foldl_map
    by (simp add: d)
  also have "\<dots> = unat u mod 256 ^ 16" by (rule foldl_digits)
  also have "\<dots> = unat u"
    using unsigned_less [of u, where ?'a = nat] by simp
  finally show ?thesis by (simp add: bytes_uuid_def)
qed

text \<open>Distinct ids print differently: a job's argument names exactly one delivery.\<close>

lemma hex_Encode_inj: "hex_Encode a = hex_Encode b \<longleftrightarrow> a = b"
  by (metis hex_Decode_Encode option.inject)

lemma split_uuid_bytes:
  "take 4 b @ take 2 (drop 4 b) @ take 2 (drop 6 b) @ take 2 (drop 8 b) @ drop 10 b = b"
  using append_take_drop_id [of 4 b] append_take_drop_id [of 2 "drop 4 b"]
    append_take_drop_id [of 2 "drop 6 b"] append_take_drop_id [of 2 "drop 8 b"]
  by simp

lemma uuidString_inj: "uuidString u = uuidString v \<longleftrightarrow> u = v"
proof
  assume eq: "uuidString u = uuidString v"
  define b c where "b = uuid_bytes u" and "c = uuid_bytes v"
  have len: "length b = 16" "length c = 16" by (simp_all add: b_def c_def)
  from eq have "take 4 b = take 4 c" "take 2 (drop 4 b) = take 2 (drop 4 c)"
    "take 2 (drop 6 b) = take 2 (drop 6 c)" "take 2 (drop 8 b) = take 2 (drop 8 c)"
    "drop 10 b = drop 10 c"
    by (simp_all add: uuidString_def Let_def b_def [symmetric] c_def [symmetric] len hex_Encode_inj)
  then have "b = c" by (metis split_uuid_bytes)
  then show "u = v" by (metis b_def c_def bytes_uuid_inverse)
qed simp

end
