(* ===== verification/Json.thy ===== *)
theory Json
  imports Codecs "HOL-Library.List_Lexorder" "HOL-Library.Char_ord"
begin

text \<open>
  Go's \<^verbatim>\<open>encoding/json\<close> as the gateway uses it: \<^verbatim>\<open>json.Valid\<close>, decoding a document to an untyped value
  (with \<^verbatim>\<open>UseNumber\<close>, so a number keeps its literal text) and marshalling an \<^verbatim>\<open>http.Header\<close>. As in the
  Go package, the scanner is an automaton that reads one byte at a time, and nesting is a stack of at
  most 10000 levels; both are folds over the input, so they end on every input. Invalid UTF-8 and
  unpaired surrogates become U+FFFD. The round trip at the end is that of the stored request headers.
\<close>

subsection \<open>Values and tokens\<close>

datatype json = JNull | JBool bool | JNumber string | JString string | JArray "json list"
  | JObject "(string \<times> json) list"

datatype token = TLBrace | TRBrace | TLBrack | TRBrack | TComma | TColon | TStr string
  | TAtom json

definition json_space :: "char \<Rightarrow> bool" where
  "json_space c = (c \<in> {CHR '' '', CHR 0x09, CHR 0x0A, CHR 0x0D})"

definition hex_digit :: "char \<Rightarrow> bool" where
  "hex_digit c = (hex_val c \<noteq> None)"

subsection \<open>The scanner\<close>

text \<open>
  Where the scanner is in a number: after the sign, after a leading zero, in the integer digits, after
  the point, in the fraction, after the e, after its sign, in the exponent.
\<close>

datatype num_state = NSign | NZero | NInt | NDot | NFrac | NExp | NExpSign | NExpDigits

datatype lex_state =
    LNone
  | LStr string
  | LEsc string
  | LHex nat string
  | LNum num_state string
  | LWord string json

definition num_step :: "num_state \<Rightarrow> char \<Rightarrow> num_state option" where
  "num_step st c =
     (let dig = is_digit c; e = (c = CHR ''e'' \<or> c = CHR ''E'') in
      case st of
        NSign \<Rightarrow> if c = CHR ''0'' then Some NZero else if dig then Some NInt else None
      | NZero \<Rightarrow> if c = CHR ''.'' then Some NDot else if e then Some NExp else None
      | NInt \<Rightarrow> if dig then Some NInt else if c = CHR ''.'' then Some NDot
                else if e then Some NExp else None
      | NDot \<Rightarrow> if dig then Some NFrac else None
      | NFrac \<Rightarrow> if dig then Some NFrac else if e then Some NExp else None
      | NExp \<Rightarrow> if c = CHR ''+'' \<or> c = CHR ''-'' then Some NExpSign
                else if dig then Some NExpDigits else None
      | NExpSign \<Rightarrow> if dig then Some NExpDigits else None
      | NExpDigits \<Rightarrow> if dig then Some NExpDigits else None)"

definition num_done :: "num_state \<Rightarrow> bool" where
  "num_done st = (st \<in> {NZero, NInt, NFrac, NExpDigits})"

text \<open>A byte outside every token: tokens so far are kept newest first, string bodies reversed.\<close>

definition lex_begin :: "token list \<Rightarrow> char \<Rightarrow> (token list \<times> lex_state) option" where
  "lex_begin ts c =
     (if json_space c then Some (ts, LNone)
      else if c = CHR ''{'' then Some (TLBrace # ts, LNone)
      else if c = CHR ''}'' then Some (TRBrace # ts, LNone)
      else if c = CHR ''['' then Some (TLBrack # ts, LNone)
      else if c = CHR '']'' then Some (TRBrack # ts, LNone)
      else if c = CHR '','' then Some (TComma # ts, LNone)
      else if c = CHR '':'' then Some (TColon # ts, LNone)
      else if c = CHR 0x22 then Some (ts, LStr [])
      else if c = CHR ''-'' then Some (ts, LNum NSign [c])
      else if c = CHR ''0'' then Some (ts, LNum NZero [c])
      else if is_digit c then Some (ts, LNum NInt [c])
      else if c = CHR ''t'' then Some (ts, LWord ''rue'' (JBool True))
      else if c = CHR ''f'' then Some (ts, LWord ''alse'' (JBool False))
      else if c = CHR ''n'' then Some (ts, LWord ''ull'' JNull)
      else None)"

definition lex_step :: "char \<Rightarrow> token list \<times> lex_state \<Rightarrow> (token list \<times> lex_state) option" where
  "lex_step c s =
     (case s of (ts, st) \<Rightarrow>
      case st of
        LNone \<Rightarrow> lex_begin ts c
      | LStr r \<Rightarrow>
          if c = CHR 0x22 then Some (TStr (rev r) # ts, LNone)
          else if c = CHR 0x5C then Some (ts, LEsc (c # r))
          else if (of_char c :: nat) < 32 then None
          else Some (ts, LStr (c # r))
      | LEsc r \<Rightarrow>
          if c = CHR ''u'' then Some (ts, LHex 4 (c # r))
          else if c \<in> {CHR 0x22, CHR 0x5C, CHR ''/'', CHR ''b'', CHR ''f'', CHR ''n'', CHR ''r'', CHR ''t''}
          then Some (ts, LStr (c # r))
          else None
      | LHex n r \<Rightarrow>
          if hex_digit c then Some (ts, if n \<le> 1 then LStr (c # r) else LHex (n - 1) (c # r))
          else None
      | LNum q r \<Rightarrow>
          (case num_step q c of
             Some q' \<Rightarrow> Some (ts, LNum q' (c # r))
           | None \<Rightarrow> if num_done q then lex_begin (TAtom (JNumber (rev r)) # ts) c else None)
      | LWord w v \<Rightarrow>
          (case w of [] \<Rightarrow> None
           | x # xs \<Rightarrow> if c \<noteq> x then None
                       else if xs = [] then Some (TAtom v # ts, LNone) else Some (ts, LWord xs v)))"

definition lex_end :: "token list \<times> lex_state \<Rightarrow> token list option" where
  "lex_end s =
     (case s of (ts, st) \<Rightarrow>
      case st of
        LNone \<Rightarrow> Some (rev ts)
      | LNum q r \<Rightarrow> if num_done q then Some (rev (TAtom (JNumber (rev r)) # ts)) else None
      | _ \<Rightarrow> None)"

primrec fold_opt :: "('a \<Rightarrow> 's \<Rightarrow> 's option) \<Rightarrow> 'a list \<Rightarrow> 's \<Rightarrow> 's option" where
  "fold_opt f [] s = Some s"
| "fold_opt f (x # xs) s = (case f x s of None \<Rightarrow> None | Some s' \<Rightarrow> fold_opt f xs s')"

lemma fold_opt_append: "fold_opt f (xs @ ys) s = Option.bind (fold_opt f xs s) (fold_opt f ys)"
  by (induction xs arbitrary: s) (auto split: option.splits)

definition json_tokens :: "bytes \<Rightarrow> token list option" where
  "json_tokens s = Option.bind (fold_opt lex_step s ([], LNone)) lex_end"

subsection \<open>Strings\<close>

text \<open>The length of the UTF-8 sequence a string starts with; 0 when it is not valid (RFC 3629).\<close>

definition cont :: "char \<Rightarrow> nat \<Rightarrow> nat \<Rightarrow> bool" where
  "cont c lo hi = (lo \<le> (of_char c :: nat) \<and> of_char c \<le> hi)"

definition utf8_len :: "string \<Rightarrow> nat" where
  "utf8_len s =
     (case s of [] \<Rightarrow> 0
      | a # s1 \<Rightarrow> if cont a 0 0x7F then 1 else
          (case s1 of [] \<Rightarrow> 0
           | b # s2 \<Rightarrow> if cont a 0xC2 0xDF then (if cont b 0x80 0xBF then 2 else 0) else
               (case s2 of [] \<Rightarrow> 0
                | c # s3 \<Rightarrow>
                    if cont a 0xE0 0xEF then
                      (if cont b (if a = CHR 0xE0 then 0xA0 else 0x80) (if a = CHR 0xED then 0x9F else 0xBF)
                          \<and> cont c 0x80 0xBF then 3 else 0)
                    else (case s3 of [] \<Rightarrow> 0
                     | d # s4 \<Rightarrow>
                         if cont a 0xF0 0xF4 \<and>
                            cont b (if a = CHR 0xF0 then 0x90 else 0x80) (if a = CHR 0xF4 then 0x8F else 0xBF)
                            \<and> cont c 0x80 0xBF \<and> cont d 0x80 0xBF then 4 else 0))))"

definition utf8_encode :: "nat \<Rightarrow> string" where
  "utf8_encode r =
     map char_of (if r < 0x80 then [r]
       else if r < 0x800 then [0xC0 + r div 64, 0x80 + r mod 64]
       else if r < 0x10000 then [0xE0 + r div 4096, 0x80 + r div 64 mod 64, 0x80 + r mod 64]
       else [0xF0 + r div 262144, 0x80 + r div 4096 mod 64, 0x80 + r div 64 mod 64, 0x80 + r mod 64])"

definition replacement :: string where
  "replacement = [CHR 0xEF, CHR 0xBF, CHR 0xBD]"

text \<open>\<^verbatim>\<open>getu4\<close>: the code unit of a \<^verbatim>\<open>\uXXXX\<close> escape at the front.\<close>

definition getu4 :: "string \<Rightarrow> nat option" where
  "getu4 s =
     (case s of (x # y # a # b # c # d # _) \<Rightarrow>
        (if x = CHR 0x5C \<and> y = CHR ''u'' then
           (case (hex_val a, hex_val b, hex_val c, hex_val d) of
              (Some a, Some b, Some c, Some d) \<Rightarrow> Some (((a * 16 + b) * 16 + c) * 16 + d)
            | _ \<Rightarrow> None)
         else None)
      | _ \<Rightarrow> None)"

definition unescape_char :: "char \<Rightarrow> char" where
  "unescape_char c =
     (if c = CHR ''b'' then CHR 0x08 else if c = CHR ''f'' then CHR 0x0C
      else if c = CHR ''n'' then CHR 0x0A else if c = CHR ''r'' then CHR 0x0D
      else if c = CHR ''t'' then CHR 0x09 else c)"

text \<open>Copying one code point, or replacing one byte that starts none.\<close>

definition copy_step :: "string \<Rightarrow> string \<times> nat" where
  "copy_step s = (if utf8_len s = 0 then (replacement, 1) else (take (utf8_len s) s, utf8_len s))"

text \<open>One step of \<^verbatim>\<open>unquote\<close>: the bytes it writes and how many it reads.\<close>

definition unquote_step :: "string \<Rightarrow> string \<times> nat" where
  "unquote_step s =
     (case getu4 s of
        Some r \<Rightarrow>
          if 0xD800 \<le> r \<and> r < 0xE000 then
            (case getu4 (drop 6 s) of
               Some r1 \<Rightarrow>
                 if r < 0xDC00 \<and> 0xDC00 \<le> r1 \<and> r1 < 0xE000
                 then (utf8_encode (0x10000 + (r - 0xD800) * 0x400 + (r1 - 0xDC00)), 12)
                 else (replacement, 6)
             | None \<Rightarrow> (replacement, 6))
          else (utf8_encode r, 6)
      | None \<Rightarrow>
          (case s of
             (x # c # _) \<Rightarrow>
               if x = CHR 0x5C then ([unescape_char c], 2)
               else copy_step s
           | _ \<Rightarrow> copy_step s))"

lemma unquote_step_pos: "s \<noteq> [] \<Longrightarrow> 0 < snd (unquote_step s)"
  by (auto simp: unquote_step_def copy_step_def split: option.splits list.splits)

function unquote :: "string \<Rightarrow> string" where
  "unquote s = (if s = [] then [] else fst (unquote_step s) @ unquote (drop (snd (unquote_step s)) s))"
  by auto

termination unquote
  by (relation "measure length") (auto simp: unquote_step_pos)

declare unquote.simps [simp del]

subsection \<open>The parser\<close>

text \<open>An open array or object: its elements so far newest first, and for an object the pending key.\<close>

datatype frame = FArr "json list" | FObj "(string \<times> json) list" "string option"

text \<open>What the scanner expects next.\<close>

datatype expect =
    EValue
  | EValueOrEnd
  | EKey
  | EKeyOrEnd
  | EColon
  | ECommaOrEnd
  | EDone json

type_synonym parse_state = "frame list \<times> expect"

text \<open>A member that repeats a key replaces the earlier one, as storing into a Go map does.\<close>

definition put_member :: "string \<Rightarrow> json \<Rightarrow> (string \<times> json) list \<Rightarrow> (string \<times> json) list" where
  "put_member k v ms = (k, v) # filter (\<lambda>m. fst m \<noteq> k) ms"

definition parse_value :: "json \<Rightarrow> frame list \<Rightarrow> parse_state option" where
  "parse_value v fs =
     (case fs of
        [] \<Rightarrow> Some ([], EDone v)
      | FArr vs # fs' \<Rightarrow> Some (FArr (v # vs) # fs', ECommaOrEnd)
      | FObj ms (Some k) # fs' \<Rightarrow> Some (FObj (put_member k v ms) None # fs', ECommaOrEnd)
      | FObj ms None # fs' \<Rightarrow> None)"

definition max_depth :: nat where "max_depth = 10000"

definition parse_open :: "frame \<Rightarrow> expect \<Rightarrow> frame list \<Rightarrow> parse_state option" where
  "parse_open f e fs = (if length fs < max_depth then Some (f # fs, e) else None)"

definition parse_step :: "token \<Rightarrow> parse_state \<Rightarrow> parse_state option" where
  "parse_step t s =
     (case s of (fs, e) \<Rightarrow>
      case t of
        TAtom v \<Rightarrow> if e = EValue \<or> e = EValueOrEnd then parse_value v fs else None
      | TStr raw \<Rightarrow>
          if e = EValue \<or> e = EValueOrEnd then parse_value (JString (unquote raw)) fs
          else if e = EKey \<or> e = EKeyOrEnd then
            (case fs of FObj ms None # fs' \<Rightarrow> Some (FObj ms (Some (unquote raw)) # fs', EColon) | _ \<Rightarrow> None)
          else None
      | TLBrack \<Rightarrow> if e = EValue \<or> e = EValueOrEnd then parse_open (FArr []) EValueOrEnd fs else None
      | TLBrace \<Rightarrow> if e = EValue \<or> e = EValueOrEnd then parse_open (FObj [] None) EKeyOrEnd fs else None
      | TRBrack \<Rightarrow>
          if e = EValueOrEnd \<or> e = ECommaOrEnd then
            (case fs of FArr vs # fs' \<Rightarrow> parse_value (JArray (rev vs)) fs' | _ \<Rightarrow> None)
          else None
      | TRBrace \<Rightarrow>
          if e = EKeyOrEnd \<or> e = ECommaOrEnd then
            (case fs of FObj ms None # fs' \<Rightarrow> parse_value (JObject (rev ms)) fs' | _ \<Rightarrow> None)
          else None
      | TColon \<Rightarrow> if e = EColon then Some (fs, EValue) else None
      | TComma \<Rightarrow>
          if e = ECommaOrEnd then
            (case fs of FArr vs # fs' \<Rightarrow> Some (fs, EValue)
             | FObj ms None # fs' \<Rightarrow> Some (fs, EKey) | _ \<Rightarrow> None)
          else None)"

definition parse_end :: "parse_state \<Rightarrow> json option" where
  "parse_end s = (case snd s of EDone v \<Rightarrow> Some v | _ \<Rightarrow> None)"

text \<open>
  \<^verbatim>\<open>json.Unmarshal(data, &v)\<close> into an untyped value, with the numbers left as text; \<open>None\<close> is a syntax
  error. \<^verbatim>\<open>Decoder.Decode\<close> agrees with it on a document that is one value.
\<close>

definition json_Unmarshal :: "bytes \<Rightarrow> json option" where
  "json_Unmarshal s =
     Option.bind (json_tokens s) (\<lambda>ts. Option.bind (fold_opt parse_step ts ([], EValue)) parse_end)"

definition json_Valid :: "bytes \<Rightarrow> bool" where
  "json_Valid s = (json_Unmarshal s \<noteq> None)"

subsection \<open>Marshalling\<close>

definition hex4 :: "nat \<Rightarrow> string" where
  "hex4 n = [CHR 0x5C, CHR ''u'', hex_char (n div 4096), hex_char (n div 256 mod 16),
     hex_char (n div 16 mod 16), hex_char (n mod 16)]"

definition escape_ascii :: "char \<Rightarrow> string" where
  "escape_ascii c =
     (if c = CHR 0x22 \<or> c = CHR 0x5C then [CHR 0x5C, c]
      else if c = CHR 0x08 then [CHR 0x5C, CHR ''b'']
      else if c = CHR 0x0C then [CHR 0x5C, CHR ''f'']
      else if c = CHR 0x0A then [CHR 0x5C, CHR ''n'']
      else if c = CHR 0x0D then [CHR 0x5C, CHR ''r'']
      else if c = CHR 0x09 then [CHR 0x5C, CHR ''t'']
      else if (of_char c :: nat) < 32 \<or> c \<in> {CHR ''<'', CHR ''>'', CHR ''&''} then hex4 (of_char c)
      else [c])"

text \<open>\<^verbatim>\<open>appendString\<close> with HTML escaping: what one code point is written as.\<close>

definition escape_step :: "string \<Rightarrow> string" where
  "escape_step s =
     (case utf8_len s of
        0 \<Rightarrow> hex4 0xFFFD
      | Suc 0 \<Rightarrow> escape_ascii (hd s)
      | Suc (Suc n) \<Rightarrow>
          if take (Suc (Suc n)) s = [CHR 0xE2, CHR 0x80, CHR 0xA8] then hex4 0x2028
          else if take (Suc (Suc n)) s = [CHR 0xE2, CHR 0x80, CHR 0xA9] then hex4 0x2029
          else take (Suc (Suc n)) s)"

function escape :: "string \<Rightarrow> string" where
  "escape s = (if s = [] then [] else escape_step s @ escape (drop (max 1 (utf8_len s)) s))"
  by auto

termination escape
  by (relation "measure length") auto

declare escape.simps [simp del]

definition marshal_string :: "string \<Rightarrow> bytes" where
  "marshal_string s = CHR 0x22 # escape s @ [CHR 0x22]"

primrec sep_by :: "'a \<Rightarrow> 'a list list \<Rightarrow> 'a list" where
  "sep_by c [] = []"
| "sep_by c (x # xs) = (if xs = [] then x else x @ c # sep_by c xs)"

definition marshal_strings :: "string list \<Rightarrow> bytes" where
  "marshal_strings vs = CHR ''['' # sep_by CHR '','' (map marshal_string vs) @ '']''"

text \<open>\<^verbatim>\<open>json.Marshal\<close> of an \<^verbatim>\<open>http.Header\<close>, a \<^verbatim>\<open>map[string][]string\<close>: the keys in sorted order.\<close>

definition marshal_header :: "header \<Rightarrow> bytes" where
  "marshal_header h =
     CHR ''{'' # sep_by CHR '',''
       (map (\<lambda>(k, vs). marshal_string k @ CHR '':'' # marshal_strings vs) (sort_key fst h)) @ ''}''"

subsection \<open>The stored headers survive the round trip\<close>

fun utf8_valid :: "string \<Rightarrow> bool" where
  "utf8_valid s =
     (if s = [] then True else if utf8_len s = 0 then False else utf8_valid (drop (utf8_len s) s))"

declare utf8_valid.simps [simp del]

lemma cont_high: "cont c lo hi \<Longrightarrow> 128 \<le> lo \<Longrightarrow> 128 \<le> (of_char c :: nat)"
  by (simp add: cont_def)

lemma utf8_len_split:
  assumes "2 \<le> utf8_len s"
  obtains p s' where "s = p @ s'" "length p = utf8_len s" "\<forall>c \<in> set p. 128 \<le> (of_char c :: nat)"
    "\<And>t. utf8_len (p @ t) = utf8_len s"
proof -
  consider (two) a b s' where "s = [a, b] @ s'" "\<not> cont a 0 0x7F" "cont a 0xC2 0xDF" "cont b 0x80 0xBF" 
  | (three) a b c s' where "s = [a, b, c] @ s'" "\<not> cont a 0 0x7F" "\<not> cont a 0xC2 0xDF" "cont a 0xE0 0xEF"
       "cont b (if a = CHR 0xE0 then 0xA0 else 0x80) (if a = CHR 0xED then 0x9F else 0xBF)" "cont c 0x80 0xBF"
  | (four) a b c d s' where "s = [a, b, c, d] @ s'" "\<not> cont a 0 0x7F" "\<not> cont a 0xC2 0xDF" "\<not> cont a 0xE0 0xEF"
       "cont a 0xF0 0xF4" "cont b (if a = CHR 0xF0 then 0x90 else 0x80) (if a = CHR 0xF4 then 0x8F else 0xBF)"
       "cont c 0x80 0xBF" "cont d 0x80 0xBF"
    using assms unfolding utf8_len_def
    by (simp split: list.splits if_split_asm)
  then show thesis
  proof cases
    case two
    show thesis by (rule that [of "[a, b]" s']) (use two in \<open>auto simp: utf8_len_def dest: cont_high\<close>)
  next
    case three
    show thesis by (rule that [of "[a, b, c]" s'])
      (use three in \<open>auto simp: utf8_len_def dest: cont_high split: if_split_asm\<close>)
  next
    case four
    show thesis by (rule that [of "[a, b, c, d]" s'])
      (use four in \<open>auto simp: utf8_len_def dest: cont_high split: if_split_asm\<close>)
  qed
qed

lemma lex_plain:
  "\<forall>c \<in> set p. 128 \<le> (of_char c :: nat) \<Longrightarrow>
     fold_opt lex_step p (ts, LStr r) = Some (ts, LStr (rev p @ r))"
  by (induction p arbitrary: r) (auto simp: lex_step_def)

lemma hex_digit_char [simp]: "n < 16 \<Longrightarrow> hex_digit (hex_char n)"
  by (simp add: hex_digit_def)

lemma lex_step_hex:
  "hex_digit c \<Longrightarrow> lex_step c (ts, LHex n r) = Some (ts, if n \<le> 1 then LStr (c # r) else LHex (n - 1) (c # r))"
  by (simp add: lex_step_def)

lemma lex_step_backslash_u:
  "lex_step CHR 0x5C (ts, LStr r) = Some (ts, LEsc (CHR 0x5C # r))"
  "lex_step CHR ''u'' (ts, LEsc r) = Some (ts, LHex 4 (CHR ''u'' # r))"
  by (simp_all add: lex_step_def)

lemma lex_hex4: 
  assumes "n < 65536"
  shows "fold_opt lex_step (hex4 n) (ts, LStr r) = Some (ts, LStr (rev (hex4 n) @ r))"
proof -
  have "hex_digit (hex_char (n div 4096))" "hex_digit (hex_char (n div 256 mod 16))"
   "hex_digit (hex_char (n div 16 mod 16))" "hex_digit (hex_char (n mod 16))"
    using assms by (simp_all add: less_mult_imp_div_less)
  then show ?thesis by (simp add: hex4_def lex_step_backslash_u lex_step_hex)
qed

lemma lex_step_plain:
  "c \<noteq> CHR 0x22 \<Longrightarrow> c \<noteq> CHR 0x5C \<Longrightarrow> \<not> (of_char c :: nat) < 32 \<Longrightarrow>
     lex_step c (ts, LStr r) = Some (ts, LStr (c # r))"
  by (simp add: lex_step_def)

lemma lex_step_short:
  "c \<in> {CHR 0x22, CHR 0x5C, CHR ''b'', CHR ''f'', CHR ''n'', CHR ''r'', CHR ''t''} \<Longrightarrow>
     lex_step c (ts, LEsc r) = Some (ts, LStr (c # r))"
  by (auto simp: lex_step_def)

lemma lex_escape_ascii:
  "fold_opt lex_step (escape_ascii c) (ts, LStr r) = Some (ts, LStr (rev (escape_ascii c) @ r))"
proof -
  have "(of_char c :: nat) < 65536" by (rule less_trans [OF nat_of_char_less_256]) simp
  note hex = lex_hex4 [OF this, of ts r]
  show ?thesis unfolding escape_ascii_def
    by (simp only: split: if_split) (simp add: hex lex_step_plain lex_step_short lex_step_backslash_u)
qed

lemma lex_escape_step:
  "fold_opt lex_step (escape_step s) (ts, LStr r) = Some (ts, LStr (rev (escape_step s) @ r))"
proof (cases "2 \<le> utf8_len s")
  case True
  then obtain p s' where "s = p @ s'" "length p = utf8_len s" "\<forall>c \<in> set p. 128 \<le> (of_char c :: nat)"
    by (rule utf8_len_split)
  then have "fold_opt lex_step (take (utf8_len s) s) (ts, LStr r) = Some (ts, LStr (rev (take (utf8_len s) s) @ r))"
    by (simp add: lex_plain)
  with True show ?thesis by (auto simp: escape_step_def lex_hex4 split: nat.splits simp del: take_Suc_Cons)
next
  case False
  then show ?thesis by (auto simp: escape_step_def lex_hex4 lex_escape_ascii split: nat.splits)
qed

lemma lex_escape: "fold_opt lex_step (escape s) (ts, LStr r) = Some (ts, LStr (rev (escape s) @ r))"
proof (induction s arbitrary: r rule: escape.induct)
  case (1 s)
  then show ?case by (subst (1 2) escape.simps) (simp add: fold_opt_append lex_escape_step)
qed

lemma lex_marshal_string:
  "fold_opt lex_step (marshal_string s) (ts, LNone) = Some (TStr (escape s) # ts, LNone)"
  by (simp add: marshal_string_def fold_opt_append lex_escape lex_step_def lex_begin_def json_space_def)

lemma lex_sep_by:
  assumes "\<And>x ts. x \<in> set xs \<Longrightarrow> fold_opt lex_step (f x) (ts, LNone) = Some (rev (g x) @ ts, LNone)"
  shows "fold_opt lex_step (sep_by CHR '','' (map f xs)) (ts, LNone) = Some (rev (sep_by TComma (map g xs)) @ ts, LNone)"
  using assms
proof (induction xs arbitrary: ts)
  case (Cons x xs)
  then show ?case by (simp add: fold_opt_append lex_step_def [of _ "(ts, LNone)" for ts] lex_begin_def json_space_def)
qed simp

lemma getu4_hex4: "n < 65536 \<Longrightarrow> getu4 (hex4 n @ t) = Some n"
proof -
  assume "n < 65536"
  then have d: "n div 4096 < 16" by (simp add: less_mult_imp_div_less)
  have "n = ((n div 4096 * 16 + n div 256 mod 16) * 16 + n div 16 mod 16) * 16 + n mod 16"
    using div_mult_mod_eq [of n 16] div_mult_mod_eq [of "n div 16" 16] div_mult_mod_eq [of "n div 256" 16]
    by (simp add: div_mult2_eq [symmetric])
  with d show ?thesis by (simp add: getu4_def hex4_def)
qed

lemma unquote_hex4:
  assumes "n < 0xD800"
  shows "unquote (hex4 n @ t) = utf8_encode n @ unquote t"
proof -
  have "unquote_step (hex4 n @ t) = (utf8_encode n, 6)"
    using assms by (simp add: unquote_step_def getu4_hex4)
  moreover have "drop 6 (hex4 n @ t) = t" "hex4 n @ t \<noteq> []" by (simp_all add: hex4_def)
  ultimately show ?thesis by (subst unquote.simps) (simp only: fst_conv snd_conv if_False)
qed

lemma unquote_short: "c \<noteq> CHR ''u'' \<Longrightarrow> unquote (CHR 0x5C # c # t) = unescape_char c # unquote t"
proof -
  assume "c \<noteq> CHR ''u''"
  then have "getu4 (CHR 0x5C # c # t) = None" by (simp add: getu4_def split: list.splits)
  then have "unquote_step (CHR 0x5C # c # t) = ([unescape_char c], 2)" by (simp add: unquote_step_def)
  then show ?thesis by (subst unquote.simps) simp
qed

lemma unquote_copy:
  assumes "0 < utf8_len (p @ t)" "length p = utf8_len (p @ t)" "hd p \<noteq> CHR 0x5C"
  shows "unquote (p @ t) = p @ unquote t"
proof -
  obtain a p' where p: "p = a # p'" using assms by (cases p) auto
  have "getu4 (p @ t) = None" using assms p by (simp add: getu4_def split: list.splits)
  moreover have "copy_step (p @ t) = (p, length p)" using assms by (simp add: copy_step_def)
  ultimately have "unquote_step (p @ t) = (p, length p)" using assms p
    by (simp add: unquote_step_def split: list.splits)
  then show ?thesis using p by (subst unquote.simps) simp
qed

lemma utf8_len_ascii: "utf8_len s = 1 \<Longrightarrow> \<exists>c t. s = c # t \<and> (of_char c :: nat) < 128"
  by (auto simp: utf8_len_def cont_def split: list.splits if_split_asm)

lemma utf8_encode_ascii: "(of_char c :: nat) < 128 \<Longrightarrow> utf8_encode (of_char c) = [c]"
  by (simp add: utf8_encode_def)

lemma unquote_ascii:
  assumes "(of_char c :: nat) < 128"
  shows "unquote (escape_ascii c @ t) = c # unquote t"
proof -
  have hex: "unquote (hex4 (of_char c) @ t) = c # unquote t"
    using assms by (simp add: unquote_hex4 utf8_encode_ascii)
  have copy: "c \<noteq> CHR 0x5C \<Longrightarrow> unquote (c # t) = c # unquote t"
    using unquote_copy [of "[c]" t] assms by (simp add: utf8_len_def cont_def)
  show ?thesis unfolding escape_ascii_def
    by (simp only: split: if_split) (simp add: hex copy unquote_short unescape_char_def)
qed

lemma utf8_encode_separators:
  "utf8_encode 0x2028 = [CHR 0xE2, CHR 0x80, CHR 0xA8]"
  "utf8_encode 0x2029 = [CHR 0xE2, CHR 0x80, CHR 0xA9]"
  by (simp_all add: utf8_encode_def char_of_def bit_0)

lemma unquote_escape_wide:
  assumes "2 \<le> utf8_len s" "s = p @ s'" "length p = utf8_len s"
  shows "unquote (escape_step s @ t) = p @ unquote t"
proof -
  obtain q s'' where q: "s = q @ s''" "length q = utf8_len s"
    "\<forall>c \<in> set q. 128 \<le> (of_char c :: nat)" "\<And>t. utf8_len (q @ t) = utf8_len s"
    using utf8_len_split [OF assms(1)] by blast
  have pq: "p = q" using assms(2,3) q(1,2) by simp
  have "hd q \<in> set q" using q(2) assms(1) by (cases q) auto
  then have "128 \<le> (of_char (hd q) :: nat)" using q(3) by blast
  then have "hd q \<noteq> CHR 0x5C" by (rule_tac char_neI) simp
  then have copy: "unquote (p @ t) = p @ unquote t"
    using unquote_copy [of q t] q(2,4) assms(1) pq by simp
  obtain n where n: "utf8_len s = Suc (Suc n)" using assms(1) by (metis add_2_eq_Suc le_Suc_ex)
  have "take (Suc (Suc n)) s = p" using assms(2,3) n by simp
  then have "escape_step s = (if p = [CHR 0xE2, CHR 0x80, CHR 0xA8] then hex4 0x2028
      else if p = [CHR 0xE2, CHR 0x80, CHR 0xA9] then hex4 0x2029 else p)"
    by (simp only: escape_step_def n nat.case)
  then show ?thesis using copy
    by (simp only: unquote_hex4 utf8_encode_separators split: if_split) (simp add: unquote_hex4 utf8_encode_separators)
qed

lemma unquote_escape_step:
  assumes "s = p @ s'" "length p = utf8_len s" "0 < utf8_len s"
  shows "unquote (escape_step s @ t) = p @ unquote t"
proof (cases "2 \<le> utf8_len s")
  case True
  then show ?thesis using assms unquote_escape_wide by blast
next
  case False
  then have one: "utf8_len s = 1" using assms by simp
  then obtain c r where s: "s = c # r" "(of_char c :: nat) < 128" using utf8_len_ascii by blast
  then have "p = [c]" using assms one by (cases p) auto
  with s one show ?thesis by (simp add: escape_step_def unquote_ascii)
qed

lemma utf8_len_le: "utf8_len s \<le> length s"
  by (auto simp: utf8_len_def split: list.splits)

lemma unquote_escape: "utf8_valid s \<Longrightarrow> unquote (escape s) = s"
proof (induction s rule: escape.induct)
  case (1 s)
  show ?case
  proof (cases "s = []")
    case True
    then show ?thesis by (simp add: escape.simps unquote.simps)
  next
    case False
    then have v: "0 < utf8_len s" "utf8_valid (drop (utf8_len s) s)"
      using "1.prems" by (simp_all add: utf8_valid.simps [of s] split: if_splits)
    have "unquote (escape s) = take (utf8_len s) s @ unquote (escape (drop (utf8_len s) s))"
      using unquote_escape_step [of s "take (utf8_len s) s" "drop (utf8_len s) s"] v False
      by (subst escape.simps) (simp add: max_def utf8_len_le Suc_le_eq)
    with "1.IH" False v show ?thesis by (simp add: max_def Suc_le_eq)
  qed
qed

lemma parse_strings:
  assumes "e = EValue \<or> e = EValueOrEnd" "vs \<noteq> []" "\<forall>v \<in> set vs. utf8_valid v"
  shows "fold_opt parse_step (sep_by TComma (map (\<lambda>v. [TStr (escape v)]) vs)) (FArr acc # fs, e) =
    Some (FArr (rev (map JString vs) @ acc) # fs, ECommaOrEnd)"
  using assms
proof (induction vs arbitrary: acc e)
  case (Cons v vs)
  then show ?case by (cases "vs = []") (auto simp: parse_step_def [of "TStr r" for r] parse_step_def [of TComma] parse_value_def unquote_escape)
qed simp

definition header_tokens :: "string \<times> string list \<Rightarrow> token list" where
  "header_tokens kv = TStr (escape (fst kv)) # TColon # TLBrack #
     sep_by TComma (map (\<lambda>v. [TStr (escape v)]) (snd kv)) @ [TRBrack]"

definition header_json :: "string \<times> string list \<Rightarrow> string \<times> json" where
  "header_json kv = (fst kv, JArray (map JString (snd kv)))"

lemma parse_header_field:
  assumes "e = EKey \<or> e = EKeyOrEnd" "utf8_valid (fst kv)" "\<forall>v \<in> set (snd kv). utf8_valid v"
    "length fs + 1 < max_depth" "fst kv \<notin> fst ` set ms"
  shows "fold_opt parse_step (header_tokens kv) (FObj ms None # fs, e) =
     Some (FObj (header_json kv # ms) None # fs, ECommaOrEnd)"
proof -
  let ?arr = "sep_by TComma (map (\<lambda>v. [TStr (escape v)]) (snd kv)) @ [TRBrack]"
  have new: "filter (\<lambda>m. fst m \<noteq> fst kv) ms = ms" using assms(5) by (force simp: filter_id_conv)
  have "fold_opt parse_step ?arr (FArr [] # FObj ms (Some (fst kv)) # fs, EValueOrEnd) =
    Some (FObj (header_json kv # ms) None # fs, ECommaOrEnd)"
    using assms(3) new
    by (cases "snd kv = []")
      (simp_all add: fold_opt_append parse_strings parse_step_def [of TRBrack] parse_value_def
        put_member_def header_json_def)
  then show ?thesis using assms
    by (auto simp: header_tokens_def parse_step_def [of "TStr r" for r] parse_step_def [of TColon]
      parse_step_def [of TLBrack] parse_open_def unquote_escape)
qed

lemma parse_header_fields:
  assumes "e = EKey \<or> e = EKeyOrEnd" "h \<noteq> []" "length fs + 1 < max_depth"
    "\<forall>kv \<in> set h. utf8_valid (fst kv) \<and> (\<forall>v \<in> set (snd kv). utf8_valid v)"
    "distinct (map fst h)" "\<forall>kv \<in> set h. fst kv \<notin> fst ` set ms"
  shows "fold_opt parse_step (sep_by TComma (map header_tokens h)) (FObj ms None # fs, e) =
     Some (FObj (rev (map header_json h) @ ms) None # fs, ECommaOrEnd)"
  using assms
proof (induction h arbitrary: ms e)
  case (Cons kv h)
  have kv: "fold_opt parse_step (header_tokens kv) (FObj ms None # fs, e) =
     Some (FObj (header_json kv # ms) None # fs, ECommaOrEnd)"
    by (rule parse_header_field) (use Cons.prems in auto)
  show ?case
  proof (cases "h = []")
    case False
    have "fold_opt parse_step (sep_by TComma (map header_tokens h)) (FObj (header_json kv # ms) None # fs, EKey) =
       Some (FObj (rev (map header_json h) @ header_json kv # ms) None # fs, ECommaOrEnd)"
      by (rule Cons.IH) (use Cons.prems False in \<open>auto simp: header_json_def image_iff\<close>)
    with kv False show ?thesis by (simp add: fold_opt_append parse_step_def [of TComma])
  qed (simp add: kv)
qed simp

lemma lex_strings:
  "fold_opt lex_step (marshal_strings vs) (ts, LNone) =
     Some (TRBrack # rev (sep_by TComma (map (\<lambda>v. [TStr (escape v)]) vs)) @ TLBrack # ts, LNone)"
proof -
  have "fold_opt lex_step (sep_by CHR '','' (map marshal_string vs)) (ts, LNone) =
    Some (rev (sep_by TComma (map (\<lambda>v. [TStr (escape v)]) vs)) @ ts, LNone)" for ts
    by (rule lex_sep_by) (simp add: lex_marshal_string)
  then show ?thesis
    by (simp add: marshal_strings_def fold_opt_append lex_step_def [of _ "(ts, LNone)" for ts]
      lex_begin_def json_space_def)
qed

lemma lex_header:
  "json_tokens (marshal_header h) =
     Some (TLBrace # sep_by TComma (map header_tokens (sort_key fst h)) @ [TRBrace])"
proof -
  have "fold_opt lex_step (marshal_string k @ CHR '':'' # marshal_strings vs) (ts, LNone) =
    Some (rev (header_tokens (k, vs)) @ ts, LNone)" for k vs ts
    by (simp add: fold_opt_append lex_marshal_string lex_strings header_tokens_def
       lex_step_def [of _ "(ts, LNone)" for ts] lex_begin_def json_space_def)
  then have "fold_opt lex_step (sep_by CHR '',''
       (map (\<lambda>(k, vs). marshal_string k @ CHR '':'' # marshal_strings vs) h')) (ts, LNone) =
     Some (rev (sep_by TComma (map header_tokens h')) @ ts, LNone)" for h' ts
    by (intro lex_sep_by) auto
  then show ?thesis
    by (simp add: json_tokens_def marshal_header_def fold_opt_append lex_end_def
       lex_step_def [of _ "(ts, LNone)" for ts] lex_begin_def json_space_def)
qed

text \<open>What \<^verbatim>\<open>json.Marshal\<close> writes for a header, \<^verbatim>\<open>json.Unmarshal\<close> reads back, multi-valued fields included.\<close>

lemma Unmarshal_marshal_header:
  assumes "distinct (map fst h)"
    "\<forall>kv \<in> set h. utf8_valid (fst kv) \<and> (\<forall>v \<in> set (snd kv). utf8_valid v)"
  shows "json_Unmarshal (marshal_header h) = Some (JObject (map header_json (sort_key fst h)))"
proof (cases "h = []")
  case True
  then show ?thesis
    by (simp add: json_Unmarshal_def lex_header parse_step_def parse_open_def parse_value_def
      parse_end_def max_depth_def)
next
  case False
  have "distinct (map fst (sort_key fst h))" using assms(1) by (simp add: distinct_map)
  moreover have "sort_key fst h \<noteq> []" using False by (metis length_0_conv length_sort)
  ultimately have "fold_opt parse_step (sep_by TComma (map header_tokens (sort_key fst h))) ([FObj [] None], EKeyOrEnd)
      = Some ([FObj (rev (map header_json (sort_key fst h)) @ []) None], ECommaOrEnd)"
    using assms(2) by (intro parse_header_fields) (auto simp: max_depth_def)
  then show ?thesis
    by (simp add: json_Unmarshal_def lex_header fold_opt_append parse_step_def [of TLBrace]
      parse_step_def [of TRBrace] parse_open_def parse_value_def parse_end_def max_depth_def)
qed

subsection \<open>Number literals\<close>

text \<open>A decoded number always has a literal: no value contains an empty one.\<close>

fun numbers_ok :: "json \<Rightarrow> bool" where
  "numbers_ok (JNumber s) = (s \<noteq> [])"
| "numbers_ok (JArray vs) = list_all numbers_ok vs"
| "numbers_ok (JObject ms) = list_all (\<lambda>m. numbers_ok (snd m)) ms"
| "numbers_ok _ = True"

fun token_ok :: "token \<Rightarrow> bool" where
  "token_ok (TAtom v) = numbers_ok v"
| "token_ok _ = True"

fun lex_state_ok :: "lex_state \<Rightarrow> bool" where
  "lex_state_ok (LNum q r) = (r \<noteq> [])"
| "lex_state_ok (LWord w v) = numbers_ok v"
| "lex_state_ok _ = True"

fun frame_ok :: "frame \<Rightarrow> bool" where
  "frame_ok (FArr vs) = list_all numbers_ok vs"
| "frame_ok (FObj ms k) = list_all (\<lambda>m. numbers_ok (snd m)) ms"

fun expect_ok :: "expect \<Rightarrow> bool" where
  "expect_ok (EDone v) = numbers_ok v"
| "expect_ok _ = True"

text \<open>An invariant of the steps is one of the fold.\<close>

lemma fold_opt_invariant:
  assumes "\<And>x s s'. x \<in> set xs \<Longrightarrow> I s \<Longrightarrow> f x s = Some s' \<Longrightarrow> I s'" "I s" "fold_opt f xs s = Some s'"
  shows "I s'"
  using assms by (induction xs arbitrary: s) (auto split: option.splits)

lemma lex_begin_ok:
  "list_all token_ok ts \<Longrightarrow> lex_begin ts c = Some (ts', st') \<Longrightarrow> list_all token_ok ts' \<and> lex_state_ok st'"
  by (auto simp: lex_begin_def split: if_splits)

lemma lex_step_ok:
  assumes "list_all token_ok ts" "lex_state_ok st" "lex_step c (ts, st) = Some (ts', st')"
  shows "list_all token_ok ts' \<and> lex_state_ok st'"
  using assms
  by (cases st) (auto simp: lex_step_def dest: lex_begin_ok lex_begin_ok [rotated] split: if_splits option.splits list.splits)

lemma json_tokens_ok:
  assumes "json_tokens s = Some ts"
  shows "list_all token_ok ts"
proof -
  obtain ts' st' where f: "fold_opt lex_step s ([], LNone) = Some (ts', st')" "lex_end (ts', st') = Some ts"
    using assms by (auto simp: json_tokens_def bind_eq_Some_conv)
  have "(\<lambda>(ts, st). list_all token_ok ts \<and> lex_state_ok st) (ts', st')"
    by (rule fold_opt_invariant [OF _ _ f(1)]) (auto dest: lex_step_ok)
  with f(2) show ?thesis by (auto simp: lex_end_def list_all_iff split: lex_state.splits if_splits)
qed

lemma parse_value_ok:
  "numbers_ok v \<Longrightarrow> list_all frame_ok fs \<Longrightarrow> parse_value v fs = Some (fs', e') \<Longrightarrow>
     list_all frame_ok fs' \<and> expect_ok e'"
  by (auto simp: parse_value_def put_member_def list_all_iff split: list.splits frame.splits option.splits)

lemma parse_step_ok:
  assumes "token_ok t" "list_all frame_ok fs" "parse_step t (fs, e) = Some (fs', e')"
  shows "list_all frame_ok fs' \<and> expect_ok e'"
  using assms
  by (cases t)
    (auto simp: parse_step_def parse_open_def list_all_iff dest: parse_value_ok parse_value_ok [rotated 2]
      split: if_splits list.splits frame.splits option.splits)

lemma Unmarshal_numbers_ok:
  assumes "json_Unmarshal s = Some v"
  shows "numbers_ok v"
proof -
  obtain ts fs e where f: "json_tokens s = Some ts" "fold_opt parse_step ts ([], EValue) = Some (fs, e)"
    "parse_end (fs, e) = Some v"
    using assms by (auto simp: json_Unmarshal_def bind_eq_Some_conv)
  have "(\<lambda>(fs, e). list_all frame_ok fs \<and> expect_ok e) (fs, e)"
  proof (rule fold_opt_invariant [OF _ _ f(2)])
    fix t and s s' :: parse_state
    assume "t \<in> set ts" "(\<lambda>(fs, e). list_all frame_ok fs \<and> expect_ok e) s" "parse_step t s = Some s'"
    moreover from this have "token_ok t" using json_tokens_ok [OF f(1)] by (simp add: list_all_iff)
    ultimately show "(\<lambda>(fs, e). list_all frame_ok fs \<and> expect_ok e) s'"
      using parse_step_ok [of t "fst s" "snd s" "fst s'" "snd s'"]
      by (simp add: case_prod_beta)
  qed simp
  with f(3) show ?thesis by (auto simp: parse_end_def split: expect.splits)
qed

end
