(* ===== verification/Json_Struct.thy ===== *)
theory Json_Struct
  imports Json
begin

text \<open>
  \<^verbatim>\<open>encoding/json\<close> into structs, as the API handlers, the tunnel and the configuration use it. The
  members of an object are taken in the order of the text, each sets the field whose name it equals up to
  case folding, \<^verbatim>\<open>null\<close> leaves a plain field alone and clears a pointer, a value of another type is an
  error, and unknown members are ignored. A target is described by the list of its fields.
\<close>

subsection \<open>The members of an object\<close>

text \<open>The text of an object after its brace, cut at its own commas: nested brackets and strings are skipped.\<close>

fun split_top :: "nat \<Rightarrow> bool \<Rightarrow> string \<Rightarrow> string \<Rightarrow> string list" where
  "split_top n q cur [] = []"
| "split_top n q cur (c # s) =
     (if q then
        (if c = CHR 0x5C then (case s of [] \<Rightarrow> [] | d # s' \<Rightarrow> split_top n q (d # c # cur) s')
         else split_top n (c \<noteq> CHR 0x22) (c # cur) s)
      else if n = 0 \<and> c = CHR '','' then rev cur # split_top n q [] s
      else if n = 0 \<and> c = CHR ''}'' then [rev cur]
      else split_top (if c = CHR ''{'' \<or> c = CHR ''['' then n + 1
                      else if c = CHR ''}'' \<or> c = CHR '']'' then n - 1 else n) (c = CHR 0x22) (c # cur) s)"

text \<open>A member cut at the colon after its key.\<close>

fun cut_colon :: "bool \<Rightarrow> string \<Rightarrow> string \<Rightarrow> (string \<times> string) option" where
  "cut_colon q cur [] = None"
| "cut_colon q cur (c # s) =
     (if q then
        (if c = CHR 0x5C then (case s of [] \<Rightarrow> None | d # s' \<Rightarrow> cut_colon q (d # c # cur) s')
         else cut_colon (c \<noteq> CHR 0x22) (c # cur) s)
      else if c = CHR '':'' then Some (rev cur, s)
      else cut_colon (c = CHR 0x22) (c # cur) s)"

definition json_trim :: "string \<Rightarrow> string" where
  "json_trim s = rev (dropWhile json_space (rev (dropWhile json_space s)))"

definition cut_member :: "string \<Rightarrow> (string \<times> bytes) option" where
  "cut_member m = (case cut_colon False [] m of None \<Rightarrow> None
   | Some (k, v) \<Rightarrow> (case json_Unmarshal k of Some (JString name) \<Rightarrow> Some (name, json_trim v) | _ \<Rightarrow> None))"

definition object_members :: "bytes \<Rightarrow> (string \<times> bytes) list" where
  "object_members data = List.map_filter cut_member (split_top 0 False [] (tl (dropWhile json_space data)))"

text \<open>Field names are compared after case folding; the long s folds to S, the Kelvin sign to K.\<close>

fun fold_key :: "string \<Rightarrow> string" where
  "fold_key (c # d # e # s) =
     (if c = CHR 0xC5 \<and> d = CHR 0xBF then CHR ''S'' # fold_key (e # s)
      else if c = CHR 0xE2 \<and> d = CHR 0x84 \<and> e = CHR 0xAA then CHR ''K'' # fold_key s
      else upper_char c # fold_key (d # e # s))"
| "fold_key [c, d] = (if c = CHR 0xC5 \<and> d = CHR 0xBF then ''S'' else [upper_char c, upper_char d])"
| "fold_key [c] = [upper_char c]"
| "fold_key [] = []"

subsection \<open>Decoding into a struct\<close>

text \<open>A field of a struct: how a value, given as its text and parsed, changes the struct; \<open>None\<close> is an error.\<close>

type_synonym 'r field = "bytes \<Rightarrow> json \<Rightarrow> 'r \<Rightarrow> 'r option"

definition string_field :: "((string \<Rightarrow> string) \<Rightarrow> 'r \<Rightarrow> 'r) \<Rightarrow> 'r field" where
  "string_field upd raw v r = (case v of JString s \<Rightarrow> Some (upd (\<lambda>_. s) r) | JNull \<Rightarrow> Some r | _ \<Rightarrow> None)"

definition bool_field :: "((bool \<Rightarrow> bool) \<Rightarrow> 'r \<Rightarrow> 'r) \<Rightarrow> 'r field" where
  "bool_field upd raw v r = (case v of JBool b \<Rightarrow> Some (upd (\<lambda>_. b) r) | JNull \<Rightarrow> Some r | _ \<Rightarrow> None)"

definition int64_field :: "((int \<Rightarrow> int) \<Rightarrow> 'r \<Rightarrow> 'r) \<Rightarrow> 'r field" where
  "int64_field upd raw v r = (case v of
     JNumber lit \<Rightarrow> map_option (\<lambda>n. upd (\<lambda>_. n) r) (ParseInt64 lit) | JNull \<Rightarrow> Some r | _ \<Rightarrow> None)"

text \<open>An integer literal outside int32 is an error.\<close>

definition parse_int32 :: "string \<Rightarrow> int option" where
  "parse_int32 lit = (case ParseInt64 lit of None \<Rightarrow> None
   | Some n \<Rightarrow> if - (2 ^ 31) \<le> n \<and> n < 2 ^ 31 then Some n else None)"

definition int32_field :: "((int \<Rightarrow> int) \<Rightarrow> 'r \<Rightarrow> 'r) \<Rightarrow> 'r field" where
  "int32_field upd raw v r = (case v of
     JNumber lit \<Rightarrow> map_option (\<lambda>n. upd (\<lambda>_. n) r) (parse_int32 lit) | JNull \<Rightarrow> Some r | _ \<Rightarrow> None)"

text \<open>Pointers: \<^verbatim>\<open>null\<close> is nil.\<close>

definition string_ptr :: "((string option \<Rightarrow> string option) \<Rightarrow> 'r \<Rightarrow> 'r) \<Rightarrow> 'r field" where
  "string_ptr upd raw v r = (case v of JString s \<Rightarrow> Some (upd (\<lambda>_. Some s) r) | JNull \<Rightarrow> Some (upd (\<lambda>_. None) r) | _ \<Rightarrow> None)"

definition bool_ptr :: "((bool option \<Rightarrow> bool option) \<Rightarrow> 'r \<Rightarrow> 'r) \<Rightarrow> 'r field" where
  "bool_ptr upd raw v r = (case v of JBool b \<Rightarrow> Some (upd (\<lambda>_. Some b) r) | JNull \<Rightarrow> Some (upd (\<lambda>_. None) r) | _ \<Rightarrow> None)"

definition int32_ptr :: "((int option \<Rightarrow> int option) \<Rightarrow> 'r \<Rightarrow> 'r) \<Rightarrow> 'r field" where
  "int32_ptr upd raw v r = (case v of
     JNumber lit \<Rightarrow> map_option (\<lambda>n. upd (\<lambda>_. Some n) r) (parse_int32 lit) | JNull \<Rightarrow> Some (upd (\<lambda>_. None) r) | _ \<Rightarrow> None)"

text \<open>A \<^verbatim>\<open>[]string\<close>: a null element leaves what an earlier member of the same name put there.\<close>

fun string_elems :: "string list \<Rightarrow> json list \<Rightarrow> string list option" where
  "string_elems old [] = Some []"
| "string_elems old (v # vs) = (case v of
     JString s \<Rightarrow> map_option ((#) s) (string_elems (tl old) vs)
   | JNull \<Rightarrow> map_option ((#) (if old = [] then '''' else hd old)) (string_elems (tl old) vs)
   | _ \<Rightarrow> None)"

definition strings_field :: "('r \<Rightarrow> string list) \<Rightarrow> ((string list \<Rightarrow> string list) \<Rightarrow> 'r \<Rightarrow> 'r) \<Rightarrow> 'r field" where
  "strings_field get upd raw v r = (case v of
     JArray vs \<Rightarrow> map_option (\<lambda>ss. upd (\<lambda>_. ss) r) (string_elems (get r) vs)
   | JNull \<Rightarrow> Some (upd (\<lambda>_. []) r) | _ \<Rightarrow> None)"

text \<open>A \<^verbatim>\<open>json.RawMessage\<close> keeps the text of the value.\<close>

definition raw_field :: "((bytes option \<Rightarrow> bytes option) \<Rightarrow> 'r \<Rightarrow> 'r) \<Rightarrow> 'r field" where
  "raw_field upd raw v r = Some (upd (\<lambda>_. Some raw) r)"

definition set_member :: "(string \<times> 'r field) list \<Rightarrow> string \<times> bytes \<Rightarrow> 'r \<Rightarrow> 'r option" where
  "set_member fields m r = (case find (\<lambda>f. fold_key (fst f) = fold_key (fst m)) fields of
     None \<Rightarrow> Some r
   | Some f \<Rightarrow> (case json_Unmarshal (snd m) of None \<Rightarrow> None | Some v \<Rightarrow> snd f (snd m) v r))"

text \<open>\<^verbatim>\<open>json.Unmarshal(data, &r)\<close>\<close>

definition Unmarshal_struct :: "(string \<times> 'r field) list \<Rightarrow> 'r \<Rightarrow> bytes \<Rightarrow> 'r option" where
  "Unmarshal_struct fields zero data = (case json_Unmarshal data of
     Some (JObject ms) \<Rightarrow> fold_opt (set_member fields) (object_members data) zero
   | Some JNull \<Rightarrow> Some zero
   | _ \<Rightarrow> None)"

text \<open>
  \<^verbatim>\<open>json.NewDecoder(body).Decode(&r)\<close> reads one value and ignores what follows it. (A number would be
  read to its end, but no struct accepts a number.)
\<close>

definition first_value :: "bytes \<Rightarrow> bytes option" where
  "first_value data = find json_Valid (map (\<lambda>n. take n data) [0..<Suc (length data)])"

definition Decode_struct :: "(string \<times> 'r field) list \<Rightarrow> 'r \<Rightarrow> bytes \<Rightarrow> 'r option" where
  "Decode_struct fields zero data = Option.bind (first_value data) (Unmarshal_struct fields zero)"

subsection \<open>Writing structs\<close>

text \<open>\<^verbatim>\<open>json.Marshal\<close> of a struct, from the texts of its fields in their order.\<close>

definition marshal_object :: "(string \<times> bytes) list \<Rightarrow> bytes" where
  "marshal_object ms = CHR ''{'' # sep_by CHR '','' (map (\<lambda>(k, v). marshal_string k @ CHR '':'' # v) ms) @ ''}''"

text \<open>
  \<open>renders n b j\<close>: the text \<open>b\<close> is read back as the value \<open>j\<close>, in any place where \<open>n\<close> more levels of
  nesting are allowed.
\<close>

definition closer :: "char \<Rightarrow> bool" where
  "closer c \<longleftrightarrow> c \<in> {CHR '','', CHR ''}'', CHR '']''}"

definition lexes :: "bytes \<Rightarrow> token list \<Rightarrow> bool" where
  "lexes b toks \<longleftrightarrow> json_tokens b = Some toks \<and>
     (\<forall>ts c s. closer c \<longrightarrow> fold_opt lex_step (b @ c # s) (ts, LNone) = fold_opt lex_step (c # s) (rev toks @ ts, LNone))"

definition renders :: "nat \<Rightarrow> bytes \<Rightarrow> json \<Rightarrow> bool" where
  "renders n b j \<longleftrightarrow> (\<exists>toks. lexes b toks \<and>
     (\<forall>fs e. e = EValue \<or> e = EValueOrEnd \<longrightarrow> length fs + n < max_depth \<longrightarrow> fold_opt parse_step toks (fs, e) = parse_value j fs))"

lemma lexesI: "(\<And>ts. fold_opt lex_step b (ts, LNone) = Some (rev toks @ ts, LNone)) \<Longrightarrow> lexes b toks"
  by (simp add: lexes_def json_tokens_def lex_end_def fold_opt_append del: fold_opt.simps)

lemma rendersI:
  assumes "\<And>ts. fold_opt lex_step b (ts, LNone) = Some (rev toks @ ts, LNone)"
    "\<And>fs e. e = EValue \<or> e = EValueOrEnd \<Longrightarrow> length fs + n < max_depth \<Longrightarrow> fold_opt parse_step toks (fs, e) = parse_value j fs"
  shows "renders n b j"
  unfolding renders_def using assms lexesI by blast

lemma renders_Unmarshal:
  assumes "renders n b j" "n < max_depth"
  shows "json_Unmarshal b = Some j"
  using assms unfolding renders_def lexes_def
  by (auto simp: json_Unmarshal_def parse_value_def parse_end_def)

text \<open>A number ends only where another character comes, or the text does.\<close>

lemma lex_digits:
  assumes "list_all is_digit s"
  shows "fold_opt lex_step s (ts, LNum NInt r) = Some (ts, LNum NInt (rev s @ r))"
  using assms by (induction s arbitrary: r) (auto simp: lex_step_def num_step_def)

lemma lex_number:
  assumes "list_all is_digit s" "num_done q" "q = NInt \<or> s = []"
  shows "fold_opt lex_step s (ts, LNum q r) = Some (ts, LNum q (rev s @ r))"
  using assms lex_digits by auto

lemma lex_number_end: "closer c \<Longrightarrow> num_done q \<Longrightarrow> lex_step c (ts, LNum q r) = lex_begin (TAtom (JNumber (rev r)) # ts) c"
  by (auto simp: closer_def num_done_def lex_step_def num_step_def is_digit_def split: option.splits)

lemma ascii_valid: "list_all (\<lambda>c. (of_char c :: nat) < 128) s \<Longrightarrow> utf8_valid s"
proof (induction s)
  case Nil
  show ?case by (subst utf8_valid.simps) simp
next
  case (Cons c s)
  then have "cont c 0 127" by (simp add: cont_def)
  then have "utf8_len (c # s) = 1" by (simp add: utf8_len_def)
  with Cons show ?case by (subst utf8_valid.simps) simp
qed

lemma renders_string: "utf8_valid s \<Longrightarrow> renders n (marshal_string s) (JString s)"
  by (rule rendersI [where toks = "[TStr (escape s)]"])
    (auto simp: lex_marshal_string parse_step_def unquote_escape split: option.splits)

lemma renders_null: "renders n ''null'' JNull"
  by (rule rendersI [where toks = "[TAtom JNull]"])
    (auto simp: lex_step_def lex_begin_def json_space_def is_digit_def parse_step_def split: option.splits)

lemma renders_bool: "renders n (if b then ''true'' else ''false'') (JBool b)"
  by (rule rendersI [where toks = "[TAtom (JBool b)]"])
    (auto simp: lex_step_def lex_begin_def json_space_def is_digit_def parse_step_def split: option.splits)

lemma show_nat_head: "\<exists>c cs. show_nat n = c # cs \<and> (c = CHR ''0'' \<longrightarrow> cs = [])"
proof (induction n rule: show_nat.induct)
  case (1 n)
  show ?case
  proof (cases "n < 10")
    case True
    then show ?thesis by (simp add: show_nat.simps [of n])
  next
    case False
    then obtain c cs where c: "show_nat (n div 10) = c # cs" "c = CHR ''0'' \<longrightarrow> cs = []" using 1 by blast
    have "show_nat (n div 10) \<noteq> ''0''"
    proof
      assume "show_nat (n div 10) = ''0''"
      with parse_show_nat [of "n div 10"] have "n div 10 = 0" by (simp add: digit_val_def)
      with False show False by simp
    qed
    with c False show ?thesis by (simp add: show_nat.simps [of n])
  qed
qed

lemma digit_not_json:
  "is_digit c \<Longrightarrow> \<not> json_space c \<and> c \<notin> {CHR ''{'', CHR ''}'', CHR ''['', CHR '']'', CHR '','', CHR '':'', CHR 0x22, CHR ''-''}"
  by (auto simp: is_digit_def json_space_def)

lemma lex_show_nat:
  assumes "st = LNone \<or> st = LNum NSign r" "st = LNone \<longrightarrow> r = []"
  shows "\<exists>q. num_done q \<and> (\<forall>ts. fold_opt lex_step (show_nat n) (ts, st) = Some (ts, LNum q (rev (show_nat n) @ r)))"
proof -
  obtain c cs where c: "show_nat n = c # cs" "c = CHR ''0'' \<longrightarrow> cs = []" using show_nat_head by blast
  then have d: "is_digit c" "list_all is_digit cs" using show_nat_digits [of n] by auto
  define q where "q = (if c = CHR ''0'' then NZero else NInt)"
  have q: "num_done q" "q = NInt \<or> cs = []" using c by (auto simp: q_def num_done_def)
  have "lex_step c (ts, st) = Some (ts, LNum q (c # r))" for ts
    using assms d(1) digit_not_json [OF d(1)] by (elim disjE) (simp_all add: q_def lex_step_def lex_begin_def num_step_def Let_def)
  then have "\<forall>ts. fold_opt lex_step (show_nat n) (ts, st) = Some (ts, LNum q (rev (show_nat n) @ r))"
    using lex_number [OF d(2) q] by (simp add: c)
  with q(1) show ?thesis by blast
qed

lemma lex_FormatInt:
  "\<exists>q. num_done q \<and> (\<forall>ts. fold_opt lex_step (FormatInt i) (ts, LNone) = Some (ts, LNum q (rev (FormatInt i))))"
proof (cases "i < 0")
  case True
  have "lex_step CHR ''-'' (ts, LNone) = Some (ts, LNum NSign ''-'')" for ts
    by (simp add: lex_step_def lex_begin_def json_space_def)
  with True lex_show_nat [of "LNum NSign ''-''" "''-''" "nat (- i)"] show ?thesis by (simp add: FormatInt_def)
next
  case False
  with lex_show_nat [of LNone "[]" "nat i"] show ?thesis by (simp add: FormatInt_def)
qed

lemma renders_int: "renders n (FormatInt i) (JNumber (FormatInt i))"
proof -
  obtain q where q: "num_done q" "\<And>ts. fold_opt lex_step (FormatInt i) (ts, LNone) = Some (ts, LNum q (rev (FormatInt i)))"
    using lex_FormatInt by blast
  have "lexes (FormatInt i) [TAtom (JNumber (FormatInt i))]"
    using q lex_number_end [OF _ q(1)]
    by (auto simp: lexes_def json_tokens_def lex_end_def fold_opt_append lex_step_def [of _ "(ts, LNone)" for ts])
  then show ?thesis unfolding renders_def
    by (intro exI [of _ "[TAtom (JNumber (FormatInt i))]"]) (auto simp: parse_step_def split: option.splits)
qed

lemma renders_strings:
  assumes "\<forall>v \<in> set vs. utf8_valid v"
  shows "renders n (marshal_strings vs) (JArray (map JString vs))"
proof (rule rendersI [where toks = "TLBrack # sep_by TComma (map (\<lambda>v. [TStr (escape v)]) vs) @ [TRBrack]"])
  fix fs :: "frame list" and e
  assume e: "e = EValue \<or> e = EValueOrEnd" and d: "length fs + n < max_depth"
  have "fold_opt parse_step (sep_by TComma (map (\<lambda>v. [TStr (escape v)]) vs) @ [TRBrack]) (FArr [] # fs, EValueOrEnd) =
    parse_value (JArray (map JString vs)) fs"
    using assms by (cases "vs = []")
      (simp_all add: fold_opt_append parse_strings parse_step_def [of TRBrack] split: option.splits)
  then show "fold_opt parse_step (TLBrack # sep_by TComma (map (\<lambda>v. [TStr (escape v)]) vs) @ [TRBrack]) (fs, e) =
    parse_value (JArray (map JString vs)) fs"
    using e d by (auto simp: parse_step_def [of TLBrack] parse_open_def)
qed (simp add: lex_strings)

text \<open>The tokens and the value of one member.\<close>

definition member_renders :: "nat \<Rightarrow> string \<times> bytes \<Rightarrow> string \<times> json \<Rightarrow> bool" where
  "member_renders n m kj \<longleftrightarrow> fst m = fst kj \<and> utf8_valid (fst m) \<and> renders n (snd m) (snd kj)"

lemma lex_punct:
  "fold_opt lex_step (CHR '':'' # s) (ts, LNone) = fold_opt lex_step s (TColon # ts, LNone)"
  "fold_opt lex_step (CHR '','' # s) (ts, LNone) = fold_opt lex_step s (TComma # ts, LNone)"
  "fold_opt lex_step (CHR ''{'' # s) (ts, LNone) = fold_opt lex_step s (TLBrace # ts, LNone)"
  "fold_opt lex_step (CHR ''}'' # s) (ts, LNone) = fold_opt lex_step s (TRBrace # ts, LNone)"
  by (simp_all add: lex_step_def lex_begin_def json_space_def)

lemma member_tokens:
  assumes "member_renders n m kj"
  obtains toks where "\<And>ts c s. closer c \<Longrightarrow> fold_opt lex_step ((marshal_string (fst m) @ CHR '':'' # snd m) @ c # s) (ts, LNone) =
      fold_opt lex_step (c # s) (rev toks @ ts, LNone)"
    "\<And>ms fs e. \<lbrakk>e = EKey \<or> e = EKeyOrEnd; length fs + 1 + n < max_depth; fst kj \<notin> fst ` set ms\<rbrakk> \<Longrightarrow>
       fold_opt parse_step toks (FObj ms None # fs, e) = Some (FObj (kj # ms) None # fs, ECommaOrEnd)"
proof -
  obtain vt where vt: "\<And>ts c s. closer c \<Longrightarrow> fold_opt lex_step (snd m @ c # s) (ts, LNone) = fold_opt lex_step (c # s) (rev vt @ ts, LNone)"
    "\<And>fs e. e = EValue \<or> e = EValueOrEnd \<Longrightarrow> length fs + n < max_depth \<Longrightarrow> fold_opt parse_step vt (fs, e) = parse_value (snd kj) fs"
    using assms unfolding member_renders_def renders_def lexes_def by blast
  show thesis
  proof (rule that [of "TStr (escape (fst m)) # TColon # vt"])
    fix ts c s assume "closer c"
    then show "fold_opt lex_step ((marshal_string (fst m) @ CHR '':'' # snd m) @ c # s) (ts, LNone) =
        fold_opt lex_step (c # s) (rev (TStr (escape (fst m)) # TColon # vt) @ ts, LNone)"
      using vt(1) [of c s] by (simp add: fold_opt_append [of _ "marshal_string k" for k] lex_marshal_string lex_punct del: fold_opt.simps)
  next
    fix ms :: "(string \<times> json) list" and fs :: "frame list" and e
    assume a: "e = EKey \<or> e = EKeyOrEnd" "length fs + 1 + n < max_depth" "fst kj \<notin> fst ` set ms"
    have "filter (\<lambda>x. fst x \<noteq> fst kj) ms = ms" using a(3) by (auto simp: filter_id_conv image_iff)
    then show "fold_opt parse_step (TStr (escape (fst m)) # TColon # vt) (FObj ms None # fs, e) = Some (FObj (kj # ms) None # fs, ECommaOrEnd)"
      using a assms vt(2) [of EValue "FObj ms (Some (fst kj)) # fs"]
      by (auto simp: parse_step_def [of "TStr r" for r] parse_step_def [of TColon] member_renders_def unquote_escape
          parse_value_def put_member_def)
  qed
qed

lemma members_tokens:
  assumes "list_all2 (member_renders n) ms kjs" "ms \<noteq> []" "distinct (map fst kjs)"
  shows "\<exists>toks. (\<forall>ts c s. closer c \<longrightarrow>
      fold_opt lex_step (sep_by CHR '','' (map (\<lambda>(k, v). marshal_string k @ CHR '':'' # v) ms) @ c # s) (ts, LNone) =
      fold_opt lex_step (c # s) (rev toks @ ts, LNone)) \<and>
    (\<forall>acc fs e. e = EKey \<or> e = EKeyOrEnd \<longrightarrow> length fs + 1 + n < max_depth \<longrightarrow> fst ` set kjs \<inter> fst ` set acc = {} \<longrightarrow>
       fold_opt parse_step toks (FObj acc None # fs, e) = Some (FObj (rev kjs @ acc) None # fs, ECommaOrEnd))"
  using assms
proof (induction ms kjs rule: list_all2_induct)
  case (Cons m ms kj kjs)
  obtain t1 where t1: "\<And>ts c s. closer c \<Longrightarrow> fold_opt lex_step ((marshal_string (fst m) @ CHR '':'' # snd m) @ c # s) (ts, LNone) =
      fold_opt lex_step (c # s) (rev t1 @ ts, LNone)"
    "\<And>acc fs e. \<lbrakk>e = EKey \<or> e = EKeyOrEnd; length fs + 1 + n < max_depth; fst kj \<notin> fst ` set acc\<rbrakk> \<Longrightarrow>
       fold_opt parse_step t1 (FObj acc None # fs, e) = Some (FObj (kj # acc) None # fs, ECommaOrEnd)"
    using member_tokens [OF Cons.hyps(1)] by blast
  show ?case
  proof (cases "ms = []")
    case True
    then have "kjs = []" using Cons.hyps(2) by simp
    with True t1 show ?thesis by (intro exI [of _ t1]) (auto simp: case_prod_unfold)
  next
    case False
    obtain t2 where t2: "\<And>ts c s. closer c \<Longrightarrow>
        fold_opt lex_step (sep_by CHR '','' (map (\<lambda>(k, v). marshal_string k @ CHR '':'' # v) ms) @ c # s) (ts, LNone) =
        fold_opt lex_step (c # s) (rev t2 @ ts, LNone)"
      "\<And>acc fs e. \<lbrakk>e = EKey \<or> e = EKeyOrEnd; length fs + 1 + n < max_depth; fst ` set kjs \<inter> fst ` set acc = {}\<rbrakk> \<Longrightarrow>
         fold_opt parse_step t2 (FObj acc None # fs, e) = Some (FObj (rev kjs @ acc) None # fs, ECommaOrEnd)"
    proof -
      have "distinct (map fst kjs)" using Cons.prems(2) by simp
      with Cons.IH False that show thesis by blast
    qed
    have "fold_opt lex_step (sep_by CHR '','' (map (\<lambda>(k, v). marshal_string k @ CHR '':'' # v) (m # ms)) @ c # s) (ts, LNone) =
        fold_opt lex_step (c # s) (rev (t1 @ TComma # t2) @ ts, LNone)" if c: "closer c" for ts c s
    proof -
      have "sep_by CHR '','' (map (\<lambda>(k, v). marshal_string k @ CHR '':'' # v) (m # ms)) @ c # s =
          (marshal_string (fst m) @ CHR '':'' # snd m) @ CHR '','' # sep_by CHR '','' (map (\<lambda>(k, v). marshal_string k @ CHR '':'' # v) ms) @ c # s"
        using False by (simp add: case_prod_unfold)
      moreover have "closer CHR '',''" by (simp add: closer_def)
      ultimately show ?thesis using t2(1) [OF c, of s] by (simp only: t1(1) lex_punct) simp
    qed
    moreover have "fold_opt parse_step (t1 @ TComma # t2) (FObj acc None # fs, e) = Some (FObj (rev (kj # kjs) @ acc) None # fs, ECommaOrEnd)"
      if a: "e = EKey \<or> e = EKeyOrEnd" "length fs + 1 + n < max_depth" "fst ` set (kj # kjs) \<inter> fst ` set acc = {}" for acc fs e
      using a Cons.prems(2) t1(2) [of e fs acc] t2(2) [of EKey fs "kj # acc"]
      by (auto simp: fold_opt_append parse_step_def [of TComma])
    ultimately show ?thesis by blast
  qed
qed simp

lemma renders_object:
  assumes "list_all2 (member_renders n) ms kjs" "distinct (map fst kjs)"
  shows "renders (Suc n) (marshal_object ms) (JObject kjs)"
proof (cases "ms = []")
  case True
  with assms(1) have "kjs = []" by simp
  then show ?thesis
    by (intro rendersI [where toks = "[TLBrace, TRBrace]"])
      (auto simp: True marshal_object_def lex_step_def lex_begin_def json_space_def parse_step_def parse_open_def
        split: option.splits)
next
  case False
  obtain toks where t: "\<And>ts c s. closer c \<Longrightarrow>
      fold_opt lex_step (sep_by CHR '','' (map (\<lambda>(k, v). marshal_string k @ CHR '':'' # v) ms) @ c # s) (ts, LNone) =
      fold_opt lex_step (c # s) (rev toks @ ts, LNone)"
    "\<And>acc fs e. \<lbrakk>e = EKey \<or> e = EKeyOrEnd; length fs + 1 + n < max_depth; fst ` set kjs \<inter> fst ` set acc = {}\<rbrakk> \<Longrightarrow>
       fold_opt parse_step toks (FObj acc None # fs, e) = Some (FObj (rev kjs @ acc) None # fs, ECommaOrEnd)"
    using members_tokens [OF assms(1) False assms(2)] by blast
  show ?thesis
  proof (rule rendersI [where toks = "TLBrace # toks @ [TRBrace]"])
    fix ts show "fold_opt lex_step (marshal_object ms) (ts, LNone) = Some (rev (TLBrace # toks @ [TRBrace]) @ ts, LNone)"
      unfolding marshal_object_def using t(1) [of "CHR ''}''" "[]"] by (simp add: lex_punct closer_def del: fold_opt.simps(2))
  next
    fix fs :: "frame list" and e
    assume "e = EValue \<or> e = EValueOrEnd" "length fs + Suc n < max_depth"
    then show "fold_opt parse_step (TLBrace # toks @ [TRBrace]) (fs, e) = parse_value (JObject kjs) fs"
      using t(2) [of EKeyOrEnd fs "[]"]
      by (auto simp: parse_step_def [of TLBrace] parse_step_def [of TRBrace] parse_open_def fold_opt_append split: option.splits)
  qed
qed

subsection \<open>Reading a struct that was written\<close>

text \<open>A piece of text that the two scans step over as one.\<close>

definition plain :: "string \<Rightarrow> bool" where
  "plain p \<longleftrightarrow> (\<forall>n cur s. split_top n True cur (p @ s) = split_top n True (rev p @ cur) s) \<and>
     (\<forall>cur s. cut_colon True cur (p @ s) = cut_colon True (rev p @ cur) s)"

lemma plain_Nil [simp]: "plain []"
  by (simp add: plain_def)

lemma plain_append: "plain p \<Longrightarrow> plain q \<Longrightarrow> plain (p @ q)"
  by (simp add: plain_def)

lemma plain_char: "c \<noteq> CHR 0x22 \<Longrightarrow> c \<noteq> CHR 0x5C \<Longrightarrow> plain [c]"
  by (simp add: plain_def)

lemma plain_escaped: "plain [CHR 0x5C, c]"
  by (simp add: plain_def)

lemma plain_chars: "\<forall>c \<in> set p. c \<noteq> CHR 0x22 \<and> c \<noteq> CHR 0x5C \<Longrightarrow> plain p"
proof (induction p)
  case (Cons c p)
  then show ?case using plain_append [of "[c]" p] plain_char by simp
qed simp

lemma hex_char_plain: "n < 16 \<Longrightarrow> hex_char n \<noteq> CHR 0x22 \<and> hex_char n \<noteq> CHR 0x5C"
  using is_hex_char [of n] by (auto simp: is_hex_def)

lemma plain_hex4: "n < 65536 \<Longrightarrow> plain (hex4 n)"
proof -
  assume "n < 65536"
  then have "plain [hex_char (n div 4096), hex_char (n div 256 mod 16), hex_char (n div 16 mod 16), hex_char (n mod 16)]"
    by (intro plain_chars) (auto simp: hex_char_plain)
  then show ?thesis unfolding hex4_def
    using plain_append [OF plain_escaped [of "CHR ''u''"]] by fastforce
qed

lemma plain_escape_ascii: "plain (escape_ascii c)"
proof -
  have "(of_char c :: nat) < 65536" by (rule less_trans [OF nat_of_char_less_256]) simp
  note hex = plain_hex4 [OF this]
  show ?thesis unfolding escape_ascii_def
    by (simp only: split: if_split) (simp add: hex plain_escaped plain_char)
qed

lemma plain_escape_step: "plain (escape_step s)"
proof (cases "2 \<le> utf8_len s")
  case True
  then obtain p s' where "s = p @ s'" "length p = utf8_len s" "\<forall>c \<in> set p. 128 \<le> (of_char c :: nat)"
    by (rule utf8_len_split)
  then have "plain (take (utf8_len s) s)" by (intro plain_chars) auto
  with True show ?thesis by (auto simp: escape_step_def plain_hex4 split: nat.splits simp del: take_Suc_Cons)
next
  case False
  then show ?thesis by (auto simp: escape_step_def plain_hex4 plain_escape_ascii split: nat.splits)
qed

lemma plain_escape: "plain (escape s)"
proof (induction s rule: escape.induct)
  case (1 s)
  then show ?case by (subst escape.simps) (simp add: plain_append plain_escape_step)
qed

text \<open>The text of a value, stepped over by the scan for commas.\<close>

definition skips :: "string \<Rightarrow> bool" where
  "skips v \<longleftrightarrow> (\<forall>n cur s. split_top n False cur (v @ s) = split_top n False (rev v @ cur) s)"

lemma skips_string: "skips (marshal_string s)"
  using plain_escape [of s] by (simp add: skips_def marshal_string_def plain_def)

lemma skips_word: "\<forall>c \<in> set v. c \<notin> {CHR 0x22, CHR '','', CHR ''{'', CHR ''}'', CHR ''['', CHR '']''} \<Longrightarrow> skips v"
  by (induction v) (simp_all add: skips_def)

lemma skips_append: "skips p \<Longrightarrow> skips q \<Longrightarrow> skips (p @ q)"
  by (simp add: skips_def)

lemma skips_colon: "skips p \<Longrightarrow> skips q \<Longrightarrow> skips (p @ CHR '':'' # q)"
  by (simp add: skips_def)

lemma skips_commas:
  assumes "\<forall>x \<in> set xs. skips x" "0 < n"
  shows "split_top n False cur (sep_by CHR '','' xs @ s) = split_top n False (rev (sep_by CHR '','' xs) @ cur) s"
  using assms by (induction xs arbitrary: cur) (auto simp: skips_def)

lemma skips_brackets:
  assumes "\<forall>x \<in> set xs. skips x"
  shows "skips (CHR ''['' # sep_by CHR '','' xs @ '']'')" "skips (CHR ''{'' # sep_by CHR '','' xs @ ''}'')"
  using skips_commas [OF assms] by (simp_all add: skips_def)

lemma skips_strings: "skips (marshal_strings vs)"
  unfolding marshal_strings_def using skips_brackets(1) skips_string by auto

lemma skips_object: "\<forall>m \<in> set ms. skips (snd m) \<Longrightarrow> skips (marshal_object ms)"
  unfolding marshal_object_def by (intro skips_brackets(2)) (auto simp: skips_colon skips_string)

text \<open>A value whose text starts and ends with something other than white space.\<close>

definition tight :: "string \<Rightarrow> bool" where
  "tight v \<longleftrightarrow> v \<noteq> [] \<and> \<not> json_space (hd v) \<and> \<not> json_space (last v)"

lemma json_trim_tight: "tight v \<Longrightarrow> json_trim v = v"
proof -
  assume t: "tight v"
  then have "dropWhile json_space v = v" by (cases v) (auto simp: tight_def)
  moreover have "dropWhile json_space (rev v) = rev v"
    using t by (cases v rule: rev_cases) (auto simp: tight_def)
  ultimately show ?thesis by (simp add: json_trim_def)
qed

lemma tight_texts: "tight (marshal_string s)" "tight (marshal_strings vs)" "tight (marshal_object ms)"
  by (simp_all add: tight_def marshal_string_def marshal_strings_def marshal_object_def json_space_def)

lemma split_members:
  assumes "\<forall>x \<in> set xs. skips x" "xs \<noteq> []"
  shows "split_top 0 False [] (sep_by CHR '','' xs @ ''}'') = xs"
  using assms by (induction xs) (auto simp: skips_def)

lemma cut_member_text:
  assumes "utf8_valid k" "tight v"
  shows "cut_member (marshal_string k @ CHR '':'' # v) = Some (k, v)"
proof -
  have "cut_colon False [] (marshal_string k @ CHR '':'' # v) = Some (marshal_string k, v)"
    using plain_escape [of k] by (simp add: marshal_string_def plain_def)
  moreover have "json_Unmarshal (marshal_string k) = Some (JString k)"
    using renders_Unmarshal [OF renders_string [OF assms(1), of 0]] by (simp add: max_depth_def)
  ultimately show ?thesis using json_trim_tight [OF assms(2)] by (simp add: cut_member_def)
qed

lemma skips_FormatInt: "skips (FormatInt i)"
proof (rule skips_word)
  have "c \<notin> {CHR 0x22, CHR '','', CHR ''{'', CHR ''}'', CHR ''['', CHR '']''}" if "is_digit c \<or> c = CHR ''-''" for c
    using that digit_not_json [of c] by auto
  then show "\<forall>c \<in> set (FormatInt i). c \<notin> {CHR 0x22, CHR '','', CHR ''{'', CHR ''}'', CHR ''['', CHR '']''}"
    using FormatInt_chars [of i] by (auto simp: list_all_iff)
qed

lemma tight_FormatInt: "tight (FormatInt i)"
proof -
  have "\<forall>c \<in> set (FormatInt i). \<not> json_space c"
    using FormatInt_chars [of i] digit_not_json by (auto simp: list_all_iff json_space_def)
  moreover have "FormatInt i \<noteq> []" by simp
  ultimately show ?thesis unfolding tight_def by (metis hd_in_set last_in_set)
qed

lemma object_members_text:
  assumes "\<forall>m \<in> set ms. utf8_valid (fst m) \<and> skips (snd m) \<and> tight (snd m)"
  shows "object_members (marshal_object ms) = ms"
proof (cases "ms = []")
  case True
  have "cut_member [] = None" by (simp add: cut_member_def)
  then show ?thesis by (simp add: True object_members_def marshal_object_def json_space_def List.map_filter_def)
next
  case False
  let ?texts = "map (\<lambda>(k, v). marshal_string k @ CHR '':'' # v) ms"
  have "\<forall>x \<in> set ?texts. skips x" using assms by (auto simp: skips_colon skips_string)
  then have s: "split_top 0 False [] (sep_by CHR '','' ?texts @ ''}'') = ?texts"
    using False by (intro split_members) simp_all
  have "List.map_filter cut_member ?texts = ms"
    using assms by (induction ms) (auto simp: List.map_filter_def cut_member_text)
  then show ?thesis using s by (simp add: object_members_def marshal_object_def json_space_def)
qed

text \<open>Reading back what was written is setting the members one after the other.\<close>

lemma Unmarshal_struct_text:
  assumes "list_all2 (member_renders n) ms kjs" "distinct (map fst kjs)" "Suc n < max_depth"
    "\<forall>m \<in> set ms. skips (snd m) \<and> tight (snd m)"
  shows "Unmarshal_struct fields zero (marshal_object ms) = fold_opt (set_member fields) ms zero"
proof -
  have "json_Unmarshal (marshal_object ms) = Some (JObject kjs)"
    using renders_Unmarshal [OF renders_object [OF assms(1,2)] assms(3)] .
  moreover have "\<forall>m \<in> set ms. utf8_valid (fst m)"
    using assms(1) by (induction rule: list_all2_induct) (auto simp: member_renders_def)
  then have "object_members (marshal_object ms) = ms" using assms(4) by (intro object_members_text) auto
  ultimately show ?thesis by (simp add: Unmarshal_struct_def)
qed

lemma set_member_renders:
  assumes "find (\<lambda>f. fold_key (fst f) = fold_key k) fields = Some (name, fld)" "renders n v j" "n < max_depth"
  shows "set_member fields (k, v) r = fld v j r"
  using assms renders_Unmarshal [OF assms(2,3)] by (simp add: set_member_def)

subsection \<open>The decoder takes the whole object\<close>

lemma lex_begin_grows: "lex_begin ts c = Some (ts', st) \<Longrightarrow> \<exists>new. ts' = new @ ts"
  by (auto simp: lex_begin_def split: if_splits)

lemma lex_step_grows:
  assumes "lex_step c (ts, st) = Some (ts', st')"
  shows "\<exists>new. ts' = new @ ts"
proof (cases st)
  case (LNum q r)
  with assms show ?thesis
    by (auto simp: lex_step_def split: option.splits if_splits dest!: lex_begin_grows)
qed (use assms in \<open>auto simp: lex_step_def split: if_splits list.splits dest: lex_begin_grows\<close>)

lemma lex_grows: "fold_opt lex_step s (ts, st) = Some (ts', st') \<Longrightarrow> \<exists>new. ts' = new @ ts"
proof (induction s arbitrary: ts st)
  case (Cons c s)
  then obtain ts1 st1 where "lex_step c (ts, st) = Some (ts1, st1)" "fold_opt lex_step s (ts1, st1) = Some (ts', st')"
    by (auto split: option.splits)
  with lex_step_grows [OF this(1)] Cons.IH [OF this(2)] show ?case by auto
qed simp

text \<open>A closing brace ends a token of its own, or the text is no JSON.\<close>

lemma lex_brace:
  assumes "lex_step CHR ''}'' (ts, st) = Some (ts', st')" "lex_end (ts', st') = Some toks"
  shows "length ts < length ts'"
proof (cases st)
  case (LNum q r)
  then have "num_step q CHR ''}'' = None"
    by (cases q) (simp_all add: num_step_def is_digit_def)
  with assms LNum show ?thesis by (auto simp: lex_step_def lex_begin_def json_space_def split: if_splits)
qed (use assms in \<open>auto simp: lex_step_def lex_begin_def json_space_def hex_digit_def lex_end_def hex_val_def
      split: if_splits list.splits\<close>)

definition open_or_done :: "parse_state \<Rightarrow> bool" where
  "open_or_done s \<longleftrightarrow> fst s \<noteq> [] \<or> (\<exists>v. snd s = EDone v)"

lemma parse_done: "parse_step t (fs, EDone v) = None"
  by (cases t) (simp_all add: parse_step_def)

lemma parse_value_open: "parse_value v fs = Some s \<Longrightarrow> open_or_done s \<and> (fs \<noteq> [] \<longrightarrow> fst s \<noteq> [] \<and> snd s = ECommaOrEnd)"
  by (auto simp: parse_value_def open_or_done_def split: list.splits frame.splits option.splits)

lemma parse_step_open:
  assumes "open_or_done (fs, e)" "parse_step t (fs, e) = Some s"
  shows "open_or_done s"
  using assms parse_value_open
  by (cases t) (auto simp: parse_step_def open_or_done_def parse_open_def split: if_splits list.splits frame.splits option.splits)

lemma parse_open_fold: "open_or_done s \<Longrightarrow> fold_opt parse_step ts s = Some s' \<Longrightarrow> open_or_done s'"
proof (induction ts arbitrary: s)
  case (Cons t ts)
  then obtain s1 where s1: "parse_step t s = Some s1" "fold_opt parse_step ts s1 = Some s'" by (auto split: option.splits)
  then have "open_or_done s1" using parse_step_open [of "fst s" "snd s" t s1] Cons.prems(1) by simp
  with Cons.IH s1(2) show ?case by blast
qed simp

lemma parse_end_Some: "parse_end s = Some v \<longleftrightarrow> snd s = EDone v"
  by (auto simp: parse_end_def split: expect.splits)

text \<open>An object is no proper prefix of a longer JSON text that ends in a brace.\<close>

lemma object_prefix:
  assumes p: "json_Valid (CHR ''{'' # p)" and b: "json_Valid (CHR ''{'' # p @ q @ ''}'')"
  shows False
proof -
  have start: "fold_opt lex_step (CHR ''{'' # s) ([], LNone) = fold_opt lex_step s ([TLBrace], LNone)" for s
    by (simp add: lex_step_def lex_begin_def json_space_def)
  obtain ts st toks fs v where lp: "fold_opt lex_step p ([TLBrace], LNone) = Some (ts, st)" "lex_end (ts, st) = Some toks"
    and pp: "fold_opt parse_step toks ([], EValue) = Some (fs, EDone v)"
    using p unfolding json_Valid_def json_Unmarshal_def json_tokens_def start
    by (auto simp: bind_eq_Some_conv parse_end_Some)
  obtain ts1 st1 ts2 st2 toks2 s2 where lb: "fold_opt lex_step q (ts, st) = Some (ts1, st1)"
    "lex_step CHR ''}'' (ts1, st1) = Some (ts2, st2)" "lex_end (ts2, st2) = Some toks2"
    and pb: "fold_opt parse_step toks2 ([], EValue) = Some s2"
    using b lp(1) unfolding json_Valid_def json_Unmarshal_def json_tokens_def start
    by (auto simp: bind_eq_Some_conv fold_opt_append split: option.splits)
  obtain new where ts: "ts = new @ [TLBrace]" using lex_grows [OF lp(1)] by blast
  obtain new1 where ts1: "ts1 = new1 @ ts" using lex_grows [OF lb(1)] by blast
  obtain new2 where ts2: "ts2 = new2 @ ts1" using lex_step_grows [OF lb(2)] by blast
  have more: "new2 \<noteq> []" using lex_brace [OF lb(2,3)] ts2 by auto
  obtain rest where rest: "toks2 = rev ts @ rest" "rest \<noteq> []"
    using lb(3) more unfolding ts2 ts1 by (auto simp: lex_end_def split: lex_state.splits if_splits)
  have init: "parse_step TLBrace ([], EValue) = Some ([FObj [] None], EKeyOrEnd)"
    by (simp add: parse_step_def parse_open_def max_depth_def)
  show False
  proof (cases "toks = rev ts")
    case True
    then have "fold_opt parse_step rest (fs, EDone v) = Some s2" using pp pb rest(1) by (simp add: fold_opt_append)
    with rest(2) show False by (cases rest) (simp_all add: parse_done)
  next
    case False
    then obtain x where toks: "toks = rev ts @ [TAtom x]"
      using lp(2) by (auto simp: lex_end_def split: lex_state.splits if_splits)
    then obtain s where s: "fold_opt parse_step (rev ts) ([], EValue) = Some s" "parse_step (TAtom x) s = Some (fs, EDone v)"
      using pp by (auto simp: fold_opt_append bind_eq_Some_conv split: option.splits)
    have "open_or_done s"
      by (rule parse_open_fold [of "([FObj [] None], EKeyOrEnd)" "rev new"]) (use s(1) ts init in \<open>simp_all add: open_or_done_def\<close>)
    then show False using s(2) parse_value_open [of x "fst s"]
      by (cases s) (auto simp: open_or_done_def parse_step_def split: if_splits)
  qed
qed

lemma first_value_object:
  assumes "json_Valid b" "b = CHR ''{'' # s @ ''}''"
  shows "first_value b = Some b"
proof -
  have empty: "\<not> json_Valid []"
    by (simp add: json_Valid_def json_Unmarshal_def json_tokens_def lex_end_def parse_end_def)
  have no: "\<not> json_Valid (take n b)" if "n < length b" for n
  proof (cases n)
    case (Suc m)
    have "b = CHR ''{'' # take m s @ drop m s @ ''}''" using assms(2) by simp
    then have "\<not> json_Valid (CHR ''{'' # take m s)" using object_prefix assms(1) by metis
    moreover have "take n b = CHR ''{'' # take m s" using that Suc assms(2) by simp
    ultimately show ?thesis by simp
  qed (simp add: empty)
  have "find json_Valid (map (\<lambda>n. take n b) [0..<length b]) = None"
    using no by (auto simp: find_None_iff)
  moreover have "find P (xs @ ys) = (case find P xs of None \<Rightarrow> find P ys | Some x \<Rightarrow> Some x)" for P and xs ys :: "bytes list"
    by (induction xs) auto
  ultimately show ?thesis using assms(1) by (simp add: first_value_def)
qed

lemma marshal_object_ends: "\<exists>s. marshal_object ms = CHR ''{'' # s @ ''}''"
  by (simp add: marshal_object_def)

text \<open>\<^verbatim>\<open>Decode\<close> reads an object that \<^verbatim>\<open>Marshal\<close> wrote as \<^verbatim>\<open>Unmarshal\<close> does.\<close>

lemma Decode_object:
  assumes "json_Valid (marshal_object ms)"
  shows "Decode_struct fields zero (marshal_object ms) = Unmarshal_struct fields zero (marshal_object ms)"
  using first_value_object [OF assms] marshal_object_ends [of ms] by (auto simp: Decode_struct_def)

end
