(* ===== verification/Store.thy ===== *)
theory Store
  imports Codecs
begin

text \<open>
  The persistent state of the gateway and the programs that run on it. The tables are the row types
  of \<^verbatim>\<open>internal/db/models.go\<close> (columns and constraints from \<^verbatim>\<open>migrations\<close>); a row type is a record,
  a table is the list of its rows. PostgreSQL itself is not part of the repository, so what it decides
  alone is a parameter, the record \<open>postgres\<close>: which statement fails, which id \<^verbatim>\<open>uuidv7()\<close> gives,
  which id River gives a job, which text and which JSON it accepts, and its full-text search.

  A store program takes the world and returns an error or a value, and the world after it. One
  statement is one \<open>exec\<close>; \<open>inTx\<close> is the code's \<^verbatim>\<open>Begin\<close> / \<^verbatim>\<open>defer Rollback\<close> / \<^verbatim>\<open>Commit\<close> shape.
\<close>

subsection \<open>Rows\<close>

record source =
  src_id :: uuid
  src_tenant :: uuid
  src_name :: string
  src_provider_type :: string
  src_endpoint_path :: string
  src_signing_secret :: "bytes option"
  src_key_version :: "int option"
  src_verification_config :: bytes
  src_dedupe_enabled :: bool
  src_dedupe_strategy :: "string option"
  src_dedupe_field_path :: "string option"
  src_dedupe_window :: int
  src_paused_at :: "time option"
  src_created_at :: time
  src_updated_at :: time

record destination =
  dst_id :: uuid
  dst_tenant :: uuid
  dst_name :: string
  dst_url :: string
  dst_auth_config :: bytes
  dst_timeout_ms :: int
  dst_rate_limit :: "int option"
  dst_max_attempts :: int
  dst_backoff_base :: int
  dst_backoff_max :: int
  dst_paused_at :: "time option"
  dst_created_at :: time
  dst_updated_at :: time

record route =
  rt_id :: uuid
  rt_tenant :: uuid
  rt_source :: uuid
  rt_destination :: uuid
  rt_enabled :: bool
  rt_created_at :: time

record event =
  ev_id :: uuid
  ev_tenant :: uuid
  ev_source :: uuid
  ev_raw_headers :: bytes
  ev_raw_body :: bytes
  ev_content_type :: "string option"
  ev_parsed_body :: "bytes option"
  ev_dedupe_key :: "string option"
  ev_verified :: bool
  ev_received_at :: time
  ev_dropped_reason :: "string option"

record dedup_entry =
  dd_source :: uuid
  dd_key :: string
  dd_event :: uuid
  dd_expires_at :: time

record delivery =
  dl_id :: uuid
  dl_tenant :: uuid
  dl_event :: uuid
  dl_destination :: uuid
  dl_river_job :: "int option"
  dl_status :: string
  dl_attempt_count :: int
  dl_next_attempt_at :: "time option"
  dl_last_attempted_at :: "time option"
  dl_dead_lettered_at :: "time option"
  dl_created_at :: time
  dl_updated_at :: time

record delivery_attempt =
  at_id :: uuid
  at_delivery :: uuid
  at_number :: int
  at_request_headers :: "bytes option"
  at_status_code :: "int option"
  at_response_headers :: "bytes option"
  at_response_body :: "string option"
  at_error :: "string option"
  at_duration_ms :: "int option"
  at_attempted_at :: time

record rule =
  ru_id :: uuid
  ru_tenant :: uuid
  ru_source :: uuid
  ru_name :: string
  ru_expression :: string
  ru_action :: string
  ru_route_dests :: "uuid list"
  ru_priority :: int
  ru_enabled :: bool
  ru_created_at :: time
  ru_updated_at :: time

record replay =
  rp_id :: uuid
  rp_tenant :: uuid
  rp_requested_by :: "uuid option"
  rp_filter :: bytes
  rp_status :: string
  rp_matched :: "int option"
  rp_requeued :: "int option"
  rp_created_at :: time
  rp_completed_at :: "time option"

record alert_state =
  as_destination :: uuid
  as_condition :: string
  as_last_fired_at :: time

record api_key =
  ak_id :: uuid
  ak_tenant :: uuid
  ak_name :: string
  ak_prefix :: string
  ak_hash :: string
  ak_scopes :: "string list"
  ak_created_by :: "uuid option"
  ak_last_used_at :: "time option"
  ak_revoked_at :: "time option"
  ak_created_at :: time

record instance_setting =
  is_key :: string
  is_value :: bytes
  is_updated_at :: time

text \<open>The arguments of the River jobs (\<^verbatim>\<open>queue.DeliveryArgs\<close>, \<^verbatim>\<open>queue.ReplayArgs\<close>) and a queued job.\<close>

record delivery_args =
  da_delivery_id :: string
  da_backoff_base :: int
  da_backoff_max :: int

datatype job_args = DeliveryArgs delivery_args | ReplayArgs string

record river_job =
  jb_id :: int
  jb_args :: job_args
  jb_max_attempts :: int

record database =
  db_sources :: "source list"
  db_destinations :: "destination list"
  db_routes :: "route list"
  db_events :: "event list"
  db_dedup :: "dedup_entry list"
  db_deliveries :: "delivery list"
  db_attempts :: "delivery_attempt list"
  db_rules :: "rule list"
  db_replays :: "replay list"
  db_alerts :: "alert_state list"
  db_api_keys :: "api_key list"
  db_settings :: "instance_setting list"
  db_jobs :: "river_job list"

definition empty_db :: database where
  "empty_db = \<lparr>db_sources = [], db_destinations = [], db_routes = [], db_events = [], db_dedup = [],
     db_deliveries = [], db_attempts = [], db_rules = [], db_replays = [], db_alerts = [],
     db_api_keys = [], db_settings = [], db_jobs = []\<rparr>"

subsection \<open>PostgreSQL and the world\<close>

datatype db_error = NoRows | UniqueViolation | ForeignKeyViolation | CheckViolation | DataError
  | Unavailable

record postgres =
  pg_fault :: "nat \<Rightarrow> bool"
  pg_uuid :: "nat \<Rightarrow> uuid"
  pg_job_id :: "nat \<Rightarrow> int"
  pg_text :: "string \<Rightarrow> bool"
  pg_jsonb :: "bytes \<Rightarrow> bytes option"
  pg_search :: "event \<Rightarrow> string \<Rightarrow> bool"

record world =
  w_pg :: postgres
  w_db :: database
  w_now :: time
  w_step :: nat

type_synonym 'a dbm = "world \<Rightarrow> (db_error + 'a) \<times> world"

definition tick :: "world \<Rightarrow> world" where
  "tick w = w\<lparr>w_step := Suc (w_step w)\<rparr>"

lemma tick_simps [simp]:
  "w_pg (tick w) = w_pg w" "w_db (tick w) = w_db w" "w_now (tick w) = w_now w"
  "w_step (tick w) = Suc (w_step w)"
  by (simp_all add: tick_def)

text \<open>One statement: it fails when the connection does, else it sees the database, the
  transaction's \<^verbatim>\<open>now()\<close> and a generated id.\<close>

definition exec :: "(postgres \<Rightarrow> time \<Rightarrow> nat \<Rightarrow> database \<Rightarrow> db_error + ('a \<times> database)) \<Rightarrow> 'a dbm" where
  "exec f w =
     (if pg_fault (w_pg w) (w_step w) then (Inl Unavailable, tick w)
      else (case f (w_pg w) (w_now w) (w_step w) (w_db w) of
              Inl e \<Rightarrow> (Inl e, tick w)
            | Inr (x, d) \<Rightarrow> (Inr x, (tick w)\<lparr>w_db := d\<rparr>)))"

text \<open>A statement that only reads.\<close>

definition query :: "(database \<Rightarrow> db_error + 'a) \<Rightarrow> 'a dbm" where
  "query f = exec (\<lambda>pg now n d. case f d of Inl e \<Rightarrow> Inl e | Inr x \<Rightarrow> Inr (x, d))"

text \<open>A statement that only reads, with a text argument: text with a NUL or invalid UTF-8 is an error.\<close>

definition text_query :: "string \<Rightarrow> (database \<Rightarrow> db_error + 'a) \<Rightarrow> 'a dbm" where
  "text_query arg f = exec (\<lambda>pg now n d. if \<not> pg_text pg arg then Inl DataError
     else case f d of Inl e \<Rightarrow> Inl e | Inr x \<Rightarrow> Inr (x, d))"

definition ret :: "'a \<Rightarrow> 'a dbm" where
  "ret x w = (Inr x, w)"

definition throw :: "db_error \<Rightarrow> 'a dbm" where
  "throw e w = (Inl e, w)"

text \<open>\<^verbatim>\<open>x, err := m; if err != nil { return err }\<close>\<close>

definition bind :: "'a dbm \<Rightarrow> ('a \<Rightarrow> 'b dbm) \<Rightarrow> 'b dbm" where
  "bind m f w = (case m w of (Inl e, w') \<Rightarrow> (Inl e, w') | (Inr x, w') \<Rightarrow> f x w')"

text \<open>
  \<^verbatim>\<open>tx, err := pool.Begin(ctx); defer tx.Rollback(ctx); ...; tx.Commit(ctx)\<close>: an error of the body
  or of the commit leaves the database as it was at \<^verbatim>\<open>Begin\<close>.
\<close>

definition inTx :: "'a dbm \<Rightarrow> 'a dbm" where
  "inTx m w =
     (if pg_fault (w_pg w) (w_step w) then (Inl Unavailable, tick w)
      else (case m (tick w) of
              (Inl e, w1) \<Rightarrow> (Inl e, w1\<lparr>w_db := w_db w\<rparr>)
            | (Inr x, w1) \<Rightarrow>
                (if pg_fault (w_pg w1) (w_step w1) then (Inl Unavailable, (tick w1)\<lparr>w_db := w_db w\<rparr>)
                 else (Inr x, tick w1))))"

primrec for_each :: "('a \<Rightarrow> unit dbm) \<Rightarrow> 'a list \<Rightarrow> unit dbm" where
  "for_each f [] = ret ()"
| "for_each f (x # xs) = bind (f x) (\<lambda>_. for_each f xs)"

subsection \<open>Keeping an invariant\<close>

text \<open>
  \<open>keeps I m\<close>: whatever the program returns, an invariant of the database that held before it holds
  after it. One rule per way of building programs, so that a component's proof is about its statements.
\<close>

definition keeps :: "(database \<Rightarrow> bool) \<Rightarrow> 'a dbm \<Rightarrow> bool" where
  "keeps I m \<longleftrightarrow> (\<forall>w. I (w_db w) \<longrightarrow> I (w_db (snd (m w))))"

lemma keepsD: "keeps I m \<Longrightarrow> I (w_db w) \<Longrightarrow> m w = (r, w') \<Longrightarrow> I (w_db w')"
  by (metis keeps_def snd_conv)

lemma keeps_exec:
  assumes "\<And>pg now n d x d'. I d \<Longrightarrow> f pg now n d = Inr (x, d') \<Longrightarrow> I d'"
  shows "keeps I (exec f)"
  unfolding keeps_def
proof (intro allI impI)
  fix w :: world
  assume "I (w_db w)"
  then show "I (w_db (snd (exec f w)))"
    using assms [of "w_db w" "w_pg w" "w_now w" "w_step w"]
    by (auto simp: exec_def split: sum.splits)
qed

lemma keeps_query [keeps_intros]: "keeps I (query f)"
  unfolding query_def by (rule keeps_exec) (auto split: sum.splits)

lemma keeps_text_query [keeps_intros]: "keeps I (text_query arg f)"
  by (auto simp: keeps_def text_query_def exec_def split: sum.splits)

lemma keeps_ret [keeps_intros]: "keeps I (ret x)"
  by (simp add: keeps_def ret_def)

lemma keeps_throw [keeps_intros]: "keeps I (throw e)"
  by (simp add: keeps_def throw_def)

lemma keeps_bind [keeps_intros]: "keeps I m \<Longrightarrow> (\<And>x. keeps I (f x)) \<Longrightarrow> keeps I (bind m f)"
  unfolding keeps_def bind_def
  by (fastforce split: prod.splits sum.splits)

lemma keeps_inTx [keeps_intros]: "keeps I m \<Longrightarrow> keeps I (inTx m)"
  unfolding keeps_def inTx_def
  by (auto split: prod.splits sum.splits) (metis snd_conv tick_simps(2))+

lemma keeps_for_each [keeps_intros]: "(\<And>x. keeps I (f x)) \<Longrightarrow> keeps I (for_each f xs)"
  by (induction xs) (auto intro!: keeps_intros)

lemma keeps_if [keeps_intros]: "(b \<Longrightarrow> keeps I m) \<Longrightarrow> (\<not> b \<Longrightarrow> keeps I m') \<Longrightarrow> keeps I (if b then m else m')"
  by simp

subsection \<open>What a program leaves alone\<close>

text \<open>Statements move neither the clock nor PostgreSQL's parameters.\<close>

definition steady :: "'a dbm \<Rightarrow> bool" where
  "steady m \<longleftrightarrow> (\<forall>w. w_pg (snd (m w)) = w_pg w \<and> w_now (snd (m w)) = w_now w)"

lemma steadyD: "steady m \<Longrightarrow> m w = (r, w') \<Longrightarrow> w_pg w' = w_pg w \<and> w_now w' = w_now w"
  by (metis steady_def snd_conv)

lemma steady_exec [keeps_intros]: "steady (exec f)"
  by (auto simp: steady_def exec_def split: sum.splits)

lemma steady_query [keeps_intros]: "steady (query f)"
  unfolding query_def by (rule steady_exec)

lemma steady_text_query [keeps_intros]: "steady (text_query arg f)"
  unfolding text_query_def by (rule steady_exec)

lemma steady_ret [keeps_intros]: "steady (ret x)"
  by (simp add: steady_def ret_def)

lemma steady_bind [keeps_intros]: "steady m \<Longrightarrow> (\<And>x. steady (f x)) \<Longrightarrow> steady (bind m f)"
  unfolding steady_def bind_def
  by (auto split: prod.splits sum.splits) (metis snd_conv)+

lemma steady_inTx [keeps_intros]: "steady m \<Longrightarrow> steady (inTx m)"
  unfolding steady_def inTx_def
  by (auto split: prod.splits sum.splits) (metis snd_conv tick_simps(1,3))+

lemma steady_for_each [keeps_intros]: "(\<And>x. steady (f x)) \<Longrightarrow> steady (for_each f xs)"
  by (induction xs) (auto intro!: keeps_intros)

subsection \<open>Results of the combinators\<close>

lemma bind_Inr: "bind m f w = (Inr y, w') \<longleftrightarrow> (\<exists>x w1. m w = (Inr x, w1) \<and> f x w1 = (Inr y, w'))"
  by (auto simp: bind_def split: prod.splits sum.splits)

lemma query_Inr: "query f w = (Inr x, w') \<longleftrightarrow> \<not> pg_fault (w_pg w) (w_step w) \<and> f (w_db w) = Inr x \<and> w' = tick w"
  by (auto simp: query_def exec_def tick_def split: sum.splits)

lemma query_db: "query f w = (r, w') \<Longrightarrow> w_db w' = w_db w"
  by (auto simp: query_def exec_def split: sum.splits if_splits)

lemma text_query_Inr: "text_query arg f w = (Inr x, w') \<longleftrightarrow>
    \<not> pg_fault (w_pg w) (w_step w) \<and> pg_text (w_pg w) arg \<and> f (w_db w) = Inr x \<and> w' = tick w"
  by (auto simp: text_query_def exec_def tick_def split: sum.splits)

lemma text_query_db: "text_query arg f w = (r, w') \<Longrightarrow> w_db w' = w_db w"
  by (auto simp: text_query_def exec_def split: sum.splits if_splits)

lemma exec_Inr:
  "exec f w = (Inr x, w') \<longleftrightarrow> \<not> pg_fault (w_pg w) (w_step w) \<and>
     (\<exists>d. f (w_pg w) (w_now w) (w_step w) (w_db w) = Inr (x, d) \<and> w' = (tick w)\<lparr>w_db := d\<rparr>)"
  by (auto simp: exec_def split: sum.splits)

lemma exec_Inl_db: "exec f w = (Inl e, w') \<Longrightarrow> w_db w' = w_db w"
  by (auto simp: exec_def split: sum.splits if_splits)

lemma inTx_Inr:
  "inTx m w = (Inr x, w') \<longleftrightarrow> \<not> pg_fault (w_pg w) (w_step w) \<and>
     (\<exists>w1. m (tick w) = (Inr x, w1) \<and> \<not> pg_fault (w_pg w1) (w_step w1) \<and> w' = tick w1)"
  by (auto simp: inTx_def split: sum.splits prod.splits)

text \<open>Atomicity: a transaction that fails changes nothing.\<close>

lemma inTx_Inl_db: "inTx m w = (Inl e, w') \<Longrightarrow> w_db w' = w_db w"
  by (auto simp: inTx_def split: sum.splits prod.splits if_splits)

end
