(* ===== verification/Queries.thy ===== *)
theory Queries
  imports Store
begin

text \<open>
  The SQL statements of \<^verbatim>\<open>internal/db/*.sql.go\<close>, one definition per method of \<^verbatim>\<open>Queries\<close>, with the
  constraints of the tables they write: primary and unique keys, foreign keys (and their cascades), and
  the CHECK constraints. A \<^verbatim>\<open>:one\<close> query that finds no row is the error \<open>NoRows\<close> (\<^verbatim>\<open>pgx.ErrNoRows\<close>).
  Where a statement gives no order the rows come in table order; \<^verbatim>\<open>ORDER BY\<close> is a stable sort of it.
\<close>

subsection \<open>Shared shapes of statements\<close>

text \<open>\<^verbatim>\<open>row.Scan\<close> on the first row of a result.\<close>

definition one_row :: "'a list \<Rightarrow> db_error + 'a" where
  "one_row rows = (case rows of [] \<Rightarrow> Inl NoRows | r # _ \<Rightarrow> Inr r)"

lemma one_row_in: "one_row rows = Inr r \<Longrightarrow> r \<in> set rows"
  by (auto simp: one_row_def split: list.splits)

lemma one_row_Inr: "one_row (filter P xs) = Inr r \<Longrightarrow> r \<in> set xs \<and> P r"
  by (auto dest: one_row_in)

lemma one_row_NoRows: "one_row rows = Inl e \<longleftrightarrow> e = NoRows \<and> rows = []"
  by (auto simp: one_row_def split: list.splits)

lemma one_row_Nil [simp]: "one_row [] = Inl NoRows"
  by (simp add: one_row_def)

lemma one_row_Cons [simp]: "one_row (x # xs) = Inr x"
  by (simp add: one_row_def)

definition jsonb_opt :: "postgres \<Rightarrow> bytes option \<Rightarrow> bytes option option" where
  "jsonb_opt pg v = (case v of None \<Rightarrow> Some None | Some b \<Rightarrow> map_option Some (pg_jsonb pg b))"

definition text_opt :: "postgres \<Rightarrow> string option \<Rightarrow> bool" where
  "text_opt pg v = (case v of None \<Rightarrow> True | Some s \<Rightarrow> pg_text pg s)"

subsection \<open>Events\<close>

definition GetEvent :: "uuid \<Rightarrow> uuid \<Rightarrow> event dbm" where
  "GetEvent eid tenant =
     query (\<lambda>d. one_row (filter (\<lambda>e. ev_id e = eid \<and> ev_tenant e = tenant) (db_events d)))"

definition GetEventForDelivery :: "uuid \<Rightarrow> (bytes \<times> string option) dbm" where
  "GetEventForDelivery eid =
     query (\<lambda>d. one_row (map (\<lambda>e. (ev_raw_body e, ev_content_type e))
                          (filter (\<lambda>e. ev_id e = eid) (db_events d))))"

record tunnel_event_row =
  te_id :: uuid
  te_raw_headers :: bytes
  te_raw_body :: bytes
  te_content_type :: "string option"
  te_source_name :: string

definition GetEventForTunnelDelivery :: "uuid \<Rightarrow> tunnel_event_row dbm" where
  "GetEventForTunnelDelivery eid =
     query (\<lambda>d. one_row
       [\<lparr>te_id = ev_id e, te_raw_headers = ev_raw_headers e, te_raw_body = ev_raw_body e,
          te_content_type = ev_content_type e, te_source_name = src_name s\<rparr>.
        e \<leftarrow> db_events d, s \<leftarrow> db_sources d, src_id s = ev_source e \<and> ev_id e = eid])"

record insert_event_params =
  ie_tenant :: uuid
  ie_source :: uuid
  ie_raw_headers :: bytes
  ie_raw_body :: bytes
  ie_content_type :: "string option"
  ie_parsed_body :: "bytes option"
  ie_dedupe_key :: "string option"
  ie_verified :: bool

record insert_event_row =
  ier_id :: uuid
  ier_received_at :: time

definition InsertEvent :: "insert_event_params \<Rightarrow> insert_event_row dbm" where
  "InsertEvent p = exec (\<lambda>pg now n d.
     let u = pg_uuid pg n in
     case (pg_jsonb pg (ie_raw_headers p), jsonb_opt pg (ie_parsed_body p)) of
       (Some hs, Some pb) \<Rightarrow>
         (if \<not> text_opt pg (ie_content_type p) \<or> \<not> text_opt pg (ie_dedupe_key p) then Inl DataError
          else if u \<in> ev_id ` set (db_events d) then Inl UniqueViolation
          else if ie_source p \<notin> src_id ` set (db_sources d) then Inl ForeignKeyViolation
          else Inr (\<lparr>ier_id = u, ier_received_at = now\<rparr>,
                 d\<lparr>db_events := db_events d @
                     [\<lparr>ev_id = u, ev_tenant = ie_tenant p, ev_source = ie_source p,
                       ev_raw_headers = hs, ev_raw_body = ie_raw_body p,
                       ev_content_type = ie_content_type p, ev_parsed_body = pb,
                       ev_dedupe_key = ie_dedupe_key p, ev_verified = ie_verified p,
                       ev_received_at = now, ev_dropped_reason = None\<rparr>]\<rparr>))
     | _ \<Rightarrow> Inl DataError)"

definition ListEventDeliveries :: "uuid \<Rightarrow> uuid \<Rightarrow> delivery list dbm" where
  "ListEventDeliveries eid tenant =
     query (\<lambda>d. Inr (sort_key dl_created_at
       (filter (\<lambda>x. dl_event x = eid \<and> dl_tenant x = tenant) (db_deliveries d))))"

definition ListEventDeliveryAttempts :: "uuid \<Rightarrow> uuid \<Rightarrow> delivery_attempt list dbm" where
  "ListEventDeliveryAttempts eid tenant =
     query (\<lambda>d. Inr (sort_key at_delivery (sort_key at_number
       [a. a \<leftarrow> db_attempts d, x \<leftarrow> db_deliveries d,
           dl_id x = at_delivery a \<and> dl_event x = eid \<and> dl_tenant x = tenant])))"

text \<open>The filters that \<^verbatim>\<open>ListEvents\<close> and \<^verbatim>\<open>ListEventsForReplay\<close> share; a NULL argument is no filter.\<close>

record event_filter =
  ef_tenant :: uuid
  ef_source :: "uuid option"
  ef_verified :: "bool option"
  ef_after :: "time option"
  ef_before :: "time option"
  ef_search :: "string option"
  ef_delivery_status :: "string option"

definition event_matches :: "postgres \<Rightarrow> database \<Rightarrow> event_filter \<Rightarrow> event \<Rightarrow> bool" where
  "event_matches pg d f e \<longleftrightarrow>
     ev_tenant e = ef_tenant f \<and>
     (case ef_source f of None \<Rightarrow> True | Some s \<Rightarrow> ev_source e = s) \<and>
     (case ef_verified f of None \<Rightarrow> True | Some v \<Rightarrow> ev_verified e = v) \<and>
     (case ef_after f of None \<Rightarrow> True | Some t \<Rightarrow> t \<le> ev_received_at e) \<and>
     (case ef_before f of None \<Rightarrow> True | Some t \<Rightarrow> ev_received_at e \<le> t) \<and>
     (case ef_search f of None \<Rightarrow> True | Some q \<Rightarrow> pg_search pg e q) \<and>
     (case ef_delivery_status f of None \<Rightarrow> True
      | Some st \<Rightarrow> list_ex (\<lambda>x. dl_event x = ev_id e \<and> dl_status x = st) (db_deliveries d))"

definition filter_texts :: "postgres \<Rightarrow> event_filter \<Rightarrow> bool" where
  "filter_texts pg f \<longleftrightarrow> text_opt pg (ef_search f) \<and> text_opt pg (ef_delivery_status f)"

definition ListEvents :: "event_filter \<Rightarrow> uuid option \<Rightarrow> int \<Rightarrow> event list dbm" where
  "ListEvents f cursor limit = exec (\<lambda>pg now n d. if \<not> filter_texts pg f then Inl DataError else Inr (
     take (nat limit) (rev (sort_key ev_id
       (filter (\<lambda>e. event_matches pg d f e \<and> (case cursor of None \<Rightarrow> True | Some c \<Rightarrow> ev_id e < c))
          (db_events d)))), d))"

definition ListEventsForReplay :: "event_filter \<Rightarrow> (uuid \<times> uuid) list dbm" where
  "ListEventsForReplay f = exec (\<lambda>pg now n d. if \<not> filter_texts pg f then Inl DataError else Inr (
     map (\<lambda>e. (ev_id e, ev_source e)) (sort_key ev_id (filter (event_matches pg d f) (db_events d))), d))"

definition MarkEventDropped :: "uuid \<Rightarrow> string \<Rightarrow> unit dbm" where
  "MarkEventDropped eid reason = exec (\<lambda>pg now n d.
     if \<not> pg_text pg reason then Inl DataError
     else Inr ((), d\<lparr>db_events := update_where (\<lambda>e. ev_id e = eid)
                                   (\<lambda>e. e\<lparr>ev_dropped_reason := Some reason\<rparr>) (db_events d)\<rparr>))"

subsection \<open>Deliveries and their attempts\<close>

definition delivery_statuses :: "string list" where
  "delivery_statuses = [''pending'', ''succeeded'', ''failed'', ''dead_lettered'', ''paused'']"

definition GetDelivery :: "uuid \<Rightarrow> delivery dbm" where
  "GetDelivery did = query (\<lambda>d. one_row (filter (\<lambda>x. dl_id x = did) (db_deliveries d)))"

definition InsertDelivery :: "uuid \<Rightarrow> uuid \<Rightarrow> uuid \<Rightarrow> uuid dbm" where
  "InsertDelivery tenant eid dest = exec (\<lambda>pg now n d.
     let u = pg_uuid pg n in
     if u \<in> dl_id ` set (db_deliveries d) then Inl UniqueViolation
     else if eid \<notin> ev_id ` set (db_events d) \<or> dest \<notin> dst_id ` set (db_destinations d)
     then Inl ForeignKeyViolation
     else Inr (u, d\<lparr>db_deliveries := db_deliveries d @
            [\<lparr>dl_id = u, dl_tenant = tenant, dl_event = eid, dl_destination = dest,
              dl_river_job = None, dl_status = ''pending'', dl_attempt_count = 0,
              dl_next_attempt_at = None, dl_last_attempted_at = None, dl_dead_lettered_at = None,
              dl_created_at = now, dl_updated_at = now\<rparr>]\<rparr>))"

definition RecordDeliveryOutcome :: "uuid \<Rightarrow> string \<Rightarrow> int dbm" where
  "RecordDeliveryOutcome did status = exec (\<lambda>pg now n d.
     case filter (\<lambda>x. dl_id x = did) (db_deliveries d) of
       [] \<Rightarrow> Inl NoRows
     | x # _ \<Rightarrow>
         if status \<notin> set delivery_statuses then Inl CheckViolation
         else Inr (dl_attempt_count x + 1,
           d\<lparr>db_deliveries := update_where (\<lambda>x. dl_id x = did)
              (\<lambda>x. x\<lparr>dl_status := status, dl_attempt_count := dl_attempt_count x + 1,
                     dl_last_attempted_at := Some now,
                     dl_dead_lettered_at :=
                       (if status = ''dead_lettered'' then Some now else dl_dead_lettered_at x),
                     dl_updated_at := now\<rparr>)
              (db_deliveries d)\<rparr>))"

definition ResetDeliveryForRecovery :: "uuid \<Rightarrow> unit dbm" where
  "ResetDeliveryForRecovery did = exec (\<lambda>pg now n d.
     Inr ((), d\<lparr>db_deliveries := update_where (\<lambda>x. dl_id x = did)
        (\<lambda>x. x\<lparr>dl_status := ''pending'', dl_dead_lettered_at := None, dl_next_attempt_at := None,
               dl_updated_at := now\<rparr>)
        (db_deliveries d)\<rparr>))"

definition SetDeliveryRiverJobID :: "uuid \<Rightarrow> int \<Rightarrow> unit dbm" where
  "SetDeliveryRiverJobID did job = exec (\<lambda>pg now n d.
     Inr ((), d\<lparr>db_deliveries := update_where (\<lambda>x. dl_id x = did)
        (\<lambda>x. x\<lparr>dl_river_job := Some job\<rparr>) (db_deliveries d)\<rparr>))"

record insert_attempt_params =
  ia_delivery :: uuid
  ia_number :: int
  ia_request_headers :: "bytes option"
  ia_status_code :: "int option"
  ia_response_headers :: "bytes option"
  ia_response_body :: "string option"
  ia_error :: "string option"
  ia_duration_ms :: "int option"

definition InsertDeliveryAttempt :: "insert_attempt_params \<Rightarrow> unit dbm" where
  "InsertDeliveryAttempt p = exec (\<lambda>pg now n d.
     case (jsonb_opt pg (ia_request_headers p), jsonb_opt pg (ia_response_headers p)) of
       (Some rq, Some rs) \<Rightarrow>
         (if \<not> text_opt pg (ia_response_body p) \<or> \<not> text_opt pg (ia_error p) then Inl DataError
          else if pg_uuid pg n \<in> at_id ` set (db_attempts d) \<or>
            list_ex (\<lambda>a. at_delivery a = ia_delivery p \<and> at_number a = ia_number p) (db_attempts d)
          then Inl UniqueViolation
          else if ia_delivery p \<notin> dl_id ` set (db_deliveries d) then Inl ForeignKeyViolation
          else Inr ((), d\<lparr>db_attempts := db_attempts d @
                 [\<lparr>at_id = pg_uuid pg n, at_delivery = ia_delivery p, at_number = ia_number p,
                   at_request_headers = rq, at_status_code = ia_status_code p,
                   at_response_headers = rs, at_response_body = ia_response_body p,
                   at_error = ia_error p, at_duration_ms = ia_duration_ms p,
                   at_attempted_at = now\<rparr>]\<rparr>))
     | _ \<Rightarrow> Inl DataError)"

subsection \<open>The dedupe index\<close>

definition dedup_row :: "uuid \<Rightarrow> string \<Rightarrow> dedup_entry \<Rightarrow> bool" where
  "dedup_row sid k r \<longleftrightarrow> dd_source r = sid \<and> dd_key r = k"

definition ClaimDedupeKey :: "uuid \<Rightarrow> string \<Rightarrow> uuid \<Rightarrow> int \<Rightarrow> uuid dbm" where
  "ClaimDedupeKey sid k eid window = exec (\<lambda>pg now n d.
     let expires = now + window * second in
     if \<not> pg_text pg k then Inl DataError
     else if sid \<notin> src_id ` set (db_sources d) \<or> eid \<notin> ev_id ` set (db_events d)
     then Inl ForeignKeyViolation
     else case filter (dedup_row sid k) (db_dedup d) of
       [] \<Rightarrow> Inr (eid, d\<lparr>db_dedup := db_dedup d @
                [\<lparr>dd_source = sid, dd_key = k, dd_event = eid, dd_expires_at = expires\<rparr>]\<rparr>)
     | r # _ \<Rightarrow>
         if dd_expires_at r \<le> now
         then Inr (eid, d\<lparr>db_dedup := update_where (dedup_row sid k)
                (\<lambda>r. r\<lparr>dd_event := eid, dd_expires_at := expires\<rparr>) (db_dedup d)\<rparr>)
         else Inl NoRows)"

definition DeleteExpiredDedupEntries :: "nat dbm" where
  "DeleteExpiredDedupEntries = exec (\<lambda>pg now n d.
     let dead = (\<lambda>r. dd_expires_at r \<le> now)
     in Inr (length (filter dead (db_dedup d)), d\<lparr>db_dedup := filter (\<lambda>r. \<not> dead r) (db_dedup d)\<rparr>))"

subsection \<open>Routes\<close>

definition DeleteRoute :: "uuid \<Rightarrow> uuid \<Rightarrow> nat dbm" where
  "DeleteRoute rid tenant = exec (\<lambda>pg now n d.
     let hit = (\<lambda>r. rt_id r = rid \<and> rt_tenant r = tenant)
     in Inr (length (filter hit (db_routes d)), d\<lparr>db_routes := filter (\<lambda>r. \<not> hit r) (db_routes d)\<rparr>))"

definition GetRoute :: "uuid \<Rightarrow> uuid \<Rightarrow> route dbm" where
  "GetRoute rid tenant =
     query (\<lambda>d. one_row (filter (\<lambda>r. rt_id r = rid \<and> rt_tenant r = tenant) (db_routes d)))"

definition InsertRoute :: "uuid \<Rightarrow> uuid \<Rightarrow> uuid \<Rightarrow> bool \<Rightarrow> route dbm" where
  "InsertRoute tenant sid did enabled = exec (\<lambda>pg now n d.
     let r = \<lparr>rt_id = pg_uuid pg n, rt_tenant = tenant, rt_source = sid, rt_destination = did,
              rt_enabled = enabled, rt_created_at = now\<rparr> in
     if rt_id r \<in> rt_id ` set (db_routes d) \<or>
        list_ex (\<lambda>x. rt_source x = sid \<and> rt_destination x = did) (db_routes d)
     then Inl UniqueViolation
     else if sid \<notin> src_id ` set (db_sources d) \<or> did \<notin> dst_id ` set (db_destinations d)
     then Inl ForeignKeyViolation
     else Inr (r, d\<lparr>db_routes := db_routes d @ [r]\<rparr>))"

record delivery_target =
  tg_destination :: uuid
  tg_max_attempts :: int
  tg_backoff_base :: int
  tg_backoff_max :: int

definition target_of :: "destination \<Rightarrow> delivery_target" where
  "target_of x = \<lparr>tg_destination = dst_id x, tg_max_attempts = dst_max_attempts x,
     tg_backoff_base = dst_backoff_base x, tg_backoff_max = dst_backoff_max x\<rparr>"

definition enabled_targets :: "database \<Rightarrow> uuid \<Rightarrow> delivery_target list" where
  "enabled_targets d sid =
     [target_of x. r \<leftarrow> db_routes d, x \<leftarrow> db_destinations d,
        dst_id x = rt_destination r \<and> rt_source r = sid \<and> rt_enabled r]"

definition ListEnabledDeliveryTargetsForSource :: "uuid \<Rightarrow> delivery_target list dbm" where
  "ListEnabledDeliveryTargetsForSource sid = query (\<lambda>d. Inr (enabled_targets d sid))"

definition ListRoutes :: "uuid \<Rightarrow> uuid option \<Rightarrow> uuid option \<Rightarrow> route list dbm" where
  "ListRoutes tenant sid did =
     query (\<lambda>d. Inr (sort_key (\<lambda>r. - rt_created_at r) (filter (\<lambda>r. rt_tenant r = tenant \<and>
       (case sid of None \<Rightarrow> True | Some s \<Rightarrow> rt_source r = s) \<and>
       (case did of None \<Rightarrow> True | Some s \<Rightarrow> rt_destination r = s)) (db_routes d))))"

text \<open>\<^verbatim>\<open>UPDATE ... RETURNING\<close> on the one row a condition selects.\<close>

definition returning :: "('r \<Rightarrow> bool) \<Rightarrow> ('r \<Rightarrow> 'r) \<Rightarrow> 'r list \<Rightarrow> ('r list \<Rightarrow> database) \<Rightarrow> db_error + ('r \<times> database)" where
  "returning P f rows put =
     (case filter P rows of [] \<Rightarrow> Inl NoRows | r # _ \<Rightarrow> Inr (f r, put (update_where P f rows)))"

definition UpdateRouteEnabled :: "uuid \<Rightarrow> uuid \<Rightarrow> bool \<Rightarrow> route dbm" where
  "UpdateRouteEnabled rid tenant enabled = exec (\<lambda>pg now n d.
     returning (\<lambda>r. rt_id r = rid \<and> rt_tenant r = tenant) (\<lambda>r. r\<lparr>rt_enabled := enabled\<rparr>)
       (db_routes d) (\<lambda>rs. d\<lparr>db_routes := rs\<rparr>))"

subsection \<open>Destinations\<close>

text \<open>Deleting destinations cascades to routes, deliveries (and their attempts) and alert state.\<close>

definition delete_destinations :: "(destination \<Rightarrow> bool) \<Rightarrow> database \<Rightarrow> database" where
  "delete_destinations hit d =
     (let gone = dst_id ` {x \<in> set (db_destinations d). hit x};
          gone_dl = dl_id ` {x \<in> set (db_deliveries d). dl_destination x \<in> gone}
      in d\<lparr>db_destinations := filter (\<lambda>x. \<not> hit x) (db_destinations d),
           db_routes := filter (\<lambda>r. rt_destination r \<notin> gone) (db_routes d),
           db_deliveries := filter (\<lambda>x. dl_destination x \<notin> gone) (db_deliveries d),
           db_attempts := filter (\<lambda>a. at_delivery a \<notin> gone_dl) (db_attempts d),
           db_alerts := filter (\<lambda>a. as_destination a \<notin> gone) (db_alerts d)\<rparr>)"

definition DeleteDestination :: "uuid \<Rightarrow> uuid \<Rightarrow> nat dbm" where
  "DeleteDestination did tenant = exec (\<lambda>pg now n d.
     let hit = (\<lambda>x. dst_id x = did \<and> dst_tenant x = tenant)
     in Inr (length (filter hit (db_destinations d)), delete_destinations hit d))"

definition DeleteStaleTunnelDestinations :: "uuid \<Rightarrow> nat dbm" where
  "DeleteStaleTunnelDestinations tenant = exec (\<lambda>pg now n d.
     let hit = (\<lambda>x. dst_tenant x = tenant \<and> HasPrefix (dst_url x) ''tunnel://'')
     in Inr (length (filter hit (db_destinations d)), delete_destinations hit d))"

definition GetDestination :: "uuid \<Rightarrow> uuid \<Rightarrow> destination dbm" where
  "GetDestination did tenant =
     query (\<lambda>d. one_row (filter (\<lambda>x. dst_id x = did \<and> dst_tenant x = tenant) (db_destinations d)))"

record destination_params =
  dp_name :: string
  dp_url :: string
  dp_auth_config :: bytes
  dp_timeout_ms :: int
  dp_rate_limit :: "int option"
  dp_max_attempts :: int
  dp_backoff_base :: int
  dp_backoff_max :: int

definition InsertDestination :: "uuid \<Rightarrow> destination_params \<Rightarrow> destination dbm" where
  "InsertDestination tenant p = exec (\<lambda>pg now n d.
     case pg_jsonb pg (dp_auth_config p) of None \<Rightarrow> Inl DataError
     | Some auth \<Rightarrow>
         let x = \<lparr>dst_id = pg_uuid pg n, dst_tenant = tenant, dst_name = dp_name p, dst_url = dp_url p,
                  dst_auth_config = auth, dst_timeout_ms = dp_timeout_ms p,
                  dst_rate_limit = dp_rate_limit p, dst_max_attempts = dp_max_attempts p,
                  dst_backoff_base = dp_backoff_base p, dst_backoff_max = dp_backoff_max p,
                  dst_paused_at = None, dst_created_at = now, dst_updated_at = now\<rparr>
         in if \<not> pg_text pg (dp_name p) \<or> \<not> pg_text pg (dp_url p) then Inl DataError
            else if dst_id x \<in> dst_id ` set (db_destinations d) then Inl UniqueViolation
            else Inr (x, d\<lparr>db_destinations := db_destinations d @ [x]\<rparr>))"

definition targets_by_ids :: "database \<Rightarrow> uuid list \<Rightarrow> uuid \<Rightarrow> delivery_target list" where
  "targets_by_ids d ids tenant =
     map target_of (filter (\<lambda>x. dst_id x \<in> set ids \<and> dst_tenant x = tenant) (db_destinations d))"

definition ListDeliveryTargetsByDestinationIDs :: "uuid list \<Rightarrow> uuid \<Rightarrow> delivery_target list dbm" where
  "ListDeliveryTargetsByDestinationIDs ids tenant = query (\<lambda>d. Inr (targets_by_ids d ids tenant))"

definition ListDestinations :: "uuid \<Rightarrow> destination list dbm" where
  "ListDestinations tenant =
     query (\<lambda>d. Inr (sort_key (\<lambda>x. - dst_created_at x)
       (filter (\<lambda>x. dst_tenant x = tenant) (db_destinations d))))"

definition update_destination :: "uuid \<Rightarrow> uuid \<Rightarrow> (time \<Rightarrow> destination \<Rightarrow> destination) \<Rightarrow> destination dbm" where
  "update_destination did tenant f = exec (\<lambda>pg now n d.
     returning (\<lambda>x. dst_id x = did \<and> dst_tenant x = tenant) (f now)
       (db_destinations d) (\<lambda>xs. d\<lparr>db_destinations := xs\<rparr>))"

definition PauseDestination :: "uuid \<Rightarrow> uuid \<Rightarrow> destination dbm" where
  "PauseDestination did tenant =
     update_destination did tenant (\<lambda>now x. x\<lparr>dst_paused_at := Some now\<rparr>)"

definition ResumeDestination :: "uuid \<Rightarrow> uuid \<Rightarrow> destination dbm" where
  "ResumeDestination did tenant =
     update_destination did tenant (\<lambda>now x. x\<lparr>dst_paused_at := None\<rparr>)"

definition UpdateDestination :: "uuid \<Rightarrow> uuid \<Rightarrow> destination_params \<Rightarrow> destination dbm" where
  "UpdateDestination did tenant p = exec (\<lambda>pg now n d.
     case pg_jsonb pg (dp_auth_config p) of None \<Rightarrow> Inl DataError
     | Some auth \<Rightarrow>
         if \<not> pg_text pg (dp_name p) \<or> \<not> pg_text pg (dp_url p) then Inl DataError
         else returning (\<lambda>x. dst_id x = did \<and> dst_tenant x = tenant)
           (\<lambda>x. x\<lparr>dst_name := dp_name p, dst_url := dp_url p, dst_auth_config := auth,
                  dst_timeout_ms := dp_timeout_ms p, dst_rate_limit := dp_rate_limit p,
                  dst_max_attempts := dp_max_attempts p, dst_backoff_base := dp_backoff_base p,
                  dst_backoff_max := dp_backoff_max p, dst_updated_at := now\<rparr>)
           (db_destinations d) (\<lambda>xs. d\<lparr>db_destinations := xs\<rparr>))"

subsection \<open>Rules\<close>

definition rule_ok :: "string \<Rightarrow> uuid list \<Rightarrow> bool" where
  "rule_ok action dests \<longleftrightarrow> action \<in> {''drop'', ''route''} \<and> (action \<noteq> ''route'' \<or> dests \<noteq> [])"

definition DeleteRule :: "uuid \<Rightarrow> uuid \<Rightarrow> nat dbm" where
  "DeleteRule rid tenant = exec (\<lambda>pg now n d.
     let hit = (\<lambda>r. ru_id r = rid \<and> ru_tenant r = tenant)
     in Inr (length (filter hit (db_rules d)), d\<lparr>db_rules := filter (\<lambda>r. \<not> hit r) (db_rules d)\<rparr>))"

definition GetRule :: "uuid \<Rightarrow> uuid \<Rightarrow> rule dbm" where
  "GetRule rid tenant =
     query (\<lambda>d. one_row (filter (\<lambda>r. ru_id r = rid \<and> ru_tenant r = tenant) (db_rules d)))"

record rule_params =
  rq_name :: string
  rq_expression :: string
  rq_action :: string
  rq_dests :: "uuid list"
  rq_priority :: int
  rq_enabled :: bool

definition rule_texts_ok :: "postgres \<Rightarrow> rule_params \<Rightarrow> bool" where
  "rule_texts_ok pg p \<longleftrightarrow> pg_text pg (rq_name p) \<and> pg_text pg (rq_expression p) \<and> pg_text pg (rq_action p)"

definition InsertRule :: "uuid \<Rightarrow> uuid \<Rightarrow> rule_params \<Rightarrow> rule dbm" where
  "InsertRule tenant sid p = exec (\<lambda>pg now n d.
     let r = \<lparr>ru_id = pg_uuid pg n, ru_tenant = tenant, ru_source = sid, ru_name = rq_name p,
              ru_expression = rq_expression p, ru_action = rq_action p, ru_route_dests = rq_dests p,
              ru_priority = rq_priority p, ru_enabled = rq_enabled p, ru_created_at = now,
              ru_updated_at = now\<rparr> in
     if \<not> rule_texts_ok pg p then Inl DataError
     else if \<not> rule_ok (rq_action p) (rq_dests p) then Inl CheckViolation
     else if ru_id r \<in> ru_id ` set (db_rules d) then Inl UniqueViolation
     else if sid \<notin> src_id ` set (db_sources d) then Inl ForeignKeyViolation
     else Inr (r, d\<lparr>db_rules := db_rules d @ [r]\<rparr>))"

definition enabled_rules :: "database \<Rightarrow> uuid \<Rightarrow> rule list" where
  "enabled_rules d sid =
     sort_key ru_priority (sort_key ru_created_at
       (filter (\<lambda>r. ru_source r = sid \<and> ru_enabled r) (db_rules d)))"

definition ListEnabledRulesForSource :: "uuid \<Rightarrow> rule list dbm" where
  "ListEnabledRulesForSource sid = query (\<lambda>d. Inr (enabled_rules d sid))"

definition ListRules :: "uuid \<Rightarrow> rule list dbm" where
  "ListRules tenant =
     query (\<lambda>d. Inr (sort_key ru_source (sort_key ru_priority (sort_key ru_created_at
       (filter (\<lambda>r. ru_tenant r = tenant) (db_rules d))))))"

definition UpdateRule :: "uuid \<Rightarrow> uuid \<Rightarrow> rule_params \<Rightarrow> rule dbm" where
  "UpdateRule rid tenant p = exec (\<lambda>pg now n d.
     if \<not> rule_texts_ok pg p then Inl DataError
     else if filter (\<lambda>r. ru_id r = rid \<and> ru_tenant r = tenant) (db_rules d) \<noteq> [] \<and>
             \<not> rule_ok (rq_action p) (rq_dests p) then Inl CheckViolation
     else returning (\<lambda>r. ru_id r = rid \<and> ru_tenant r = tenant)
       (\<lambda>r. r\<lparr>ru_name := rq_name p, ru_expression := rq_expression p, ru_action := rq_action p,
              ru_route_dests := rq_dests p, ru_priority := rq_priority p, ru_enabled := rq_enabled p,
              ru_updated_at := now\<rparr>)
       (db_rules d) (\<lambda>rs. d\<lparr>db_rules := rs\<rparr>))"

subsection \<open>Sources\<close>

definition GetSource :: "uuid \<Rightarrow> uuid \<Rightarrow> source dbm" where
  "GetSource sid tenant =
     query (\<lambda>d. one_row (filter (\<lambda>s. src_id s = sid \<and> src_tenant s = tenant) (db_sources d)))"

definition GetSourceByEndpointPath :: "string \<Rightarrow> source dbm" where
  "GetSourceByEndpointPath path =
     text_query path (\<lambda>d. one_row (filter (\<lambda>s. src_endpoint_path s = path) (db_sources d)))"

definition GetSourceByName :: "uuid \<Rightarrow> string \<Rightarrow> source dbm" where
  "GetSourceByName tenant name =
     text_query name (\<lambda>d. one_row (sort_key src_created_at
       (filter (\<lambda>s. src_tenant s = tenant \<and> src_name s = name) (db_sources d))))"

record source_params =
  sp_name :: string
  sp_provider_type :: string
  sp_endpoint_path :: string
  sp_signing_secret :: "bytes option"
  sp_key_version :: "int option"
  sp_verification_config :: bytes
  sp_dedupe_enabled :: bool
  sp_dedupe_strategy :: "string option"
  sp_dedupe_field_path :: "string option"
  sp_dedupe_window :: int

text \<open>\<^verbatim>\<open>chk_dedupe_strategy\<close> and \<^verbatim>\<open>chk_dedupe_field_path\<close>: a CHECK that evaluates to NULL passes.\<close>

definition dedupe_checks_ok :: "source_params \<Rightarrow> bool" where
  "dedupe_checks_ok p \<longleftrightarrow>
     (\<not> sp_dedupe_enabled p \<or>
      (case sp_dedupe_strategy p of None \<Rightarrow> True | Some s \<Rightarrow> s \<in> {''exact'', ''field''})) \<and>
     (sp_dedupe_strategy p \<noteq> Some ''field'' \<or> sp_dedupe_field_path p \<noteq> None)"

definition InsertSource :: "uuid \<Rightarrow> source_params \<Rightarrow> source dbm" where
  "InsertSource tenant p = exec (\<lambda>pg now n d.
     case pg_jsonb pg (sp_verification_config p) of None \<Rightarrow> Inl DataError
     | Some vc \<Rightarrow>
       let s = \<lparr>src_id = pg_uuid pg n, src_tenant = tenant, src_name = sp_name p,
                src_provider_type = sp_provider_type p, src_endpoint_path = sp_endpoint_path p,
                src_signing_secret = sp_signing_secret p, src_key_version = sp_key_version p,
                src_verification_config = vc, src_dedupe_enabled = sp_dedupe_enabled p,
                src_dedupe_strategy = sp_dedupe_strategy p,
                src_dedupe_field_path = sp_dedupe_field_path p, src_dedupe_window = sp_dedupe_window p,
                src_paused_at = None, src_created_at = now, src_updated_at = now\<rparr> in
       if \<not> pg_text pg (sp_name p) \<or> \<not> pg_text pg (sp_provider_type p) \<or>
          \<not> pg_text pg (sp_endpoint_path p) \<or> \<not> text_opt pg (sp_dedupe_strategy p) \<or>
          \<not> text_opt pg (sp_dedupe_field_path p) then Inl DataError
       else if \<not> dedupe_checks_ok p then Inl CheckViolation
       else if src_id s \<in> src_id ` set (db_sources d) \<or>
               src_endpoint_path s \<in> src_endpoint_path ` set (db_sources d) then Inl UniqueViolation
       else Inr (s, d\<lparr>db_sources := db_sources d @ [s]\<rparr>))"

definition ListSources :: "uuid \<Rightarrow> source list dbm" where
  "ListSources tenant =
     query (\<lambda>d. Inr (sort_key (\<lambda>s. - src_created_at s)
       (filter (\<lambda>s. src_tenant s = tenant) (db_sources d))))"

subsection \<open>Replays\<close>

definition FinishReplay :: "uuid \<Rightarrow> string \<Rightarrow> int option \<Rightarrow> int option \<Rightarrow> unit dbm" where
  "FinishReplay rid status matched requeued = exec (\<lambda>pg now n d.
     if rid \<in> rp_id ` set (db_replays d) \<and> status \<notin> {''running'', ''completed'', ''failed''}
     then Inl CheckViolation
     else Inr ((), d\<lparr>db_replays := update_where (\<lambda>r. rp_id r = rid)
            (\<lambda>r. r\<lparr>rp_status := status, rp_matched := matched, rp_requeued := requeued,
                   rp_completed_at := Some now\<rparr>) (db_replays d)\<rparr>))"

definition GetReplay :: "uuid \<Rightarrow> replay dbm" where
  "GetReplay rid = query (\<lambda>d. one_row (filter (\<lambda>r. rp_id r = rid) (db_replays d)))"

definition InsertReplay :: "uuid \<Rightarrow> uuid option \<Rightarrow> bytes \<Rightarrow> replay dbm" where
  "InsertReplay tenant requested_by flt = exec (\<lambda>pg now n d.
     case pg_jsonb pg flt of None \<Rightarrow> Inl DataError
     | Some f \<Rightarrow>
         let r = \<lparr>rp_id = pg_uuid pg n, rp_tenant = tenant, rp_requested_by = requested_by,
                  rp_filter = f, rp_status = ''running'', rp_matched = None, rp_requeued = None,
                  rp_created_at = now, rp_completed_at = None\<rparr>
         in if rp_id r \<in> rp_id ` set (db_replays d) then Inl UniqueViolation
            else Inr (r, d\<lparr>db_replays := db_replays d @ [r]\<rparr>))"

subsection \<open>Alert conditions and cooldowns\<close>

definition DeadLetteredSince :: "time \<Rightarrow> (uuid \<times> string) list dbm" where
  "DeadLetteredSince since =
     query (\<lambda>d. Inr (remdups
       [(dl_destination x, dst_name y). x \<leftarrow> db_deliveries d, y \<leftarrow> db_destinations d,
          dst_id y = dl_destination x \<and> dl_status x = ''dead_lettered'' \<and>
          (case dl_dead_lettered_at x of None \<Rightarrow> False | Some t \<Rightarrow> since \<le> t)]))"

record failure_rate_row =
  fr_destination :: uuid
  fr_name :: string
  fr_total :: int
  fr_failures :: int

definition terminal_since :: "time \<Rightarrow> uuid \<Rightarrow> database \<Rightarrow> delivery list" where
  "terminal_since since did d =
     filter (\<lambda>x. dl_destination x = did \<and> dl_status x \<in> {''succeeded'', ''dead_lettered''} \<and>
                 since \<le> dl_updated_at x) (db_deliveries d)"

definition DeliveryFailureRatesSince :: "time \<Rightarrow> failure_rate_row list dbm" where
  "DeliveryFailureRatesSince since =
     query (\<lambda>d. Inr
       [\<lparr>fr_destination = dst_id y, fr_name = dst_name y,
         fr_total = int (length (terminal_since since (dst_id y) d)),
         fr_failures = int (length (filter (\<lambda>x. dl_status x = ''dead_lettered'')
                                      (terminal_since since (dst_id y) d)))\<rparr>.
        y \<leftarrow> db_destinations d, terminal_since since (dst_id y) d \<noteq> []])"

definition alert_row :: "uuid \<Rightarrow> string \<Rightarrow> alert_state \<Rightarrow> bool" where
  "alert_row did cond a \<longleftrightarrow> as_destination a = did \<and> as_condition a = cond"

definition GetAlertLastFired :: "uuid \<Rightarrow> string \<Rightarrow> time dbm" where
  "GetAlertLastFired did cond =
     query (\<lambda>d. one_row (map as_last_fired_at (filter (alert_row did cond) (db_alerts d))))"

definition MarkAlertFired :: "uuid \<Rightarrow> string \<Rightarrow> time \<Rightarrow> unit dbm" where
  "MarkAlertFired did cond at = exec (\<lambda>pg now n d.
     if did \<notin> dst_id ` set (db_destinations d) then Inl ForeignKeyViolation
     else Inr ((), d\<lparr>db_alerts :=
       (if filter (alert_row did cond) (db_alerts d) = []
        then db_alerts d @ [\<lparr>as_destination = did, as_condition = cond, as_last_fired_at = at\<rparr>]
        else update_where (alert_row did cond) (\<lambda>a. a\<lparr>as_last_fired_at := at\<rparr>) (db_alerts d))\<rparr>))"

subsection \<open>API keys and instance settings\<close>

definition GetAPIKeyByHash :: "string \<Rightarrow> api_key dbm" where
  "GetAPIKeyByHash hash =
     query (\<lambda>d. one_row (filter (\<lambda>k. ak_hash k = hash \<and> ak_revoked_at k = None) (db_api_keys d)))"

definition InsertApiKey :: "uuid \<Rightarrow> string \<Rightarrow> string \<Rightarrow> string \<Rightarrow> string list \<Rightarrow> api_key dbm" where
  "InsertApiKey tenant name prefix hash scopes = exec (\<lambda>pg now n d.
     let k = \<lparr>ak_id = pg_uuid pg n, ak_tenant = tenant, ak_name = name, ak_prefix = prefix,
              ak_hash = hash, ak_scopes = scopes, ak_created_by = None, ak_last_used_at = None,
              ak_revoked_at = None, ak_created_at = now\<rparr> in
     if \<not> pg_text pg name then Inl DataError
     else if ak_id k \<in> ak_id ` set (db_api_keys d) \<or> prefix \<in> ak_prefix ` set (db_api_keys d)
     then Inl UniqueViolation
     else Inr (k, d\<lparr>db_api_keys := db_api_keys d @ [k]\<rparr>))"

definition ListAPIKeys :: "uuid \<Rightarrow> api_key list dbm" where
  "ListAPIKeys tenant =
     query (\<lambda>d. Inr (sort_key (\<lambda>k. - ak_created_at k)
       (filter (\<lambda>k. ak_tenant k = tenant) (db_api_keys d))))"

definition RevokeAPIKey :: "uuid \<Rightarrow> uuid \<Rightarrow> nat dbm" where
  "RevokeAPIKey kid tenant = exec (\<lambda>pg now n d.
     let hit = (\<lambda>k. ak_id k = kid \<and> ak_tenant k = tenant \<and> ak_revoked_at k = None)
     in Inr (length (filter hit (db_api_keys d)),
             d\<lparr>db_api_keys := update_where hit (\<lambda>k. k\<lparr>ak_revoked_at := Some now\<rparr>) (db_api_keys d)\<rparr>))"

definition TouchAPIKeyLastUsed :: "uuid \<Rightarrow> unit dbm" where
  "TouchAPIKeyLastUsed kid = exec (\<lambda>pg now n d.
     Inr ((), d\<lparr>db_api_keys := update_where (\<lambda>k. ak_id k = kid)
        (\<lambda>k. k\<lparr>ak_last_used_at := Some now\<rparr>) (db_api_keys d)\<rparr>))"

definition GetInstanceSetting :: "string \<Rightarrow> bytes dbm" where
  "GetInstanceSetting key =
     query (\<lambda>d. one_row (map is_value (filter (\<lambda>r. is_key r = key) (db_settings d))))"

definition UpsertInstanceSetting :: "string \<Rightarrow> bytes \<Rightarrow> unit dbm" where
  "UpsertInstanceSetting key val = exec (\<lambda>pg now n d.
     case pg_jsonb pg val of None \<Rightarrow> Inl DataError
     | Some v \<Rightarrow>
       Inr ((), d\<lparr>db_settings :=
         (if filter (\<lambda>r. is_key r = key) (db_settings d) = []
          then db_settings d @ [\<lparr>is_key = key, is_value = v, is_updated_at = now\<rparr>]
          else update_where (\<lambda>r. is_key r = key) (\<lambda>r. r\<lparr>is_value := v, is_updated_at := now\<rparr>)
                 (db_settings d))\<rparr>))"

subsection \<open>River\<close>

text \<open>
  \<^verbatim>\<open>client.InsertTx\<close> of the River queue: one row of \<^verbatim>\<open>river_job\<close>, inserted in the caller's transaction,
  whose generated id is returned.
\<close>

definition river_InsertTx :: "job_args \<Rightarrow> int \<Rightarrow> int dbm" where
  "river_InsertTx args maxAttempts = exec (\<lambda>pg now n d.
     let j = \<lparr>jb_id = pg_job_id pg n, jb_args = args, jb_max_attempts = maxAttempts\<rparr>
     in if jb_id j \<in> jb_id ` set (db_jobs d) then Inl UniqueViolation
        else Inr (jb_id j, d\<lparr>db_jobs := db_jobs d @ [j]\<rparr>))"

subsection \<open>A concrete database, for evaluating the programs\<close>

text \<open>A PostgreSQL that never fails, with one source, one destination and a route between them.\<close>

definition pg_example :: postgres where
  "pg_example = \<lparr>pg_fault = (\<lambda>_. False), pg_uuid = (\<lambda>n. of_nat (100 + n)), pg_job_id = (\<lambda>n. int n),
     pg_text = (\<lambda>_. True), pg_jsonb = (\<lambda>b. Some b), pg_search = (\<lambda>_ _. False)\<rparr>"

definition source_example :: source where
  "source_example = \<lparr>src_id = 7, src_tenant = 1, src_name = ''s'', src_provider_type = ''none'',
     src_endpoint_path = ''p'', src_signing_secret = None, src_key_version = None,
     src_verification_config = ''{}'', src_dedupe_enabled = True, src_dedupe_strategy = Some ''exact'',
     src_dedupe_field_path = None, src_dedupe_window = 300, src_paused_at = None, src_created_at = 0,
     src_updated_at = 0\<rparr>"

definition destination_example :: destination where
  "destination_example = \<lparr>dst_id = 9, dst_tenant = 1, dst_name = ''d'', dst_url = ''http://d'',
     dst_auth_config = ''{}'', dst_timeout_ms = 5000, dst_rate_limit = None, dst_max_attempts = 3,
     dst_backoff_base = 2, dst_backoff_max = 60, dst_paused_at = None, dst_created_at = 0,
     dst_updated_at = 0\<rparr>"

definition route_example :: route where
  "route_example = \<lparr>rt_id = 8, rt_tenant = 1, rt_source = 7, rt_destination = 9, rt_enabled = True,
     rt_created_at = 0\<rparr>"

definition event_example :: event where
  "event_example = \<lparr>ev_id = 3, ev_tenant = 1, ev_source = 7, ev_raw_headers = ''{}'', ev_raw_body = ''x'',
     ev_content_type = None, ev_parsed_body = None, ev_dedupe_key = None, ev_verified = True,
     ev_received_at = 0, ev_dropped_reason = None\<rparr>"

definition db_example :: database where
  "db_example = empty_db\<lparr>db_sources := [source_example], db_destinations := [destination_example],
     db_routes := [route_example], db_events := [event_example]\<rparr>"

definition world_example :: world where
  "world_example = \<lparr>w_pg = pg_example, w_db = db_example, w_now = 0, w_step = 0\<rparr>"

lemmas example_defs = world_example_def db_example_def event_example_def route_example_def
  destination_example_def source_example_def pg_example_def empty_db_def

end
