(* ===== verification/Api_Base.thy ===== *)
theory Api_Base
  imports Json_Struct Queries
begin

text \<open>
  What the handlers of the management API share (\<^verbatim>\<open>internal/api/respond.go\<close>): a reply is a status with the
  value that \<^verbatim>\<open>writeJSON\<close> encodes, an error message, or a bare 204. The functions of other packages that
  the handlers call are the record \<open>api_env\<close>: parsing an id (\<^verbatim>\<open>pgtype\<close>), an RFC 3339 time in a query or in
  JSON and its writing (\<^verbatim>\<open>time\<close>), and the scheme and host that \<^verbatim>\<open>url.Parse\<close> finds.
\<close>

datatype 'a reply = Reply int 'a | Problem int string | NoContent

record api_env =
  e_Scan :: "string \<Rightarrow> uuid option"
  e_ParseTime :: "string \<Rightarrow> time option"
  e_UnmarshalTime :: "string \<Rightarrow> time option"
  e_MarshalTime :: "time \<Rightarrow> string option"
  e_ParseURL :: "string \<Rightarrow> (string \<times> string) option"

definition parseUUID :: "api_env \<Rightarrow> string \<Rightarrow> uuid option" where
  "parseUUID env s = e_Scan env s"

text \<open>The answers a refused request gets from the store: the connection and every unexpected error are a 500.\<close>

definition internal_error :: "'a reply" where
  "internal_error = Problem 500 ''internal error''"

definition is_success :: "'a reply \<Rightarrow> bool" where
  "is_success r = (case r of Reply status x \<Rightarrow> True | Problem status msg \<Rightarrow> False | NoContent \<Rightarrow> True)"

definition validDeliveryStatuses :: "string list" where
  "validDeliveryStatuses = [''pending'', ''succeeded'', ''failed'', ''dead_lettered'', ''paused'']"

text \<open>A \<^verbatim>\<open>*time.Time\<close> field; its \<^verbatim>\<open>UnmarshalJSON\<close> takes strings only.\<close>

definition time_ptr :: "api_env \<Rightarrow> ((time option \<Rightarrow> time option) \<Rightarrow> 'r \<Rightarrow> 'r) \<Rightarrow> 'r field" where
  "time_ptr env upd raw v r = (case v of
     JString s \<Rightarrow> map_option (\<lambda>t. upd (\<lambda>_. Some t) r) (e_UnmarshalTime env s)
   | JNull \<Rightarrow> Some (upd (\<lambda>_. None) r) | _ \<Rightarrow> None)"

text \<open>A statement that is the whole of a handler's work on the store: its error is a 500.\<close>

definition or_500 :: "(db_error + 'a) \<times> world \<Rightarrow> ('a \<Rightarrow> 'b reply) \<Rightarrow> 'b reply \<times> world" where
  "or_500 q k = (case q of (Inl e, w) \<Rightarrow> (internal_error, w) | (Inr x, w) \<Rightarrow> (k x, w))"

text \<open>The same where a missing row is a 404.\<close>

definition or_404 :: "string \<Rightarrow> (db_error + 'a) \<times> world \<Rightarrow> ('a \<Rightarrow> 'b reply) \<Rightarrow> 'b reply \<times> world" where
  "or_404 msg q k = (case q of (Inl NoRows, w) \<Rightarrow> (Problem 404 msg, w) | (Inl e, w) \<Rightarrow> (internal_error, w) | (Inr x, w) \<Rightarrow> (k x, w))"

text \<open>A request's query: its \<^verbatim>\<open>url.Values\<close> as pairs in order.\<close>

type_synonym url_values = "(string \<times> string) list"

definition query_Get :: "url_values \<Rightarrow> string \<Rightarrow> string" where
  "query_Get q k = text_String (map_of q k)"

text \<open>\<^verbatim>\<open>if v := q.Get(k); v != "" { x, err := parse(v); if err != nil { return msg } }\<close>\<close>

definition param :: "url_values \<Rightarrow> string \<Rightarrow> (string \<Rightarrow> 'a option) \<Rightarrow> string \<Rightarrow> string + 'a option" where
  "param q k parse msg =
     (let v = query_Get q k
      in if v = '''' then Inr None
         else (case parse v of None \<Rightarrow> Inl msg | Some x \<Rightarrow> Inr (Some x)))"

definition and_then :: "'e + 'a \<Rightarrow> ('a \<Rightarrow> 'e + 'b) \<Rightarrow> 'e + 'b" where
  "and_then m f = (case m of Inl e \<Rightarrow> Inl e | Inr x \<Rightarrow> f x)"

lemma query_Get_Cons: "query_Get ((k, v) # q) k' = (if k' = k then v else query_Get q k')"
  by (simp add: query_Get_def)

lemma and_then_Inr: "and_then m f = Inr r \<longleftrightarrow> (\<exists>x. m = Inr x \<and> f x = Inr r)"
  by (cases m) (simp_all add: and_then_def)

lemma param_other: "k \<noteq> k' \<Longrightarrow> param ((k', v) # q) k parse msg = param q k parse msg"
  by (simp add: param_def query_Get_def)

text \<open>
  An instance of \<open>e_Scan\<close> for the witnesses: it reads the canonical form (\<^verbatim>\<open>pgtype\<close> reads it too), and
  for such an instance reading what \<open>uuidString\<close> wrote gives the id back.
\<close>

definition scan_uuid :: "string \<Rightarrow> uuid option" where
  "scan_uuid s = map_option bytes_uuid (hex_Decode (filter (\<lambda>c. c \<noteq> CHR ''-'') s))"

lemma hex_no_dash: "filter (\<lambda>c. c \<noteq> CHR ''-'') (hex_Encode bs) = hex_Encode bs"
  using hex_Encode_hex [of bs] by (auto simp: filter_id_conv list_all_iff is_hex_def)

lemma scan_uuidString: "scan_uuid (uuidString u) = Some u"
proof -
  have "filter (\<lambda>c. c \<noteq> CHR ''-'') (uuidString u) = hex_Encode (uuid_bytes u)"
  proof -
    let ?b = "uuid_bytes u"
    have "filter (\<lambda>c. c \<noteq> CHR ''-'') (uuidString u) =
        hex_Encode (take 4 ?b @ take 2 (drop 4 ?b) @ take 2 (drop 6 ?b) @ take 2 (drop 8 ?b) @ drop 10 ?b)"
      by (simp add: uuidString_def Let_def hex_no_dash) (simp add: hex_Encode_def)
    then show ?thesis by (simp only: split_uuid_bytes)
  qed
  then show ?thesis by (simp add: scan_uuid_def hex_Decode_Encode bytes_uuid_inverse)
qed

text \<open>Decoding an object of texts that \<^verbatim>\<open>Marshal\<close> wrote: its members are set one after the other.\<close>

definition ascii_text :: "string \<Rightarrow> bool" where
  "ascii_text s \<longleftrightarrow> list_all (\<lambda>c. of_char c < (128 :: nat)) s"

definition set_text :: "(string \<times> 'r field) list \<Rightarrow> string \<times> string \<Rightarrow> 'r \<Rightarrow> 'r option" where
  "set_text fs kv r = (case find (\<lambda>f. fold_key (fst f) = fold_key (fst kv)) fs of
     None \<Rightarrow> Some r | Some f \<Rightarrow> snd f (marshal_string (snd kv)) (JString (snd kv)) r)"

lemma Decode_texts:
  assumes "list_all (\<lambda>(k, v). ascii_text k \<and> ascii_text v) kvs" "distinct (map fst kvs)"
  shows "Decode_struct fs zero (marshal_object (map (\<lambda>(k, v). (k, marshal_string v)) kvs)) = fold_opt (set_text fs) kvs zero"
proof -
  let ?ms = "map (\<lambda>(k, v). (k, marshal_string v)) kvs" and ?js = "map (\<lambda>(k, v). (k, JString v)) kvs"
  have valid: "\<forall>(k, v) \<in> set kvs. utf8_valid k \<and> utf8_valid v"
    using assms(1) ascii_valid unfolding list_all_iff [of _ kvs] ascii_text_def by blast
  have r: "list_all2 (member_renders 0) ?ms ?js"
    using valid by (induction kvs) (auto simp: member_renders_def renders_string)
  have d: "distinct (map fst ?js)" using assms(2) by (simp add: case_prod_beta comp_def)
  have "json_Unmarshal (marshal_object ?ms) = Some (JObject ?js)"
    by (rule renders_Unmarshal [OF renders_object [OF r d]]) (simp add: max_depth_def)
  then have "json_Valid (marshal_object ?ms)" by (simp add: json_Valid_def)
  then have "Decode_struct fs zero (marshal_object ?ms) = Unmarshal_struct fs zero (marshal_object ?ms)" by (rule Decode_object)
  also have "\<dots> = fold_opt (set_member fs) ?ms zero"
    by (rule Unmarshal_struct_text [OF r d]) (auto simp: max_depth_def skips_string tight_texts)
  also have "\<dots> = fold_opt (set_text fs) kvs zero"
    using valid
  proof (induction kvs arbitrary: zero)
    case (Cons kv kvs)
    obtain k v where kv: "kv = (k, v)" by (rule prod.exhaust)
    have "json_Unmarshal (marshal_string v) = Some (JString v)"
      using renders_Unmarshal [OF renders_string, of v 0] Cons.prems by (simp add: kv max_depth_def)
    then have "set_member fs (k, marshal_string v) zero = set_text fs (k, v) zero"
      by (simp add: set_member_def set_text_def split: option.split)
    with Cons show ?case by (auto simp: kv split: option.splits)
  qed simp
  finally show ?thesis .
qed

end
