(* ===== verification/Hashes.thy ===== *)
theory Hashes
  imports Codecs
begin

text \<open>
  The digests of Go's \<^verbatim>\<open>crypto/sha1\<close>, \<^verbatim>\<open>crypto/sha256\<close> and \<^verbatim>\<open>crypto/hmac\<close> packages (FIPS 180-4 and
  FIPS 198-1), on 32-bit words: the signature schemes of the source catalog, the session cookies and
  the API key hashes are computed with them. \<^verbatim>\<open>hmac.Equal\<close> and \<^verbatim>\<open>subtle.ConstantTimeCompare\<close> compare
  byte sequences for equality; their timing is not a matter of values.
\<close>

unbundle bit_operations_syntax

subsection \<open>Words and blocks of bytes\<close>

type_synonym w32 = "32 word"

definition be_word :: "bytes \<Rightarrow> w32" where
  "be_word bs = foldl (\<lambda>w b. push_bit 8 w OR of_char b) 0 bs"

definition word_bytes :: "w32 \<Rightarrow> bytes" where
  "word_bytes w = map (\<lambda>k. char_of (unat (drop_bit k w))) [24, 16, 8, 0]"

definition be_len64 :: "nat \<Rightarrow> bytes" where
  "be_len64 n = map (\<lambda>k. char_of (n div 256 ^ (7 - k))) [0..<8]"

text \<open>Consecutive groups of \<open>n\<close> elements.\<close>

fun groups :: "nat \<Rightarrow> 'a list \<Rightarrow> 'a list list" where
  "groups n xs = (if xs = [] \<or> n = 0 then [] else take n xs # groups n (drop n xs))"

declare groups.simps [simp del]

text \<open>Padding: the bit 1, zeros up to 56 modulo 64, and the length in bits.\<close>

definition md_pad :: "bytes \<Rightarrow> bytes" where
  "md_pad m = m @ char_of (128 :: nat) # replicate ((119 - length m mod 64) mod 64) (char_of (0 :: nat)) @
     be_len64 (8 * length m)"

definition md_blocks :: "bytes \<Rightarrow> w32 list list" where
  "md_blocks m = map (\<lambda>b. map be_word (groups 4 b)) (groups 64 (md_pad m))"

text \<open>The message schedule is kept newest word first, so that \<open>ws ! (k - 1)\<close> is the word k steps back.\<close>

primrec schedule :: "(w32 list \<Rightarrow> w32) \<Rightarrow> nat \<Rightarrow> w32 list \<Rightarrow> w32 list" where
  "schedule f 0 ws = ws"
| "schedule f (Suc n) ws = schedule f n (f ws # ws)"

subsection \<open>SHA-256\<close>

type_synonym sha256_state = "w32 \<times> w32 \<times> w32 \<times> w32 \<times> w32 \<times> w32 \<times> w32 \<times> w32"

text \<open>
  The round constants are the first 32 bits of the fractional parts of the cube roots of the first 64
  primes: the integer cube root of \<open>p\<close> with 32 binary places, whose integer part the word drops.
\<close>

definition cube_root :: "int \<Rightarrow> int" where
  "cube_root n = fold (\<lambda>b r. let c = r + 2 ^ b in if c ^ 3 \<le> n then c else r) (rev [0..<36]) 0"

definition primes_to :: "int \<Rightarrow> int list" where
  "primes_to n = filter (\<lambda>p. list_all (\<lambda>q. p mod q \<noteq> 0) [2..p - 1]) [2..n]"

definition sha256_k :: "w32 list" where
  "sha256_k = map (\<lambda>p. word_of_int (cube_root (p * 2 ^ 96))) (primes_to 311)"

definition sha256_init :: sha256_state where
  "sha256_init =
    (0x6a09e667, 0xbb67ae85, 0x3c6ef372, 0xa54ff53a,
     0x510e527f, 0x9b05688c, 0x1f83d9ab, 0x5be0cd19)"

definition sha256_next :: "w32 list \<Rightarrow> w32" where
  "sha256_next ws =
     (let s0 = word_rotr 7 (ws ! 14) XOR word_rotr 18 (ws ! 14) XOR drop_bit 3 (ws ! 14);
          s1 = word_rotr 17 (ws ! 1) XOR word_rotr 19 (ws ! 1) XOR drop_bit 10 (ws ! 1)
      in ws ! 15 + s0 + ws ! 6 + s1)"

definition sha256_round :: "w32 \<times> w32 \<Rightarrow> sha256_state \<Rightarrow> sha256_state" where
  "sha256_round kw st =
     (case st of (a, b, c, d, e, f, g, h) \<Rightarrow>
        let s1 = word_rotr 6 e XOR word_rotr 11 e XOR word_rotr 25 e;
            ch = (e AND f) XOR (NOT e AND g);
            t1 = h + s1 + ch + fst kw + snd kw;
            s0 = word_rotr 2 a XOR word_rotr 13 a XOR word_rotr 22 a;
            maj = (a AND b) XOR (a AND c) XOR (b AND c)
        in (t1 + s0 + maj, a, b, c, d + t1, e, f, g))"

definition sha256_block :: "w32 list \<Rightarrow> sha256_state \<Rightarrow> sha256_state" where
  "sha256_block blk st =
     (case fold sha256_round (zip sha256_k (rev (schedule sha256_next 48 (rev blk)))) st of
        (a', b', c', d', e', f', g', h') \<Rightarrow>
      case st of (a, b, c, d, e, f, g, h) \<Rightarrow>
        (a + a', b + b', c + c', d + d', e + e', f + f', g + g', h + h'))"

definition sha256 :: "bytes \<Rightarrow> bytes" where
  "sha256 m = (case fold sha256_block (md_blocks m) sha256_init of (a, b, c, d, e, f, g, h) \<Rightarrow>
     concat (map word_bytes [a, b, c, d, e, f, g, h]))"

lemma length_word_bytes [simp]: "length (word_bytes w) = 4"
  by (simp add: word_bytes_def)

lemma length_sha256 [simp]: "length (sha256 m) = 32"
  by (simp add: sha256_def split: prod.splits)

subsection \<open>SHA-1\<close>

type_synonym sha1_state = "w32 \<times> w32 \<times> w32 \<times> w32 \<times> w32"

definition sha1_next :: "w32 list \<Rightarrow> w32" where
  "sha1_next ws = word_rotl 1 (ws ! 2 XOR ws ! 7 XOR ws ! 13 XOR ws ! 15)"

definition sha1_round :: "nat \<times> w32 \<Rightarrow> sha1_state \<Rightarrow> sha1_state" where
  "sha1_round iw st =
     (case st of (a, b, c, d, e) \<Rightarrow>
        let (f, k) = (if fst iw < 20 then ((b AND c) OR (NOT b AND d), 0x5a827999)
                      else if fst iw < 40 then (b XOR c XOR d, 0x6ed9eba1)
                      else if fst iw < 60 then ((b AND c) OR (b AND d) OR (c AND d), 0x8f1bbcdc)
                      else (b XOR c XOR d, 0xca62c1d6))
        in (word_rotl 5 a + f + e + k + snd iw, a, word_rotl 30 b, c, d))"

definition sha1_block :: "w32 list \<Rightarrow> sha1_state \<Rightarrow> sha1_state" where
  "sha1_block blk st =
     (case fold sha1_round (zip [0..<80] (rev (schedule sha1_next 64 (rev blk)))) st of
        (a', b', c', d', e') \<Rightarrow>
      case st of (a, b, c, d, e) \<Rightarrow> (a + a', b + b', c + c', d + d', e + e'))"

definition sha1 :: "bytes \<Rightarrow> bytes" where
  "sha1 m = (case fold sha1_block (md_blocks m)
       (0x67452301, 0xefcdab89, 0x98badcfe, 0x10325476, 0xc3d2e1f0) of (a, b, c, d, e) \<Rightarrow>
     concat (map word_bytes [a, b, c, d, e]))"

lemma length_sha1 [simp]: "length (sha1 m) = 20"
  by (simp add: sha1_def split: prod.splits)

subsection \<open>HMAC\<close>

definition xor_byte :: "nat \<Rightarrow> char \<Rightarrow> char" where
  "xor_byte n c = char_of (n XOR of_char c)"

text \<open>\<^verbatim>\<open>hmac.New(newHash, key)\<close>, one \<^verbatim>\<open>Write\<close> of the message and \<^verbatim>\<open>Sum(nil)\<close>; both hashes have 64-byte blocks.\<close>

definition hmac :: "(bytes \<Rightarrow> bytes) \<Rightarrow> bytes \<Rightarrow> bytes \<Rightarrow> bytes" where
  "hmac hash key msg =
     (let k0 = (if 64 < length key then hash key else key);
          k = k0 @ replicate (64 - length k0) (char_of (0 :: nat))
      in hash (map (xor_byte 0x5c) k @ hash (map (xor_byte 0x36) k @ msg)))"

lemma length_hmac_sha256 [simp]: "length (hmac sha256 key msg) = 32"
  by (simp add: hmac_def Let_def)

end
