(* ===== verification/Sourcedef.thy ===== *)
theory Sourcedef
  imports Hashes Json
begin

text \<open>
  The source-definition catalog (\<^verbatim>\<open>internal/sourcedef\<close>): the declarative description of a provider's
  signature scheme, its validation and loading, the verifier that decides whether an inbound request
  is authentic, and the signer of the test-event generator. The YAML parser is a parameter of \<open>Load\<close>;
  digests, encodings and header handling are computed. Instants are passed in where the code calls
  \<^verbatim>\<open>time.Now\<close>.
\<close>

subsection \<open>The schema\<close>

record TimestampScheme =
  tss_TimestampField :: string
  tss_SignatureField :: string
  tss_ToleranceSeconds :: int

record Verification =
  vf_Type :: string
  vf_Algorithm :: string
  vf_Encoding :: string
  vf_SignatureHeader :: string
  vf_SignaturePrefix :: string
  vf_Timestamp :: "TimestampScheme option"

record Definition =
  df_Slug :: string
  df_Name :: string
  df_Description :: string
  df_Verification :: Verification
  df_SamplePayload :: string
  df_SampleHeaders :: "(string \<times> string) list"

subsection \<open>The catalog\<close>

datatype catalog_error =
    ParseFailed string
  | SlugRequired | NameRequired | SampleRequired | SampleInvalid
  | HeaderRequired | BadType string | BadAlgorithm string | BadEncoding string
  | TimestampFields | TolerancePositive
  | InvalidDefinition string catalog_error
  | DuplicateSlug string string

text \<open>Both validators return the first error, or none.\<close>

definition validateHMAC :: "Verification \<Rightarrow> catalog_error option" where
  "validateHMAC v =
     (if vf_Algorithm v \<notin> {''sha256'', ''sha1''} then Some (BadAlgorithm (vf_Algorithm v))
      else if vf_Encoding v \<notin> {''hex'', ''base64''} then Some (BadEncoding (vf_Encoding v))
      else if vf_SignatureHeader v = '''' then Some HeaderRequired
      else (case vf_Timestamp v of None \<Rightarrow> None
            | Some ts \<Rightarrow>
                if tss_TimestampField ts = '''' \<or> tss_SignatureField ts = '''' then Some TimestampFields
                else if tss_ToleranceSeconds ts \<le> 0 then Some TolerancePositive
                else None))"

definition validate :: "Definition \<Rightarrow> catalog_error option" where
  "validate d =
     (if df_Slug d = '''' then Some SlugRequired
      else if df_Name d = '''' then Some NameRequired
      else if df_SamplePayload d = '''' then Some SampleRequired
      else if \<not> json_Valid (df_SamplePayload d) then Some SampleInvalid
      else (let ty = vf_Type (df_Verification d) in
            if ty = ''none'' then None
            else if ty = ''hmac'' then validateHMAC (df_Verification d)
            else if ty = ''api_key'' then
              (if vf_SignatureHeader (df_Verification d) = '''' then Some HeaderRequired else None)
            else if ty = ''basic_auth'' then None
            else Some (BadType ty)))"

type_synonym catalog = "string \<rightharpoonup> Definition"

text \<open>The loop of \<^verbatim>\<open>Load\<close> over the embedded files, with the definitions loaded so far.\<close>

primrec Load_from :: "(bytes \<Rightarrow> Definition option) \<Rightarrow> (string \<times> bytes) list \<Rightarrow> catalog \<Rightarrow>
    catalog_error + catalog" where
  "Load_from unmarshal [] defs = Inr defs"
| "Load_from unmarshal (f # fs) defs =
     (case unmarshal (snd f) of
        None \<Rightarrow> Inl (ParseFailed (fst f))
      | Some d \<Rightarrow>
          (case validate d of
             Some e \<Rightarrow> Inl (InvalidDefinition (fst f) e)
           | None \<Rightarrow>
               if defs (df_Slug d) \<noteq> None then Inl (DuplicateSlug (df_Slug d) (fst f))
               else Load_from unmarshal fs (defs(df_Slug d \<mapsto> d))))"

definition Load :: "(bytes \<Rightarrow> Definition option) \<Rightarrow> (string \<times> bytes) list \<Rightarrow> catalog_error + catalog" where
  "Load unmarshal files = Load_from unmarshal files Map.empty"

subsection \<open>The verifier\<close>

text \<open>The fields of a \<^verbatim>\<open>t=123,v1=abc\<close> header; a later field replaces an earlier one of the same name.\<close>

definition parseSignatureFields :: "string \<Rightarrow> (string \<rightharpoonup> string)" where
  "parseSignatureFields s =
     foldl (\<lambda>out part. case Cut CHR ''='' part of None \<Rightarrow> out
                        | Some (k, v) \<Rightarrow> out(TrimSpace k \<mapsto> TrimSpace v))
       Map.empty (Split CHR '','' s)"

definition decodeSignature :: "string \<Rightarrow> string \<Rightarrow> bytes option" where
  "decodeSignature s encoding =
     (if encoding = ''hex'' then hex_Decode s
      else if encoding = ''base64'' then b64_std_Decode s
      else None)"

text \<open>\<^verbatim>\<open>nil\<close> for an unknown algorithm is the empty sequence.\<close>

definition computeHMAC :: "string \<Rightarrow> bytes \<Rightarrow> bytes \<Rightarrow> bytes" where
  "computeHMAC algorithm secret payload =
     (if algorithm = ''sha256'' then hmac sha256 secret payload
      else if algorithm = ''sha1'' then hmac sha1 secret payload
      else [])"

text \<open>\<^verbatim>\<open>t.Unix()\<close>\<close>

definition Unix :: "time \<Rightarrow> int" where
  "Unix t = t div second"

text \<open>\<^verbatim>\<open>fields[k]\<close> is the empty string when the key is absent.\<close>

definition field_of :: "(string \<rightharpoonup> string) \<Rightarrow> string \<Rightarrow> string" where
  "field_of m k = (case m k of None \<Rightarrow> [] | Some v \<Rightarrow> v)"

text \<open>The absolute difference in int64, as the code computes it.\<close>

definition ts_delta :: "int \<Rightarrow> int \<Rightarrow> int" where
  "ts_delta unixNow ts =
     (let delta = int64_of (unixNow - ts) in if delta < 0 then int64_of (- delta) else delta)"

definition verifyHMAC :: "time \<Rightarrow> Verification \<Rightarrow> bytes \<Rightarrow> header \<Rightarrow> bytes \<Rightarrow> bool" where
  "verifyHMAC now v body headers secret =
     (let raw = header_Get headers (vf_SignatureHeader v) in
      if raw = '''' then False
      else
        (let signed =
           (case vf_Timestamp v of
              Some t \<Rightarrow>
                (let fields = parseSignatureFields raw;
                     tsStr = field_of fields (tss_TimestampField t);
                     provided = field_of fields (tss_SignatureField t)
                 in if tsStr = '''' \<or> provided = '''' then None
                    else (case ParseInt64 tsStr of None \<Rightarrow> None
                          | Some ts \<Rightarrow>
                              if ts_delta (Unix now) ts > tss_ToleranceSeconds t then None
                              else Some (tsStr @ ''.'' @ body, provided)))
            | None \<Rightarrow> Some (body, TrimPrefix raw (vf_SignaturePrefix v)))
         in case signed of None \<Rightarrow> False
            | Some (payload, provided) \<Rightarrow>
                (case decodeSignature provided (vf_Encoding v) of None \<Rightarrow> False
                 | Some sig \<Rightarrow> computeHMAC (vf_Algorithm v) secret payload = sig)))"

definition verifyAPIKey :: "Verification \<Rightarrow> header \<Rightarrow> bytes \<Rightarrow> bool" where
  "verifyAPIKey v headers secret =
     (let provided = header_Get headers (vf_SignatureHeader v)
      in if provided = '''' then False else TrimPrefix provided (vf_SignaturePrefix v) = secret)"

definition verifyBasicAuth :: "header \<Rightarrow> bytes \<Rightarrow> bool" where
  "verifyBasicAuth headers secret =
     (let auth = header_Get headers ''Authorization''
      in if \<not> HasPrefix auth ''Basic '' then False
         else (case b64_std_Decode (TrimPrefix auth ''Basic '') of None \<Rightarrow> False
               | Some decoded \<Rightarrow> decoded = secret))"

text \<open>\<open>None\<close> is the error for a verification type the verifier does not know.\<close>

definition Verify :: "time \<Rightarrow> Definition \<Rightarrow> bytes \<Rightarrow> header \<Rightarrow> bytes \<Rightarrow> bool option" where
  "Verify now d body headers secret =
     (let v = df_Verification d in
      if vf_Type v = ''none'' then Some True
      else if vf_Type v = ''hmac'' then Some (verifyHMAC now v body headers secret)
      else if vf_Type v = ''api_key'' then Some (verifyAPIKey v headers secret)
      else if vf_Type v = ''basic_auth'' then Some (verifyBasicAuth headers secret)
      else None)"

subsection \<open>The signer\<close>

definition encodeSignature :: "bytes \<Rightarrow> string \<Rightarrow> string option" where
  "encodeSignature sig encoding =
     (if encoding = ''hex'' then Some (hex_Encode sig)
      else if encoding = ''base64'' then Some (b64_std_Encode sig)
      else None)"

definition signHMAC :: "time \<Rightarrow> Verification \<Rightarrow> bytes \<Rightarrow> bytes \<Rightarrow> header \<Rightarrow> header option" where
  "signHMAC now v body secret headers =
     (case vf_Timestamp v of
        Some t \<Rightarrow>
          (let ts = Unix now; payload = FormatInt ts @ ''.'' @ body in
           case encodeSignature (computeHMAC (vf_Algorithm v) secret payload) (vf_Encoding v) of
             None \<Rightarrow> None
           | Some sig \<Rightarrow> Some (header_Set headers (vf_SignatureHeader v)
               (tss_TimestampField t @ ''='' @ FormatInt ts @ '','' @ tss_SignatureField t @ ''='' @ sig)))
      | None \<Rightarrow>
          (case encodeSignature (computeHMAC (vf_Algorithm v) secret body) (vf_Encoding v) of
             None \<Rightarrow> None
           | Some sig \<Rightarrow> Some (header_Set headers (vf_SignatureHeader v) (vf_SignaturePrefix v @ sig))))"

definition Sign :: "time \<Rightarrow> Definition \<Rightarrow> bytes \<Rightarrow> bytes \<Rightarrow> header option" where
  "Sign now d body secret =
     (let headers = foldl (\<lambda>h (k, x). header_Set h k x) [] (df_SampleHeaders d);
          v = df_Verification d
      in if vf_Type v = ''none'' then Some headers
         else if vf_Type v = ''hmac'' then signHMAC now v body secret headers
         else if vf_Type v = ''api_key'' then
           Some (header_Set headers (vf_SignatureHeader v) (vf_SignaturePrefix v @ secret))
         else if vf_Type v = ''basic_auth'' then
           Some (header_Set headers ''Authorization'' (''Basic '' @ b64_std_Encode secret))
         else None)"

subsection \<open>Encodings of a signature\<close>

text \<open>What the schemes rely on in an encoding of signatures.\<close>

locale signature_codec =
  fixes enc :: "bytes \<Rightarrow> string" and dec :: "string \<Rightarrow> bytes option"
  assumes dec_enc: "dec (enc b) = Some b"
    and dec_Nil: "dec [] = Some []"
    and enc_graphic: "list_all graphic (enc b)"
    and enc_no_comma: "CHR '','' \<notin> set (enc b)"
begin

lemma enc_ne: "b \<noteq> [] \<Longrightarrow> enc b \<noteq> []"
  using dec_enc dec_Nil by (metis option.inject)

lemma enc_trim: "TrimSpace (enc b) = enc b"
  by (rule TrimSpace_graphic) (rule enc_graphic)

end

interpretation hexc: signature_codec hex_Encode hex_Decode
  by unfold_locales (simp_all add: hex_Decode_Encode hex_Encode_graphic hex_Encode_no_comma)

interpretation b64c: signature_codec b64_std_Encode b64_std_Decode
  by unfold_locales (rule b64_std_Decode_Encode, simp add: b64_std_Decode_def,
    rule b64_std_Encode_graphic, rule b64_std_Encode_no_comma)

text \<open>A field name that the header syntax can carry: printable, no comma, no equals sign.\<close>

definition plain_field :: "string \<Rightarrow> bool" where
  "plain_field f \<longleftrightarrow> list_all graphic f \<and> CHR '','' \<notin> set f \<and> CHR ''='' \<notin> set f"

context signature_codec
begin

lemma fields_roundtrip:
  assumes "plain_field t" "plain_field s" "t \<noteq> s"
  shows "field_of (parseSignatureFields (t @ ''='' @ FormatInt n @ '','' @ s @ ''='' @ enc b)) t = FormatInt n"
    "field_of (parseSignatureFields (t @ ''='' @ FormatInt n @ '','' @ s @ ''='' @ enc b)) s = enc b"
proof -
  have "Split CHR '','' ((t @ CHR ''='' # FormatInt n) @ CHR '','' # (s @ CHR ''='' # enc b)) =
    [t @ CHR ''='' # FormatInt n, s @ CHR ''='' # enc b]"
    using assms enc_no_comma by (subst Split_append) (auto simp: plain_field_def FormatInt_no_sep)
  then have "parseSignatureFields (t @ ''='' @ FormatInt n @ '','' @ s @ ''='' @ enc b) =
    [t \<mapsto> FormatInt n, s \<mapsto> enc b]"
    using assms by (simp add: parseSignatureFields_def plain_field_def TrimSpace_graphic FormatInt_graphic enc_graphic)
  then show "field_of (parseSignatureFields (t @ ''='' @ FormatInt n @ '','' @ s @ ''='' @ enc b)) t = FormatInt n"
    "field_of (parseSignatureFields (t @ ''='' @ FormatInt n @ '','' @ s @ ''='' @ enc b)) s = enc b"
    using assms(3) by (simp_all add: field_of_def)
qed

end

lemma length_hmac_sha1 [simp]: "length (hmac sha1 key msg) = 20"
  by (simp add: hmac_def Let_def)

lemma computeHMAC_ne:
  assumes "a = ''sha256'' \<or> a = ''sha1''"
  shows "computeHMAC a k m \<noteq> []"
proof -
  have "0 < length (computeHMAC a k m)"
    using assms by (auto simp: computeHMAC_def simp del: length_greater_0_conv)
  then show ?thesis by simp
qed

text \<open>Both encodings at once, as the code selects them.\<close>

lemma encode_decode:
  assumes "e = ''hex'' \<or> e = ''base64''"
  obtains sig where "encodeSignature b e = Some sig" "decodeSignature sig e = Some b"
    "b \<noteq> [] \<longrightarrow> sig \<noteq> []"
    "\<And>t s n. plain_field t \<Longrightarrow> plain_field s \<Longrightarrow> t \<noteq> s \<Longrightarrow>
       field_of (parseSignatureFields (t @ ''='' @ FormatInt n @ '','' @ s @ ''='' @ sig)) t = FormatInt n \<and>
       field_of (parseSignatureFields (t @ ''='' @ FormatInt n @ '','' @ s @ ''='' @ sig)) s = sig"
  using assms
proof
  assume "e = ''hex''"
  then show thesis
    using hexc.enc_ne hexc.fields_roundtrip
    by (intro that [of "hex_Encode b"]) (auto simp: encodeSignature_def decodeSignature_def hexc.dec_enc)
next
  assume "e = ''base64''"
  then show thesis
    using b64c.enc_ne b64c.fields_roundtrip
    by (intro that [of "b64_std_Encode b"]) (auto simp: encodeSignature_def decodeSignature_def b64c.dec_enc)
qed

text \<open>The int64 difference is the distance, but for the one timestamp whose distance is $2^{63}$.\<close>

lemma ts_delta_eq:
  assumes "0 \<le> n" "n < 2 ^ 62" "- (2 ^ 63) \<le> ts" "ts < 2 ^ 63"
  shows "ts_delta n ts =
    (if ts = n - 2 ^ 63 then - (2 ^ 63) else if ts < n - 2 ^ 63 then 2 ^ 64 - (n - ts) else \<bar>n - ts\<bar>)"
proof (cases "n - ts < 2 ^ 63")
  case True
  then have "int64_of (n - ts) = n - ts" using assms by (intro int64_of_id) auto
  moreover have "int64_of (- (n - ts)) = - (n - ts)" if "n - ts < 0"
    using assms that by (intro int64_of_id) auto
  ultimately show ?thesis using True by (auto simp: ts_delta_def Let_def)
next
  case False
  then have d: "int64_of (n - ts) = n - ts - 2 ^ 64" using assms by (intro int64_of_above) auto
  have "int64_of (- (n - ts - 2 ^ 64)) = (if ts = n - 2 ^ 63 then - (2 ^ 63) else 2 ^ 64 - (n - ts))"
  proof (cases "ts = n - 2 ^ 63")
    case True
    then have "- (n - ts - 2 ^ 64) = 2 ^ 63" by simp
    then show ?thesis using True int64_of_above [of "2 ^ 63"] by simp
  next
    case False
    then show ?thesis using assms \<open>\<not> n - ts < 2 ^ 63\<close> by (subst int64_of_id) auto
  qed
  with d False assms show ?thesis by (auto simp: ts_delta_def Let_def)
qed

lemma ts_delta_near:
  "0 \<le> n \<Longrightarrow> n < 2 ^ 62 \<Longrightarrow> 0 \<le> ts \<Longrightarrow> ts < 2 ^ 62 \<Longrightarrow> ts_delta n ts = \<bar>n - ts\<bar>"
  by (subst ts_delta_eq) auto

lemma ParseInt64_bounds: "ParseInt64 s = Some i \<Longrightarrow> - (2 ^ 63) \<le> i \<and> i < 2 ^ 63"
  by (auto simp: ParseInt64_def Let_def split: option.splits prod.splits if_splits)

subsection \<open>Properties of the verifier\<close>

lemma validate_hmac:
  assumes "validate d = None" "vf_Type (df_Verification d) = ''hmac''"
  shows "vf_Algorithm (df_Verification d) \<in> {''sha256'', ''sha1''}"
    "vf_Encoding (df_Verification d) \<in> {''hex'', ''base64''}"
    "vf_SignatureHeader (df_Verification d) \<noteq> ''''"
    "vf_Timestamp (df_Verification d) = Some t \<Longrightarrow> 0 < tss_ToleranceSeconds t"
  using assms by (auto simp: validate_def validateHMAC_def Let_def split: if_splits option.splits)

lemma validate_type:
  "validate d = None \<Longrightarrow> vf_Type (df_Verification d) \<in> {''none'', ''hmac'', ''api_key'', ''basic_auth''}"
  by (auto simp: validate_def Let_def split: if_splits)

lemma verify_signed_hmac:
  fixes v :: Verification
  assumes alg: "vf_Algorithm v \<in> {''sha256'', ''sha1''}" and enc: "vf_Encoding v \<in> {''hex'', ''base64''}"
    and fields: "\<And>t. vf_Timestamp v = Some t \<Longrightarrow> plain_field (tss_TimestampField t) \<and>
       plain_field (tss_SignatureField t) \<and> tss_TimestampField t \<noteq> tss_SignatureField t \<and>
       ts_delta (Unix now') (Unix now) \<le> tss_ToleranceSeconds t"
    and clock: "- (2 ^ 63) \<le> Unix now" "Unix now < 2 ^ 63"
  shows "\<exists>h. signHMAC now v body secret headers = Some h \<and> verifyHMAC now' v body h secret"
proof (cases "vf_Timestamp v")
  case None
  obtain sig where "encodeSignature (computeHMAC (vf_Algorithm v) secret body) (vf_Encoding v) = Some sig"
    "decodeSignature sig (vf_Encoding v) = Some (computeHMAC (vf_Algorithm v) secret body)" "sig \<noteq> []"
    using enc alg computeHMAC_ne
    by (metis encode_decode insert_iff singletonD)
  with None show ?thesis by (simp add: signHMAC_def verifyHMAC_def)
next
  case (Some t)
  let ?p = "FormatInt (Unix now) @ ''.'' @ body"
  obtain sig where sig: "encodeSignature (computeHMAC (vf_Algorithm v) secret ?p) (vf_Encoding v) = Some sig"
    "decodeSignature sig (vf_Encoding v) = Some (computeHMAC (vf_Algorithm v) secret ?p)" "sig \<noteq> []"
    "\<And>a b n. plain_field a \<Longrightarrow> plain_field b \<Longrightarrow> a \<noteq> b \<Longrightarrow>
       field_of (parseSignatureFields (a @ ''='' @ FormatInt n @ '','' @ b @ ''='' @ sig)) a = FormatInt n \<and>
       field_of (parseSignatureFields (a @ ''='' @ FormatInt n @ '','' @ b @ ''='' @ sig)) b = sig"
    using enc alg encode_decode [of "vf_Encoding v" "computeHMAC (vf_Algorithm v) secret ?p"] computeHMAC_ne
    by (metis insert_iff singletonD)
  have "ParseInt64 (FormatInt (Unix now)) = Some (Unix now)"
    using clock by (intro ParseInt_FormatInt) auto
  then show ?thesis using Some sig fields [OF Some]
    by (simp add: signHMAC_def verifyHMAC_def Let_def)
qed

lemma Sign_Verify:
  fixes d :: Definition
  assumes "validate d = None"
    and "\<And>t. vf_Timestamp (df_Verification d) = Some t \<Longrightarrow> plain_field (tss_TimestampField t) \<and>
       plain_field (tss_SignatureField t) \<and> tss_TimestampField t \<noteq> tss_SignatureField t \<and>
       \<bar>Unix now' - Unix now\<bar> \<le> tss_ToleranceSeconds t"
    and "0 \<le> Unix now" "Unix now < 2 ^ 62" "0 \<le> Unix now'" "Unix now' < 2 ^ 62"
    and "vf_Type (df_Verification d) = ''api_key'' \<Longrightarrow> vf_SignaturePrefix (df_Verification d) @ secret \<noteq> []"
  shows "\<exists>h. Sign now d body secret = Some h \<and> Verify now' d body h secret = Some True"
proof -
  consider "vf_Type (df_Verification d) = ''none''" | "vf_Type (df_Verification d) = ''hmac''"
    | "vf_Type (df_Verification d) = ''api_key''" | "vf_Type (df_Verification d) = ''basic_auth''"
    using validate_type [OF assms(1)] by auto
  then show ?thesis
  proof cases
    case 2
    have "\<exists>h. signHMAC now (df_Verification d) body secret hs = Some h \<and>
      verifyHMAC now' (df_Verification d) body h secret" for hs
      by (rule verify_signed_hmac) (use assms validate_hmac [OF assms(1) 2] ts_delta_near in auto)
    with 2 show ?thesis by (simp add: Sign_def Verify_def Let_def)
  next
    case 4
    have "TrimPrefix (''Basic '' @ s) ''Basic '' = s" "HasPrefix (''Basic '' @ s) ''Basic ''" for s
      by (rule TrimPrefix_append, rule HasPrefix_append)
    with 4 show ?thesis
      by (simp add: Sign_def Verify_def Let_def verifyBasicAuth_def b64c.dec_enc)
  qed (use assms in \<open>simp_all add: Sign_def Verify_def Let_def verifyAPIKey_def\<close>)
qed

text \<open>
  C6. Sign is Verify's inverse: for a definition the catalog accepts, the signer of the test-event
  generator always produces headers, and the verifier accepts them for the same body and secret, for
  every scheme, as long as the clock has not moved by more than the tolerance in between. (The names
  of the two fields of a timestamp scheme are distinct and fit the header's syntax, the clock is between
  1970 and 2^62 seconds after, and an API key scheme does not send the empty string.)
\<close>

theorem Sign_then_Verify:
  fixes d :: Definition
  assumes "validate d = None"
    and "\<And>t. vf_Timestamp (df_Verification d) = Some t \<Longrightarrow> plain_field (tss_TimestampField t) \<and>
       plain_field (tss_SignatureField t) \<and> tss_TimestampField t \<noteq> tss_SignatureField t \<and>
       \<bar>Unix now' - Unix now\<bar> \<le> tss_ToleranceSeconds t"
    and "0 \<le> Unix now" "Unix now < 2 ^ 62" "0 \<le> Unix now'" "Unix now' < 2 ^ 62"
    and "vf_Type (df_Verification d) = ''api_key'' \<Longrightarrow> vf_SignaturePrefix (df_Verification d) @ secret \<noteq> []"
  shows "\<exists>h. Sign now d body secret = Some h \<and> Verify now' d body h secret = Some True"
  using assms by (rule Sign_Verify)

text \<open>The scheme of \<^verbatim>\<open>catalog/stripe.yaml\<close>, with a short payload, for the witnesses.\<close>

definition stripe_example :: Definition where
  "stripe_example = \<lparr>df_Slug = ''stripe'', df_Name = ''Stripe'', df_Description = [],
     df_Verification = \<lparr>vf_Type = ''hmac'', vf_Algorithm = ''sha256'', vf_Encoding = ''hex'',
       vf_SignatureHeader = ''Stripe-Signature'', vf_SignaturePrefix = [],
       vf_Timestamp = Some \<lparr>tss_TimestampField = ''t'', tss_SignatureField = ''v1'', tss_ToleranceSeconds = 300\<rparr>\<rparr>,
     df_SamplePayload = ''{}'', df_SampleHeaders = [(''Content-Type'', ''application/json'')]\<rparr>"

lemma stripe_example_valid: "validate stripe_example = None"
  by (simp add: stripe_example_def validate_def validateHMAC_def Let_def json_Valid_def json_Unmarshal_def
      json_tokens_def lex_step_def lex_begin_def lex_end_def json_space_def parse_step_def parse_open_def
      parse_value_def parse_end_def max_depth_def)

theorem Sign_then_Verify_witness:
  "\<exists>h. Sign (1690000000 * second) stripe_example ''{}'' ''whsec'' = Some h \<and>
       Verify (1690000200 * second) stripe_example ''{}'' h ''whsec'' = Some True"
  by (rule Sign_then_Verify)
    (auto simp: stripe_example_valid Unix_def second_def, auto simp: stripe_example_def plain_field_def graphic_def)

text \<open>
  C7. What an accepted timestamp-signed request proves. If the verifier accepts, the header names a
  timestamp that is within the tolerance of the clock in both directions, or exactly 2^63 seconds in
  the past, and carries a signature that decodes to the HMAC, under the source's secret, of that timestamp
  text, a dot and the very body received. The second case is an overflow of the code: the int64
  difference is then its own negative, which no tolerance exceeds.
\<close>

theorem Verify_timestamp_sound:
  assumes "Verify now d body h secret = Some True"
    and "vf_Type (df_Verification d) = ''hmac''" and "vf_Timestamp (df_Verification d) = Some t"
    and "0 \<le> Unix now" "Unix now < 2 ^ 62" "tss_ToleranceSeconds t < 2 ^ 62"
  shows "\<exists>fields tsStr ts.
    fields = parseSignatureFields (header_Get h (vf_SignatureHeader (df_Verification d))) \<and>
    fields (tss_TimestampField t) = Some tsStr \<and> ParseInt64 tsStr = Some ts \<and>
    (\<bar>Unix now - ts\<bar> \<le> tss_ToleranceSeconds t \<or> ts = Unix now - 2 ^ 63) \<and>
    decodeSignature (field_of fields (tss_SignatureField t)) (vf_Encoding (df_Verification d)) =
      Some (computeHMAC (vf_Algorithm (df_Verification d)) secret (tsStr @ ''.'' @ body))"
proof -
  define fields where "fields = parseSignatureFields (header_Get h (vf_SignatureHeader (df_Verification d)))"
  define tsStr where "tsStr = field_of fields (tss_TimestampField t)"
  have v: "verifyHMAC now (df_Verification d) body h secret"
    using assms(1,2) by (simp add: Verify_def)
  then obtain ts where ts: "tsStr \<noteq> ''''" "ParseInt64 tsStr = Some ts"
    "\<not> ts_delta (Unix now) ts > tss_ToleranceSeconds t"
    "decodeSignature (field_of fields (tss_SignatureField t)) (vf_Encoding (df_Verification d)) =
      Some (computeHMAC (vf_Algorithm (df_Verification d)) secret (tsStr @ ''.'' @ body))"
    using assms(3)
    by (auto simp: verifyHMAC_def Let_def fields_def tsStr_def split: if_splits option.splits)
  have "fields (tss_TimestampField t) = Some tsStr"
    using ts(1) by (auto simp: tsStr_def field_of_def split: option.splits)
  moreover have "\<bar>Unix now - ts\<bar> \<le> tss_ToleranceSeconds t \<or> ts = Unix now - 2 ^ 63"
    using ts(3) assms(4-6) ParseInt64_bounds [OF ts(2)] ts_delta_eq [of "Unix now" ts]
    by (auto split: if_splits)
  ultimately show ?thesis using ts(2,4) fields_def by blast
qed

theorem Verify_timestamp_sound_witness:
  "\<exists>h fields tsStr ts. Verify (1690000200 * second) stripe_example ''{}'' h ''whsec'' = Some True \<and>
     fields = parseSignatureFields (header_Get h ''Stripe-Signature'') \<and> fields ''t'' = Some tsStr \<and>
     ParseInt64 tsStr = Some ts \<and> (\<bar>1690000200 - ts\<bar> \<le> 300 \<or> ts = 1690000200 - 2 ^ 63) \<and>
     decodeSignature (field_of fields ''v1'') ''hex'' = Some (computeHMAC ''sha256'' ''whsec'' (tsStr @ ''.'' @ ''{}''))"
proof -
  have "\<exists>h. signHMAC (1690000000 * second) (df_Verification stripe_example) ''{}'' ''whsec'' [] = Some h \<and>
    verifyHMAC (1690000200 * second) (df_Verification stripe_example) ''{}'' h ''whsec''"
    by (rule verify_signed_hmac) (auto simp: stripe_example_def plain_field_def graphic_def Unix_def second_def ts_delta_near)
  then obtain h where h: "Verify (1690000200 * second) stripe_example ''{}'' h ''whsec'' = Some True"
    by (auto simp: Verify_def stripe_example_def)
  have t: "vf_Timestamp (df_Verification stripe_example) =
    Some \<lparr>tss_TimestampField = ''t'', tss_SignatureField = ''v1'', tss_ToleranceSeconds = 300\<rparr>"
    by (simp add: stripe_example_def)
  show ?thesis
    using h Verify_timestamp_sound [OF h _ t] by (auto simp: stripe_example_def Unix_def second_def)
qed

text \<open>
  C28. The overflow behind the exception above: a request signed for the second 2^63 before now passes
  the tolerance check of every definition, although its timestamp is far outside any window. (Only the
  holder of the secret can sign such a request, so the guard against replaying an old request is what fails,
  not authenticity.)
\<close>

theorem stale_timestamp_accepted:
  fixes d :: Definition
  assumes "validate d = None" "vf_Type (df_Verification d) = ''hmac''"
    and "vf_Timestamp (df_Verification d) = Some t"
    and "plain_field (tss_TimestampField t)" "plain_field (tss_SignatureField t)"
    and "tss_TimestampField t \<noteq> tss_SignatureField t"
    and "0 \<le> Unix now" "Unix now < 2 ^ 62"
  shows "\<exists>h. Sign (now - 2 ^ 63 * second) d body secret = Some h \<and> Verify now d body h secret = Some True"
proof -
  have u: "Unix (now - 2 ^ 63 * second) = Unix now - 2 ^ 63"
    by (simp add: Unix_def second_def)
  have "ts_delta (Unix now) (Unix now - 2 ^ 63) = - (2 ^ 63)"
    using assms(7,8) by (subst ts_delta_eq) auto
  then have "\<exists>h. signHMAC (now - 2 ^ 63 * second) (df_Verification d) body secret hs = Some h \<and>
      verifyHMAC now (df_Verification d) body h secret" for hs
    using assms validate_hmac [OF assms(1,2)] by (intro verify_signed_hmac) (auto simp: u [simplified])
  with assms(2) show ?thesis by (simp add: Sign_def Verify_def Let_def)
qed

theorem stale_timestamp_accepted_witness:
  "\<exists>h. Sign (1690000000 * second - 2 ^ 63 * second) stripe_example ''{}'' ''whsec'' = Some h \<and>
       Verify (1690000000 * second) stripe_example ''{}'' h ''whsec'' = Some True"
  by (rule stale_timestamp_accepted [where t = "\<lparr>tss_TimestampField = ''t'', tss_SignatureField = ''v1'',
        tss_ToleranceSeconds = 300\<rparr>"])
    (simp_all add: stripe_example_valid Unix_def second_def, simp_all add: stripe_example_def plain_field_def graphic_def)

abbreviation by_slug :: "Definition list \<Rightarrow> catalog" where
  "by_slug ds \<equiv> map_of (map (\<lambda>d. (df_Slug d, d)) ds)"

lemma by_slug_fresh: "df_Slug d \<notin> df_Slug ` set ds \<Longrightarrow> by_slug ds (df_Slug d) = None"
  by (auto simp: map_of_eq_None_iff)

lemma by_slug_Cons:
  assumes "df_Slug d \<notin> df_Slug ` set ds"
  shows "defs(df_Slug d \<mapsto> d) ++ by_slug ds = defs ++ by_slug (d # ds)"
  using by_slug_fresh [OF assms] by (auto simp: map_add_def fun_eq_iff split: option.splits)

lemma map_Some_Cons:
  "(\<exists>ds. Some d # ys = map Some ds \<and> P ds) \<longleftrightarrow> (\<exists>ds. ys = map Some ds \<and> P (d # ds))"
  by (auto simp: Cons_eq_map_conv)

lemma Load_from_iff:
  "Load_from unmarshal files defs = Inr cat \<longleftrightarrow>
     (\<exists>ds. map (\<lambda>f. unmarshal (snd f)) files = map Some ds \<and> list_all (\<lambda>d. validate d = None) ds \<and>
        distinct (map df_Slug ds) \<and> list_all (\<lambda>d. defs (df_Slug d) = None) ds \<and>
        cat = defs ++ by_slug ds)"
proof (induction files arbitrary: defs)
  case (Cons f fs)
  show ?case
  proof (cases "unmarshal (snd f)")
    case None
    then show ?thesis by (auto simp: Cons_eq_map_conv)
  next
    case (Some d)
    have new: "list_all (\<lambda>x. (defs(df_Slug d \<mapsto> d)) (df_Slug x) = None) ds \<longleftrightarrow>
        df_Slug d \<notin> df_Slug ` set ds \<and> list_all (\<lambda>x. defs (df_Slug x) = None) ds" for ds
      by (auto simp: list_all_iff image_iff)
    show ?thesis
    proof (cases "validate d = None \<and> defs (df_Slug d) = None")
      case True
      then have step: "Load_from unmarshal (f # fs) defs = Load_from unmarshal fs (defs(df_Slug d \<mapsto> d))"
        using Some by simp
      show ?thesis
        unfolding step list.map Some map_Some_Cons Cons.IH new using True
        by (intro ex_cong1) (auto simp: by_slug_Cons simp del: map_of.simps)
    next
      case False
      then show ?thesis unfolding list.map Some map_Some_Cons
        using Some by (auto split: option.splits)
    qed
  qed
qed auto

text \<open>
  What Load accepts, exactly: every embedded file parses, every definition passes validation and no
  two share a slug; the result then maps each slug to the one definition that has it.
\<close>

theorem Load_iff:
  "Load unmarshal files = Inr cat \<longleftrightarrow>
     (\<exists>ds. map (\<lambda>f. unmarshal (snd f)) files = map Some ds \<and> list_all (\<lambda>d. validate d = None) ds \<and>
        distinct (map df_Slug ds) \<and> cat = map_of (map (\<lambda>d. (df_Slug d, d)) ds))"
  unfolding Load_def Load_from_iff by (simp add: list_all_iff)

end
