(* ===== verification/Queue.thy ===== *)
theory Queue
  imports Queries
begin

text \<open>
  Enqueuing deliveries and replays (\<^verbatim>\<open>internal/queue/queue.go\<close>): every delivery row gets one River job
  in the caller's transaction, with the destination's retry policy copied into the job, and the
  job's id is written back to the row. The result lemma gives the database after a fan-out exactly.
\<close>

subsection \<open>The operations\<close>

definition InsertDeliveryJob :: "delivery_args \<Rightarrow> int \<Rightarrow> int dbm" where
  "InsertDeliveryJob args maxAttempts =
     river_InsertTx (DeliveryArgs args) (if maxAttempts < 1 then 1 else maxAttempts)"

text \<open>The body of the loop of \<^verbatim>\<open>EnqueueDeliveriesTo\<close>.\<close>

definition enqueue_target :: "uuid \<Rightarrow> uuid \<Rightarrow> delivery_target \<Rightarrow> unit dbm" where
  "enqueue_target tenant eid t =
     bind (InsertDelivery tenant eid (tg_destination t)) (\<lambda>did.
     bind (InsertDeliveryJob \<lparr>da_delivery_id = uuidString did, da_backoff_base = tg_backoff_base t,
             da_backoff_max = tg_backoff_max t\<rparr> (tg_max_attempts t)) (\<lambda>job.
     SetDeliveryRiverJobID did job))"

definition EnqueueDeliveriesTo :: "uuid \<Rightarrow> uuid \<Rightarrow> delivery_target list \<Rightarrow> nat dbm" where
  "EnqueueDeliveriesTo tenant eid targets =
     bind (for_each (enqueue_target tenant eid) targets) (\<lambda>_. ret (length targets))"

definition EnqueueDeliveries :: "uuid \<Rightarrow> uuid \<Rightarrow> uuid \<Rightarrow> nat dbm" where
  "EnqueueDeliveries tenant sid eid =
     bind (ListEnabledDeliveryTargetsForSource sid) (\<lambda>targets. EnqueueDeliveriesTo tenant eid targets)"

definition InsertReplayJob :: "string \<Rightarrow> int dbm" where
  "InsertReplayJob replayID = river_InsertTx (ReplayArgs replayID) 1"

subsection \<open>The database after a fan-out\<close>

text \<open>
  The contract of one target: a pending delivery of the event to the destination, never attempted,
  linked to a job that names it, carries the destination's backoff policy and may run at least once.
\<close>

definition queued_for :: "uuid \<Rightarrow> uuid \<Rightarrow> delivery_target \<Rightarrow> delivery \<Rightarrow> river_job \<Rightarrow> bool" where
  "queued_for tenant eid t x j \<longleftrightarrow>
     dl_tenant x = tenant \<and> dl_event x = eid \<and> dl_destination x = tg_destination t \<and>
     dl_status x = ''pending'' \<and> dl_attempt_count x = 0 \<and> dl_dead_lettered_at x = None \<and>
     dl_river_job x = Some (jb_id j) \<and>
     jb_args j = DeliveryArgs \<lparr>da_delivery_id = uuidString (dl_id x),
       da_backoff_base = tg_backoff_base t, da_backoff_max = tg_backoff_max t\<rparr> \<and>
     jb_max_attempts j = max 1 (tg_max_attempts t)"

text \<open>\<open>fanned_out tenant eid ts d d'\<close>: exactly one such pair per target is added, and nothing else changes.\<close>

definition fanned_out :: "uuid \<Rightarrow> uuid \<Rightarrow> delivery_target list \<Rightarrow> database \<Rightarrow> database \<Rightarrow> bool" where
  "fanned_out tenant eid ts d d' \<longleftrightarrow>
     (\<exists>xjs. list_all2 (\<lambda>t (x, j). queued_for tenant eid t x j) ts xjs \<and>
        distinct (map (dl_id \<circ> fst) xjs) \<and> dl_id ` set (db_deliveries d) \<inter> (dl_id \<circ> fst) ` set xjs = {} \<and>
        distinct (map (jb_id \<circ> snd) xjs) \<and> jb_id ` set (db_jobs d) \<inter> (jb_id \<circ> snd) ` set xjs = {} \<and>
        d' = d\<lparr>db_deliveries := db_deliveries d @ map fst xjs, db_jobs := db_jobs d @ map snd xjs\<rparr>)"

lemma update_where_fresh:
  assumes "\<forall>x \<in> set xs. \<not> P x"
  shows "update_where P f (xs @ [y]) = xs @ [if P y then f y else y]"
  using assms by (simp add: update_where_def) (metis (mono_tags, lifting) map_idI)

lemma enqueue_target_Inr:
  assumes "enqueue_target tenant eid t w = (Inr u, w')"
  shows "\<exists>x j. queued_for tenant eid t x j \<and> dl_id x \<notin> dl_id ` set (db_deliveries (w_db w)) \<and>
    jb_id j \<notin> jb_id ` set (db_jobs (w_db w)) \<and>
    w_db w' = (w_db w)\<lparr>db_deliveries := db_deliveries (w_db w) @ [x], db_jobs := db_jobs (w_db w) @ [j]\<rparr>"
proof -
  define did where "did = pg_uuid (w_pg w) (w_step w)"
  define job where "job = pg_job_id (w_pg w) (Suc (w_step w))"
  define j where "j = \<lparr>jb_id = job, jb_args = DeliveryArgs \<lparr>da_delivery_id = uuidString did,
      da_backoff_base = tg_backoff_base t, da_backoff_max = tg_backoff_max t\<rparr>,
      jb_max_attempts = (if tg_max_attempts t < 1 then 1 else tg_max_attempts t)\<rparr>"
  define x where "x = \<lparr>dl_id = did, dl_tenant = tenant, dl_event = eid, dl_destination = tg_destination t,
      dl_river_job = Some job, dl_status = ''pending'', dl_attempt_count = 0, dl_next_attempt_at = None,
      dl_last_attempted_at = None, dl_dead_lettered_at = None, dl_created_at = w_now w, dl_updated_at = w_now w\<rparr>"
  have new: "did \<notin> dl_id ` set (db_deliveries (w_db w))" "job \<notin> jb_id ` set (db_jobs (w_db w))"
    using assms
    by (auto simp: enqueue_target_def bind_Inr exec_Inr InsertDelivery_def InsertDeliveryJob_def
        river_InsertTx_def SetDeliveryRiverJobID_def Let_def did_def job_def split: if_splits)
  have old: "\<forall>y \<in> set (db_deliveries (w_db w)). dl_id y \<noteq> did"
    using new(1) by auto
  have "w_db w' = (w_db w)\<lparr>db_deliveries := db_deliveries (w_db w) @ [x], db_jobs := db_jobs (w_db w) @ [j]\<rparr>"
    using assms old
    by (auto simp: enqueue_target_def bind_Inr exec_Inr InsertDelivery_def InsertDeliveryJob_def
        river_InsertTx_def SetDeliveryRiverJobID_def Let_def did_def [symmetric] job_def [symmetric] update_where_fresh
        x_def j_def split: if_splits)
  moreover have "queued_for tenant eid t x j"
    by (simp add: queued_for_def x_def j_def)
  moreover have "dl_id x = did" "jb_id j = job" by (simp_all add: x_def j_def)
  ultimately show ?thesis using new by blast
qed

lemma for_each_enqueue_Inr:
  "for_each (enqueue_target tenant eid) ts w = (Inr u, w') \<Longrightarrow> fanned_out tenant eid ts (w_db w) (w_db w')"
proof (induction ts arbitrary: w)
  case Nil
  then show ?case by (auto simp: ret_def fanned_out_def)
next
  case (Cons t ts)
  then obtain u1 w1 where 1: "enqueue_target tenant eid t w = (Inr u1, w1)"
    "for_each (enqueue_target tenant eid) ts w1 = (Inr u, w')"
    by (auto simp: bind_Inr)
  obtain x j where xj: "queued_for tenant eid t x j" "dl_id x \<notin> dl_id ` set (db_deliveries (w_db w))"
    "jb_id j \<notin> jb_id ` set (db_jobs (w_db w))"
    "w_db w1 = (w_db w)\<lparr>db_deliveries := db_deliveries (w_db w) @ [x], db_jobs := db_jobs (w_db w) @ [j]\<rparr>"
    using enqueue_target_Inr [OF 1(1)] by blast
  obtain xjs where xjs: "list_all2 (\<lambda>t (x, j). queued_for tenant eid t x j) ts xjs"
    "distinct (map (dl_id \<circ> fst) xjs)" "dl_id ` set (db_deliveries (w_db w1)) \<inter> (dl_id \<circ> fst) ` set xjs = {}"
    "distinct (map (jb_id \<circ> snd) xjs)" "jb_id ` set (db_jobs (w_db w1)) \<inter> (jb_id \<circ> snd) ` set xjs = {}"
    "w_db w' = (w_db w1)\<lparr>db_deliveries := db_deliveries (w_db w1) @ map fst xjs, db_jobs := db_jobs (w_db w1) @ map snd xjs\<rparr>"
    using Cons.IH [OF 1(2)] by (auto simp: fanned_out_def)
  show ?case unfolding fanned_out_def
    by (rule exI [of _ "(x, j) # xjs"]) (use xj xjs in \<open>auto simp: comp_def\<close>)
qed

lemma EnqueueDeliveriesTo_Inr:
  assumes "EnqueueDeliveriesTo tenant eid ts w = (Inr n, w')"
  shows "n = length ts \<and> fanned_out tenant eid ts (w_db w) (w_db w')"
  using assms for_each_enqueue_Inr by (auto simp: EnqueueDeliveriesTo_def bind_Inr ret_def)

lemma EnqueueDeliveries_Inr:
  assumes "EnqueueDeliveries tenant sid eid w = (Inr n, w')"
  shows "fanned_out tenant eid (enabled_targets (w_db w) sid) (w_db w) (w_db w')"
  using assms EnqueueDeliveriesTo_Inr
  by (fastforce simp: EnqueueDeliveries_def bind_Inr ListEnabledDeliveryTargetsForSource_def query_Inr)

lemma steady_EnqueueDeliveriesTo [keeps_intros]: "steady (EnqueueDeliveriesTo tenant eid ts)"
  unfolding EnqueueDeliveriesTo_def enqueue_target_def InsertDelivery_def InsertDeliveryJob_def river_InsertTx_def
    SetDeliveryRiverJobID_def by (intro keeps_intros)

lemma steady_EnqueueDeliveries [keeps_intros]: "steady (EnqueueDeliveries tenant sid eid)"
  unfolding EnqueueDeliveries_def ListEnabledDeliveryTargetsForSource_def by (intro keeps_intros)

lemma fanned_out_target:
  assumes "fanned_out t i ts d d'" "tg \<in> set ts"
  obtains x j where "queued_for t i tg x j" "x \<in> set (db_deliveries d')" "j \<in> set (db_jobs d')" "db_events d' = db_events d"
proof -
  obtain xjs where x: "list_all2 (\<lambda>t' (x, j). queued_for t i t' x j) ts xjs"
    "d' = d\<lparr>db_deliveries := db_deliveries d @ map fst xjs, db_jobs := db_jobs d @ map snd xjs\<rparr>"
    using assms(1) unfolding fanned_out_def by blast
  obtain n where n: "n < length ts" "tg = ts ! n" using assms(2) by (auto simp: in_set_conv_nth)
  have "n < length xjs" "queued_for t i tg (fst (xjs ! n)) (snd (xjs ! n))"
    using list_all2_lengthD [OF x(1)] list_all2_nthD [OF x(1) n(1)] n by (auto simp: case_prod_unfold)
  then show thesis using that x(2) by (simp add: image_iff) (metis nth_mem)
qed

end
