(* ===== verification/Auth.thy ===== *)
theory Auth
  imports Api_Base Sourcedef Queue
begin

text \<open>
  Who may call the API: the stateless session cookie (\<^verbatim>\<open>internal/auth/session.go\<close>), API keys
  (\<^verbatim>\<open>internal/auth/keys.go\<close>, \<^verbatim>\<open>internal/api/apikeys.go\<close>), the admin password (\<^verbatim>\<open>internal/auth/admin.go\<close>), the
  scope check in front of every endpoint (\<^verbatim>\<open>internal/api/middleware/auth.go\<close>) and the login endpoints
  (\<^verbatim>\<open>internal/api/auth.go\<close>). A request is its header, its cookies as \<^verbatim>\<open>net/http\<close> parses them, and whether
  it came over TLS.
\<close>

subsection \<open>Sessions\<close>

definition SessionCookieName :: string where "SessionCookieName = ''whg_session''"
definition sessionTTL :: duration where "sessionTTL = 7 * 24 * 3600 * second"
definition sessionVersion :: string where "sessionVersion = ''v1''"

record auth_request =
  aq_header :: header
  aq_cookies :: "(string \<times> string) list"
  aq_tls :: bool

record cookie =
  ck_Value :: string
  ck_Secure :: bool
  ck_Expires :: "time option"
  ck_MaxAge :: int

record Sessions =
  ss_key :: bytes
  ss_secure :: "bool option"

definition NewSessions :: "string \<Rightarrow> string \<Rightarrow> bool option \<Rightarrow> Sessions" where
  "NewSessions encryptionKey adminPassword secure =
     \<lparr>ss_key = hmac sha256 encryptionKey adminPassword, ss_secure = secure\<rparr>"

definition session_sign :: "Sessions \<Rightarrow> string \<Rightarrow> string" where
  "session_sign s payload = b64_url_Encode (hmac sha256 (ss_key s) payload)"

definition token :: "Sessions \<Rightarrow> time \<Rightarrow> string" where
  "token s expiry = (let payload = sessionVersion @ ''.'' @ FormatInt (Unix expiry)
     in payload @ ''.'' @ session_sign s payload)"

text \<open>\<^verbatim>\<open>time.Unix(secs, 0)\<close>: the seconds are kept in an int64 that counts from year 1.\<close>

definition unix_epoch :: int where "unix_epoch = 62135596800"

definition time_Unix :: "int \<Rightarrow> time" where
  "time_Unix secs = (int64_of (secs + unix_epoch) - unix_epoch) * second"

definition verify_token :: "Sessions \<Rightarrow> time \<Rightarrow> string \<Rightarrow> time option" where
  "verify_token s now tok =
     (case CutLast CHR ''.'' tok of
        None \<Rightarrow> None
      | Some (payload, sig) \<Rightarrow>
          if sig \<noteq> session_sign s payload then None
          else (case Cut CHR ''.'' payload of
                  None \<Rightarrow> None
                | Some (version, unix) \<Rightarrow>
                    if version \<noteq> sessionVersion then None
                    else (case ParseInt64 unix of
                            None \<Rightarrow> None
                          | Some secs \<Rightarrow> let expiry = time_Unix secs in if \<not> now < expiry then None else Some expiry)))"

definition secureFor :: "Sessions \<Rightarrow> auth_request \<Rightarrow> bool" where
  "secureFor s r = (case ss_secure s of Some b \<Rightarrow> b
     | None \<Rightarrow> aq_tls r \<or> header_Get (aq_header r) ''X-Forwarded-Proto'' = ''https'')"

definition Issue :: "Sessions \<Rightarrow> time \<Rightarrow> auth_request \<Rightarrow> cookie" where
  "Issue s now r = (let expiry = now + sessionTTL
     in \<lparr>ck_Value = token s expiry, ck_Secure = secureFor s r, ck_Expires = Some expiry, ck_MaxAge = sessionTTL div second\<rparr>)"

text \<open>The answer, and the renewed cookie, if any.\<close>

definition Authenticate :: "Sessions \<Rightarrow> time \<Rightarrow> auth_request \<Rightarrow> bool \<times> cookie list" where
  "Authenticate s now r =
     (case map_of (aq_cookies r) SessionCookieName of
        None \<Rightarrow> (False, [])
      | Some v \<Rightarrow>
          (case verify_token s now v of
             None \<Rightarrow> (False, [])
           | Some expiry \<Rightarrow> (True, if expiry - now < sessionTTL div 2 then [Issue s now r] else [])))"

definition Clear :: "Sessions \<Rightarrow> auth_request \<Rightarrow> cookie" where
  "Clear s r = \<lparr>ck_Value = '''', ck_Secure = secureFor s r, ck_Expires = None, ck_MaxAge = -1\<rparr>"

subsection \<open>Keys\<close>

definition KeyPrefixLen :: nat where "KeyPrefixLen = 12"
definition keyScheme :: string where "keyScheme = ''whg_''"

definition HashAPIKey :: "string \<Rightarrow> string" where
  "HashAPIKey plaintext = hex_Encode (sha256 plaintext)"

text \<open>From the 32 random bytes: the plaintext, its hash and its prefix.\<close>

definition GenerateAPIKey :: "bytes \<Rightarrow> string \<times> string \<times> string" where
  "GenerateAPIKey raw = (let plaintext = keyScheme @ b64_url_Encode raw
     in (plaintext, HashAPIKey plaintext, take KeyPrefixLen plaintext))"

definition LooksLikeAPIKey :: "string \<Rightarrow> bool" where
  "LooksLikeAPIKey tok = HasPrefix tok keyScheme"

subsection \<open>The gates\<close>

definition ScopeRead :: string where "ScopeRead = ''read''"
definition ScopeWrite :: string where "ScopeWrite = ''write''"
definition ScopeReplay :: string where "ScopeReplay = ''replay''"
definition ScopeTunnel :: string where "ScopeTunnel = ''tunnel''"

definition Scopes :: "string list" where
  "Scopes = [ScopeRead, ScopeWrite, ScopeReplay, ScopeTunnel]"

record Auth =
  au_adminPassword :: string
  au_sessions :: "Sessions option"

definition NewAuth :: "string \<Rightarrow> Auth" where
  "NewAuth adminPassword = \<lparr>au_adminPassword = adminPassword, au_sessions = None\<rparr>"

definition AcceptSessions :: "Auth \<Rightarrow> Sessions \<Rightarrow> Auth" where
  "AcceptSessions a s = a\<lparr>au_sessions := Some s\<rparr>"

text \<open>
  What a gate does: it runs the handler (with the cookies it has set, and the key whose \<^verbatim>\<open>last_used_at\<close> the
  background task will touch), or answers itself.
\<close>

datatype gate = Pass "cookie list" "uuid option" | Deny int string

definition bearer :: string where "bearer = ''Bearer ''"

definition AdminOnly :: "string \<Rightarrow> Sessions option \<Rightarrow> auth_request \<Rightarrow> time \<Rightarrow> gate" where
  "AdminOnly password sessions r now =
     (let by_token = (let hdr = header_Get (aq_header r) ''Authorization''; tok = TrimPrefix hdr bearer
        in if \<not> HasPrefix hdr bearer \<or> password = '''' \<or> tok \<noteq> password then Deny 401 ''unauthorized'' else Pass [] None)
      in case sessions of
           None \<Rightarrow> by_token
         | Some s \<Rightarrow> (case Authenticate s now r of (True, cs) \<Rightarrow> Pass cs None | (False, _) \<Rightarrow> by_token))"

text \<open>The bearer token's part of \<^verbatim>\<open>RequireScope\<close>.\<close>

definition require_bearer :: "Auth \<Rightarrow> string \<Rightarrow> auth_request \<Rightarrow> world \<Rightarrow> gate \<times> world" where
  "require_bearer a scope r w =
     (let hdr = header_Get (aq_header r) ''Authorization'' in
      if \<not> HasPrefix hdr bearer then (Deny 401 ''unauthorized'', w)
      else let tok = TrimPrefix hdr bearer in
        if \<not> LooksLikeAPIKey tok then
          (if au_adminPassword a \<noteq> '''' \<and> tok = au_adminPassword a then (Pass [] None, w) else (Deny 401 ''unauthorized'', w))
        else (case GetAPIKeyByHash (HashAPIKey tok) w of
                (Inl NoRows, w1) \<Rightarrow> (Deny 401 ''unauthorized'', w1)
              | (Inl e, w1) \<Rightarrow> (Deny 500 ''internal error'', w1)
              | (Inr key, w1) \<Rightarrow>
                  if scope \<notin> set (ak_scopes key) then (Deny 403 (''missing scope: '' @ scope), w1)
                  else (Pass [] (Some (ak_id key)), w1)))"

definition RequireScope :: "Auth \<Rightarrow> string \<Rightarrow> auth_request \<Rightarrow> world \<Rightarrow> gate \<times> world" where
  "RequireScope a scope r w =
     (case au_sessions a of
        None \<Rightarrow> require_bearer a scope r w
      | Some s \<Rightarrow> (case Authenticate s (w_now w) r of
                    (True, cs) \<Rightarrow> (Pass cs None, w)
                  | (False, _) \<Rightarrow> require_bearer a scope r w))"

subsection \<open>Login\<close>

record login_request =
  lr_Password :: string

definition login :: "Sessions \<Rightarrow> string \<Rightarrow> bytes \<Rightarrow> auth_request \<Rightarrow> time \<Rightarrow> bool reply \<times> cookie list" where
  "login s adminPassword body r now =
     (case Decode_struct [(''password'', string_field lr_Password_update)] \<lparr>lr_Password = ''''\<rparr> body of
        None \<Rightarrow> (Problem 400 ''invalid JSON body'', [])
      | Some req \<Rightarrow>
          if adminPassword = '''' \<or> lr_Password req \<noteq> adminPassword then (Problem 401 ''invalid password'', [])
          else (Reply 200 True, [Issue s now r]))"

definition logout :: "Sessions \<Rightarrow> auth_request \<Rightarrow> bool reply \<times> cookie list" where
  "logout s r = (NoContent, [Clear s r])"

definition session_status :: "Sessions \<Rightarrow> auth_request \<Rightarrow> time \<Rightarrow> bool reply \<times> cookie list" where
  "session_status s r now = (case Authenticate s now r of
     (False, cs) \<Rightarrow> (Problem 401 ''unauthorized'', cs) | (True, cs) \<Rightarrow> (Reply 200 True, cs))"

subsection \<open>The API of the keys\<close>

record createAPIKeyRequest =
  ckr_Name :: string
  ckr_Scopes :: "string list"

record apiKeyResponse =
  akr_ID :: string
  akr_Name :: string
  akr_KeyPrefix :: string
  akr_Scopes :: "string list"
  akr_CreatedAt :: time
  akr_LastUsedAt :: "time option"
  akr_RevokedAt :: "time option"

definition toAPIKeyResponse :: "api_key \<Rightarrow> apiKeyResponse" where
  "toAPIKeyResponse k = \<lparr>akr_ID = uuidString (ak_id k), akr_Name = ak_name k, akr_KeyPrefix = ak_prefix k,
     akr_Scopes = ak_scopes k, akr_CreatedAt = ak_created_at k, akr_LastUsedAt = ak_last_used_at k,
     akr_RevokedAt = ak_revoked_at k\<rparr>"

definition key_fields :: "(string \<times> createAPIKeyRequest field) list" where
  "key_fields = [(''name'', string_field ckr_Name_update), (''scopes'', strings_field ckr_Scopes ckr_Scopes_update)]"

text \<open>\<open>raw\<close> is what \<^verbatim>\<open>rand.Read\<close> gives, \<open>None\<close> its error; the reply carries the plaintext key.\<close>

definition create_key :: "bytes option \<Rightarrow> bytes \<Rightarrow> world \<Rightarrow> (apiKeyResponse \<times> string) reply \<times> world" where
  "create_key raw body w =
     (case Decode_struct key_fields \<lparr>ckr_Name = '''', ckr_Scopes = []\<rparr> body of
        None \<Rightarrow> (Problem 400 ''invalid JSON body'', w)
      | Some req \<Rightarrow>
          if ckr_Name req = '''' then (Problem 400 ''name is required'', w)
          else if ckr_Scopes req = [] then (Problem 400 ''at least one scope is required'', w)
          else (case find (\<lambda>s. s \<notin> set Scopes) (ckr_Scopes req) of
                  Some s \<Rightarrow> (Problem 400 (''unknown scope '' @ s), w)
                | None \<Rightarrow>
                    (case raw of
                       None \<Rightarrow> (internal_error, w)
                     | Some bs \<Rightarrow>
                         let (plaintext, hash, prefix) = GenerateAPIKey bs
                         in or_500 (InsertApiKey DefaultTenantID (ckr_Name req) prefix hash (ckr_Scopes req) w) (\<lambda>key.
                              Reply 201 (toAPIKeyResponse key, plaintext)))))"

definition list_keys :: "world \<Rightarrow> apiKeyResponse list reply \<times> world" where
  "list_keys w = or_500 (ListAPIKeys DefaultTenantID w) (\<lambda>keys. Reply 200 (map toAPIKeyResponse keys))"

definition revoke_key :: "api_env \<Rightarrow> string \<Rightarrow> world \<Rightarrow> unit reply \<times> world" where
  "revoke_key env pathID w =
     (case parseUUID env pathID of
        None \<Rightarrow> (Problem 400 ''invalid key id'', w)
      | Some kid \<Rightarrow> or_500 (RevokeAPIKey kid DefaultTenantID w) (\<lambda>rows.
          if rows = 0 then Problem 404 ''key not found'' else NoContent))"

subsection \<open>What a session token is\<close>

lemma session_sign_no_dot: "CHR ''.'' \<notin> set (session_sign s payload)"
  by (simp add: session_sign_def b64_url_Encode_no_dot)

text \<open>
  What the session check accepts, exactly: a token is taken at a time if and only if it is the version
  \<^verbatim>\<open>v1\<close>, the decimal expiry and the HMAC of just these under the server's key, separated by dots, and the
  expiry lies in the future. Changing the version, the expiry or the key of a token therefore makes it
  depend on a different HMAC.
\<close>

theorem verify_token_iff:
  "verify_token s now tok = Some expiry \<longleftrightarrow>
     (\<exists>u secs. tok = ''v1.'' @ u @ ''.'' @ session_sign s (''v1.'' @ u) \<and> ParseInt64 u = Some secs \<and>
        expiry = time_Unix secs \<and> now < expiry)"
proof
  assume "verify_token s now tok = Some expiry"
  then obtain payload sig version u secs where cut: "CutLast CHR ''.'' tok = Some (payload, sig)"
    "sig = session_sign s payload" "Cut CHR ''.'' payload = Some (version, u)" "version = sessionVersion"
    "ParseInt64 u = Some secs" "expiry = time_Unix secs" "now < expiry"
    by (auto simp: verify_token_def Let_def split: option.splits prod.splits if_splits)
  then have "payload = ''v1.'' @ u" using Cut_SomeD [OF cut(3)] by (simp add: sessionVersion_def)
  with CutLast_SomeD [OF cut(1)] cut(2,5-7) show "\<exists>u secs. tok = ''v1.'' @ u @ ''.'' @ session_sign s (''v1.'' @ u) \<and>
      ParseInt64 u = Some secs \<and> expiry = time_Unix secs \<and> now < expiry"
    by (intro exI [of _ u] exI [of _ secs]) simp
next
  assume "\<exists>u secs. tok = ''v1.'' @ u @ ''.'' @ session_sign s (''v1.'' @ u) \<and> ParseInt64 u = Some secs \<and>
      expiry = time_Unix secs \<and> now < expiry"
  then obtain u secs where u: "tok = (''v1.'' @ u) @ CHR ''.'' # session_sign s (''v1.'' @ u)" "ParseInt64 u = Some secs"
    "expiry = time_Unix secs" "now < expiry" by auto
  have "CutLast CHR ''.'' tok = Some (''v1.'' @ u, session_sign s (''v1.'' @ u))"
    unfolding u(1) by (rule CutLast_append [OF session_sign_no_dot])
  then show "verify_token s now tok = Some expiry"
    using u by (simp add: verify_token_def sessionVersion_def Let_def)
qed

text \<open>An expiry that int64 seconds can hold, as every date of the next billions of years.\<close>

definition datable :: "time \<Rightarrow> bool" where
  "datable t \<longleftrightarrow> \<bar>Unix t\<bar> < 2 ^ 62"

lemma verify_issued:
  assumes "datable expiry"
  shows "verify_token s now (token s expiry) = (if now < Unix expiry * second then Some (Unix expiry * second) else None)"
proof -
  have small: "- (2 ^ 63) \<le> Unix expiry" "Unix expiry < 2 ^ 63" using assms by (auto simp: datable_def)
  have exp: "time_Unix (Unix expiry) = Unix expiry * second"
    using assms by (simp add: time_Unix_def datable_def unix_epoch_def int64_of_def signed_take_bit_int_eq_self)
  have tok: "token s expiry = ''v1.'' @ FormatInt (Unix expiry) @ ''.'' @ session_sign s (''v1.'' @ FormatInt (Unix expiry))"
    by (simp add: token_def sessionVersion_def Let_def)
  have cut: "CutLast CHR ''.'' (''v1.'' @ u @ ''.'' @ session_sign s (''v1.'' @ u)) = Some (''v1.'' @ u, session_sign s (''v1.'' @ u))" for u
    using CutLast_append [OF session_sign_no_dot [of s "''v1.'' @ u"], of "''v1.'' @ u"] by simp
  have "verify_token s now (token s expiry) = Some e \<longleftrightarrow> now < Unix expiry * second \<and> e = Unix expiry * second" for e
  proof -
    have "u = FormatInt (Unix expiry)" if "token s expiry = ''v1.'' @ u @ ''.'' @ session_sign s (''v1.'' @ u)" for u
      using that cut [of u] cut [of "FormatInt (Unix expiry)"] by (simp add: tok)
    then show ?thesis unfolding verify_token_iff using ParseInt_FormatInt [OF small] exp tok by auto
  qed
  then show ?thesis by (cases "verify_token s now (token s expiry)") auto
qed

text \<open>
  C32. A session lives as long as it says: the cookie set at a time t by login is accepted on later requests
  exactly until the whole second in which its seven days end, and it is replaced by a fresh one exactly
  when less than half of its life is left. (The expiry must fit in int64 seconds.)
\<close>

theorem session_lifetime:
  assumes "datable (t + sessionTTL)"
    and "map_of (aq_cookies r) SessionCookieName = Some (ck_Value (Issue s t r0))"
  shows "Authenticate s now r =
    (let expiry = (t + sessionTTL) div second * second
     in (now < expiry, if now < expiry \<and> expiry - now < sessionTTL div 2 then [Issue s now r] else []))"
proof -
  have "ck_Value (Issue s t r0) = token s (t + sessionTTL)" by (simp add: Issue_def Let_def)
  then show ?thesis using assms verify_issued [OF assms(1), of s now]
    by (simp add: Authenticate_def Unix_def Let_def)
qed

subsection \<open>Who passes\<close>

definition session_valid :: "Auth \<Rightarrow> time \<Rightarrow> auth_request \<Rightarrow> bool" where
  "session_valid a now r = (case au_sessions a of None \<Rightarrow> False | Some s \<Rightarrow> fst (Authenticate s now r))"

text \<open>The three credentials of the documentation: a session, the admin password, a key (which starts with \<^verbatim>\<open>whg_\<close>) with the scope.\<close>

definition shows_password :: "Auth \<Rightarrow> auth_request \<Rightarrow> bool" where
  "shows_password a r \<longleftrightarrow> au_adminPassword a \<noteq> '''' \<and>
     header_Get (aq_header r) ''Authorization'' = bearer @ au_adminPassword a"

definition shows_key :: "string \<Rightarrow> auth_request \<Rightarrow> database \<Rightarrow> bool" where
  "shows_key scope r d \<longleftrightarrow> (\<exists>tok. header_Get (aq_header r) ''Authorization'' = bearer @ tok \<and> HasPrefix tok ''whg_'' \<and>
     (\<exists>k \<in> set (db_api_keys d). ak_hash k = hex_Encode (sha256 tok) \<and> ak_revoked_at k = None \<and> scope \<in> set (ak_scopes k)))"

definition authorised :: "Auth \<Rightarrow> string \<Rightarrow> auth_request \<Rightarrow> time \<Rightarrow> database \<Rightarrow> bool" where
  "authorised a scope r now d \<longleftrightarrow> session_valid a now r \<or> shows_password a r \<or> shows_key scope r d"

definition passes :: "gate \<Rightarrow> bool" where
  "passes g = (case g of Pass cs k \<Rightarrow> True | Deny status msg \<Rightarrow> False)"

text \<open>The bearer path, by the kind of the token.\<close>

lemma require_bearer_none:
  "\<not> HasPrefix (header_Get (aq_header r) ''Authorization'') bearer \<Longrightarrow>
     require_bearer a scope r w = (Deny 401 ''unauthorized'', w)"
  by (simp add: require_bearer_def Let_def)

lemma bearer_token: "HasPrefix (bearer @ tok) bearer" "TrimPrefix (bearer @ tok) bearer = tok"
  by (rule HasPrefix_append, rule TrimPrefix_append)

lemma require_bearer_password:
  assumes "header_Get (aq_header r) ''Authorization'' = bearer @ tok" "\<not> HasPrefix tok ''whg_''"
  shows "require_bearer a scope r w =
    (if au_adminPassword a \<noteq> '''' \<and> tok = au_adminPassword a then Pass [] None else Deny 401 ''unauthorized'', w)"
  unfolding require_bearer_def Let_def LooksLikeAPIKey_def keyScheme_def assms(1) bearer_token
  using assms(2) by simp

lemma require_bearer_key:
  assumes "header_Get (aq_header r) ''Authorization'' = bearer @ tok" "HasPrefix tok ''whg_''"
  shows "require_bearer a scope r w = (case GetAPIKeyByHash (hex_Encode (sha256 tok)) w of
      (Inl NoRows, w1) \<Rightarrow> (Deny 401 ''unauthorized'', w1)
    | (Inl e, w1) \<Rightarrow> (Deny 500 ''internal error'', w1)
    | (Inr key, w1) \<Rightarrow> if scope \<notin> set (ak_scopes key) then (Deny 403 (''missing scope: '' @ scope), w1)
        else (Pass [] (Some (ak_id key)), w1))"
  unfolding require_bearer_def Let_def LooksLikeAPIKey_def keyScheme_def HashAPIKey_def assms(1) bearer_token
  using assms(2) by simp

lemma GetAPIKeyByHash_cases:
  obtains (fault) w1 where "GetAPIKeyByHash h w = (Inl Unavailable, w1)" "w_db w1 = w_db w" "pg_fault (w_pg w) (w_step w)"
  | (none) w1 where "GetAPIKeyByHash h w = (Inl NoRows, w1)" "w_db w1 = w_db w"
      "\<forall>k \<in> set (db_api_keys (w_db w)). ak_hash k = h \<longrightarrow> ak_revoked_at k \<noteq> None"
  | (found) k w1 where "GetAPIKeyByHash h w = (Inr k, w1)" "w_db w1 = w_db w"
      "k \<in> set (db_api_keys (w_db w))" "ak_hash k = h" "ak_revoked_at k = None"
proof (cases "pg_fault (w_pg w) (w_step w)")
  case True
  then show ?thesis using fault by (simp add: GetAPIKeyByHash_def query_def exec_def)
next
  case False
  show ?thesis
  proof (cases "filter (\<lambda>k. ak_hash k = h \<and> ak_revoked_at k = None) (db_api_keys (w_db w))")
    case Nil
    with False show ?thesis using none by (simp add: GetAPIKeyByHash_def query_def exec_def filter_empty_conv)
  next
    case (Cons k ks)
    then have "k \<in> set (db_api_keys (w_db w))" "ak_hash k = h" "ak_revoked_at k = None"
      by (auto simp: filter_eq_Cons_iff)
    with False Cons show ?thesis using found [of k "tick w"] by (simp add: GetAPIKeyByHash_def query_Inr)
  qed
qed

text \<open>
  C33. The gate in front of the API lets nobody in without a credential: for every request the handler runs
  only if the request carries a valid session, the (non-empty) admin password, or a key that is stored,
  not revoked and has the scope. If the lookup does not fail, no two stored keys share a hash, and the admin
  password does not start with \<^verbatim>\<open>whg_\<close>, it runs exactly then. An admin password that starts with \<^verbatim>\<open>whg_\<close> is
  taken for a key and never works as a bearer token: then the handler runs exactly for a session or a key
  (again if the lookup does not fail). The gate itself never changes the database.
\<close>

theorem RequireScope_exact:
  assumes "distinct (map ak_hash (db_api_keys (w_db w)))"
  shows "w_db (snd (RequireScope a scope r w)) = w_db w \<and>
    (passes (fst (RequireScope a scope r w)) \<longrightarrow> authorised a scope r (w_now w) (w_db w)) \<and>
    (\<not> HasPrefix (au_adminPassword a) ''whg_'' \<longrightarrow> authorised a scope r (w_now w) (w_db w) \<longrightarrow>
       passes (fst (RequireScope a scope r w)) \<or> pg_fault (w_pg w) (w_step w)) \<and>
    (HasPrefix (au_adminPassword a) ''whg_'' \<longrightarrow>
       (passes (fst (RequireScope a scope r w)) \<longrightarrow> session_valid a (w_now w) r \<or> shows_key scope r (w_db w)) \<and>
       (session_valid a (w_now w) r \<or> shows_key scope r (w_db w) \<longrightarrow>
          passes (fst (RequireScope a scope r w)) \<or> pg_fault (w_pg w) (w_step w)))"
proof (cases "session_valid a (w_now w) r")
  case True
  then obtain s cs where "au_sessions a = Some s" "Authenticate s (w_now w) r = (True, cs)"
    by (auto simp: session_valid_def split: option.splits) (metis prod.collapse)
  then show ?thesis using True by (simp add: RequireScope_def passes_def authorised_def)
next
  case False
  then have run: "RequireScope a scope r w = require_bearer a scope r w"
    by (auto simp: RequireScope_def session_valid_def split: option.splits prod.splits bool.splits)
  consider "\<not> HasPrefix (header_Get (aq_header r) ''Authorization'') bearer"
    | tok where "header_Get (aq_header r) ''Authorization'' = bearer @ tok" "\<not> HasPrefix tok ''whg_''"
    | tok where "header_Get (aq_header r) ''Authorization'' = bearer @ tok" "HasPrefix tok ''whg_''"
    by (auto simp: HasPrefix_iff [of _ bearer])
  then show ?thesis
  proof cases
    case 1
    then have "\<not> shows_key scope r (w_db w)" "\<not> shows_password a r"
      by (auto simp: shows_key_def shows_password_def HasPrefix_iff [of _ bearer])
    then show ?thesis using False 1 by (simp add: run require_bearer_none passes_def authorised_def)
  next
    case (2 tok)
    then have "\<not> shows_key scope r (w_db w)" "shows_password a r \<longleftrightarrow> au_adminPassword a \<noteq> '''' \<and> tok = au_adminPassword a"
      by (auto simp: shows_key_def shows_password_def)
    then show ?thesis using False 2 by (auto simp: run require_bearer_password passes_def authorised_def)
  next
    case (3 tok)
    have pw: "shows_password a r \<longleftrightarrow> tok = au_adminPassword a" using 3 by (auto simp: shows_password_def HasPrefix_def)
    have key: "shows_key scope r (w_db w) \<longleftrightarrow> (\<exists>x \<in> set (db_api_keys (w_db w)).
        ak_hash x = hex_Encode (sha256 tok) \<and> ak_revoked_at x = None \<and> scope \<in> set (ak_scopes x))"
      using 3 by (auto simp: shows_key_def)
    show ?thesis
    proof (cases rule: GetAPIKeyByHash_cases [of "hex_Encode (sha256 tok)" w])
      case (found k w1)
      have "x = k" if "x \<in> set (db_api_keys (w_db w))" "ak_hash x = hex_Encode (sha256 tok)" for x
        using that found(3,4) assms by (metis distinct_map inj_onD)
      then have "shows_key scope r (w_db w) \<longleftrightarrow> scope \<in> set (ak_scopes k)" using key found(3-5) by metis
      then show ?thesis using found 3 pw False by (auto simp: run require_bearer_key [OF 3] passes_def authorised_def)
    qed (use 3 False pw key in \<open>auto simp: run require_bearer_key [OF 3] passes_def authorised_def\<close>)
  qed
qed

subsection \<open>The life of a key\<close>

lemma create_key_Reply:
  assumes "create_key raw body w = (Reply 201 (resp, key), w1)"
  obtains k where "resp = toAPIKeyResponse k" "HasPrefix key ''whg_''" "ak_hash k = hex_Encode (sha256 key)"
    "ak_tenant k = DefaultTenantID" "ak_revoked_at k = None" "ak_scopes k \<noteq> []" "set (ak_scopes k) \<subseteq> set Scopes"
    "ak_id k \<notin> ak_id ` set (db_api_keys (w_db w))"
    "w_db w1 = (w_db w)\<lparr>db_api_keys := db_api_keys (w_db w) @ [k]\<rparr>" "w_pg w1 = w_pg w"
proof -
  obtain req where dec: "Decode_struct key_fields \<lparr>ckr_Name = '''', ckr_Scopes = []\<rparr> body = Some req"
    using assms by (cases "Decode_struct key_fields \<lparr>ckr_Name = '''', ckr_Scopes = []\<rparr> body") (auto simp: create_key_def)
  have req: "ckr_Scopes req \<noteq> []" "find (\<lambda>s. s \<notin> set Scopes) (ckr_Scopes req) = None" "ckr_Name req \<noteq> ''''"
    using assms dec by (auto simp: create_key_def split: option.splits if_splits)
  obtain bs where raw: "raw = Some bs" using assms dec req by (cases raw) (auto simp: create_key_def internal_error_def)
  have ins: "or_500 (InsertApiKey DefaultTenantID (ckr_Name req) (take KeyPrefixLen (keyScheme @ b64_url_Encode bs))
        (HashAPIKey (keyScheme @ b64_url_Encode bs)) (ckr_Scopes req) w)
        (\<lambda>k. Reply 201 (toAPIKeyResponse k, keyScheme @ b64_url_Encode bs)) = (Reply 201 (resp, key), w1)"
    using assms by (simp add: create_key_def dec req raw GenerateAPIKey_def Let_def)
  then obtain k where k: "InsertApiKey DefaultTenantID (ckr_Name req) (take KeyPrefixLen (keyScheme @ b64_url_Encode bs))
      (HashAPIKey (keyScheme @ b64_url_Encode bs)) (ckr_Scopes req) w = (Inr k, w1)"
    and key: "resp = toAPIKeyResponse k" "key = keyScheme @ b64_url_Encode bs"
    by (auto simp: or_500_def internal_error_def split: prod.splits sum.splits)
  have "set (ckr_Scopes req) \<subseteq> set Scopes" using req(2) by (auto simp: find_None_iff)
  moreover have "HasPrefix key ''whg_''" unfolding key(2) keyScheme_def by (rule HasPrefix_append)
  moreover have "ak_hash k = hex_Encode (sha256 key)" "ak_tenant k = DefaultTenantID" "ak_revoked_at k = None"
    "ak_scopes k = ckr_Scopes req" "ak_id k \<notin> ak_id ` set (db_api_keys (w_db w))"
    "w_db w1 = (w_db w)\<lparr>db_api_keys := db_api_keys (w_db w) @ [k]\<rparr>" "w_pg w1 = w_pg w"
    using k by (auto simp: InsertApiKey_def exec_Inr HashAPIKey_def key(2) Let_def split: if_splits)
  ultimately show ?thesis using that [of k] key(1) req(1) by simp
qed

text \<open>
  C34. A key works from its creation to its revocation and no longer: after the API has answered 201, a
  request with the plaintext it returned passes the gate for exactly the scopes that were granted, which
  are known scopes and not none; deleting the key by the id in that answer succeeds, and from then on the
  same request gets 401. (The request carries no session cookie, as those of API clients, the store is up, and no older
  key has the same SHA-256. The gate is any, in particular the one the process mounts, which accepts sessions.)
\<close>

theorem key_lifecycle:
  assumes create: "create_key raw body w = (Reply 201 (resp, key), w1)"
    and fresh: "hex_Encode (sha256 key) \<notin> ak_hash ` set (db_api_keys (w_db w))"
    and up: "\<forall>n. \<not> pg_fault (w_pg w) n" and scan: "\<forall>u. e_Scan env (uuidString u) = Some u"
    and r: "header_Get (aq_header r) ''Authorization'' = bearer @ key" "map_of (aq_cookies r) SessionCookieName = None"
  shows "passes (fst (RequireScope a scope r w1)) = (scope \<in> set (akr_Scopes resp)) \<and>
    akr_Scopes resp \<noteq> [] \<and> set (akr_Scopes resp) \<subseteq> set Scopes \<and>
    (\<exists>w2. revoke_key env (akr_ID resp) w1 = (NoContent, w2) \<and> fst (RequireScope a scope r w2) = Deny 401 ''unauthorized'')"
proof -
  obtain k where k: "resp = toAPIKeyResponse k" "HasPrefix key ''whg_''" "ak_hash k = hex_Encode (sha256 key)"
    "ak_tenant k = DefaultTenantID" "ak_revoked_at k = None" "ak_scopes k \<noteq> []" "set (ak_scopes k) \<subseteq> set Scopes"
    "ak_id k \<notin> ak_id ` set (db_api_keys (w_db w))"
    "w_db w1 = (w_db w)\<lparr>db_api_keys := db_api_keys (w_db w) @ [k]\<rparr>" "w_pg w1 = w_pg w"
    by (rule create_key_Reply [OF create])
  have bearer_only: "RequireScope a scope r w = require_bearer a scope r w" for w
    using r(2) by (simp add: RequireScope_def Authenticate_def split: option.splits)
  note gate = require_bearer_key [OF r(1) k(2)]
  have old: "filter (\<lambda>x. ak_hash x = hex_Encode (sha256 key) \<and> ak_revoked_at x = None) (db_api_keys (w_db w)) = []"
    using fresh by (auto simp: filter_empty_conv image_iff)
  have "GetAPIKeyByHash (hex_Encode (sha256 key)) w1 = (Inr k, tick w1)"
    using up by (simp add: GetAPIKeyByHash_def query_Inr k(3,5,9,10) old)
  then have passes: "passes (fst (RequireScope a scope r w1)) = (scope \<in> set (ak_scopes k))"
    by (simp add: bearer_only gate passes_def)
  let ?hit = "\<lambda>x. ak_id x = ak_id k \<and> ak_tenant x = DefaultTenantID \<and> ak_revoked_at x = None"
  have none: "filter ?hit (db_api_keys (w_db w)) = []" using k(8) by (auto simp: filter_empty_conv image_iff)
  have upd: "update_where ?hit f (db_api_keys (w_db w) @ [k]) = db_api_keys (w_db w) @ [f k]" for f
    using k(4,5) none by (simp add: update_where_fresh filter_empty_conv)
  define w2 where "w2 = (tick w1)\<lparr>w_db := (w_db w)\<lparr>db_api_keys := db_api_keys (w_db w) @ [k\<lparr>ak_revoked_at := Some (w_now w1)\<rparr>]\<rparr>\<rparr>"
  have "RevokeAPIKey (ak_id k) DefaultTenantID w1 = (Inr 1, w2)"
    using up by (simp add: RevokeAPIKey_def exec_def k(4,5,9,10) none upd w2_def)
  then have revoke: "revoke_key env (akr_ID resp) w1 = (NoContent, w2)"
    using scan by (simp add: revoke_key_def parseUUID_def k(1) toAPIKeyResponse_def or_500_def)
  have "GetAPIKeyByHash (hex_Encode (sha256 key)) w2 = (Inl NoRows, tick w2)"
    using up k(10) by (simp add: GetAPIKeyByHash_def query_def exec_def w2_def old tick_def)
  then have "fst (RequireScope a scope r w2) = Deny 401 ''unauthorized''"
    by (simp add: bearer_only gate)
  with passes revoke k(6,7) show ?thesis by (auto simp: k(1) toAPIKeyResponse_def)
qed

subsection \<open>The gates on the example database\<close>

definition auth_env :: api_env where
  "auth_env = \<lparr>e_Scan = scan_uuid, e_ParseTime = (\<lambda>_. None), e_UnmarshalTime = (\<lambda>_. None),
     e_MarshalTime = (\<lambda>_. None), e_ParseURL = (\<lambda>_. None)\<rparr>"

definition key_body :: bytes where
  "key_body = marshal_object [(''name'', marshal_string ''ci''), (''scopes'', marshal_strings [''read''])]"

definition raw_example :: bytes where
  "raw_example = replicate 32 CHR ''r''"

definition key_example :: string where
  "key_example = fst (GenerateAPIKey raw_example)"

lemma key_body_decoded: "Decode_struct key_fields \<lparr>ckr_Name = '''', ckr_Scopes = []\<rparr> key_body =
    Some \<lparr>ckr_Name = ''ci'', ckr_Scopes = [''read'']\<rparr>"
proof -
  have 1: "json_Valid (marshal_object [(''name'', marshal_string ''ci''), (''scopes'', marshal_strings [''read''])])" by code_simp
  have 2: "Unmarshal_struct key_fields \<lparr>ckr_Name = '''', ckr_Scopes = []\<rparr>
      (marshal_object [(''name'', marshal_string ''ci''), (''scopes'', marshal_strings [''read''])]) =
      Some \<lparr>ckr_Name = ''ci'', ckr_Scopes = [''read'']\<rparr>" by code_simp
  show ?thesis unfolding key_body_def Decode_object [OF 1] by (rule 2)
qed

definition key_row :: api_key where
  "key_row = \<lparr>ak_id = 100, ak_tenant = DefaultTenantID, ak_name = ''ci'', ak_prefix = take KeyPrefixLen key_example,
     ak_hash = HashAPIKey key_example, ak_scopes = [''read''], ak_created_by = None, ak_last_used_at = None,
     ak_revoked_at = None, ak_created_at = 0\<rparr>"

definition key_world :: world where
  "key_world = (tick world_example)\<lparr>w_db := db_example\<lparr>db_api_keys := [key_row]\<rparr>\<rparr>"

lemma key_created: "create_key (Some raw_example) key_body world_example = (Reply 201 (toAPIKeyResponse key_row, key_example), key_world)"
proof -
  have gen: "GenerateAPIKey raw_example = (key_example, HashAPIKey key_example, take KeyPrefixLen key_example)"
    by (simp add: key_example_def GenerateAPIKey_def Let_def)
  have ins: "InsertApiKey DefaultTenantID ''ci'' (take KeyPrefixLen key_example) (HashAPIKey key_example) [''read''] world_example =
      (Inr key_row, key_world)"
    by (simp add: InsertApiKey_def exec_def key_world_def key_row_def world_example_def pg_example_def db_example_def empty_db_def Let_def)
  show ?thesis
    unfolding create_key_def key_body_decoded
    by (simp add: Scopes_def ScopeRead_def gen or_500_def ins)
qed

definition key_request :: auth_request where
  "key_request = \<lparr>aq_header = [(''Authorization'', [bearer @ key_example])], aq_cookies = [], aq_tls = True\<rparr>"

lemma key_request_header: "header_Get (aq_header key_request) ''Authorization'' = bearer @ key_example"
proof -
  have "CanonicalHeaderKey ''Authorization'' = ''Authorization''" by code_simp
  then show ?thesis by (simp add: key_request_def header_Get_def)
qed

text \<open>A gate as the process builds it.\<close>

definition gate_example :: Auth where
  "gate_example = AcceptSessions (NewAuth ''pw'') (NewSessions ''k'' ''pw'' None)"

theorem key_lifecycle_witness:
  "create_key (Some raw_example) key_body world_example = (Reply 201 (toAPIKeyResponse key_row, key_example), key_world) \<and>
   passes (fst (RequireScope gate_example ''read'' key_request key_world)) \<and>
   \<not> passes (fst (RequireScope gate_example ''write'' key_request key_world)) \<and>
   (\<exists>w2. revoke_key auth_env (akr_ID (toAPIKeyResponse key_row)) key_world = (NoContent, w2) \<and>
      fst (RequireScope gate_example ''read'' key_request w2) = Deny 401 ''unauthorized'')"
proof -
  have fresh: "hex_Encode (sha256 key_example) \<notin> ak_hash ` set (db_api_keys (w_db world_example))"
    by (simp add: world_example_def db_example_def empty_db_def)
  have up: "\<forall>n. \<not> pg_fault (w_pg world_example) n" by (simp add: world_example_def pg_example_def)
  have scan: "\<forall>u. e_Scan auth_env (uuidString u) = Some u" by (simp add: auth_env_def scan_uuidString)
  have "map_of (aq_cookies key_request) SessionCookieName = None" by (simp add: key_request_def)
  note use = key_lifecycle [OF key_created fresh up scan key_request_header this]
  have scopes: "akr_Scopes (toAPIKeyResponse key_row) = [''read'']" by (simp add: toAPIKeyResponse_def key_row_def)
  show ?thesis using use [of gate_example "''read''"] use [of gate_example "''write''"] key_created by (simp add: scopes)
qed

theorem RequireScope_exact_witness:
  "w_db (snd (RequireScope gate_example ''read'' key_request key_world)) = w_db key_world \<and>
   authorised gate_example ''read'' key_request (w_now key_world) (w_db key_world) \<and>
   passes (fst (RequireScope gate_example ''read'' key_request key_world))"
proof -
  have dist: "distinct (map ak_hash (db_api_keys (w_db key_world)))" by (simp add: key_world_def)
  have "shows_key ''read'' key_request (w_db key_world)"
    unfolding shows_key_def
    by (rule exI [of _ key_example])
      (simp add: key_request_header key_world_def key_row_def HashAPIKey_def key_example_def GenerateAPIKey_def keyScheme_def
        HasPrefix_def Let_def)
  then have auth: "authorised gate_example ''read'' key_request (w_now key_world) (w_db key_world)" by (simp add: authorised_def)
  moreover have "\<not> HasPrefix (au_adminPassword gate_example) ''whg_''" by (simp add: gate_example_def AcceptSessions_def NewAuth_def HasPrefix_def)
  moreover have "\<not> pg_fault (w_pg key_world) (w_step key_world)" by (simp add: key_world_def world_example_def pg_example_def)
  ultimately show ?thesis using RequireScope_exact [OF dist, of gate_example "''read''" key_request] by blast
qed

theorem session_lifetime_witness:
  "fst (Authenticate (NewSessions ''k'' ''pw'' None) (3600 * second)
     \<lparr>aq_header = [], aq_cookies = [(SessionCookieName, ck_Value (Issue (NewSessions ''k'' ''pw'' None) 0 key_request))], aq_tls = True\<rparr>)"
proof -
  let ?s = "NewSessions ''k'' ''pw'' None"
  let ?r = "\<lparr>aq_header = [], aq_cookies = [(SessionCookieName, ck_Value (Issue ?s 0 key_request))], aq_tls = True\<rparr>"
  have d: "datable (0 + sessionTTL)" by (simp add: datable_def Unix_def sessionTTL_def second_def)
  have c: "map_of (aq_cookies ?r) SessionCookieName = Some (ck_Value (Issue ?s 0 key_request))" by simp
  show ?thesis unfolding session_lifetime [OF d c] by (simp add: Let_def sessionTTL_def second_def)
qed

end
