(* ===== verification/Secrets.thy ===== *)
theory Secrets
  imports Hashes
begin

text \<open>
  Provider secrets at rest (\<^verbatim>\<open>internal/crypto/secrets.go\<close>): AES-256-GCM of Go's \<^verbatim>\<open>crypto/aes\<close> and
  \<^verbatim>\<open>crypto/cipher\<close> (FIPS 197 and NIST SP 800-38D, 12-byte nonces, no additional data), computed on
  words, and the \<^verbatim>\<open>Encryptor\<close> on top of it. The nonce that \<^verbatim>\<open>crypto/rand\<close> draws is an argument.
\<close>

subsection \<open>AES-256\<close>

type_synonym w8 = "8 word"

definition aes_sbox :: "w8 list" where
  "aes_sbox =
    [0x63, 0x7c, 0x77, 0x7b, 0xf2, 0x6b, 0x6f, 0xc5, 0x30, 0x01, 0x67, 0x2b, 0xfe, 0xd7, 0xab, 0x76,
     0xca, 0x82, 0xc9, 0x7d, 0xfa, 0x59, 0x47, 0xf0, 0xad, 0xd4, 0xa2, 0xaf, 0x9c, 0xa4, 0x72, 0xc0,
     0xb7, 0xfd, 0x93, 0x26, 0x36, 0x3f, 0xf7, 0xcc, 0x34, 0xa5, 0xe5, 0xf1, 0x71, 0xd8, 0x31, 0x15,
     0x04, 0xc7, 0x23, 0xc3, 0x18, 0x96, 0x05, 0x9a, 0x07, 0x12, 0x80, 0xe2, 0xeb, 0x27, 0xb2, 0x75,
     0x09, 0x83, 0x2c, 0x1a, 0x1b, 0x6e, 0x5a, 0xa0, 0x52, 0x3b, 0xd6, 0xb3, 0x29, 0xe3, 0x2f, 0x84,
     0x53, 0xd1, 0x00, 0xed, 0x20, 0xfc, 0xb1, 0x5b, 0x6a, 0xcb, 0xbe, 0x39, 0x4a, 0x4c, 0x58, 0xcf,
     0xd0, 0xef, 0xaa, 0xfb, 0x43, 0x4d, 0x33, 0x85, 0x45, 0xf9, 0x02, 0x7f, 0x50, 0x3c, 0x9f, 0xa8,
     0x51, 0xa3, 0x40, 0x8f, 0x92, 0x9d, 0x38, 0xf5, 0xbc, 0xb6, 0xda, 0x21, 0x10, 0xff, 0xf3, 0xd2,
     0xcd, 0x0c, 0x13, 0xec, 0x5f, 0x97, 0x44, 0x17, 0xc4, 0xa7, 0x7e, 0x3d, 0x64, 0x5d, 0x19, 0x73,
     0x60, 0x81, 0x4f, 0xdc, 0x22, 0x2a, 0x90, 0x88, 0x46, 0xee, 0xb8, 0x14, 0xde, 0x5e, 0x0b, 0xdb,
     0xe0, 0x32, 0x3a, 0x0a, 0x49, 0x06, 0x24, 0x5c, 0xc2, 0xd3, 0xac, 0x62, 0x91, 0x95, 0xe4, 0x79,
     0xe7, 0xc8, 0x37, 0x6d, 0x8d, 0xd5, 0x4e, 0xa9, 0x6c, 0x56, 0xf4, 0xea, 0x65, 0x7a, 0xae, 0x08,
     0xba, 0x78, 0x25, 0x2e, 0x1c, 0xa6, 0xb4, 0xc6, 0xe8, 0xdd, 0x74, 0x1f, 0x4b, 0xbd, 0x8b, 0x8a,
     0x70, 0x3e, 0xb5, 0x66, 0x48, 0x03, 0xf6, 0x0e, 0x61, 0x35, 0x57, 0xb9, 0x86, 0xc1, 0x1d, 0x9e,
     0xe1, 0xf8, 0x98, 0x11, 0x69, 0xd9, 0x8e, 0x94, 0x9b, 0x1e, 0x87, 0xe9, 0xce, 0x55, 0x28, 0xdf,
     0x8c, 0xa1, 0x89, 0x0d, 0xbf, 0xe6, 0x42, 0x68, 0x41, 0x99, 0x2d, 0x0f, 0xb0, 0x54, 0xbb, 0x16]"

definition SubByte :: "w8 \<Rightarrow> w8" where
  "SubByte b = aes_sbox ! unat b"

definition xors :: "w8 list \<Rightarrow> w8 list \<Rightarrow> w8 list" where
  "xors a b = map (\<lambda>(x, y). x XOR y) (zip a b)"

definition xtime :: "w8 \<Rightarrow> w8" where
  "xtime b = (if bit b 7 then push_bit 1 b XOR 0x1b else push_bit 1 b)"

text \<open>The key schedule, words newest first: the next word from the previous one and the one eight back.\<close>

definition aes_next_word :: "nat \<Rightarrow> w8 list list \<Rightarrow> w8 list" where
  "aes_next_word i ws =
     (let prev = ws ! 0;
          t = (if i mod 8 = 0 then xors (map SubByte (rotate1 prev)) [push_bit (i div 8 - 1) 1, 0, 0, 0]
               else if i mod 8 = 4 then map SubByte prev else prev)
      in xors (ws ! 7) t)"

definition aes_round_keys :: "w8 list \<Rightarrow> w8 list list" where
  "aes_round_keys key =
     groups 16 (concat (rev (fold (\<lambda>i ws. aes_next_word i ws # ws) [8..<60] (rev (groups 4 key)))))"

definition ShiftRows :: "w8 list \<Rightarrow> w8 list" where
  "ShiftRows s = map (\<lambda>i. s ! ((4 * ((i div 4 + i mod 4) mod 4) + i mod 4))) [0..<16]"

definition mix_column :: "w8 list \<Rightarrow> w8 list" where
  "mix_column c =
     (let m = (\<lambda>i. c ! (i mod 4)); d = (\<lambda>i. xtime (m i))
      in map (\<lambda>i. d i XOR (d (i + 1) XOR m (i + 1)) XOR m (i + 2) XOR m (i + 3)) [0..<4])"

definition MixColumns :: "w8 list \<Rightarrow> w8 list" where
  "MixColumns s = concat (map mix_column (groups 4 s))"

definition aes_encrypt_block :: "w8 list \<Rightarrow> w8 list \<Rightarrow> w8 list" where
  "aes_encrypt_block key blk =
     (let rk = aes_round_keys key;
          mid = fold (\<lambda>k s. xors (MixColumns (ShiftRows (map SubByte s))) k) (take 13 (drop 1 rk)) (xors blk (rk ! 0))
      in xors (ShiftRows (map SubByte mid)) (rk ! 14))"

subsection \<open>GCM\<close>

definition byte_word :: "char \<Rightarrow> w8" where "byte_word c = of_nat (of_char c)"
definition word_byte :: "w8 \<Rightarrow> char" where "word_byte w = char_of (unat w)"

definition block_word :: "w8 list \<Rightarrow> 128 word" where
  "block_word bs = foldl (\<lambda>w b. push_bit 8 w OR ucast b) 0 bs"

definition word_block :: "128 word \<Rightarrow> w8 list" where
  "word_block w = map (\<lambda>k. ucast (drop_bit (8 * (15 - k)) w)) [0..<16]"

definition gf_mul :: "128 word \<Rightarrow> 128 word \<Rightarrow> 128 word" where
  "gf_mul x y = fst (fold (\<lambda>i (z, v).
      (if bit x (127 - i) then z XOR v else z,
       if bit v 0 then drop_bit 1 v XOR push_bit 120 0xe1 else drop_bit 1 v)) [0..<128] (0, y))"

text \<open>The hash of a ciphertext with no additional data: zero-padded blocks, then the two lengths in bits.\<close>

definition ghash :: "128 word \<Rightarrow> w8 list \<Rightarrow> 128 word" where
  "ghash h ct =
     (let pad = (\<lambda>b. b @ replicate (16 - length b) 0);
          blocks = map (\<lambda>b. block_word (pad b)) (groups 16 ct) @ [of_nat (8 * length ct mod 2 ^ 64)]
      in fold (\<lambda>b y. gf_mul (y XOR b) h) blocks 0)"

definition counter_block :: "w8 list \<Rightarrow> nat \<Rightarrow> w8 list" where
  "counter_block nonce n = nonce @ map byte_word (word_bytes (of_nat n))"

definition keystream :: "w8 list \<Rightarrow> w8 list \<Rightarrow> nat \<Rightarrow> w8 list" where
  "keystream key nonce n =
     take n (concat (map (\<lambda>i. aes_encrypt_block key (counter_block nonce (i + 2))) [0..<(n + 15) div 16]))"

definition gcm_tag :: "w8 list \<Rightarrow> w8 list \<Rightarrow> w8 list \<Rightarrow> w8 list" where
  "gcm_tag key nonce ct =
     xors (word_block (ghash (block_word (aes_encrypt_block key (replicate 16 0))) ct))
       (aes_encrypt_block key (counter_block nonce 1))"

text \<open>\<^verbatim>\<open>aead.Seal(dst, nonce, plaintext, nil)\<close> without its \<^verbatim>\<open>dst\<close> prefix, and \<^verbatim>\<open>aead.Open\<close>.\<close>

definition gcm_Seal :: "bytes \<Rightarrow> bytes \<Rightarrow> bytes \<Rightarrow> bytes" where
  "gcm_Seal key nonce pt =
     (let k = map byte_word key; n = map byte_word nonce;
          ct = xors (map byte_word pt) (keystream k n (length pt))
      in map word_byte (ct @ gcm_tag k n ct))"

definition gcm_Open :: "bytes \<Rightarrow> bytes \<Rightarrow> bytes \<Rightarrow> bytes option" where
  "gcm_Open key nonce sealed =
     (if length sealed < 16 then None
      else (let k = map byte_word key; n = map byte_word nonce;
                m = length sealed - 16;
                ct = map byte_word (take m sealed); tag = map byte_word (drop m sealed)
            in if tag \<noteq> gcm_tag k n ct then None
               else Some (map word_byte (xors ct (keystream k n m)))))"

subsection \<open>The Encryptor\<close>

definition CurrentKeyVersion :: int where "CurrentKeyVersion = 1"

record Encryptor =
  enc_key :: bytes
  enc_version :: int

datatype encryptor_error = BadBase64 | BadKeyLength nat

definition NewEncryptor :: "string \<Rightarrow> encryptor_error + Encryptor" where
  "NewEncryptor base64Key =
     (case b64_std_Decode base64Key of
        None \<Rightarrow> Inl BadBase64
      | Some key \<Rightarrow> if length key \<noteq> 32 then Inl (BadKeyLength (length key))
                    else Inr \<lparr>enc_key = key, enc_version = CurrentKeyVersion\<rparr>)"

definition nonce_size :: nat where "nonce_size = 12"

text \<open>\<open>None\<close> is a failure of the random source; the nonce it gives otherwise has \<open>nonce_size\<close> bytes.\<close>

definition Encrypt :: "Encryptor \<Rightarrow> bytes option \<Rightarrow> bytes \<Rightarrow> (bytes \<times> int) option" where
  "Encrypt e rand plaintext =
     (case rand of None \<Rightarrow> None
      | Some nonce \<Rightarrow> Some (nonce @ gcm_Seal (enc_key e) nonce plaintext, enc_version e))"

definition Decrypt :: "Encryptor \<Rightarrow> bytes \<Rightarrow> bytes option" where
  "Decrypt e ciphertext =
     (if length ciphertext < nonce_size then None
      else gcm_Open (enc_key e) (take nonce_size ciphertext) (drop nonce_size ciphertext))"

subsection \<open>Lengths\<close>

lemma groups_exact:
  assumes "0 < n"
  shows "length xs = k * n \<Longrightarrow> length (groups n xs) = k \<and> list_all (\<lambda>g. length g = n) (groups n xs)"
proof (induction k arbitrary: xs)
  case 0
  then show ?case by (simp add: groups.simps)
next
  case (Suc k)
  then have "xs \<noteq> []" "length (drop n xs) = k * n" using assms by auto
  with Suc assms show ?case by (subst (1 2) groups.simps) simp
qed

lemma length_xors [simp]: "length (xors a b) = min (length a) (length b)"
  by (simp add: xors_def)

lemma length_aes_next_word:
  assumes "list_all (\<lambda>w. length w = 4) ws" "8 \<le> length ws"
  shows "length (aes_next_word i ws) = 4"
proof -
  have "length (ws ! 0) = 4" "length (ws ! 7) = 4"
    using assms by (simp_all only: list_all_length)
  then show ?thesis by (simp add: aes_next_word_def Let_def)
qed

lemma length_schedule_words:
  assumes "list_all (\<lambda>w. length w = 4) ws" "8 \<le> length ws"
  shows "list_all (\<lambda>w. length w = 4) (fold (\<lambda>i ws. aes_next_word i ws # ws) is ws) \<and>
    length (fold (\<lambda>i ws. aes_next_word i ws # ws) is ws) = length is + length ws"
  using assms by (induction "is" arbitrary: ws) (auto simp: length_aes_next_word)

lemma length_concat_const: "list_all (\<lambda>w. length w = n) ws \<Longrightarrow> length (concat ws) = length ws * n"
  by (induction ws) auto

lemma length_round_keys:
  assumes "length key = 32"
  shows "length (aes_round_keys key) = 15 \<and> list_all (\<lambda>g. length g = 16) (aes_round_keys key)"
proof -
  define idx where "idx = [8..<60 :: nat]"
  define ws where "ws = fold (\<lambda>i ws. aes_next_word i ws # ws) idx (rev (groups 4 key))"
  have g: "length (groups 4 key) = 8 \<and> list_all (\<lambda>g. length g = 4) (groups 4 key)"
    using assms by (intro groups_exact) simp_all
  have "length idx = 52" unfolding idx_def by (simp only: length_upt)
  with g have "list_all (\<lambda>w. length w = 4) ws \<and> length ws = 60"
    using length_schedule_words [of "rev (groups 4 key)" idx] unfolding ws_def by simp
  then have "length (concat (rev ws)) = 15 * 16"
    using length_concat_const [of 4 "rev ws"] by simp
  then have "length (groups 16 (concat (rev ws))) = 15 \<and>
      list_all (\<lambda>g. length g = 16) (groups 16 (concat (rev ws)))"
    by (intro groups_exact) simp_all
  then show ?thesis unfolding aes_round_keys_def ws_def idx_def .
qed

lemma length_aes_block:
  assumes "length key = 32"
  shows "length (aes_encrypt_block key blk) = 16"
proof -
  have "length (aes_round_keys key ! 14) = 16"
    using length_round_keys [OF assms] by (simp add: list_all_length)
  then show ?thesis by (simp add: aes_encrypt_block_def Let_def ShiftRows_def)
qed

lemma length_keystream:
  assumes "length key = 32"
  shows "length (keystream key nonce n) = n"
proof -
  have "length (concat (map (\<lambda>i. aes_encrypt_block key (counter_block nonce (i + 2))) [0..<(n + 15) div 16])) =
    (n + 15) div 16 * 16"
    by (subst length_concat_const [of 16]) (auto simp: list_all_iff length_aes_block [OF assms])
  then show ?thesis by (simp add: keystream_def)
qed

lemma length_gcm_tag: "length key = 32 \<Longrightarrow> length (gcm_tag key nonce ct) = 16"
  by (simp add: gcm_tag_def length_aes_block word_block_def)

subsection \<open>Opening what was sealed\<close>

lemma word_byte_word [simp]: "word_byte (byte_word c) = c"
proof -
  have "unat (byte_word c) = of_char c"
    by (simp add: byte_word_def unat_of_nat)
  then show ?thesis by (simp add: word_byte_def)
qed

lemma byte_word_byte [simp]: "byte_word (word_byte w) = w"
proof -
  have "unat w < 256" using unsigned_less [of w, where ?'a = nat] by simp
  then have "of_char (char_of (unat w) :: char) = unat w" by simp
  then show ?thesis by (simp add: byte_word_def word_byte_def)
qed

lemma map_word_byte_word [simp]: "map (word_byte \<circ> byte_word) xs = xs" "map (byte_word \<circ> word_byte) ys = ys"
  by (simp_all add: map_idI)

lemma xors_xors: "length a \<le> length k \<Longrightarrow> xors (xors a k) k = a"
proof (induction a arbitrary: k)
  case (Cons x a)
  then show ?case by (cases k) (auto simp: xors_def xor.assoc)
qed (simp add: xors_def)

lemma length_gcm_Seal: "length key = 32 \<Longrightarrow> length (gcm_Seal key nonce pt) = length pt + 16"
  by (simp add: gcm_Seal_def Let_def length_keystream length_gcm_tag)

lemma gcm_Open_Seal:
  assumes "length key = 32"
  shows "gcm_Open key nonce (gcm_Seal key nonce pt) = Some pt"
proof -
  define k n where "k = map byte_word key" and "n = map byte_word nonce"
  define ct where "ct = xors (map byte_word pt) (keystream k n (length pt))"
  have k: "length k = 32" using assms by (simp add: k_def)
  have ct: "length ct = length pt" by (simp add: ct_def length_keystream [OF k])
  have s: "gcm_Seal key nonce pt = map word_byte ct @ map word_byte (gcm_tag k n ct)"
    by (simp add: gcm_Seal_def Let_def k_def n_def ct_def)
  have "xors ct (keystream k n (length pt)) = map byte_word pt"
    unfolding ct_def by (rule xors_xors) (simp add: length_keystream [OF k])
  then show ?thesis
    unfolding gcm_Open_def s by (simp add: Let_def ct length_gcm_tag [OF k] k_def [symmetric] n_def [symmetric])
qed

lemma gcm_Open_SomeD:
  assumes "length key = 32" "gcm_Open key nonce sealed = Some pt"
  shows "sealed = gcm_Seal key nonce pt"
proof -
  define k n m where "k = map byte_word key" and "n = map byte_word nonce" and "m = length sealed - 16"
  define ct where "ct = map byte_word (take m sealed)"
  have k: "length k = 32" using assms by (simp add: k_def)
  have o: "16 \<le> length sealed" "map byte_word (drop m sealed) = gcm_tag k n ct"
    "pt = map word_byte (xors ct (keystream k n m))"
    using assms(2) by (auto simp: gcm_Open_def Let_def k_def n_def m_def ct_def split: if_splits)
  have len: "length ct = m" "length pt = m"
    by (simp_all add: o(3) ct_def m_def length_keystream [OF k])
  have "xors (map byte_word pt) (keystream k n m) = ct"
    by (simp add: o(3) len xors_xors length_keystream [OF k])
  then have "gcm_Seal key nonce pt = map word_byte ct @ map word_byte (map byte_word (drop m sealed))"
    by (simp add: gcm_Seal_def Let_def k_def [symmetric] n_def [symmetric] len o(2) del: list.map_comp)
  also have "\<dots> = sealed" by (simp add: ct_def)
  finally show ?thesis by simp
qed

lemma NewEncryptor_key: "NewEncryptor s = Inr e \<Longrightarrow> length (enc_key e) = 32"
  by (auto simp: NewEncryptor_def split: option.splits if_splits)

text \<open>
  C8. Secrets at rest. With an encryptor built from any accepted master key, a stored ciphertext decrypts to
  a plaintext exactly when it is what Encrypt produces for that plaintext under some nonce: every
  secret round-trips, and a truncated or tampered ciphertext (anything Encrypt would not have written)
  is rejected rather than opened as something else.
\<close>

theorem Decrypt_iff_Encrypt:
  assumes "NewEncryptor base64Key = Inr e"
  shows "Decrypt e c = Some p \<longleftrightarrow> (\<exists>nonce. length nonce = nonce_size \<and> Encrypt e (Some nonce) p = Some (c, enc_version e))"
proof
  assume d: "Decrypt e c = Some p"
  then have "drop nonce_size c = gcm_Seal (enc_key e) (take nonce_size c) p" "nonce_size \<le> length c"
    using gcm_Open_SomeD [OF NewEncryptor_key [OF assms]] by (auto simp: Decrypt_def split: if_splits)
  then show "\<exists>nonce. length nonce = nonce_size \<and> Encrypt e (Some nonce) p = Some (c, enc_version e)"
    by (intro exI [of _ "take nonce_size c"]) (auto simp: Encrypt_def dest: sym)
next
  assume "\<exists>nonce. length nonce = nonce_size \<and> Encrypt e (Some nonce) p = Some (c, enc_version e)"
  then show "Decrypt e c = Some p"
    using gcm_Open_Seal [OF NewEncryptor_key [OF assms]] by (auto simp: Encrypt_def Decrypt_def)
qed

theorem Decrypt_iff_Encrypt_witness:
  "\<exists>e c. NewEncryptor (b64_std_Encode (replicate 32 CHR ''k'')) = Inr e \<and>
     Encrypt e (Some (replicate 12 CHR ''n'')) ''whsec'' = Some (c, 1) \<and> Decrypt e c = Some ''whsec''"
proof -
  have e: "NewEncryptor (b64_std_Encode (replicate 32 CHR ''k'')) =
    Inr \<lparr>enc_key = replicate 32 CHR ''k'', enc_version = CurrentKeyVersion\<rparr>"
    by (simp add: NewEncryptor_def b64_std_Decode_Encode)
  show ?thesis
    using e Decrypt_iff_Encrypt [OF e, of _ "''whsec''"]
    by (auto simp: Encrypt_def nonce_size_def CurrentKeyVersion_def intro!: exI [of _ "replicate 12 CHR ''n''"])
qed

end
