(* ===== verification/Gateway_Config.thy ===== *)
theory Gateway_Config
  imports Auth Sourcedef Secrets
begin

text \<open>
  The configuration of the gateway process (\<^verbatim>\<open>internal/config/config.go\<close>) and the process itself, from the
  configuration to the shutdown (\<^verbatim>\<open>cmd/gateway/main.go\<close>). Reading a file and the YAML decoder are parameters: the decoder
  gets the defaults and returns them with the file's values in place, as \<^verbatim>\<open>yaml.Unmarshal\<close> does on a filled struct. So are the
  embedded source definitions with their decoder, and the steps that talk to the database, the queue and the network. Health checks,
  metrics and logging are left out.
\<close>

record GatewayConfig =
  gc_Port :: int
  gc_Role :: string
  gc_DatabaseURL :: string
  gc_AdminPassword :: string
  gc_EncryptionKey :: string
  gc_LogLevel :: string
  gc_LogFormat :: string
  gc_IngestMaxBodyBytes :: int
  gc_IngestRateLimitPerSecond :: int
  gc_SessionCookieSecure :: "bool option"

datatype file_read = Contents bytes | NotExist | Unreadable string

datatype config_problem =
    DatabaseURLRequired | AdminPasswordRequired | RoleInvalid string | PortOutOfRange int
  | MaxBodyNotPositive int | RateLimitNotPositive int
  | KeyRequired | KeyNotBase64 | KeyWrongLength nat

datatype config_error =
    ParsingFile string string | ReadingFile string string | NotANumber string string | NotABool string string
  | InvalidConfiguration "config_problem list"

definition validRoles :: "string list" where
  "validRoles = [''all'', ''ingest'', ''worker'', ''dashboard'']"

definition default_config :: GatewayConfig where
  "default_config = \<lparr>gc_Port = 8080, gc_Role = ''all'', gc_DatabaseURL = '''', gc_AdminPassword = '''', gc_EncryptionKey = '''',
     gc_LogLevel = ''info'', gc_LogFormat = ''json'', gc_IngestMaxBodyBytes = 2 ^ 20, gc_IngestRateLimitPerSecond = 100,
     gc_SessionCookieSecure = None\<rparr>"

subsection \<open>The layers\<close>

definition file_layer :: "(string \<Rightarrow> file_read) \<Rightarrow> (bytes \<Rightarrow> GatewayConfig \<Rightarrow> string + GatewayConfig) \<Rightarrow> string \<Rightarrow>
    config_error + GatewayConfig" where
  "file_layer ReadFile yaml path =
     (if path = '''' then Inr default_config
      else case ReadFile path of
        Contents data \<Rightarrow> (case yaml data default_config of Inl e \<Rightarrow> Inl (ParsingFile path e) | Inr cfg \<Rightarrow> Inr cfg)
      | NotExist \<Rightarrow> Inr default_config
      | Unreadable e \<Rightarrow> Inl (ReadingFile path e))"

text \<open>One environment variable, unset and empty being the same: a text, or a value that has to parse.\<close>

definition env_text :: "((string \<Rightarrow> string) \<Rightarrow> GatewayConfig \<Rightarrow> GatewayConfig) \<Rightarrow> string \<Rightarrow> GatewayConfig \<Rightarrow> GatewayConfig" where
  "env_text upd v cfg = (if v = '''' then cfg else upd (\<lambda>_. v) cfg)"

definition env_parsed :: "(string \<Rightarrow> 'a option) \<Rightarrow> (('a \<Rightarrow> 'a) \<Rightarrow> GatewayConfig \<Rightarrow> GatewayConfig) \<Rightarrow> (string \<Rightarrow> config_error) \<Rightarrow> string \<Rightarrow>
    GatewayConfig \<Rightarrow> config_error + GatewayConfig" where
  "env_parsed parse upd err v cfg =
     (if v = '''' then Inr cfg
      else case parse v of None \<Rightarrow> Inl (err v) | Some x \<Rightarrow> Inr (upd (\<lambda>_. x) cfg))"



definition env_layer :: "(string \<Rightarrow> string) \<Rightarrow> GatewayConfig \<Rightarrow> config_error + GatewayConfig" where
  "env_layer Getenv cfg =
     and_then (env_parsed ParseInt64 gc_Port_update (NotANumber ''PORT'') (Getenv ''PORT'') cfg)
     (\<lambda>c1. let c2 = env_text gc_Role_update (Getenv ''ROLE'') c1;
               c3 = env_text gc_DatabaseURL_update (Getenv ''DATABASE_URL'') c2;
               c4 = env_text gc_AdminPassword_update (Getenv ''ADMIN_PASSWORD'') c3;
               c5 = env_text gc_EncryptionKey_update (Getenv ''ENCRYPTION_KEY'') c4;
               c6 = env_text gc_LogLevel_update (Getenv ''LOG_LEVEL'') c5;
               c7 = env_text gc_LogFormat_update (Getenv ''LOG_FORMAT'') c6
           in and_then (env_parsed ParseInt64 gc_IngestMaxBodyBytes_update (NotANumber ''INGEST_MAX_BODY_BYTES'')
                          (Getenv ''INGEST_MAX_BODY_BYTES'') c7)
     (\<lambda>c8. and_then (env_parsed ParseInt64 gc_IngestRateLimitPerSecond_update (NotANumber ''INGEST_RATE_LIMIT_PER_SECOND'')
                       (Getenv ''INGEST_RATE_LIMIT_PER_SECOND'') c8)
     (\<lambda>c9. env_parsed (map_option Some \<circ> ParseBool) gc_SessionCookieSecure_update (NotABool ''SESSION_COOKIE_SECURE'')
             (Getenv ''SESSION_COOKIE_SECURE'') c9)))"

subsection \<open>Validation\<close>

definition key_problems :: "string \<Rightarrow> config_problem list" where
  "key_problems k =
     (if k = '''' then [KeyRequired]
      else case b64_std_Decode k of None \<Rightarrow> [KeyNotBase64]
      | Some key \<Rightarrow> if length key \<noteq> 32 then [KeyWrongLength (length key)] else [])"

definition problems :: "GatewayConfig \<Rightarrow> config_problem list" where
  "problems c =
     (if gc_DatabaseURL c = '''' then [DatabaseURLRequired] else []) @
     (if gc_AdminPassword c = '''' then [AdminPasswordRequired] else []) @
     (if gc_Role c \<notin> set validRoles then [RoleInvalid (gc_Role c)] else []) @
     (if gc_Port c < 1 \<or> gc_Port c > 65535 then [PortOutOfRange (gc_Port c)] else []) @
     (if gc_IngestMaxBodyBytes c < 1 then [MaxBodyNotPositive (gc_IngestMaxBodyBytes c)] else []) @
     (if gc_IngestRateLimitPerSecond c < 1 then [RateLimitNotPositive (gc_IngestRateLimitPerSecond c)] else []) @
     key_problems (gc_EncryptionKey c)"

definition validate_config :: "GatewayConfig \<Rightarrow> config_error option" where
  "validate_config c = (if problems c \<noteq> [] then Some (InvalidConfiguration (problems c)) else None)"

definition config_Load :: "(string \<Rightarrow> file_read) \<Rightarrow> (bytes \<Rightarrow> GatewayConfig \<Rightarrow> string + GatewayConfig) \<Rightarrow> (string \<Rightarrow> string) \<Rightarrow> string \<Rightarrow>
    config_error + GatewayConfig" where
  "config_Load ReadFile yaml Getenv path =
     and_then (and_then (file_layer ReadFile yaml path) (env_layer Getenv))
       (\<lambda>cfg. case validate_config cfg of Some e \<Rightarrow> Inl e | None \<Rightarrow> Inr cfg)"

subsection \<open>The process\<close>

text \<open>
  What the process mounts, one constructor for each registration with the arguments that are not the pool, the queries or
  the River client: the encryptor, the catalog, the gate in front of the handlers, the ingest handler, which the sources API
  shares, the admin password and the sessions.
\<close>

datatype ingest_handler = IngestHandler Encryptor catalog int int

datatype mount =
    MountIngest ingest_handler | MountSources Encryptor catalog Auth ingest_handler | MountProviders catalog Auth
  | MountDestinations Auth | MountRoutes Auth | MountRules Auth | MountDeliveries Auth | MountEvents Auth | MountReplay Auth
  | MountAPIKeys string Sessions | MountAuth Sessions string | MountTunnel Auth | MountDashboard | StartedWorker

text \<open>What the process asks of the database, the queue and the network, each of which can fail.\<close>

datatype start_step =
    NewPool | DbMigrate | QueueMigrate | NewInsertOnlyClient | TunnelRegister | NewWorkerClient | StartWorker
  | ListenAndServe | Shutdown

datatype startup_error =
    BadConfiguration config_error | StepFailed start_step string | BuildingEncryptor encryptor_error | LoadingCatalog catalog_error

record process =
  pr_ReadFile :: "string \<Rightarrow> file_read"
  pr_yaml :: "bytes \<Rightarrow> GatewayConfig \<Rightarrow> string + GatewayConfig"
  pr_Getenv :: "string \<Rightarrow> string"
  pr_catalogFS :: "(string \<times> bytes) list"
  pr_Unmarshal :: "bytes \<Rightarrow> Definition option"
  pr_fails :: "start_step \<Rightarrow> string option"

definition step :: "process \<Rightarrow> start_step \<Rightarrow> 'a \<Rightarrow> startup_error + 'a" where
  "step p s x = (case pr_fails p s of Some e \<Rightarrow> Inl (StepFailed s e) | None \<Rightarrow> Inr x)"

definition mount_ingest :: "process \<Rightarrow> GatewayConfig \<Rightarrow> Sessions \<Rightarrow> mount list \<Rightarrow> startup_error + mount list" where
  "mount_ingest p cfg sessions ms =
     (if gc_Role cfg = ''all'' \<or> gc_Role cfg = ''ingest'' then
        (case NewEncryptor (gc_EncryptionKey cfg) of
           Inl e \<Rightarrow> Inl (BuildingEncryptor e)
         | Inr enc \<Rightarrow>
             (case Load (pr_Unmarshal p) (pr_catalogFS p) of
                Inl e \<Rightarrow> Inl (LoadingCatalog e)
              | Inr cat \<Rightarrow>
                  let authz = AcceptSessions (NewAuth (gc_AdminPassword cfg)) sessions;
                      ingestHandler = IngestHandler enc cat (gc_IngestMaxBodyBytes cfg) (gc_IngestRateLimitPerSecond cfg)
                  in step p NewInsertOnlyClient
                       (ms @ [MountIngest ingestHandler, MountSources enc cat authz ingestHandler, MountProviders cat authz])))
      else Inr ms)"

definition mount_management :: "process \<Rightarrow> GatewayConfig \<Rightarrow> Sessions \<Rightarrow> mount list \<Rightarrow> startup_error + mount list" where
  "mount_management p cfg sessions ms =
     (if gc_Role cfg = ''all'' \<or> gc_Role cfg = ''dashboard'' then
        (let authz = AcceptSessions (NewAuth (gc_AdminPassword cfg)) sessions
         in and_then (step p NewInsertOnlyClient
              (ms @ [MountDestinations authz, MountRoutes authz, MountRules authz, MountDeliveries authz, MountEvents authz,
                     MountReplay authz, MountAPIKeys (gc_AdminPassword cfg) sessions, MountAuth sessions (gc_AdminPassword cfg)]))
            (\<lambda>ms. step p TunnelRegister (ms @ [MountTunnel authz, MountDashboard])))
      else Inr ms)"

definition start_worker :: "process \<Rightarrow> GatewayConfig \<Rightarrow> mount list \<Rightarrow> startup_error + mount list" where
  "start_worker p cfg ms =
     (if gc_Role cfg = ''all'' \<or> gc_Role cfg = ''worker''
      then and_then (step p NewWorkerClient ms) (\<lambda>ms. step p StartWorker (ms @ [StartedWorker]))
      else Inr ms)"

definition mounts :: "process \<Rightarrow> GatewayConfig \<Rightarrow> startup_error + mount list" where
  "mounts p cfg =
     (let sessions = NewSessions (gc_EncryptionKey cfg) (gc_AdminPassword cfg) (gc_SessionCookieSecure cfg)
      in and_then (mount_ingest p cfg sessions []) (\<lambda>ms. and_then (mount_management p cfg sessions ms) (start_worker p cfg)))"

text \<open>The whole of \<^verbatim>\<open>run\<close>: the value is what was mounted when the process ended on a signal.\<close>

definition run :: "process \<Rightarrow> string \<Rightarrow> startup_error + mount list" where
  "run p configPath =
     (case config_Load (pr_ReadFile p) (pr_yaml p) (pr_Getenv p) configPath of
        Inl e \<Rightarrow> Inl (BadConfiguration e)
      | Inr cfg \<Rightarrow>
          and_then (step p NewPool ()) (\<lambda>_. and_then (step p DbMigrate ()) (\<lambda>_. and_then (step p QueueMigrate ())
          (\<lambda>_. and_then (mounts p cfg) (\<lambda>ms. and_then (step p ListenAndServe ms) (step p Shutdown))))))"

subsection \<open>Loading is exact\<close>

text \<open>What the environment makes of one value of the layer below.\<close>

definition overrides :: "(string \<Rightarrow> 'a option) \<Rightarrow> string \<Rightarrow> 'a \<Rightarrow> 'a \<Rightarrow> bool" where
  "overrides parse v old new \<longleftrightarrow> (if v = '''' then new = old else parse v = Some new)"

text \<open>Nothing outside fails, and the embedded source definitions are accepted.\<close>

definition undisturbed :: "process \<Rightarrow> bool" where
  "undisturbed p \<longleftrightarrow> pr_fails p = (\<lambda>_. None) \<and> (\<exists>cat. Load (pr_Unmarshal p) (pr_catalogFS p) = Inr cat)"

definition usable :: "GatewayConfig \<Rightarrow> bool" where
  "usable c \<longleftrightarrow> gc_DatabaseURL c \<noteq> '''' \<and> gc_AdminPassword c \<noteq> '''' \<and> 1 \<le> gc_Port c \<and> gc_Port c < 2 ^ 16 \<and>
     1 \<le> gc_IngestMaxBodyBytes c \<and> 1 \<le> gc_IngestRateLimitPerSecond c \<and>
     gc_Role c \<in> set validRoles \<and> (\<exists>enc. NewEncryptor (gc_EncryptionKey c) = Inr enc)"

lemma and_then_simps [simp]: "and_then (Inl e) f = Inl e" "and_then (Inr x) f = f x"
  by (simp_all add: and_then_def)

lemma step_ok: "undisturbed p \<Longrightarrow> step p s x = Inr x"
  by (simp add: undisturbed_def step_def)

lemma b64_std_Decode_Nil: "b64_std_Decode [] = Some []"
  by (simp add: b64_std_Decode_def)

lemma key_problems_iff: "key_problems k = [] \<longleftrightarrow> (\<exists>enc. NewEncryptor k = Inr enc)"
  using b64_std_Decode_Nil by (auto simp: key_problems_def NewEncryptor_def split: option.splits)

lemma problems_usable: "problems c = [] \<longleftrightarrow> usable c"
  using key_problems_iff [of "gc_EncryptionKey c"] by (auto simp: problems_def usable_def)

text \<open>Each step changes one field, whatever the others are.\<close>

definition pick :: "(string \<Rightarrow> 'a option) \<Rightarrow> string \<Rightarrow> 'a \<Rightarrow> 'a" where
  "pick parse v old = (if v = '''' then old else the (parse v))"

definition parses :: "(string \<Rightarrow> 'a option) \<Rightarrow> string \<Rightarrow> bool" where
  "parses parse v \<longleftrightarrow> v = '''' \<or> parse v \<noteq> None"

lemma overrides_iff: "overrides parse v old new \<longleftrightarrow> parses parse v \<and> new = pick parse v old"
  by (auto simp: overrides_def parses_def pick_def)

lemma parses_Some: "parses Some v"
  by (simp add: parses_def)

lemma env_text_pick: "upd (\<lambda>x. x) cfg = cfg \<Longrightarrow> env_text upd v cfg = upd (pick Some v) cfg"
  by (simp add: env_text_def pick_def [abs_def])

lemma env_parsed_pick:
  "upd (\<lambda>x. x) cfg = cfg \<Longrightarrow> env_parsed parse upd err v cfg = Inr c \<longleftrightarrow> parses parse v \<and> c = upd (pick parse v) cfg"
  by (auto simp: env_parsed_def parses_def pick_def [abs_def] split: option.splits)

lemma update_ids:
  "gc_Port_update (\<lambda>x. x) c = c" "gc_Role_update (\<lambda>x. x) c = c" "gc_DatabaseURL_update (\<lambda>x. x) c = c"
  "gc_AdminPassword_update (\<lambda>x. x) c = c" "gc_EncryptionKey_update (\<lambda>x. x) c = c" "gc_LogLevel_update (\<lambda>x. x) c = c"
  "gc_LogFormat_update (\<lambda>x. x) c = c" "gc_IngestMaxBodyBytes_update (\<lambda>x. x) c = c"
  "gc_IngestRateLimitPerSecond_update (\<lambda>x. x) c = c" "gc_SessionCookieSecure_update (\<lambda>x. x) c = c"
  by simp_all

lemma env_layer_Inr:
  "env_layer Getenv base = Inr cfg \<longleftrightarrow>
     overrides ParseInt64 (Getenv ''PORT'') (gc_Port base) (gc_Port cfg) \<and>
     overrides Some (Getenv ''ROLE'') (gc_Role base) (gc_Role cfg) \<and>
     overrides Some (Getenv ''DATABASE_URL'') (gc_DatabaseURL base) (gc_DatabaseURL cfg) \<and>
     overrides Some (Getenv ''ADMIN_PASSWORD'') (gc_AdminPassword base) (gc_AdminPassword cfg) \<and>
     overrides Some (Getenv ''ENCRYPTION_KEY'') (gc_EncryptionKey base) (gc_EncryptionKey cfg) \<and>
     overrides Some (Getenv ''LOG_LEVEL'') (gc_LogLevel base) (gc_LogLevel cfg) \<and>
     overrides Some (Getenv ''LOG_FORMAT'') (gc_LogFormat base) (gc_LogFormat cfg) \<and>
     overrides ParseInt64 (Getenv ''INGEST_MAX_BODY_BYTES'') (gc_IngestMaxBodyBytes base) (gc_IngestMaxBodyBytes cfg) \<and>
     overrides ParseInt64 (Getenv ''INGEST_RATE_LIMIT_PER_SECOND'') (gc_IngestRateLimitPerSecond base) (gc_IngestRateLimitPerSecond cfg) \<and>
     overrides (map_option Some \<circ> ParseBool) (Getenv ''SESSION_COOKIE_SECURE'') (gc_SessionCookieSecure base) (gc_SessionCookieSecure cfg)"
  unfolding env_layer_def Let_def overrides_iff and_then_Inr
  by (simp add: env_parsed_pick env_text_pick update_ids parses_Some)
    (auto intro!: GatewayConfig.equality)

lemma validated_Inr: "(case validate_config c of Some e \<Rightarrow> Inl e | None \<Rightarrow> Inr c) = Inr cfg \<longleftrightarrow> c = cfg \<and> usable cfg"
  by (auto simp: validate_config_def problems_usable)

lemma file_layer_Inr:
  "file_layer ReadFile yaml path = Inr base \<longleftrightarrow>
     (if path = '''' \<or> ReadFile path = NotExist then base = default_config
      else \<exists>data. ReadFile path = Contents data \<and> yaml data default_config = Inr base)"
  by (auto simp: file_layer_def split: file_read.splits sum.splits)

text \<open>
  C25. Loading the configuration is exact. It succeeds with a configuration precisely when that is the defaults, under the file
  when a path is given and the file exists, under the environment, field by field, with every set variable
  parsing; and the result is usable: a database, an admin password, a port of sixteen bits, positive limits, a known role and an
  encryption key from which the encryptor can be built.
\<close>

theorem config_Load_exact:
  "config_Load ReadFile yaml Getenv path = Inr cfg \<longleftrightarrow>
     (\<exists>base. (if path = '''' \<or> ReadFile path = NotExist then base = default_config
              else \<exists>data. ReadFile path = Contents data \<and> yaml data default_config = Inr base) \<and>
        overrides ParseInt64 (Getenv ''PORT'') (gc_Port base) (gc_Port cfg) \<and>
        overrides Some (Getenv ''ROLE'') (gc_Role base) (gc_Role cfg) \<and>
        overrides Some (Getenv ''DATABASE_URL'') (gc_DatabaseURL base) (gc_DatabaseURL cfg) \<and>
        overrides Some (Getenv ''ADMIN_PASSWORD'') (gc_AdminPassword base) (gc_AdminPassword cfg) \<and>
        overrides Some (Getenv ''ENCRYPTION_KEY'') (gc_EncryptionKey base) (gc_EncryptionKey cfg) \<and>
        overrides Some (Getenv ''LOG_LEVEL'') (gc_LogLevel base) (gc_LogLevel cfg) \<and>
        overrides Some (Getenv ''LOG_FORMAT'') (gc_LogFormat base) (gc_LogFormat cfg) \<and>
        overrides ParseInt64 (Getenv ''INGEST_MAX_BODY_BYTES'') (gc_IngestMaxBodyBytes base) (gc_IngestMaxBodyBytes cfg) \<and>
        overrides ParseInt64 (Getenv ''INGEST_RATE_LIMIT_PER_SECOND'') (gc_IngestRateLimitPerSecond base) (gc_IngestRateLimitPerSecond cfg) \<and>
        overrides (map_option Some \<circ> ParseBool) (Getenv ''SESSION_COOKIE_SECURE'') (gc_SessionCookieSecure base) (gc_SessionCookieSecure cfg)) \<and>
     usable cfg"
  unfolding config_Load_def and_then_Inr validated_Inr file_layer_Inr env_layer_Inr by blast

text \<open>What a configuration asks for: for every mount, the roles that have it and the arguments it gets there.\<close>

definition sessions_of :: "GatewayConfig \<Rightarrow> Sessions" where
  "sessions_of cfg = NewSessions (gc_EncryptionKey cfg) (gc_AdminPassword cfg) (gc_SessionCookieSecure cfg)"

definition gate_of :: "GatewayConfig \<Rightarrow> Auth \<Rightarrow> bool" where
  "gate_of cfg a \<longleftrightarrow> au_adminPassword a = gc_AdminPassword cfg \<and> au_sessions a = Some (sessions_of cfg)"

definition handler_of :: "GatewayConfig \<Rightarrow> Encryptor \<Rightarrow> catalog \<Rightarrow> ingest_handler" where
  "handler_of cfg enc cat = IngestHandler enc cat (gc_IngestMaxBodyBytes cfg) (gc_IngestRateLimitPerSecond cfg)"

fun asked :: "GatewayConfig \<Rightarrow> Encryptor \<Rightarrow> catalog \<Rightarrow> mount \<Rightarrow> bool" where
  "asked cfg enc cat (MountIngest h) \<longleftrightarrow> gc_Role cfg \<in> {''all'', ''ingest''} \<and> h = handler_of cfg enc cat"
| "asked cfg enc cat (MountSources e c a h) \<longleftrightarrow> gc_Role cfg \<in> {''all'', ''ingest''} \<and> e = enc \<and> c = cat \<and> gate_of cfg a \<and>
     h = handler_of cfg enc cat"
| "asked cfg enc cat (MountProviders c a) \<longleftrightarrow> gc_Role cfg \<in> {''all'', ''ingest''} \<and> c = cat \<and> gate_of cfg a"
| "asked cfg enc cat (MountDestinations a) \<longleftrightarrow> gc_Role cfg \<in> {''all'', ''dashboard''} \<and> gate_of cfg a"
| "asked cfg enc cat (MountRoutes a) \<longleftrightarrow> gc_Role cfg \<in> {''all'', ''dashboard''} \<and> gate_of cfg a"
| "asked cfg enc cat (MountRules a) \<longleftrightarrow> gc_Role cfg \<in> {''all'', ''dashboard''} \<and> gate_of cfg a"
| "asked cfg enc cat (MountDeliveries a) \<longleftrightarrow> gc_Role cfg \<in> {''all'', ''dashboard''} \<and> gate_of cfg a"
| "asked cfg enc cat (MountEvents a) \<longleftrightarrow> gc_Role cfg \<in> {''all'', ''dashboard''} \<and> gate_of cfg a"
| "asked cfg enc cat (MountReplay a) \<longleftrightarrow> gc_Role cfg \<in> {''all'', ''dashboard''} \<and> gate_of cfg a"
| "asked cfg enc cat (MountAPIKeys pw s) \<longleftrightarrow> gc_Role cfg \<in> {''all'', ''dashboard''} \<and> pw = gc_AdminPassword cfg \<and> s = sessions_of cfg"
| "asked cfg enc cat (MountAuth s pw) \<longleftrightarrow> gc_Role cfg \<in> {''all'', ''dashboard''} \<and> pw = gc_AdminPassword cfg \<and> s = sessions_of cfg"
| "asked cfg enc cat (MountTunnel a) \<longleftrightarrow> gc_Role cfg \<in> {''all'', ''dashboard''} \<and> gate_of cfg a"
| "asked cfg enc cat MountDashboard \<longleftrightarrow> gc_Role cfg \<in> {''all'', ''dashboard''}"
| "asked cfg enc cat StartedWorker \<longleftrightarrow> gc_Role cfg \<in> {''all'', ''worker''}"

lemma gate_of_iff: "gate_of cfg a \<longleftrightarrow> a = AcceptSessions (NewAuth (gc_AdminPassword cfg)) (sessions_of cfg)"
  by (auto simp: gate_of_def AcceptSessions_def NewAuth_def intro!: Auth.equality)

text \<open>The three groups of mounts, each as the role has it.\<close>

lemma mounts_exact:
  assumes "undisturbed p" "usable cfg" "NewEncryptor (gc_EncryptionKey cfg) = Inr enc" "Load (pr_Unmarshal p) (pr_catalogFS p) = Inr cat"
  obtains ms where "mounts p cfg = Inr ms" "distinct ms" "ms \<noteq> []" "\<And>m. m \<in> set ms \<longleftrightarrow> asked cfg enc cat m"
proof -
  note ok = step_ok [OF assms(1)]
  let ?a = "AcceptSessions (NewAuth (gc_AdminPassword cfg)) (sessions_of cfg)" and ?h = "handler_of cfg enc cat"
  define i where "i = [MountIngest ?h, MountSources enc cat ?a ?h, MountProviders cat ?a]"
  define d where "d = [MountDestinations ?a, MountRoutes ?a, MountRules ?a, MountDeliveries ?a, MountEvents ?a, MountReplay ?a,
    MountAPIKeys (gc_AdminPassword cfg) (sessions_of cfg), MountAuth (sessions_of cfg) (gc_AdminPassword cfg), MountTunnel ?a, MountDashboard]"
  define ms where "ms = (if gc_Role cfg \<in> {''all'', ''ingest''} then i else []) @
    (if gc_Role cfg \<in> {''all'', ''dashboard''} then d else []) @ (if gc_Role cfg \<in> {''all'', ''worker''} then [StartedWorker] else [])"
  have ingest: "mount_ingest p cfg (sessions_of cfg) [] = Inr (if gc_Role cfg \<in> {''all'', ''ingest''} then i else [])"
    by (simp add: mount_ingest_def assms(3,4) ok i_def handler_of_def Let_def)
  have management: "mount_management p cfg (sessions_of cfg) xs = Inr (xs @ (if gc_Role cfg \<in> {''all'', ''dashboard''} then d else []))" for xs
    by (simp add: mount_management_def ok d_def Let_def)
  have worker: "start_worker p cfg xs = Inr (xs @ (if gc_Role cfg \<in> {''all'', ''worker''} then [StartedWorker] else []))" for xs
    by (simp add: start_worker_def ok)
  have "mounts p cfg = Inr ms"
    by (simp add: mounts_def Let_def sessions_of_def [symmetric] ingest management worker ms_def del: insert_iff)
  moreover have "distinct ms" by (auto simp: ms_def i_def d_def)
  moreover have "ms \<noteq> []" using assms(2) by (auto simp: usable_def validRoles_def ms_def i_def d_def)
  moreover have "m \<in> set ms \<longleftrightarrow> asked cfg enc cat m" for m by (cases m) (auto simp: ms_def i_def d_def gate_of_iff)
  ultimately show ?thesis using that by blast
qed

text \<open>
  C26. A process that is not disturbed from outside starts exactly when its configuration loads, and then it has mounted exactly what
  its role asks for, each once and with the configured arguments: the ingest endpoint, the sources API and the provider list,
  which share the encryptor of the configured key, the catalog and one handler with the configured limits, for the roles \<^verbatim>\<open>all\<close> and
  \<^verbatim>\<open>ingest\<close>; destinations, routes, rules, deliveries, events, replays, key management, login, tunnels and the dashboard for \<^verbatim>\<open>all\<close>
  and \<^verbatim>\<open>dashboard\<close>; the worker for \<^verbatim>\<open>all\<close> and \<^verbatim>\<open>worker\<close>. Every API handler is behind the one gate of the configured password and
  sessions, except key management and login, which get the password and the sessions themselves. And something is always mounted.
\<close>

theorem run_mounts:
  assumes "undisturbed p"
  shows "(case config_Load (pr_ReadFile p) (pr_yaml p) (pr_Getenv p) path of
     Inl e \<Rightarrow> run p path = Inl (BadConfiguration e)
   | Inr cfg \<Rightarrow> \<exists>ms enc cat. run p path = Inr ms \<and> NewEncryptor (gc_EncryptionKey cfg) = Inr enc \<and>
       Load (pr_Unmarshal p) (pr_catalogFS p) = Inr cat \<and> distinct ms \<and> ms \<noteq> [] \<and> (\<forall>m. m \<in> set ms \<longleftrightarrow> asked cfg enc cat m))"
proof (cases "config_Load (pr_ReadFile p) (pr_yaml p) (pr_Getenv p) path")
  case (Inl e)
  then show ?thesis by (simp add: run_def)
next
  case (Inr cfg)
  have use: "usable cfg" using Inr unfolding config_Load_def and_then_Inr validated_Inr by blast
  then obtain enc where enc: "NewEncryptor (gc_EncryptionKey cfg) = Inr enc" by (auto simp: usable_def)
  obtain cat where cat: "Load (pr_Unmarshal p) (pr_catalogFS p) = Inr cat" using assms by (auto simp: undisturbed_def)
  obtain ms where ms: "mounts p cfg = Inr ms" "distinct ms" "ms \<noteq> []" "\<And>m. m \<in> set ms \<longleftrightarrow> asked cfg enc cat m"
    using mounts_exact [OF assms use enc cat] by blast
  have "run p path = Inr ms" using Inr ms(1) by (simp add: run_def step_ok [OF assms])
  then show ?thesis using Inr enc cat ms by auto
qed

definition process_example :: process where
  "process_example = \<lparr>pr_ReadFile = (\<lambda>_. NotExist), pr_yaml = (\<lambda>_ c. Inr c),
     pr_Getenv = (\<lambda>n. if n = ''DATABASE_URL'' then ''postgres://db'' else if n = ''ADMIN_PASSWORD'' then ''pw''
       else if n = ''ENCRYPTION_KEY'' then b64_std_Encode (replicate 32 CHR ''k'') else if n = ''ROLE'' then ''ingest'' else ''''),
     pr_catalogFS = [], pr_Unmarshal = (\<lambda>_. None), pr_fails = (\<lambda>_. None)\<rparr>"

theorem run_mounts_witness:
  "\<exists>ms enc. run process_example '''' = Inr ms \<and> MountIngest (IngestHandler enc Map.empty (2 ^ 20) 100) \<in> set ms \<and> StartedWorker \<notin> set ms \<and>
     (\<forall>a. MountDestinations a \<notin> set ms)"
proof -
  define cfg where "cfg = default_config\<lparr>gc_DatabaseURL := ''postgres://db'', gc_AdminPassword := ''pw'',
    gc_EncryptionKey := b64_std_Encode (replicate 32 CHR ''k''), gc_Role := ''ingest''\<rparr>"
  have k: "b64_std_Encode (replicate 32 CHR ''k'') \<noteq> ''''" by code_simp
  have "key_problems (b64_std_Encode (replicate 32 CHR ''k'')) = []"
    using k by (simp add: key_problems_def b64_std_Decode_Encode)
  then have "config_Load (pr_ReadFile process_example) (pr_yaml process_example) (pr_Getenv process_example) '''' = Inr cfg"
    using k by (simp add: process_example_def config_Load_def file_layer_def env_layer_def env_parsed_def env_text_def cfg_def
        validate_config_def problems_def validRoles_def default_config_def)
  moreover have load: "Load (pr_Unmarshal process_example) (pr_catalogFS process_example) = Inr Map.empty"
    by (simp add: process_example_def Load_def)
  moreover have "undisturbed process_example" using load by (simp add: undisturbed_def) (simp add: process_example_def)
  ultimately show ?thesis using run_mounts [of process_example "''''"]
    by (auto simp: cfg_def default_config_def handler_of_def)
qed

end
