(* ===== verification/Floats.thy ===== *)
theory Floats
  imports Complex_Main "HOL-Library.Log_Nat" Prelude
begin

text \<open>
  float64 arithmetic, as far as the token buckets and the retry backoff use it: a float64 is the real
  number it denotes, and each operation rounds the exact result to 53 significant bits, to nearest with
  ties to even (IEEE 754). Nothing here comes near the ends of the exponent range, so overflow is
  written out where it can occur (the backoff) and subnormals are left out. What the clients rely on
  is the locale \<open>float_rounding\<close>: rounding is monotone and leaves the integers up to 2^53 alone.
\<close>

subsection \<open>Rounding\<close>

text \<open>Round to the nearest integer, ties to even.\<close>

definition rne :: "real \<Rightarrow> int" where
  "rne x = (let f = \<lfloor>x\<rfloor>; r = x - of_int f in
     if r < 1 / 2 then f else if 1 / 2 < r then f + 1 else if even f then f else f + 1)"

text \<open>The exponent of the binade of a positive number.\<close>

definition ilog2 :: "real \<Rightarrow> int" where
  "ilog2 x = (if 1 \<le> x then bitlen \<lfloor>x\<rfloor> - 1 else - bitlen (\<lceil>1 / x\<rceil> - 1))"

definition ulp :: "real \<Rightarrow> real" where
  "ulp x = 2 powi (ilog2 x - 52)"

definition fl64 :: "real \<Rightarrow> real" where
  "fl64 x = (if x = 0 then 0
     else if x < 0 then - (of_int (rne (- x / ulp (- x))) * ulp (- x))
     else of_int (rne (x / ulp x)) * ulp x)"

subsection \<open>What the clients rely on\<close>

locale float_rounding =
  fixes fl :: "real \<Rightarrow> real"
  assumes fl_mono: "x \<le> y \<Longrightarrow> fl x \<le> fl y"
    and fl_int: "\<bar>n\<bar> \<le> 2 ^ 53 \<Longrightarrow> fl (of_int n) = of_int n"
begin

lemma fl_0 [simp]: "fl 0 = 0"
  using fl_int [of 0] by simp

lemma fl_1 [simp]: "fl 1 = 1"
  using fl_int [of 1] by simp

lemma fl_nonneg: "0 \<le> x \<Longrightarrow> 0 \<le> fl x"
  using fl_mono [of 0 x] by simp

lemma fl_le_int: "x \<le> of_int n \<Longrightarrow> \<bar>n\<bar> \<le> 2 ^ 53 \<Longrightarrow> fl x \<le> of_int n"
  using fl_mono [of x "of_int n"] fl_int [of n] by simp

lemma fl_ge_int: "of_int n \<le> x \<Longrightarrow> \<bar>n\<bar> \<le> 2 ^ 53 \<Longrightarrow> of_int n \<le> fl x"
  using fl_mono [of "of_int n" x] fl_int [of n] by simp

end

subsection \<open>The rounding of float64 has these laws\<close>

lemma rne_bounds: "\<lfloor>x\<rfloor> \<le> rne x \<and> rne x \<le> \<lfloor>x\<rfloor> + 1"
  by (simp add: rne_def Let_def)

lemma rne_int [simp]: "rne (of_int n) = n"
  by (simp add: rne_def)

lemma rne_mono:
  assumes "x \<le> y"
  shows "rne x \<le> rne y"
proof (cases "\<lfloor>x\<rfloor> = \<lfloor>y\<rfloor>")
  case True
  with assms show ?thesis by (auto simp: rne_def Let_def)
next
  case False
  then have "\<lfloor>x\<rfloor> < \<lfloor>y\<rfloor>" using floor_mono [OF assms] by simp
  then show ?thesis using rne_bounds [of x] rne_bounds [of y] by simp
qed

lemma ilog2_bounds:
  assumes "0 < x"
  shows "2 powi (ilog2 x) \<le> x" "x < 2 powi (ilog2 x + 1)"
proof -
  have "2 powi (ilog2 x) \<le> x \<and> x < 2 powi (ilog2 x + 1)"
  proof (cases "1 \<le> x")
    case True
    define n where "n = \<lfloor>x\<rfloor>"
    define m where "m = nat (bitlen n - 1)"
    have n: "1 \<le> n" using True by (simp add: n_def le_floor_iff)
    have b: "0 < bitlen n" using n bitlen_nonneg [of n] bitlen_eq_zero_iff [of n] by linarith
    then have m: "ilog2 x = int m" "nat (bitlen n) = Suc m" using True by (simp_all add: ilog2_def n_def m_def)
    have "2 ^ m \<le> n" "n < 2 ^ Suc m"
      using bitlen_bounds [of n] n m(2) by (auto simp: m_def)
    then have "real_of_int (2 ^ m) \<le> real_of_int n" "real_of_int (n + 1) \<le> real_of_int (2 ^ Suc m)"
      unfolding of_int_le_iff by linarith+
    then have "2 ^ m \<le> real_of_int \<lfloor>x\<rfloor>" "real_of_int \<lfloor>x\<rfloor> + 1 \<le> 2 ^ Suc m" unfolding n_def by simp_all
    then have "2 ^ m \<le> x" "x < 2 ^ Suc m" by linarith+
    then show ?thesis unfolding m(1) by (simp add: power_int_def nat_add_distrib)
  next
    case False
    define n where "n = \<lceil>1 / x\<rceil> - 1"
    define k where "k = nat (bitlen n)"
    have y: "1 < 1 / x" using False assms by simp
    then have n: "1 \<le> n" unfolding n_def by linarith
    have b: "0 < bitlen n" using n bitlen_nonneg [of n] bitlen_eq_zero_iff [of n] by linarith
    have k: "ilog2 x = - int k" "1 \<le> k" using False b by (simp_all add: ilog2_def n_def k_def)
    have "2 ^ (k - 1) \<le> n" "n < 2 ^ k"
      using bitlen_bounds [of n] n b by (auto simp: k_def nat_diff_distrib)
    then have "real_of_int (2 ^ (k - 1)) \<le> real_of_int n" "real_of_int (n + 1) \<le> real_of_int (2 ^ k)"
      unfolding of_int_le_iff by linarith+
    then have "2 ^ (k - 1) \<le> real_of_int \<lceil>1 / x\<rceil> - 1" "real_of_int \<lceil>1 / x\<rceil> \<le> 2 ^ k"
      unfolding n_def by simp_all
    then have "2 ^ (k - 1) < 1 / x" "1 / x \<le> 2 ^ k" by linarith+
    then have "1 / 2 ^ k \<le> x" "x < 1 / 2 ^ (k - 1)"
      using assms by (simp_all add: field_simps)
    moreover have "2 powi (- int k) = 1 / (2 ^ k :: real)" by (simp add: power_int_minus inverse_eq_divide)
    moreover have "2 powi (- int k + 1) = 1 / (2 ^ (k - 1) :: real)"
    proof -
      have "- int k + 1 = - int (k - 1)" using k(2) by simp
      then show ?thesis by (simp only: power_int_minus power_int_of_nat inverse_eq_divide)
    qed
    ultimately show ?thesis unfolding k(1) by simp
  qed
  then show "2 powi (ilog2 x) \<le> x" "x < 2 powi (ilog2 x + 1)" by simp_all
qed

lemma ilog2_mono:
  assumes "0 < x" "x \<le> y"
  shows "ilog2 x \<le> ilog2 y"
proof (rule ccontr)
  assume "\<not> ilog2 x \<le> ilog2 y"
  then have "2 powi (ilog2 y + 1) \<le> (2 powi (ilog2 x) :: real)" by (intro power_int_increasing) auto
  with ilog2_bounds [of x] ilog2_bounds [of y] assms show False by linarith
qed

lemma ulp_pos [simp]: "0 < ulp x"
  by (simp add: ulp_def)

lemma ulp_ne [simp]: "ulp x \<noteq> 0"
  by (simp add: ulp_def)

lemma scaled_bounds:
  assumes "0 < x"
  shows "2 ^ 52 \<le> x / ulp x" "x / ulp x < 2 ^ 53"
proof -
  have "2 powi (ilog2 x) = 2 ^ 52 * ulp x" "2 powi (ilog2 x + 1) = 2 ^ 53 * ulp x"
    unfolding ulp_def
    by (simp_all add: power_int_diff power_int_add)
  then show "2 ^ 52 \<le> x / ulp x" "x / ulp x < 2 ^ 53"
    using ilog2_bounds [OF assms] by (simp_all add: field_simps)
qed

lemma fl64_pos_bounds:
  assumes "0 < x"
  shows "2 powi (ilog2 x) \<le> fl64 x" "fl64 x \<le> 2 powi (ilog2 x + 1)"
proof -
  have "rne (2 ^ 52) \<le> rne (x / ulp x)" "rne (x / ulp x) \<le> rne (2 ^ 53)"
    using scaled_bounds [OF assms] by (auto intro!: rne_mono)
  then have r: "2 ^ 52 \<le> rne (x / ulp x)" "rne (x / ulp x) \<le> 2 ^ 53"
    using rne_int [of "2 ^ 52"] rne_int [of "2 ^ 53"] by simp_all
  then have r': "2 ^ 52 \<le> real_of_int (rne (x / ulp x))" "real_of_int (rne (x / ulp x)) \<le> 2 ^ 53"
    by simp_all
  have "2 powi (ilog2 x) = 2 ^ 52 * ulp x" "2 powi (ilog2 x + 1) = 2 ^ 53 * ulp x"
    unfolding ulp_def by (simp_all add: power_int_diff power_int_add)
  with r' assms show "2 powi (ilog2 x) \<le> fl64 x" "fl64 x \<le> 2 powi (ilog2 x + 1)"
    by (simp_all add: fl64_def mult_right_mono)
qed

lemma fl64_mono_pos:
  assumes "0 < x" "x \<le> y"
  shows "fl64 x \<le> fl64 y"
proof (cases "ilog2 x = ilog2 y")
  case True
  then have u: "ulp x = ulp y" by (simp add: ulp_def)
  have "rne (x / ulp y) \<le> rne (y / ulp y)" using assms by (intro rne_mono divide_right_mono) (auto simp: less_imp_le)
  with assms u show ?thesis by (simp add: fl64_def mult_right_mono)
next
  case False
  then have "2 powi (ilog2 x + 1) \<le> (2 powi (ilog2 y) :: real)"
    using ilog2_mono [OF assms] by (intro power_int_increasing) auto
  with fl64_pos_bounds [of x] fl64_pos_bounds [of y] assms show ?thesis by linarith
qed

lemma fl64_minus: "fl64 (- x) = - fl64 x"
  by (simp add: fl64_def)

lemma fl64_mono: "x \<le> y \<Longrightarrow> fl64 x \<le> fl64 y"
proof -
  assume le: "x \<le> y"
  have pos: "0 < z \<Longrightarrow> 0 < fl64 z" for z
    using fl64_pos_bounds(1) [of z] by (meson less_le_trans zero_less_power_int zero_less_numeral)
  consider "0 < x" | "x \<le> 0" "0 \<le> y" | "y < 0" using le by linarith
  then show ?thesis
  proof cases
    case 1
    from this le show ?thesis by (rule fl64_mono_pos)
  next
    case 2
    have "fl64 x \<le> 0" using pos [of "- x"] 2 by (cases "x = 0") (auto simp: fl64_minus fl64_def)
    moreover have "0 \<le> fl64 y" using pos [of y] 2 by (cases "y = 0") (auto simp: fl64_def)
    ultimately show ?thesis by simp
  next
    case 3
    then have "fl64 (- y) \<le> fl64 (- x)" using le by (intro fl64_mono_pos) auto
    then show ?thesis by (simp add: fl64_minus)
  qed
qed

text \<open>A value that is a whole number of its own units in the last place is not rounded.\<close>

lemma fl64_exact:
  assumes "0 < x" "x = of_int m * ulp x"
  shows "fl64 x = x"
proof -
  have "x / ulp x = of_int m" using assms(2) by (metis nonzero_mult_div_cancel_right ulp_pos less_irrefl)
  with assms show ?thesis by (simp add: fl64_def)
qed

lemma fl64_nat:
  assumes "0 < n" "n \<le> 2 ^ 53"
  shows "fl64 (of_int n) = of_int n"
proof -
  let ?e = "ilog2 (of_int n)"
  have "2 powi ?e \<le> real_of_int n" using assms ilog2_bounds [of "of_int n"] by simp
  moreover have "real_of_int n \<le> 2 powi 53" using assms by (simp add: power_int_def)
  ultimately have le: "2 powi ?e \<le> (2 powi 53 :: real)" by linarith
  have e: "?e \<le> 53"
  proof (rule ccontr)
    assume "\<not> ?e \<le> 53"
    then have "2 powi 53 < (2 powi ?e :: real)" by (intro power_int_strict_increasing) auto
    with le show False by simp
  qed
  show ?thesis
  proof (cases "?e \<le> 52")
    case True
    have "ulp (of_int n) * of_int (2 ^ nat (52 - ?e)) = 1"
      using True by (simp add: ulp_def power_int_def power_divide)
    then have m: "of_int n = of_int (n * 2 ^ nat (52 - ?e)) * ulp (of_int n)" by (simp add: mult_ac)
    show ?thesis by (rule fl64_exact [OF _ m]) (use assms(1) in simp)
  next
    case False
    with e have "?e = 53" by simp
    then have "2 ^ 53 \<le> real_of_int n" using assms ilog2_bounds(1) [of "of_int n"] by (simp add: power_int_def)
    then have "real_of_int (2 ^ 53) \<le> real_of_int n" by simp
    then have "n = 2 ^ 53" using assms unfolding of_int_le_iff by linarith
    moreover have "ulp (of_int n) = 2" using \<open>?e = 53\<close> by (simp add: ulp_def)
    ultimately show ?thesis by (intro fl64_exact [where m = "2 ^ 52"]) simp_all
  qed
qed

interpretation f64: float_rounding fl64
proof
  fix n :: int
  assume n: "\<bar>n\<bar> \<le> 2 ^ 53"
  consider "0 < n" | "n = 0" | "n < 0" by linarith
  then show "fl64 (of_int n) = of_int n"
  proof cases
    case 1
    with n fl64_nat show ?thesis by simp
  next
    case 2
    then show ?thesis by (simp add: fl64_def)
  next
    case 3
    with n fl64_nat [of "- n"] show ?thesis by (simp add: fl64_minus)
  qed
qed (rule fl64_mono)

end
