(* ===== verification/Buckets.thy ===== *)
theory Buckets
  imports Floats
begin

text \<open>
  The two token buckets of the gateway: the ingest rate limiter (\<^verbatim>\<open>internal/ingest/rate_limit.go\<close>) and
  the delivery pacer (\<^verbatim>\<open>internal/delivery/pacing.go\<close>), in float64 as the code computes them. The locale
  \<open>token_bucket\<close> states what both promise; its lemmas bound how much a bucket can ever grant. A mutex
  guards each bucket, so a call is one step; the instants that \<^verbatim>\<open>time.Now\<close> gives are arguments.
\<close>

subsection \<open>Durations\<close>

text \<open>\<^verbatim>\<open>t.Sub(u)\<close> saturates, and \<^verbatim>\<open>d.Seconds()\<close> adds the whole and the fractional seconds.\<close>

definition Sub :: "time \<Rightarrow> time \<Rightarrow> duration" where
  "Sub t u = max (- (2 ^ 63)) (min (2 ^ 63 - 1) (t - u))"

definition Seconds :: "duration \<Rightarrow> real" where
  "Seconds d = (let sec = go_div d second; nsec = d - sec * second
     in fl64 (fl64 (of_int sec) + fl64 (fl64 (of_int nsec) / 10 ^ 9)))"

text \<open>The lines both buckets share: tokens after the refill for the time since the last call, capped.\<close>

definition refilled :: "real \<Rightarrow> real \<Rightarrow> real \<Rightarrow> duration \<Rightarrow> real" where
  "refilled tokens burst rate elapsed =
     (let t = fl64 (tokens + fl64 (Seconds elapsed * rate)) in if t > burst then burst else t)"

subsection \<open>The ingest rate limiter\<close>

record tokenBucket =
  tb_tokens :: real
  tb_burst :: real
  tb_ratePerSec :: real
  tb_last :: time

definition tokenBucket_allow :: "time \<Rightarrow> tokenBucket \<Rightarrow> bool \<times> tokenBucket" where
  "tokenBucket_allow now b =
     (let tokens = refilled (tb_tokens b) (tb_burst b) (tb_ratePerSec b) (Sub now (tb_last b));
          b1 = b\<lparr>tb_tokens := tokens, tb_last := now\<rparr>
      in if tokens < 1 then (False, b1) else (True, b1\<lparr>tb_tokens := fl64 (tokens - 1)\<rparr>))"

record rateLimiter =
  rl_buckets :: "string \<rightharpoonup> tokenBucket"
  rl_ratePerSec :: real
  rl_burst :: real

definition newRateLimiter :: "int \<Rightarrow> rateLimiter" where
  "newRateLimiter perSecond =
     \<lparr>rl_buckets = Map.empty, rl_ratePerSec = fl64 (of_int perSecond), rl_burst = fl64 (of_int perSecond)\<rparr>"

definition newBucket :: "rateLimiter \<Rightarrow> time \<Rightarrow> tokenBucket" where
  "newBucket rl now = \<lparr>tb_tokens = rl_burst rl, tb_burst = rl_burst rl, tb_ratePerSec = rl_ratePerSec rl,
     tb_last = now\<rparr>"

text \<open>\<open>created\<close> is the instant a missing bucket is made at, \<open>now\<close> the one of the bucket's own call.\<close>

definition rateLimiter_allow :: "string \<Rightarrow> time \<Rightarrow> time \<Rightarrow> rateLimiter \<Rightarrow> bool \<times> rateLimiter" where
  "rateLimiter_allow key created now rl =
     (let b = (case rl_buckets rl key of None \<Rightarrow> newBucket rl created | Some b \<Rightarrow> b);
          (ok, b') = tokenBucket_allow now b
      in (ok, rl\<lparr>rl_buckets := (rl_buckets rl)(key \<mapsto> b')\<rparr>))"

subsection \<open>The delivery pacer\<close>

record paceBucket =
  pb_tokens :: real
  pb_burst :: real
  pb_ratePerSec :: real
  pb_last :: time

definition paceBucket_reserve :: "time \<Rightarrow> paceBucket \<Rightarrow> duration \<times> paceBucket" where
  "paceBucket_reserve now b =
     (let tokens = refilled (pb_tokens b) (pb_burst b) (pb_ratePerSec b) (Sub now (pb_last b));
          b1 = b\<lparr>pb_tokens := tokens, pb_last := now\<rparr>
      in if tokens \<ge> 1 then (0, b1\<lparr>pb_tokens := fl64 (tokens - 1)\<rparr>)
         else (let wait = fl64 (fl64 (1 - tokens) / pb_ratePerSec b)
               in (\<lfloor>fl64 (wait * 10 ^ 9)\<rfloor>, b1)))"

type_synonym pacer = "uuid \<rightharpoonup> paceBucket"

definition pacer_reserve :: "uuid \<Rightarrow> int \<Rightarrow> time \<Rightarrow> time \<Rightarrow> pacer \<Rightarrow> duration \<times> pacer" where
  "pacer_reserve dest rps created now p =
     (if rps \<le> 0 then (0, p)
      else (let r = fl64 (of_int rps);
                fresh = \<lparr>pb_tokens = r, pb_burst = r, pb_ratePerSec = r, pb_last = created\<rparr>;
                b = (case p dest of None \<Rightarrow> fresh | Some b \<Rightarrow> if pb_ratePerSec b \<noteq> r then fresh else b);
                (wait, b') = paceBucket_reserve now b
            in (wait, p(dest \<mapsto> b'))))"

subsection \<open>Rounding errors\<close>

abbreviation eps :: real where "eps \<equiv> 1 / 2 ^ 53"

lemma rne_upper: "real_of_int (rne y) \<le> y + 1 / 2"
  by (auto simp: rne_def Let_def) (use of_int_floor_le [of y] in linarith)+

lemma fl64_upper:
  assumes "0 \<le> x"
  shows "fl64 x \<le> x * (1 + eps)"
proof (cases "x = 0")
  case False
  with assms have x: "0 < x" by simp
  have "real_of_int (rne (x / ulp x)) \<le> x / ulp x + 1 / 2" by (rule rne_upper)
  then have "fl64 x \<le> (x / ulp x + 1 / 2) * ulp x"
    using x by (simp add: fl64_def mult_right_mono)
  also have "\<dots> = x + ulp x / 2" by (simp add: field_simps)
  also have "ulp x / 2 \<le> x * eps"
    using scaled_bounds(1) [OF x] by (simp add: field_simps)
  finally show ?thesis by (simp add: algebra_simps)
qed simp

lemma eps_power: "(1 + eps) * (1 + eps) * (1 + eps) \<le> 1 + 1 / 2 ^ 51"
  by simp

lemma Seconds_nonneg: "0 \<le> d \<Longrightarrow> 0 \<le> Seconds d"
  unfolding Seconds_def Let_def
  by (intro f64.fl_nonneg add_nonneg_nonneg divide_nonneg_nonneg)
    (auto simp: go_div_nonneg second_def minus_div_mult_eq_mod)

lemma Seconds_upper:
  assumes "0 \<le> d"
  shows "Seconds d \<le> of_int d / 10 ^ 9 * ((1 + eps) * (1 + eps))"
proof -
  define q r where "q = d div second" and "r = d mod second"
  have qr: "0 \<le> q" "0 \<le> r" "r < second" "d = q * second + r"
    using assms by (auto simp: q_def r_def second_def pos_imp_zdiv_nonneg_iff)
  have s: "Seconds d = fl64 (fl64 (of_int q) + fl64 (fl64 (of_int r) / 10 ^ 9))"
  proof -
    have "go_div d second = q" using assms by (simp add: go_div_nonneg q_def second_def)
    moreover have "d - q * second = r" by (simp add: q_def r_def minus_div_mult_eq_mod)
    ultimately show ?thesis by (simp only: Seconds_def Let_def)
  qed
  have r: "fl64 (of_int r) = of_int r" using qr by (intro f64.fl_int) (simp add: second_def)
  let ?x = "fl64 (of_int q)" and ?y = "fl64 (of_int r / 10 ^ 9)"
  have "?x \<le> of_int q * (1 + eps)" "?y \<le> of_int r / 10 ^ 9 * (1 + eps)"
    using qr by (intro fl64_upper, simp)+
  moreover have "of_int d / 10 ^ 9 = (of_int q + of_int r / 10 ^ 9 :: real)"
    using qr(4) by (simp add: second_def field_simps)
  ultimately have "?x + ?y \<le> of_int d / 10 ^ 9 * (1 + eps)" by (simp add: distrib_right)
  moreover have "fl64 (?x + ?y) \<le> (?x + ?y) * (1 + eps)"
    using qr by (intro fl64_upper add_nonneg_nonneg f64.fl_nonneg) auto
  ultimately have "fl64 (?x + ?y) \<le> of_int d / 10 ^ 9 * (1 + eps) * (1 + eps)"
    by (smt (verit) mult_right_mono zero_le_divide_1_iff zero_le_power)
  then show ?thesis by (simp add: s r mult.assoc)
qed

lemma Sub_bounds: "u \<le> t \<Longrightarrow> 0 \<le> Sub t u \<and> Sub t u \<le> t - u"
  by (simp add: Sub_def)

lemma refilled_upper:
  assumes "0 \<le> tokens" "tokens \<le> burst" "0 \<le> rate" "0 \<le> d"
  shows "refilled tokens burst rate d \<le> tokens + of_int d / 10 ^ 9 * rate * (1 + 1 / 2 ^ 51) + burst * eps"
proof -
  define \<rho> where "\<rho> = fl64 (Seconds d * rate)"
  have "\<rho> \<le> Seconds d * rate * (1 + eps)"
    unfolding \<rho>_def using assms Seconds_nonneg by (intro fl64_upper) auto
  also have "\<dots> \<le> of_int d / 10 ^ 9 * ((1 + eps) * (1 + eps)) * rate * (1 + eps)"
    using Seconds_upper [OF assms(4)] assms(3) by (intro mult_right_mono) auto
  also have "\<dots> = of_int d / 10 ^ 9 * rate * ((1 + eps) * (1 + eps) * (1 + eps))" by (simp only: mult_ac)
  also have "\<dots> \<le> of_int d / 10 ^ 9 * rate * (1 + 1 / 2 ^ 51)"
    using assms eps_power by (intro mult_left_mono) auto
  finally have \<rho>: "\<rho> \<le> of_int d / 10 ^ 9 * rate * (1 + 1 / 2 ^ 51)" .
  have \<rho>0: "0 \<le> \<rho>" unfolding \<rho>_def using assms Seconds_nonneg by (intro f64.fl_nonneg) auto
  have "refilled tokens burst rate d \<le> tokens + \<rho> + burst * eps"
  proof (cases "tokens + \<rho> \<le> burst")
    case True
    have "fl64 (tokens + \<rho>) \<le> (tokens + \<rho>) * (1 + eps)" using assms \<rho>0 by (intro fl64_upper) auto
    also have "\<dots> \<le> tokens + \<rho> + burst * eps" using True by (simp add: algebra_simps)
    finally show ?thesis by (simp add: refilled_def \<rho>_def [symmetric] Let_def)
  next
    case False
    then show ?thesis using assms by (simp add: refilled_def Let_def add_increasing2)
  qed
  with \<rho> show ?thesis by linarith
qed

lemma refilled_bounds:
  assumes "0 \<le> tokens" "0 \<le> burst" "0 \<le> rate" "0 \<le> d"
  shows "0 \<le> refilled tokens burst rate d" "refilled tokens burst rate d \<le> burst"
  using assms Seconds_nonneg f64.fl_nonneg by (auto simp: refilled_def Let_def)

subsection \<open>The contract of a bucket\<close>

text \<open>
  What both buckets promise of one call: it refills for the time since the last call, grants exactly
  when a whole token is there, and takes it then.
\<close>

locale token_bucket =
  fixes tokens burst rate :: "'b \<Rightarrow> real" and last :: "'b \<Rightarrow> time"
    and call :: "time \<Rightarrow> 'b \<Rightarrow> bool \<times> 'b"
  assumes grant: "fst (call now b) \<longleftrightarrow> 1 \<le> refilled (tokens b) (burst b) (rate b) (Sub now (last b))"
    and tokens_after: "tokens (snd (call now b)) =
      (let t = refilled (tokens b) (burst b) (rate b) (Sub now (last b)) in if 1 \<le> t then fl64 (t - 1) else t)"
    and unchanged: "burst (snd (call now b)) = burst b" "rate (snd (call now b)) = rate b"
      "last (snd (call now b)) = now"
begin

definition bucket_ok :: "'b \<Rightarrow> bool" where
  "bucket_ok b \<longleftrightarrow> 0 \<le> tokens b \<and> tokens b \<le> burst b \<and> 0 \<le> rate b \<and> (\<exists>n. burst b = of_int n \<and> n \<le> 2 ^ 53)"

lemma call_ok:
  assumes "bucket_ok b" "last b \<le> now"
  shows "bucket_ok (snd (call now b))"
proof -
  let ?t = "refilled (tokens b) (burst b) (rate b) (Sub now (last b))"
  obtain n where n: "burst b = of_int n" "n \<le> 2 ^ 53" "0 \<le> n" using assms(1) by (auto simp: bucket_ok_def)
  have t: "0 \<le> ?t" "?t \<le> burst b"
    using refilled_bounds assms Sub_bounds [OF assms(2)] by (auto simp: bucket_ok_def)
  have "0 \<le> fl64 (?t - 1)" "fl64 (?t - 1) \<le> burst b" if "1 \<le> ?t"
    using that t n f64.fl_nonneg f64.fl_le_int [of "?t - 1" n] by auto
  with t assms(1) show ?thesis
    by (auto simp: bucket_ok_def tokens_after unchanged Let_def)
qed

text \<open>Calls at given instants, in order: how many were granted, and the bucket at the end.\<close>

primrec grants :: "time list \<Rightarrow> 'b \<Rightarrow> nat \<times> 'b" where
  "grants [] b = (0, b)"
| "grants (now # ts) b =
     (let (g, b1) = call now b; (n, b2) = grants ts b1 in ((if g then Suc n else n), b2))"

lemma fst_grants_Cons:
  "fst (grants (now # ts) b) =
     (if fst (call now b) then Suc (fst (grants ts (snd (call now b)))) else fst (grants ts (snd (call now b))))"
  by (simp add: Let_def split: prod.splits)

lemma call_accounting:
  assumes "bucket_ok b" "last b \<le> now"
  shows "of_bool (fst (call now b)) + tokens (snd (call now b)) \<le>
    tokens b + of_int (now - last b) / 10 ^ 9 * rate b * (1 + 1 / 2 ^ 51) + 2 * burst b * eps"
proof -
  let ?d = "Sub now (last b)"
  let ?t = "refilled (tokens b) (burst b) (rate b) ?d"
  have ok: "0 \<le> tokens b" "tokens b \<le> burst b" "0 \<le> rate b" using assms(1) by (auto simp: bucket_ok_def)
  have d: "0 \<le> ?d" "?d \<le> now - last b" using Sub_bounds [OF assms(2)] by auto
  have t: "0 \<le> ?t" "?t \<le> burst b" using refilled_bounds ok d by auto
  have "?t \<le> tokens b + of_int ?d / 10 ^ 9 * rate b * (1 + 1 / 2 ^ 51) + burst b * eps"
    using refilled_upper ok d by blast
  also have "of_int ?d / 10 ^ 9 * rate b * (1 + 1 / 2 ^ 51) \<le> of_int (now - last b) / 10 ^ 9 * rate b * (1 + 1 / 2 ^ 51)"
    using d ok by (intro mult_right_mono divide_right_mono) (simp_all only: of_int_le_iff, simp_all)
  finally have up: "?t \<le> tokens b + of_int (now - last b) / 10 ^ 9 * rate b * (1 + 1 / 2 ^ 51) + burst b * eps"
    by simp
  have "of_bool (fst (call now b)) + tokens (snd (call now b)) \<le> ?t + burst b * eps"
  proof (cases "1 \<le> ?t")
    case True
    have "fl64 (?t - 1) \<le> (?t - 1) * (1 + eps)" using True by (intro fl64_upper) simp
    also have "\<dots> = ?t - 1 + (?t - 1) * eps" by (simp only: distrib_left mult_1_right)
    also have "(?t - 1) * eps \<le> burst b * eps" using t(2) by (intro mult_right_mono) auto
    finally show ?thesis using True by (simp add: grant tokens_after)
  next
    case False
    then show ?thesis using ok by (simp add: grant tokens_after)
  qed
  with up show ?thesis by simp
qed

lemma grants_accounting:
  assumes "bucket_ok b" "sorted (last b # ts)"
  shows "real (fst (grants ts b)) + tokens (snd (grants ts b)) \<le>
    tokens b + of_int (last (snd (grants ts b)) - last b) / 10 ^ 9 * rate b * (1 + 1 / 2 ^ 51) +
    real (length ts) * (2 * burst b * eps) \<and> bucket_ok (snd (grants ts b)) \<and>
    burst (snd (grants ts b)) = burst b \<and> (ts \<noteq> [] \<longrightarrow> last (snd (grants ts b)) = List.last ts)"
  using assms
proof (induction ts arbitrary: b)
  case (Cons now ts)
  define b1 where "b1 = snd (call now b)"
  have le: "last b \<le> now" using Cons.prems(2) by simp
  have ok: "bucket_ok b1" using call_ok [OF Cons.prems(1) le] by (simp add: b1_def)
  have b1: "last b1 = now" "rate b1 = rate b" "burst b1 = burst b" by (simp_all add: b1_def unchanged)
  have IH: "real (fst (grants ts b1)) + tokens (snd (grants ts b1)) \<le>
    tokens b1 + of_int (last (snd (grants ts b1)) - now) / 10 ^ 9 * rate b * (1 + 1 / 2 ^ 51) +
    real (length ts) * (2 * burst b * eps)" "bucket_ok (snd (grants ts b1))" "burst (snd (grants ts b1)) = burst b"
    "ts \<noteq> [] \<longrightarrow> last (snd (grants ts b1)) = List.last ts"
    using Cons.IH [OF ok] Cons.prems(2) b1 by auto
  have c: "of_bool (fst (call now b)) + tokens b1 \<le>
    tokens b + of_int (now - last b) / 10 ^ 9 * rate b * (1 + 1 / 2 ^ 51) + 2 * burst b * eps"
    using call_accounting [OF Cons.prems(1) le] by (simp add: b1_def)
  have g: "grants (now # ts) b = ((if fst (call now b) then Suc (fst (grants ts b1)) else fst (grants ts b1)),
      snd (grants ts b1))"
    by (simp add: b1_def Let_def split: prod.splits)
  have "real (fst (grants (now # ts) b)) = of_bool (fst (call now b)) + real (fst (grants ts b1))"
    by (simp add: g del: grants.simps)
  moreover have "of_int (last (snd (grants ts b1)) - last b) / 10 ^ 9 * rate b * (1 + 1 / 2 ^ 51) =
    of_int (last (snd (grants ts b1)) - now) / 10 ^ 9 * rate b * (1 + 1 / 2 ^ 51) +
    of_int (now - last b) / 10 ^ 9 * rate b * (1 + 1 / 2 ^ 51)"
    by (simp add: algebra_simps diff_divide_distrib add_divide_distrib)
  moreover have "real (length (now # ts)) * (2 * burst b * eps) = real (length ts) * (2 * burst b * eps) + 2 * burst b * eps"
    by (simp add: algebra_simps)
  ultimately have "real (fst (grants (now # ts) b)) + tokens (snd (grants ts b1)) \<le>
    tokens b + of_int (last (snd (grants ts b1)) - last b) / 10 ^ 9 * rate b * (1 + 1 / 2 ^ 51) +
    real (length (now # ts)) * (2 * burst b * eps)" using IH(1) c by linarith
  moreover have "last (snd (grants ts b1)) = List.last (now # ts)"
    using IH(4) b1(1) by (cases "ts = []") auto
  ultimately show ?case using IH(2,3) by (simp add: g del: grants.simps length_Cons)
qed (auto simp: bucket_ok_def)

text \<open>However the calls are spread, at most the burst plus the refill is granted, up to rounding.\<close>

lemma grants_bound:
  assumes "bucket_ok b" "sorted (last b # ts)" "ts \<noteq> []"
  shows "real (fst (grants ts b)) \<le> burst b +
    of_int (List.last ts - last b) / 10 ^ 9 * rate b * (1 + 1 / 2 ^ 51) + real (length ts) * (2 * burst b * eps)"
  using grants_accounting [OF assms(1,2)] assms(1,3) unfolding bucket_ok_def by fastforce

end

interpretation ingest_bucket: token_bucket "tb_tokens :: tokenBucket \<Rightarrow> real" tb_burst tb_ratePerSec tb_last
  tokenBucket_allow
  by unfold_locales (auto simp: tokenBucket_allow_def Let_def)

text \<open>The pacer's call, with the answer whether a token was consumed.\<close>

definition paceBucket_take :: "time \<Rightarrow> paceBucket \<Rightarrow> bool \<times> paceBucket" where
  "paceBucket_take now b =
     (1 \<le> refilled (pb_tokens b) (pb_burst b) (pb_ratePerSec b) (Sub now (pb_last b)),
      snd (paceBucket_reserve now b))"

interpretation pace_bucket: token_bucket "pb_tokens :: paceBucket \<Rightarrow> real" pb_burst pb_ratePerSec pb_last
  paceBucket_take
  by unfold_locales (auto simp: paceBucket_take_def paceBucket_reserve_def Let_def)

subsection \<open>What the limiter admits\<close>

text \<open>
  A request is a source's path with the two instants its call reads. \<open>admitted key\<close> counts the requests
  of one source that a sequence of requests of any sources gets through.
\<close>

type_synonym request = "string \<times> time \<times> time"

primrec admitted :: "string \<Rightarrow> request list \<Rightarrow> rateLimiter \<Rightarrow> nat" where
  "admitted key [] rl = 0"
| "admitted key (q # qs) rl =
     (let (ok, rl') = rateLimiter_allow (fst q) (fst (snd q)) (snd (snd q)) rl;
          n = admitted key qs rl'
      in if ok \<and> fst q = key then Suc n else n)"

lemma admitted_Cons:
  "admitted key ((k, c, n) # qs) rl =
     (if fst (rateLimiter_allow k c n rl) \<and> k = key then Suc (admitted key qs (snd (rateLimiter_allow k c n rl)))
      else admitted key qs (snd (rateLimiter_allow k c n rl)))"
  by (simp add: Let_def split: prod.splits)

definition calls_of :: "string \<Rightarrow> request list \<Rightarrow> time list" where
  "calls_of key qs = map (snd \<circ> snd) (filter (\<lambda>q. fst q = key) qs)"

lemma allow_other:
  assumes "rateLimiter_allow k c n rl = (ok, rl')" "k \<noteq> key"
  shows "rl_buckets rl' key = rl_buckets rl key" "rl_burst rl' = rl_burst rl" "rl_ratePerSec rl' = rl_ratePerSec rl"
  using assms by (auto simp: rateLimiter_allow_def Let_def split: prod.splits)

lemma allow_same:
  assumes "rl_buckets rl key = Some b \<or> rl_buckets rl key = None \<and> b = newBucket rl c"
  shows "fst (rateLimiter_allow key c n rl) = fst (tokenBucket_allow n b)"
    "rl_buckets (snd (rateLimiter_allow key c n rl)) key = Some (snd (tokenBucket_allow n b))"
  using assms by (auto simp: rateLimiter_allow_def Let_def split: prod.splits option.splits)

lemma admitted_eq_grants:
  "rl_buckets rl key = Some b \<Longrightarrow> admitted key qs rl = fst (ingest_bucket.grants (calls_of key qs) b)"
proof (induction qs arbitrary: rl b)
  case Nil
  then show ?case by (simp add: calls_of_def)
next
  case (Cons q qs)
  obtain k c n where q: "q = (k, c, n)" by (metis prod_cases3)
  obtain ok rl' where a: "rateLimiter_allow k c n rl = (ok, rl')" by fastforce
  show ?case
  proof (cases "k = key")
    case True
    have s: "ok = fst (tokenBucket_allow n b)" "rl_buckets rl' key = Some (snd (tokenBucket_allow n b))"
      using allow_same [of rl key b c n] Cons.prems a True by simp_all
    have "calls_of key (q # qs) = n # calls_of key qs" by (simp add: calls_of_def q True)
    then show ?thesis using Cons.IH [OF s(2)] s(1) a True
      by (simp only: q admitted_Cons ingest_bucket.fst_grants_Cons) simp
  next
    case False
    then have "rl_buckets rl' key = Some b" using allow_other [OF a] Cons.prems by simp
    moreover have "calls_of key (q # qs) = calls_of key qs" by (simp add: calls_of_def q False)
    ultimately show ?thesis using Cons.IH False by (simp add: q a Let_def)
  qed
qed

text \<open>The first request of a source makes its bucket.\<close>

lemma admitted_fresh:
  assumes "rl_buckets rl key = None" "filter (\<lambda>q. fst q = key) qs = (key, c, n) # rest"
  shows "admitted key qs rl = fst (ingest_bucket.grants (calls_of key qs) (newBucket rl c))"
  using assms
proof (induction qs arbitrary: rl)
  case (Cons q qs)
  obtain k c' n' where q: "q = (k, c', n')" by (metis prod_cases3)
  obtain ok rl' where a: "rateLimiter_allow k c' n' rl = (ok, rl')" by fastforce
  show ?case
  proof (cases "k = key")
    case True
    with Cons.prems q have e: "c' = c" "n' = n" by simp_all
    have s: "ok = fst (tokenBucket_allow n (newBucket rl c))"
      "rl_buckets rl' key = Some (snd (tokenBucket_allow n (newBucket rl c)))"
      using allow_same [of rl key "newBucket rl c" c n] Cons.prems a True e by simp_all
    have "calls_of key (q # qs) = n # calls_of key qs" by (simp add: calls_of_def q True e)
    then show ?thesis using s admitted_eq_grants [OF s(2), of qs] a True e
      by (simp only: q admitted_Cons ingest_bucket.fst_grants_Cons) simp
  next
    case False
    then have f: "filter (\<lambda>q. fst q = key) qs = (key, c, n) # rest" using Cons.prems(2) q by simp
    have "rl_buckets rl' key = None" using allow_other [OF a] Cons.prems False by simp
    moreover have "newBucket rl' c = newBucket rl c" using allow_other [OF a False] by (simp add: newBucket_def)
    moreover have "calls_of key (q # qs) = calls_of key qs" by (simp add: calls_of_def q False)
    ultimately show ?thesis using Cons.IH [OF _ f] False by (simp add: q a Let_def)
  qed
qed simp

lemma newRateLimiter_bucket_ok:
  assumes "0 \<le> r" "r \<le> 2 ^ 53"
  shows "ingest_bucket.bucket_ok (newBucket (newRateLimiter r) c)" "tb_burst (newBucket (newRateLimiter r) c) = of_int r"
    "tb_ratePerSec (newBucket (newRateLimiter r) c) = of_int r" "tb_tokens (newBucket (newRateLimiter r) c) = of_int r"
    "tb_last (newBucket (newRateLimiter r) c) = c"
  using assms f64.fl_int [of r]
  by (auto simp: ingest_bucket.bucket_ok_def newBucket_def newRateLimiter_def)

text \<open>
  C9. The rate limiter limits the rate. Starting from a new limiter of r requests per second, in any
  sequence of requests of any sources, the number of requests of one source that are let through is at
  most r (the burst) plus r times the seconds between its first and its last request, up to float64
  rounding: a relative error of 2^-51 on the refill and r * 2^-52 for each of the source's requests. The
  traffic of the other sources plays no role.
\<close>

theorem rate_limit_bound:
  assumes "0 \<le> r" "r \<le> 2 ^ 53"
    and "filter (\<lambda>q. fst q = key) qs = (key, c, n) # rest"
    and "sorted (c # calls_of key qs)"
  shows "real (admitted key qs (newRateLimiter r)) \<le>
    of_int r + of_int (last (calls_of key qs) - c) / 10 ^ 9 * of_int r * (1 + 1 / 2 ^ 51) +
    real (length (calls_of key qs)) * (of_int r / 2 ^ 52)"
proof -
  let ?b = "newBucket (newRateLimiter r) c"
  have "calls_of key qs \<noteq> []" using assms(3) by (simp add: calls_of_def)
  then have "real (fst (ingest_bucket.grants (calls_of key qs) ?b)) \<le> tb_burst ?b +
    of_int (last (calls_of key qs) - tb_last ?b) / 10 ^ 9 * tb_ratePerSec ?b * (1 + 1 / 2 ^ 51) +
    real (length (calls_of key qs)) * (2 * tb_burst ?b * eps)"
    using assms(4) newRateLimiter_bucket_ok [OF assms(1,2), of c]
    by (intro ingest_bucket.grants_bound) simp_all
  moreover have "admitted key qs (newRateLimiter r) = fst (ingest_bucket.grants (calls_of key qs) ?b)"
    using assms(3) by (intro admitted_fresh) (simp_all add: newRateLimiter_def)
  ultimately show ?thesis
    by (simp add: newRateLimiter_bucket_ok [OF assms(1,2)])
qed

theorem rate_limit_bound_witness:
  "real (admitted ''a'' [(''a'', 0, 0), (''b'', 0, 0), (''a'', 5, 10)] (newRateLimiter 1)) \<le>
    1 + 10 / 10 ^ 9 * 1 * (1 + 1 / 2 ^ 51) + 2 * (1 / 2 ^ 52)"
  using rate_limit_bound [of 1 "''a''" "[(''a'', 0, 0), (''b'', 0, 0), (''a'', 5, 10)]" 0 0 "[(''a'', 5, 10)]"]
  by (simp add: calls_of_def)

subsection \<open>A burst is admitted exactly\<close>

lemma refilled_now:
  assumes "0 \<le> m" "m \<le> r" "r \<le> 2 ^ 53"
  shows "refilled (of_int m) (of_int r) rate (Sub c c) = of_int m"
proof -
  have "Seconds (Sub c c) = 0" by (simp add: Seconds_def Sub_def go_div_def)
  then show ?thesis using assms f64.fl_int [of m] by (simp add: refilled_def Let_def)
qed

lemma grants_at_once:
  assumes "0 \<le> m" "m \<le> r" "r \<le> 2 ^ 53" "tb_tokens b = of_int m" "tb_burst b = of_int r" "tb_last b = c"
  shows "fst (ingest_bucket.grants (replicate n c) b) = min n (nat m)"
  using assms
proof (induction n arbitrary: m b)
  case (Suc n)
  let ?b1 = "snd (tokenBucket_allow c b)"
  have r: "refilled (tb_tokens b) (tb_burst b) (tb_ratePerSec b) (Sub c (tb_last b)) = of_int m"
    using Suc.prems refilled_now by simp
  have b1: "tb_burst ?b1 = of_int r" "tb_last ?b1 = c"
    using Suc.prems by (simp_all add: ingest_bucket.unchanged)
  have step: "tb_tokens ?b1 = (if 1 \<le> m then fl64 (of_int m - 1) else of_int m)"
    "fst (tokenBucket_allow c b) \<longleftrightarrow> 1 \<le> m"
    unfolding ingest_bucket.tokens_after ingest_bucket.grant r Let_def by simp_all
  show ?case
  proof (cases "1 \<le> m")
    case True
    have "fl64 (of_int m - 1) = of_int (m - 1)" using True Suc.prems f64.fl_int [of "m - 1"] by simp
    then have "tb_tokens ?b1 = of_int (m - 1)" "fst (tokenBucket_allow c b)"
      using True by (simp_all add: step)
    moreover from this have "fst (ingest_bucket.grants (replicate n c) ?b1) = min n (nat (m - 1))"
      using Suc.prems b1 True by (intro Suc.IH) auto
    ultimately show ?thesis using True
      by (simp add: ingest_bucket.fst_grants_Cons del: ingest_bucket.grants.simps)
  next
    case False
    then have "tb_tokens ?b1 = of_int m" "\<not> fst (tokenBucket_allow c b)" "m = 0"
      using Suc.prems(1) by (simp_all add: step)
    moreover from this have "fst (ingest_bucket.grants (replicate n c) ?b1) = min n (nat m)"
      using Suc.prems b1 by (intro Suc.IH) auto
    ultimately show ?thesis
      by (simp add: ingest_bucket.fst_grants_Cons del: ingest_bucket.grants.simps)
  qed
qed simp

text \<open>
  The burst is exact: of n requests of a source that arrive at the same instant at a new limiter of r
  requests per second, min n r are let through, no more and, as long as r allows, no fewer.
\<close>

theorem burst_exact:
  assumes "0 \<le> r" "r \<le> 2 ^ 53"
  shows "admitted key (replicate n (key, t, t)) (newRateLimiter r) = min n (nat r)"
proof (cases n)
  case (Suc m)
  have "admitted key (replicate n (key, t, t)) (newRateLimiter r) =
    fst (ingest_bucket.grants (calls_of key (replicate n (key, t, t))) (newBucket (newRateLimiter r) t))"
    using Suc by (intro admitted_fresh) (simp_all add: newRateLimiter_def)
  also have "calls_of key (replicate n (key, t, t)) = replicate n t"
    by (simp add: calls_of_def filter_replicate)
  also have "fst (ingest_bucket.grants (replicate n t) (newBucket (newRateLimiter r) t)) = min n (nat r)"
    using assms newRateLimiter_bucket_ok [OF assms, of t] by (intro grants_at_once) auto
  finally show ?thesis .
qed simp

theorem burst_exact_witness: "admitted ''p'' (replicate 5 (''p'', 9, 9)) (newRateLimiter 3) = 3"
  using burst_exact [of 3 "''p''" 5 9] by simp

subsection \<open>How long the pacer waits\<close>

text \<open>Every bucket is within its bounds, has a rate of at least one, and was last used in the past.\<close>

definition pacer_ok :: "time \<Rightarrow> pacer \<Rightarrow> bool" where
  "pacer_ok now p \<longleftrightarrow> (\<forall>dest b. p dest = Some b \<longrightarrow>
     pace_bucket.bucket_ok b \<and> 1 \<le> pb_ratePerSec b \<and> pb_last b \<le> now)"

lemma reserve_bounds:
  assumes "pace_bucket.bucket_ok b" "1 \<le> pb_ratePerSec b" "pb_last b \<le> now"
    and "paceBucket_reserve now b = (wait, b')"
  shows "0 \<le> wait \<and> wait \<le> second"
proof -
  let ?t = "refilled (pb_tokens b) (pb_burst b) (pb_ratePerSec b) (Sub now (pb_last b))"
  have t: "0 \<le> ?t"
    using assms Sub_bounds [OF assms(3)] by (intro refilled_bounds) (auto simp: pace_bucket.bucket_ok_def)
  show ?thesis
  proof (cases "1 \<le> ?t")
    case True
    with assms(4) show ?thesis by (simp add: paceBucket_reserve_def Let_def second_def)
  next
    case False
    let ?d = "fl64 (1 - ?t)" and ?w = "fl64 (fl64 (1 - ?t) / pb_ratePerSec b)"
    have d: "0 \<le> ?d" "?d \<le> 1"
      using False t f64.fl_nonneg [of "1 - ?t"] f64.fl_le_int [of "1 - ?t" 1] by auto
    then have "0 \<le> ?d / pb_ratePerSec b" "?d / pb_ratePerSec b \<le> 1"
      using assms(2) by (simp_all add: divide_le_eq_1)
    then have w: "0 \<le> ?w" "?w \<le> 1"
      using f64.fl_nonneg f64.fl_le_int [of "?d / pb_ratePerSec b" 1] by auto
    then have "0 \<le> fl64 (?w * 10 ^ 9)" "fl64 (?w * 10 ^ 9) \<le> of_int (10 ^ 9)"
      by (intro f64.fl_nonneg, simp) (rule f64.fl_le_int, use w in simp_all)
    then have "0 \<le> \<lfloor>fl64 (?w * 10 ^ 9)\<rfloor> \<and> \<lfloor>fl64 (?w * 10 ^ 9)\<rfloor> \<le> 10 ^ 9"
      by (simp add: floor_le_iff)
    with False assms(4) show ?thesis by (auto simp: paceBucket_reserve_def Let_def second_def)
  qed
qed

text \<open>
  The pacer never makes a delivery wait for a negative time or for more than a second, whatever
  the destination's rate, and its buckets stay within their bounds from call to call.
\<close>

theorem pacer_wait_bounds:
  assumes "pacer_ok now p" "rps < 2 ^ 31" "pacer_reserve dest rps now now' p = (wait, p')" "now \<le> now'"
  shows "0 \<le> wait \<and> wait \<le> second \<and> pacer_ok now' p'"
proof (cases "rps \<le> 0")
  case True
  with assms show ?thesis by (fastforce simp: pacer_reserve_def pacer_ok_def second_def)
next
  case False
  let ?fresh = "\<lparr>pb_tokens = fl64 (of_int rps), pb_burst = fl64 (of_int rps), pb_ratePerSec = fl64 (of_int rps), pb_last = now\<rparr>"
  have r: "fl64 (of_int rps) = of_int rps" using False assms(2) by (intro f64.fl_int) auto
  obtain b b' where b: "b = ?fresh \<or> p dest = Some b" "paceBucket_reserve now' b = (wait, b')" "p' = p(dest \<mapsto> b')"
    using assms(3) False by (auto simp: pacer_reserve_def Let_def split: prod.splits option.splits if_splits)
  have "pace_bucket.bucket_ok ?fresh" using False assms(2) r by (auto simp: pace_bucket.bucket_ok_def)
  moreover have "1 \<le> pb_ratePerSec ?fresh" using False r by simp
  ultimately have ok: "pace_bucket.bucket_ok b" "1 \<le> pb_ratePerSec b" "pb_last b \<le> now'"
    using b(1) assms(1,4) by (auto simp: pacer_ok_def) force+
  have b': "snd (paceBucket_take now' b) = b'" using b(2) by (simp add: paceBucket_take_def)
  have "pace_bucket.bucket_ok b'" "1 \<le> pb_ratePerSec b'" "pb_last b' \<le> now'"
    using pace_bucket.call_ok [OF ok(1,3)] pace_bucket.unchanged [of now' b] ok(2) b' by simp_all
  then have "pacer_ok now' p'" using assms(1,4) b(3) by (auto simp: pacer_ok_def) force
  with reserve_bounds [OF ok b(2)] show ?thesis by simp
qed

theorem pacer_wait_bounds_witness:
  "0 \<le> fst (pacer_reserve 9 3 0 5 Map.empty) \<and> fst (pacer_reserve 9 3 0 5 Map.empty) \<le> second \<and>
     pacer_ok 5 (snd (pacer_reserve 9 3 0 5 Map.empty))"
  by (rule pacer_wait_bounds) (auto simp: pacer_ok_def)

subsection \<open>A wait of zero without a token\<close>

lemma rne_lower: "y - 1 / 2 \<le> real_of_int (rne y)"
  by (auto simp: rne_def Let_def) (use real_of_int_floor_add_one_gt [of y] in linarith)+

lemma fl64_lower:
  assumes "0 \<le> x"
  shows "x * (1 - eps) \<le> fl64 x"
proof (cases "x = 0")
  case False
  with assms have x: "0 < x" by simp
  have "x * (1 - eps) = x - x * eps" by (simp add: algebra_simps)
  also have "\<dots> \<le> x - ulp x / 2" using scaled_bounds(1) [OF x] by (simp add: field_simps)
  also have "\<dots> = (x / ulp x - 1 / 2) * ulp x" by (simp add: field_simps)
  also have "\<dots> \<le> fl64 x" using x rne_lower [of "x / ulp x"] by (simp add: fl64_def mult_right_mono)
  finally show ?thesis .
qed simp

lemma fl64_between:
  assumes "0 \<le> a" "a \<le> x" "x \<le> b"
  shows "a * (1 - eps) \<le> fl64 x \<and> fl64 x \<le> b * (1 + eps)"
proof -
  have "a * (1 - eps) \<le> x * (1 - eps)" "x * (1 + eps) \<le> b * (1 + eps)"
    using assms by (simp_all add: mult_right_mono)
  with fl64_lower [of x] fl64_upper [of x] assms show ?thesis by linarith
qed

lemma zero_wait:
  assumes t: "t = refilled (pb_tokens b) (pb_burst b) 3 (Sub now (pb_last b))"
    and "1 - 2 / 10 ^ 9 \<le> t" "t < 1" "pb_ratePerSec b = 3"
  shows "paceBucket_reserve now b = (0, b\<lparr>pb_tokens := t, pb_last := now\<rparr>)"
proof -
  let ?d = "fl64 (1 - t)" and ?w = "fl64 (fl64 (1 - t) / 3)"
  have d: "0 \<le> ?d" "?d \<le> 2 / 10 ^ 9 * (1 + eps)"
    using fl64_between [of 0 "1 - t" "2 / 10 ^ 9"] assms(2,3) by auto
  then have w: "0 \<le> ?w" "?w \<le> 2 / 10 ^ 9 * (1 + eps) / 3 * (1 + eps)"
    using fl64_between [of 0 "?d / 3" "2 / 10 ^ 9 * (1 + eps) / 3"] by auto
  then have "0 \<le> fl64 (?w * 10 ^ 9)" "fl64 (?w * 10 ^ 9) \<le> 2 / 10 ^ 9 * (1 + eps) / 3 * (1 + eps) * 10 ^ 9 * (1 + eps)"
    using fl64_between [of 0 "?w * 10 ^ 9" "2 / 10 ^ 9 * (1 + eps) / 3 * (1 + eps) * 10 ^ 9"] by auto
  then have "\<lfloor>fl64 (?w * 10 ^ 9)\<rfloor> = 0" by (simp add: floor_eq_iff)
  with assms show ?thesis by (simp add: paceBucket_reserve_def Let_def)
qed

text \<open>
  The pacer can release a delivery that no token pays for. A destination limited to 3 requests per
  second whose bucket is empty at instant 0 is asked again after 333333333 nanoseconds: there is not yet
  a token, and none is taken, but the remaining wait is less than a nanosecond and is truncated to 0,
  which the worker reads as "deliver now". A second call at that instant is released the same way.
\<close>

theorem pace_zero_wait_without_token:
  "\<exists>b b'. paceBucket_reserve 333333333 \<lparr>pb_tokens = 0, pb_burst = 3, pb_ratePerSec = 3, pb_last = 0\<rparr> = (0, b) \<and>
     paceBucket_reserve 333333333 b = (0, b') \<and>
     0 < pb_tokens b \<and> pb_tokens b < 1 \<and> 0 < pb_tokens b' \<and> pb_tokens b' < 1"
proof -
  let ?b0 = "\<lparr>pb_tokens = 0, pb_burst = 3, pb_ratePerSec = 3, pb_last = 0\<rparr>"
  define t where "t = refilled 0 3 3 (Sub 333333333 0)"
  define b where "b = ?b0\<lparr>pb_tokens := t, pb_last := 333333333\<rparr>"
  define t' where "t' = refilled t 3 3 (Sub 333333333 333333333)"
  have sec: "Seconds (Sub 333333333 0) = fl64 (fl64 (333333333 / 10 ^ 9))"
    using f64.fl_int [of 333333333] by (simp add: Seconds_def Sub_def go_div_def second_def Let_def)
  have s: "0.3333333329 \<le> Seconds (Sub 333333333 0)" "Seconds (Sub 333333333 0) \<le> 0.3333333331"
    unfolding sec
    using fl64_between [of "333333333 / 10 ^ 9" "333333333 / 10 ^ 9" "333333333 / 10 ^ 9"]
      fl64_between [of "0.33333333295" "fl64 (333333333 / 10 ^ 9)" "0.33333333305"] by simp_all
  then have "0.9999999986 \<le> fl64 (Seconds (Sub 333333333 0) * 3)" "fl64 (Seconds (Sub 333333333 0) * 3) \<le> 0.9999999994"
    using fl64_between [of "0.9999999987" "Seconds (Sub 333333333 0) * 3" "0.9999999993"] by simp_all
  then have t: "0.9999999985 \<le> t" "t \<le> 0.9999999995"
    using fl64_between [of "0.9999999986" "fl64 (Seconds (Sub 333333333 0) * 3)" "0.9999999994"]
    by (simp_all add: t_def refilled_def Let_def)
  have "Seconds 0 = 0" by (simp add: Seconds_def go_div_def)
  then have t': "0.999999998 \<le> t'" "t' \<le> 0.9999999996"
    using fl64_between [of "0.9999999985" t "0.9999999995"] t
    by (simp_all add: t'_def refilled_def Let_def Sub_def)
  have "paceBucket_reserve 333333333 ?b0 = (0, b)"
    unfolding b_def by (rule zero_wait) (use t in \<open>simp_all add: t_def\<close>)
  moreover have "paceBucket_reserve 333333333 b = (0, b\<lparr>pb_tokens := t', pb_last := 333333333\<rparr>)"
    by (rule zero_wait) (use t' in \<open>simp_all add: t'_def b_def\<close>)
  ultimately show ?thesis using t t' by (auto simp: b_def)
qed

end
