(* ===== verification/Retry.thy ===== *)
theory Retry
  imports Floats Store
begin

text \<open>
  The retry schedule of a delivery (\<^verbatim>\<open>internal/delivery/retry.go\<close>): exponential backoff in float64,
  capped, then jittered. A float64 product may overflow to +Inf, which the type \<open>float64\<close> keeps apart;
  the conversion of an out-of-range float64 to an int64 is left to the implementation by the language,
  so it is a parameter, and so is the random number generator. The theorem gives the window of
  the next retry as an exact integer formula, for every attempt number.
\<close>

subsection \<open>The operations\<close>

datatype float64 = Finite real | PosInf

text \<open>\<^verbatim>\<open>math.Pow(2, y)\<close> for a whole \<open>y \<ge> 0\<close>, and the product of positive numbers.\<close>

definition Pow2 :: "real \<Rightarrow> float64" where
  "Pow2 y = (if y < 1024 then Finite (2 ^ nat \<lfloor>y\<rfloor>) else PosInf)"

definition fmul :: "float64 \<Rightarrow> float64 \<Rightarrow> float64" where
  "fmul x y = (case (x, y) of
     (Finite a, Finite b) \<Rightarrow> if fl64 (a * b) < 2 ^ 1024 then Finite (fl64 (a * b)) else PosInf
   | _ \<Rightarrow> PosInf)"

definition float_le :: "float64 \<Rightarrow> float64 \<Rightarrow> bool" where
  "float_le x y = (case (x, y) of
     (Finite a, Finite b) \<Rightarrow> a \<le> b | (Finite a, PosInf) \<Rightarrow> True | (PosInf, Finite b) \<Rightarrow> False
   | (PosInf, PosInf) \<Rightarrow> True)"

text \<open>What the language leaves to the platform, and \<^verbatim>\<open>rand.Int64N\<close>.\<close>

record runtime =
  rt_out_of_range :: "float64 \<Rightarrow> int"
  rt_Int64N :: "int \<Rightarrow> int"

text \<open>\<^verbatim>\<open>time.Duration(x)\<close>: truncation towards zero, when the result is an int64.\<close>

definition duration_of :: "runtime \<Rightarrow> float64 \<Rightarrow> duration" where
  "duration_of rt x = (case x of
     Finite a \<Rightarrow> (let n = (if a < 0 then \<lceil>a\<rceil> else \<lfloor>a\<rfloor>)
                 in if - (2 ^ 63) \<le> n \<and> n < 2 ^ 63 then n else rt_out_of_range rt x)
   | PosInf \<Rightarrow> rt_out_of_range rt x)"

definition backoffWithJitter :: "runtime \<Rightarrow> int \<Rightarrow> duration \<Rightarrow> duration \<Rightarrow> duration" where
  "backoffWithJitter rt attempt base maxDelay =
     (if base \<le> 0 then 0
      else
        let delay =
              (if attempt > 1
               then let scaled = fmul (Finite (fl64 (of_int base))) (Pow2 (fl64 (of_int (attempt - 1))))
                    in if maxDelay > 0 \<and> (float_le (Finite (fl64 (of_int maxDelay))) scaled \<or> float_le scaled (Finite 0))
                       then maxDelay else duration_of rt scaled
               else base);
            delay = (if maxDelay > 0 \<and> delay > maxDelay then maxDelay else delay);
            half = go_div delay 2
        in if half \<le> 0 then delay else int64_of (half + rt_Int64N rt (int64_of (half + 1))))"

text \<open>The job as River hands it to the worker: its arguments, and the number of the running attempt.\<close>

record delivery_job =
  dj_args :: delivery_args
  dj_attempt :: int
  dj_max_attempts :: int

text \<open>\<open>None\<close> is the zero time, which leaves the schedule to River.\<close>

definition NextRetry :: "runtime \<Rightarrow> time \<Rightarrow> delivery_job \<Rightarrow> time option" where
  "NextRetry rt now job =
     (let base = int64_of (da_backoff_base (dj_args job) * second);
          maxDelay = int64_of (da_backoff_max (dj_args job) * second);
          delay = backoffWithJitter rt (dj_attempt job) base maxDelay
      in if delay \<le> 0 then None else Some (now + delay))"

subsection \<open>Powers of two are exact\<close>

lemma ilog2_unique:
  assumes "2 powi e \<le> x" "x < 2 powi (e + 1)"
  shows "ilog2 x = e"
proof -
  have x: "0 < x" using assms(1) by (meson less_le_trans zero_less_numeral zero_less_power_int)
  have "ilog2 x < e + 1"
    by (rule ccontr) (use power_int_increasing [of "e + 1" "ilog2 x" "2 :: real"] ilog2_bounds(1) [OF x] assms(2) in simp)
  moreover have "e < ilog2 x + 1"
    by (rule ccontr) (use power_int_increasing [of "ilog2 x + 1" e "2 :: real"] ilog2_bounds(2) [OF x] assms(1) in simp)
  ultimately show ?thesis by simp
qed

lemma fl64_scale:
  assumes "0 < x"
  shows "fl64 (x * 2 ^ k) = fl64 x * 2 ^ k"
proof -
  have "2 powi (ilog2 x + int k) = 2 powi ilog2 x * (2 ^ k :: real)"
    "2 powi (ilog2 x + int k + 1) = 2 powi (ilog2 x + 1) * (2 ^ k :: real)"
    by (simp_all add: power_int_add)
  then have "ilog2 (x * 2 ^ k) = ilog2 x + int k"
    using ilog2_bounds [OF assms] by (intro ilog2_unique) simp_all
  then have u: "ulp (x * 2 ^ k) = ulp x * 2 ^ k"
    unfolding ulp_def by (simp add: power_int_add power_int_diff)
  have "x * 2 ^ k / (ulp x * 2 ^ k) = x / ulp x" "0 < x * 2 ^ k" using assms by simp_all
  with assms show ?thesis by (simp add: fl64_def u less_not_sym)
qed

text \<open>Hence a whole number of seconds in an int32, as nanoseconds, is a float64: \<open>10\<^sup>9 = 1953125 * 2\<^sup>9\<close>.\<close>

lemma fl64_seconds:
  assumes "0 < s" "s < 2 ^ 31"
  shows "fl64 (of_int (s * second)) = of_int (s * second)"
proof -
  have "of_int (s * second) = (of_int (s * 1953125) :: real) * 2 ^ 9" by (simp add: second_def)
  moreover have "fl64 (of_int (s * 1953125)) = of_int (s * 1953125)" using assms by (intro f64.fl_int) simp
  ultimately show ?thesis using fl64_scale [of "of_int (s * 1953125)" 9] assms by (simp only: of_int_0_less_iff mult_pos_pos zero_less_numeral simp_thms)
qed

subsection \<open>The window of the next retry\<close>

text \<open>The policy as the documentation states it: the base doubled per attempt, up to the cap.\<close>

definition backoff :: "int \<Rightarrow> int \<Rightarrow> int \<Rightarrow> duration" where
  "backoff attempt base maxDelay = min (base * 2 ^ nat (attempt - 1)) maxDelay"

definition generator_ok :: "runtime \<Rightarrow> bool" where
  "generator_ok rt \<longleftrightarrow> (\<forall>n > 0. 0 \<le> rt_Int64N rt n \<and> rt_Int64N rt n < n)"

text \<open>The scaled delay, exactly or past every int64.\<close>

lemma scaled_cases:
  assumes "1 < attempt" "0 < b" "fl64 (of_int b) = of_int b"
  shows "fmul (Finite (fl64 (of_int b))) (Pow2 (fl64 (of_int (attempt - 1)))) = Finite (of_int (b * 2 ^ nat (attempt - 1)))
    \<or> fmul (Finite (fl64 (of_int b))) (Pow2 (fl64 (of_int (attempt - 1)))) = PosInf \<and> 2 ^ 1024 \<le> b * 2 ^ nat (attempt - 1)"
proof (cases "attempt - 1 < 1024")
  case True
  then have y: "fl64 (of_int (attempt - 1)) = of_int (attempt - 1)" using assms(1) by (intro f64.fl_int) simp
  let ?k = "nat (attempt - 1)"
  have p: "Pow2 (of_int (attempt - 1)) = Finite (2 ^ ?k)"
  proof -
    have "real_of_int (attempt - 1) < 1024" using True by linarith
    then show ?thesis unfolding Pow2_def floor_of_int by (simp only: if_True)
  qed
  have e: "fl64 (of_int b * 2 ^ ?k) = of_int (b * 2 ^ ?k)" using fl64_scale [of "of_int b" ?k] assms by simp
  have f: "fmul (Finite (of_int b)) (Finite (2 ^ ?k)) =
      (if fl64 (of_int b * 2 ^ ?k) < 2 ^ 1024 then Finite (fl64 (of_int b * 2 ^ ?k)) else PosInf)"
    unfolding fmul_def by (simp only: prod.case float64.case)
  show ?thesis
  proof (cases "fl64 (of_int b * 2 ^ ?k) < 2 ^ 1024")
    case True
    then show ?thesis unfolding y p assms(3) f by (simp only: e if_True simp_thms)
  next
    case False
    then have "real_of_int (2 ^ 1024) \<le> real_of_int (b * 2 ^ ?k)" unfolding e by (simp only: not_less of_int_power of_int_numeral)
    then have "2 ^ 1024 \<le> b * 2 ^ ?k" unfolding of_int_le_iff .
    then show ?thesis using False unfolding y p assms(3) f by (simp only: if_False simp_thms)
  qed
next
  case False
  then have "of_int 1024 \<le> fl64 (of_int (attempt - 1))" by (intro f64.fl_ge_int) simp_all
  then have p: "Pow2 (fl64 (of_int (attempt - 1))) = PosInf" by (simp add: Pow2_def)
  have "2 ^ 1024 \<le> (2 :: int) ^ nat (attempt - 1)" using False by (intro power_increasing) simp_all
  also have "\<dots> = 1 * 2 ^ nat (attempt - 1)" by (simp only: mult_1)
  also have "\<dots> \<le> b * 2 ^ nat (attempt - 1)" using assms(2) by (intro mult_right_mono) simp_all
  finally show ?thesis unfolding p fmul_def by (simp only: prod.case float64.case simp_thms)
qed

lemma duration_of_int:
  assumes "x = Finite (of_int n)" "0 \<le> n" "n < 2 ^ 63"
  shows "duration_of rt x = n"
proof -
  have "\<not> real_of_int n < 0" "- (2 ^ 63) \<le> n" using assms(2) by (simp_all add: not_less)
  with assms(3) show ?thesis
    unfolding assms(1) duration_of_def Let_def by (simp only: float64.case floor_of_int if_False if_True simp_thms)
qed

text \<open>The delay before the jitter is the policy.\<close>

lemma capped_delay:
  fixes b m :: int and rt :: runtime
  assumes a: "1 \<le> attempt" and b: "0 < b" "fl64 (of_int b) = of_int b"
    and m: "0 < m" "m < 2 ^ 63" "fl64 (of_int m) = of_int m"
  defines "s \<equiv> fmul (Finite (fl64 (of_int b))) (Pow2 (fl64 (of_int (attempt - 1))))"
  defines "d1 \<equiv> (if attempt > 1
     then if m > 0 \<and> (float_le (Finite (fl64 (of_int m))) s \<or> float_le s (Finite 0)) then m else duration_of rt s
     else b)"
  shows "(if m > 0 \<and> d1 > m then m else d1) = backoff attempt b m"
proof (cases "attempt > 1")
  case True
  let ?e = "b * 2 ^ nat (attempt - 1)"
  have pos: "0 < ?e" using b(1) by simp
  from scaled_cases [OF True b] show ?thesis unfolding s_def [symmetric]
  proof
    assume s: "s = Finite (of_int ?e)"
    have "float_le (Finite (fl64 (of_int m))) s \<longleftrightarrow> m \<le> ?e" "\<not> float_le s (Finite 0)"
      unfolding s m(3) float_le_def using pos
      by (simp_all only: prod.case float64.case of_int_le_iff of_int_le_0_iff not_le)
    moreover have "?e < m \<Longrightarrow> duration_of rt s = ?e" using pos m(2) by (intro duration_of_int [OF s]) linarith+
    ultimately show ?thesis using True m(1) by (auto simp: d1_def backoff_def)
  next
    assume s: "s = PosInf \<and> 2 ^ 1024 \<le> ?e"
    have "(2 :: int) ^ 63 \<le> 2 ^ 1024" by (intro power_increasing) simp_all
    then have "m \<le> ?e" using s m(2) by linarith
    moreover have "float_le (Finite (fl64 (of_int m))) s" using s by (simp add: float_le_def)
    ultimately show ?thesis using True m(1) by (simp add: d1_def backoff_def)
  qed
next
  case False
  with a have "attempt = 1" by simp
  then show ?thesis using m(1) by (auto simp: d1_def backoff_def)
qed

lemma backoffWithJitter_window:
  assumes rt: "generator_ok rt" and a: "1 \<le> attempt"
    and b: "0 < b" "fl64 (of_int b) = of_int b"
    and m: "0 < m" "m < 2 ^ 63" "fl64 (of_int m) = of_int m"
    and big: "2 \<le> b" "2 \<le> m"
  shows "backoff attempt b m div 2 \<le> backoffWithJitter rt attempt b m \<and>
    backoffWithJitter rt attempt b m \<le> backoff attempt b m \<and> 0 < backoffWithJitter rt attempt b m"
proof -
  define d where "d = backoff attempt b m"
  have two: "2 \<le> d"
  proof -
    have "b * 1 \<le> b * 2 ^ nat (attempt - 1)" using b(1) by (intro mult_left_mono) simp_all
    then show ?thesis using big unfolding d_def backoff_def by linarith
  qed
  have dm: "d \<le> m" unfolding d_def backoff_def by simp
  let ?h = "d div 2" and ?r = "rt_Int64N rt (d div 2 + 1)"
  have h: "0 < ?h" "2 * ?h \<le> d" using two by simp_all
  then have r: "0 \<le> ?r" "?r < ?h + 1" using rt unfolding generator_ok_def by (meson add_pos_pos zero_less_one)+
  have "int64_of (?h + 1) = ?h + 1" "int64_of (?h + ?r) = ?h + ?r"
    using h r dm m(2) by (intro int64_of_id; linarith)+
  moreover have "backoffWithJitter rt attempt b m =
      (let half = go_div d 2 in if half \<le> 0 then d else int64_of (half + rt_Int64N rt (int64_of (half + 1))))"
  proof -
    have "\<not> b \<le> 0" using b(1) by simp
    then show ?thesis
      unfolding d_def capped_delay [OF a b m, where rt = rt, symmetric] backoffWithJitter_def Let_def by (simp only: if_False)
  qed
  ultimately have "backoffWithJitter rt attempt b m = ?h + ?r"
    using h two by (simp add: Let_def go_div_nonneg)
  then show ?thesis unfolding d_def [symmetric] using h r by linarith
qed

text \<open>
  C19. The retry of a delivery is scheduled inside the documented window: for a job that carries a policy
  of int32 seconds, the delay before the next try of attempt n lies between half and all of
  min (base * 2^(n-1), cap), computed exactly, however large n is; so the float64 arithmetic
  neither loses precision nor overflows past the cap, and the retry lies in the future.
\<close>

theorem NextRetry_window:
  assumes "generator_ok rt" "1 \<le> dj_attempt job"
    "0 < da_backoff_base (dj_args job)" "da_backoff_base (dj_args job) < 2 ^ 31"
    "0 < da_backoff_max (dj_args job)" "da_backoff_max (dj_args job) < 2 ^ 31"
  shows "\<exists>delay. NextRetry rt now job = Some (now + delay) \<and> 0 < delay \<and>
    backoff (dj_attempt job) (da_backoff_base (dj_args job) * second) (da_backoff_max (dj_args job) * second) div 2 \<le> delay \<and>
    delay \<le> backoff (dj_attempt job) (da_backoff_base (dj_args job) * second) (da_backoff_max (dj_args job) * second)"
proof -
  let ?b = "da_backoff_base (dj_args job) * second" and ?m = "da_backoff_max (dj_args job) * second"
  have b: "0 < ?b" "2 \<le> ?b" "?b < 2 ^ 63" and m: "0 < ?m" "?m < 2 ^ 63" "2 \<le> ?m"
    using assms(3-6) by (simp_all add: second_def)
  then have "int64_of ?b = ?b" "int64_of ?m = ?m" by (intro int64_of_id; simp)+
  then show ?thesis
    using backoffWithJitter_window [OF assms(1,2) b(1) fl64_seconds [OF assms(3,4)] m(1,2) fl64_seconds [OF assms(5,6)] b(2) m(3)]
    by (auto simp: NextRetry_def Let_def)
qed

theorem NextRetry_window_witness:
  "\<exists>delay. NextRetry \<lparr>rt_out_of_range = (\<lambda>_. 0), rt_Int64N = (\<lambda>n. n - 1)\<rparr> 5
      \<lparr>dj_args = \<lparr>da_delivery_id = ''d'', da_backoff_base = 30, da_backoff_max = 43200\<rparr>,
       dj_attempt = 3, dj_max_attempts = 9\<rparr> = Some (5 + delay) \<and> 60 * second \<le> delay \<and> delay \<le> 120 * second"
proof -
  let ?rt = "\<lparr>rt_out_of_range = (\<lambda>_. 0), rt_Int64N = (\<lambda>n. n - 1)\<rparr> :: runtime"
  let ?job = "\<lparr>dj_args = \<lparr>da_delivery_id = ''d'', da_backoff_base = 30, da_backoff_max = 43200\<rparr>,
       dj_attempt = 3, dj_max_attempts = 9\<rparr> :: delivery_job"
  have "generator_ok ?rt" by (simp add: generator_ok_def)
  then show ?thesis using NextRetry_window [of ?rt ?job 5] by (simp add: backoff_def second_def) blast
qed

text \<open>
  A job without a policy (a base of zero or less, as in jobs enqueued before the policy was
  recorded) gets no time from this schedule, so River's own schedule applies.
\<close>

lemma NextRetry_no_policy:
  assumes "da_backoff_base (dj_args job) \<le> 0" "- (2 ^ 31) \<le> da_backoff_base (dj_args job)"
  shows "NextRetry rt now job = None"
proof -
  have "int64_of (da_backoff_base (dj_args job) * second) = da_backoff_base (dj_args job) * second"
    using assms by (intro int64_of_id) (simp_all add: second_def)
  moreover have "da_backoff_base (dj_args job) * second \<le> 0" using assms(1) by (simp add: second_def)
  ultimately show ?thesis by (simp add: NextRetry_def backoffWithJitter_def)
qed

end
