(* ===== verification/Tunnel.thy ===== *)
theory Tunnel
  imports Json_Struct Queries
begin

text \<open>
  The local-development tunnel (\<^verbatim>\<open>internal/tunnel\<close>): the frames of the protocol and how they are
  written and read, the registry, the connection \<^verbatim>\<open>Conn\<close> with its concurrent \<^verbatim>\<open>Deliver\<close> calls, and
  the session that creates and removes the ephemeral destination.

  \<^verbatim>\<open>Conn\<close> is shared by the worker goroutines and the reader. Its mutex makes each critical section
  one step, so the connection is a state machine \<open>conn_step\<close> whose steps are the critical sections and
  the channel operations; which goroutine moves next is left open. The socket is not part of the
  repository: whether a write succeeds and what a read returns are inputs of the steps.
\<close>

subsection \<open>Frames\<close>

definition URLScheme :: string where "URLScheme = ''tunnel://''"

definition IsURL :: "string \<Rightarrow> bool" where
  "IsURL destURL = HasPrefix destURL URLScheme"

text \<open>A \<^verbatim>\<open>map[string][]string\<close> that may be nil, and whose values may be nil.\<close>

type_synonym nheader = "(string \<times> string list option) list option"

record EventFrame =
  evf_Type :: string
  evf_DeliveryID :: string
  evf_EventID :: string
  evf_Source :: string
  evf_ContentType :: string
  evf_Headers :: nheader
  evf_Body :: bytes

record AckFrame =
  ack_Type :: string
  ack_DeliveryID :: string
  ack_StatusCode :: int
  ack_Error :: string
  ack_DurationMs :: int

definition FrameReady :: string where "FrameReady = ''ready''"
definition FrameEvent :: string where "FrameEvent = ''event''"
definition FrameAck :: string where "FrameAck = ''ack''"

definition no_ack :: AckFrame where
  "no_ack = \<lparr>ack_Type = '''', ack_DeliveryID = '''', ack_StatusCode = 0, ack_Error = '''', ack_DurationMs = 0\<rparr>"

text \<open>\<^verbatim>\<open>json.Marshal\<close> of the nullable header map, and of an event frame; \<^verbatim>\<open>[]byte\<close> is written in base64.\<close>

definition marshal_nheader :: "nheader \<Rightarrow> bytes" where
  "marshal_nheader h = (case h of None \<Rightarrow> ''null''
   | Some kvs \<Rightarrow> marshal_object
       (map (\<lambda>(k, vs). (k, case vs of None \<Rightarrow> ''null'' | Some v \<Rightarrow> marshal_strings v)) (sort_key fst kvs)))"

definition marshal_EventFrame :: "EventFrame \<Rightarrow> bytes" where
  "marshal_EventFrame f = marshal_object
     ([(''type'', marshal_string (evf_Type f)), (''delivery_id'', marshal_string (evf_DeliveryID f)),
       (''event_id'', marshal_string (evf_EventID f)), (''source'', marshal_string (evf_Source f))] @
      (if evf_ContentType f = '''' then [] else [(''content_type'', marshal_string (evf_ContentType f))]) @
      [(''headers'', marshal_nheader (evf_Headers f)), (''body'', marshal_string (b64_std_Encode (evf_Body f)))])"

definition ack_fields :: "(string \<times> AckFrame field) list" where
  "ack_fields = [(''type'', string_field ack_Type_update), (''delivery_id'', string_field ack_DeliveryID_update),
     (''status_code'', int64_field ack_StatusCode_update), (''error'', string_field ack_Error_update),
     (''duration_ms'', int64_field ack_DurationMs_update)]"

definition Unmarshal_AckFrame :: "bytes \<Rightarrow> AckFrame option" where
  "Unmarshal_AckFrame data = Unmarshal_struct ack_fields no_ack data"

subsection \<open>The registry\<close>

type_synonym 'c registry = "uuid \<rightharpoonup> 'c"

definition NewRegistry :: "'c registry" where "NewRegistry = Map.empty"

definition Lookup :: "'c registry \<Rightarrow> uuid \<Rightarrow> 'c option" where "Lookup r destID = r destID"

definition register :: "uuid \<Rightarrow> 'c \<Rightarrow> 'c registry \<Rightarrow> 'c registry" where
  "register destID c r = r(destID \<mapsto> c)"

definition unregister :: "uuid \<Rightarrow> 'c registry \<Rightarrow> 'c registry" where
  "unregister destID r = r(destID := None)"

subsection \<open>The connection\<close>

text \<open>Why a \<^verbatim>\<open>Deliver\<close> fails: the tunnel is closed, the write failed, or the context is done.\<close>

datatype deliver_error = ErrClosed | WriteFailed string | CtxDone string

type_synonym deliver_result = "deliver_error + AckFrame"

text \<open>
  A call of \<^verbatim>\<open>Deliver\<close>: where it is (it has registered its channel; it has written and waits in the
  select; it has its result and runs the deferred delete; it has returned), the one slot of its channel, and the error
  of its context: none as long as the context is not done, that is, neither past the destination's timeout nor cancelled.
\<close>

datatype call_pc = Registered | Waiting | Leaving deliver_result | Returned deliver_result

record call =
  cl_frame :: EventFrame
  cl_pc :: call_pc
  cl_slot :: "AckFrame option"
  cl_ctx :: "string option"

text \<open>The reader: at the socket, holding the channel it looked up, having emptied the map, ended.\<close>

datatype reader_pc = Reading | Sending nat AckFrame | Closing | Ended

text \<open>
  \<^verbatim>\<open>pending\<close> maps a delivery id to the channel of a call, named by the call's number; \<open>None\<close> is the nil
  map of a closed connection. \<open>cn_sent\<close> and \<open>cn_read\<close> record the frames written and the acks read.
\<close>

record conn =
  cn_pending :: "(string \<rightharpoonup> nat) option"
  cn_done :: bool
  cn_calls :: "call list"
  cn_reader :: reader_pc
  cn_sent :: "EventFrame list"
  cn_read :: "AckFrame list"

definition newConn :: conn where
  "newConn = \<lparr>cn_pending = Some Map.empty, cn_done = False, cn_calls = [], cn_reader = Reading,
     cn_sent = [], cn_read = []\<rparr>"

definition set_pc :: "nat \<Rightarrow> call_pc \<Rightarrow> conn \<Rightarrow> conn" where
  "set_pc i pc c = c\<lparr>cn_calls := (cn_calls c)[i := (cn_calls c ! i)\<lparr>cl_pc := pc\<rparr>]\<rparr>"

text \<open>\<^verbatim>\<open>Deliver\<close> up to its first unlock.\<close>

definition begin_Deliver :: "EventFrame \<Rightarrow> conn \<Rightarrow> conn" where
  "begin_Deliver f c = (case cn_pending c of
     None \<Rightarrow> c\<lparr>cn_calls := cn_calls c @ [\<lparr>cl_frame = f, cl_pc = Returned (Inl ErrClosed), cl_slot = None, cl_ctx = None\<rparr>]\<rparr>
   | Some m \<Rightarrow> c\<lparr>cn_pending := Some (m(evf_DeliveryID f \<mapsto> length (cn_calls c))),
                cn_calls := cn_calls c @ [\<lparr>cl_frame = f, cl_pc = Registered, cl_slot = None, cl_ctx = None\<rparr>]\<rparr>)"

text \<open>The deferred delete and the return; deleting from the nil map does nothing.\<close>

definition leave_Deliver :: "nat \<Rightarrow> deliver_result \<Rightarrow> conn \<Rightarrow> conn" where
  "leave_Deliver i r c = set_pc i (Returned r)
     (c\<lparr>cn_pending := map_option (\<lambda>m. m(evf_DeliveryID (cl_frame (cn_calls c ! i)) := None)) (cn_pending c)\<rparr>)"

text \<open>One iteration of \<^verbatim>\<open>readLoop\<close> up to the unlock, on the bytes read.\<close>

definition read_frame :: "bytes \<Rightarrow> conn \<Rightarrow> conn" where
  "read_frame data c = (case Unmarshal_AckFrame data of
     None \<Rightarrow> c
   | Some a \<Rightarrow>
       if ack_Type a \<noteq> FrameAck then c
       else (let c1 = c\<lparr>cn_read := cn_read c @ [a]\<rparr> in
             case Option.bind (cn_pending c) (\<lambda>m. m (ack_DeliveryID a)) of
               None \<Rightarrow> c1
             | Some i \<Rightarrow> c1\<lparr>cn_reader := Sending i a\<rparr>))"

text \<open>The non-blocking send into the one slot of the channel.\<close>

definition send_ack :: "nat \<Rightarrow> AckFrame \<Rightarrow> conn \<Rightarrow> conn" where
  "send_ack i a c = c\<lparr>cn_reader := Reading,
     cn_calls := (if cl_slot (cn_calls c ! i) = None
                  then (cn_calls c)[i := (cn_calls c ! i)\<lparr>cl_slot := Some a\<rparr>] else cn_calls c)\<rparr>"

text \<open>Time passes a deadline, or the worker is stopped: the context of a call is done, from then on.\<close>

definition ctx_done :: "nat \<Rightarrow> string \<Rightarrow> conn \<Rightarrow> conn" where
  "ctx_done i e c = c\<lparr>cn_calls := (cn_calls c)[i := (cn_calls c ! i)\<lparr>cl_ctx := Some e\<rparr>]\<rparr>"

text \<open>
  The steps of a connection: those of call number \<open>i\<close>, those of the reader, and the end of a context, which nothing on the
  connection brings about. A waiting call has no step but those of its \<^verbatim>\<open>select\<close>: it stays where it is until there is an ack, the
  connection is closed or its context is done.
\<close>

inductive call_step :: "nat \<Rightarrow> conn \<Rightarrow> conn \<Rightarrow> bool" where
  written: "\<lbrakk>i < length (cn_calls c); cl_pc (cn_calls c ! i) = Registered\<rbrakk> \<Longrightarrow>
     call_step i c (set_pc i Waiting (c\<lparr>cn_sent := cn_sent c @ [cl_frame (cn_calls c ! i)]\<rparr>))"
| write_failed: "\<lbrakk>i < length (cn_calls c); cl_pc (cn_calls c ! i) = Registered\<rbrakk> \<Longrightarrow>
     call_step i c (set_pc i (Leaving (Inl (WriteFailed e))) c)"
| acked: "\<lbrakk>i < length (cn_calls c); cl_pc (cn_calls c ! i) = Waiting; cl_slot (cn_calls c ! i) = Some a\<rbrakk> \<Longrightarrow>
     call_step i c (set_pc i (Leaving (Inr a)) (c\<lparr>cn_calls := (cn_calls c)[i := (cn_calls c ! i)\<lparr>cl_slot := None\<rparr>]\<rparr>))"
| closed: "\<lbrakk>i < length (cn_calls c); cl_pc (cn_calls c ! i) = Waiting; cn_done c\<rbrakk> \<Longrightarrow>
     call_step i c (set_pc i (Leaving (Inl ErrClosed)) c)"
| timed_out: "\<lbrakk>i < length (cn_calls c); cl_pc (cn_calls c ! i) = Waiting; cl_ctx (cn_calls c ! i) = Some e\<rbrakk> \<Longrightarrow>
     call_step i c (set_pc i (Leaving (Inl (CtxDone e))) c)"
| leave: "\<lbrakk>i < length (cn_calls c); cl_pc (cn_calls c ! i) = Leaving r\<rbrakk> \<Longrightarrow>
     call_step i c (leave_Deliver i r c)"

inductive reader_step :: "conn \<Rightarrow> conn \<Rightarrow> bool" where
  read: "cn_reader c = Reading \<Longrightarrow> reader_step c (read_frame data c)"
| send: "cn_reader c = Sending i a \<Longrightarrow> reader_step c (send_ack i a c)"
| read_error: "cn_reader c = Reading \<Longrightarrow> reader_step c (c\<lparr>cn_pending := None, cn_reader := Closing\<rparr>)"
| close: "cn_reader c = Closing \<Longrightarrow> reader_step c (c\<lparr>cn_done := True, cn_reader := Ended\<rparr>)"

inductive conn_step :: "conn \<Rightarrow> conn \<Rightarrow> bool" where
  step_begin: "conn_step c (begin_Deliver f c)"
| step_call: "call_step i c c' \<Longrightarrow> conn_step c c'"
| step_reader: "reader_step c c' \<Longrightarrow> conn_step c c'"
| step_ctx: "i < length (cn_calls c) \<Longrightarrow> cl_ctx (cn_calls c ! i) = None \<Longrightarrow> conn_step c (ctx_done i e c)"

inductive reachable_conn :: "conn \<Rightarrow> bool" where
  conn_init: "reachable_conn newConn"
| conn_next: "reachable_conn c \<Longrightarrow> conn_step c c' \<Longrightarrow> reachable_conn c'"

inductive_cases call_stepE: "call_step i c c'"
inductive_cases reader_stepE: "reader_step c c'"
inductive_cases conn_stepE: "conn_step c c'"

subsection \<open>The invariant of a connection\<close>

definition answers :: "conn \<Rightarrow> AckFrame \<Rightarrow> call \<Rightarrow> bool" where
  "answers c a x \<longleftrightarrow> a \<in> set (cn_read c) \<and> ack_DeliveryID a = evf_DeliveryID (cl_frame x)"

definition call_ok :: "conn \<Rightarrow> call \<Rightarrow> bool" where
  "call_ok c x \<longleftrightarrow>
     (case cl_slot x of None \<Rightarrow> True | Some a \<Rightarrow> answers c a x) \<and>
     (case cl_pc x of Registered \<Rightarrow> True | Waiting \<Rightarrow> cl_frame x \<in> set (cn_sent c)
      | Leaving (Inr a) \<Rightarrow> answers c a x \<and> cl_frame x \<in> set (cn_sent c)
      | Returned (Inr a) \<Rightarrow> answers c a x \<and> cl_frame x \<in> set (cn_sent c)
      | _ \<Rightarrow> True)"

definition returned :: "call \<Rightarrow> bool" where
  "returned x = (case cl_pc x of Returned r \<Rightarrow> True | _ \<Rightarrow> False)"

definition pending_ok :: "conn \<Rightarrow> bool" where
  "pending_ok c \<longleftrightarrow> (\<forall>m k i. cn_pending c = Some m \<longrightarrow> m k = Some i \<longrightarrow>
     i < length (cn_calls c) \<and> evf_DeliveryID (cl_frame (cn_calls c ! i)) = k \<and> \<not> returned (cn_calls c ! i))"

definition reader_ok :: "conn \<Rightarrow> bool" where
  "reader_ok c \<longleftrightarrow> (case cn_reader c of
       Sending i a \<Rightarrow> i < length (cn_calls c) \<and> answers c a (cn_calls c ! i) | _ \<Rightarrow> True) \<and>
     (cn_pending c = None \<longleftrightarrow> cn_reader c = Closing \<or> cn_reader c = Ended) \<and> (cn_done c \<longleftrightarrow> cn_reader c = Ended)"

definition conn_ok :: "conn \<Rightarrow> bool" where
  "conn_ok c \<longleftrightarrow> (\<forall>i < length (cn_calls c). call_ok c (cn_calls c ! i)) \<and> pending_ok c \<and> reader_ok c \<and>
     (\<forall>a \<in> set (cn_read c). ack_Type a = FrameAck)"

lemma call_ok_more: "call_ok c x \<Longrightarrow> set (cn_read c) \<subseteq> set (cn_read c') \<Longrightarrow> set (cn_sent c) \<subseteq> set (cn_sent c') \<Longrightarrow> call_ok c' x"
  by (auto simp: call_ok_def answers_def split: option.splits call_pc.splits sum.splits)

lemma set_pc_simps [simp]:
  "cn_pending (set_pc i pc c) = cn_pending c" "cn_done (set_pc i pc c) = cn_done c"
  "cn_reader (set_pc i pc c) = cn_reader c" "cn_sent (set_pc i pc c) = cn_sent c" "cn_read (set_pc i pc c) = cn_read c"
  "cn_calls (set_pc i pc c) = (cn_calls c)[i := (cn_calls c ! i)\<lparr>cl_pc := pc\<rparr>]"
  by (simp_all add: set_pc_def)

text \<open>A step that rewrites one call without returning it.\<close>

lemma conn_ok_update:
  assumes "conn_ok c" "i < length (cn_calls c)" "cl_frame x = cl_frame (cn_calls c ! i)" "\<not> returned x"
    "call_ok c' x" "cn_calls c' = (cn_calls c)[i := x]" "cn_pending c' = cn_pending c" "cn_done c' = cn_done c"
    "cn_reader c' = cn_reader c \<or> (cn_reader c \<noteq> Closing \<and> cn_reader c \<noteq> Ended \<and> cn_reader c' = Reading)"
    "cn_read c' = cn_read c" "set (cn_sent c) \<subseteq> set (cn_sent c')"
  shows "conn_ok c'"
  unfolding conn_ok_def
proof (intro conjI allI impI)
  fix j assume "j < length (cn_calls c')"
  then show "call_ok c' (cn_calls c' ! j)"
    using assms call_ok_more [of c "cn_calls c ! j" c'] by (cases "i = j") (auto simp: conn_ok_def)
next
  show "pending_ok c'" using assms by (auto simp: conn_ok_def pending_ok_def nth_list_update)
next
  show "reader_ok c'" using assms
    by (auto simp: conn_ok_def reader_ok_def answers_def nth_list_update split: reader_pc.splits)
next
  show "\<forall>a \<in> set (cn_read c'). ack_Type a = FrameAck" using assms by (simp add: conn_ok_def)
qed

text \<open>Leaving with an error needs nothing more.\<close>

lemma conn_ok_fail:
  assumes "conn_ok c" "i < length (cn_calls c)"
  shows "conn_ok (set_pc i (Leaving (Inl e)) c)"
proof -
  have "call_ok c (cn_calls c ! i)" using assms by (simp add: conn_ok_def)
  then show ?thesis
    by (intro conn_ok_update [OF assms, where x = "(cn_calls c ! i)\<lparr>cl_pc := Leaving (Inl e)\<rparr>"])
      (auto simp: returned_def call_ok_def answers_def split: option.splits)
qed

lemma call_step_ok:
  assumes "call_step i c c'" "conn_ok c"
  shows "conn_ok c'"
  using assms(1)
proof cases
  case written
  have "call_ok c (cn_calls c ! i)" using assms(2) written by (simp add: conn_ok_def)
  then show ?thesis using written
    by (intro conn_ok_update [OF assms(2), where i = i and x = "(cn_calls c ! i)\<lparr>cl_pc := Waiting\<rparr>"])
      (auto simp: returned_def call_ok_def answers_def split: option.splits)
next
  case (acked a)
  have "call_ok c (cn_calls c ! i)" using assms(2) acked by (simp add: conn_ok_def)
  then show ?thesis using acked
    by (intro conn_ok_update [OF assms(2), where i = i and x = "(cn_calls c ! i)\<lparr>cl_slot := None, cl_pc := Leaving (Inr a)\<rparr>"])
      (auto simp: returned_def call_ok_def answers_def)
next
  case (leave r)
  have own: "call_ok c (cn_calls c ! i)" using assms(2) leave by (simp add: conn_ok_def)
  have calls: "call_ok c' (cn_calls c' ! j)" if "j < length (cn_calls c')" for j
    using that own leave assms(2) call_ok_more [of c "cn_calls c ! j" c']
    by (cases "i = j")
      (auto simp: leave_Deliver_def conn_ok_def call_ok_def answers_def split: option.splits sum.splits)
  have "pending_ok c'"
    using leave assms(2) by (auto simp: leave_Deliver_def conn_ok_def pending_ok_def nth_list_update split: if_splits)
  moreover have "reader_ok c'"
    using leave assms(2) by (auto simp: leave_Deliver_def conn_ok_def reader_ok_def answers_def nth_list_update split: reader_pc.splits)
  moreover have "cn_read c' = cn_read c" using leave by (simp add: leave_Deliver_def)
  ultimately show ?thesis using calls assms(2) by (simp add: conn_ok_def)
qed (use assms(2) conn_ok_fail in simp_all)

lemma call_ok_slot:
  assumes "call_ok c x" "answers c a x"
  shows "call_ok c (x\<lparr>cl_slot := Some a\<rparr>)"
proof -
  have "answers c b (x\<lparr>cl_slot := Some a\<rparr>) = answers c b x" for b by (simp add: answers_def)
  with assms show ?thesis unfolding call_ok_def by (cases "cl_pc x") (simp_all split: sum.splits)
qed

lemma call_ok_same: "cn_read c' = cn_read c \<Longrightarrow> cn_sent c' = cn_sent c \<Longrightarrow> call_ok c' x = call_ok c x"
  by (simp add: call_ok_def answers_def cong: option.case_cong call_pc.case_cong sum.case_cong)

lemma send_ack_ok:
  assumes "conn_ok c" "cn_reader c = Sending i a"
  shows "conn_ok (send_ack i a c)"
proof -
  let ?c = "send_ack i a c"
  have i: "i < length (cn_calls c)" "answers c a (cn_calls c ! i)" "call_ok c (cn_calls c ! i)"
    using assms by (auto simp: conn_ok_def reader_ok_def)
  have c: "cn_read ?c = cn_read c" "cn_sent ?c = cn_sent c" "cn_pending ?c = cn_pending c" "cn_done ?c = cn_done c"
    "cn_reader ?c = Reading" "length (cn_calls ?c) = length (cn_calls c)"
    by (simp_all add: send_ack_def)
  have same: "cl_frame (cn_calls ?c ! j) = cl_frame (cn_calls c ! j)" "cl_pc (cn_calls ?c ! j) = cl_pc (cn_calls c ! j)" for j
    using i(1) by (cases "i = j"; simp add: send_ack_def)+
  have "call_ok ?c (cn_calls ?c ! j)" if "j < length (cn_calls c)" for j
  proof -
    have "call_ok c (cn_calls c ! j)" using that assms(1) by (simp add: conn_ok_def)
    then have "call_ok c (cn_calls ?c ! j)"
      using i call_ok_slot by (cases "i = j") (simp_all add: send_ack_def)
    then show ?thesis by (simp add: call_ok_same [OF c(1,2)])
  qed
  moreover have "pending_ok ?c"
    using assms(1) unfolding conn_ok_def pending_ok_def c returned_def same by blast
  moreover have "reader_ok ?c" using assms unfolding conn_ok_def reader_ok_def c by simp
  ultimately show ?thesis using assms(1) by (simp add: conn_ok_def c)
qed

lemma read_frame_ok:
  assumes "conn_ok c" "cn_reader c = Reading"
  shows "conn_ok (read_frame data c)"
proof (cases "Unmarshal_AckFrame data")
  case (Some a)
  show ?thesis
  proof (cases "ack_Type a = FrameAck")
    case True
    let ?c = "read_frame data c"
    have c: "cn_calls ?c = cn_calls c" "cn_pending ?c = cn_pending c" "cn_done ?c = cn_done c" "cn_sent ?c = cn_sent c"
      "cn_read ?c = cn_read c @ [a]"
      using Some True by (auto simp: read_frame_def Let_def split: option.splits)
    have "call_ok ?c (cn_calls c ! j)" if "j < length (cn_calls c)" for j
      using that assms(1) c call_ok_more [of c "cn_calls c ! j" ?c] by (auto simp: conn_ok_def)
    moreover have "reader_ok ?c"
      using assms Some True
      by (auto simp: conn_ok_def reader_ok_def pending_ok_def answers_def read_frame_def Let_def bind_eq_Some_conv split: option.splits)
    moreover have "pending_ok ?c" using assms(1) c by (simp add: conn_ok_def pending_ok_def)
    ultimately show ?thesis using assms(1) c True by (simp add: conn_ok_def)
  next
    case False
    with Some assms show ?thesis by (simp add: read_frame_def)
  qed
qed (use assms in \<open>simp add: read_frame_def\<close>)

lemma reader_step_ok:
  assumes "reader_step c c'" "conn_ok c"
  shows "conn_ok c'"
  using assms(1)
proof cases
  case (read data)
  with assms(2) show ?thesis using read_frame_ok by simp
next
  case (send i a)
  with assms(2) show ?thesis using send_ack_ok by simp
next
  case read_error
  with assms(2) show ?thesis
    by (auto simp: conn_ok_def pending_ok_def reader_ok_def intro: call_ok_more)
next
  case close
  with assms(2) show ?thesis
    by (auto simp: conn_ok_def pending_ok_def reader_ok_def intro: call_ok_more)
qed

lemma begin_Deliver_ok:
  assumes "conn_ok c"
  shows "conn_ok (begin_Deliver f c)"
proof -
  let ?c = "begin_Deliver f c"
  have c: "cn_read ?c = cn_read c" "cn_sent ?c = cn_sent c"
    by (auto simp: begin_Deliver_def split: option.splits)
  have "call_ok ?c (cn_calls ?c ! j)" if "j < length (cn_calls ?c)" for j
  proof (cases "j < length (cn_calls c)")
    case True
    then have "cn_calls ?c ! j = cn_calls c ! j" by (auto simp: begin_Deliver_def nth_append split: option.splits)
    with True assms c show ?thesis using call_ok_more [of c "cn_calls c ! j" ?c] by (simp add: conn_ok_def)
  next
    case False
    with that have "j = length (cn_calls c)" by (auto simp: begin_Deliver_def split: option.splits)
    then show ?thesis by (auto simp: begin_Deliver_def call_ok_def split: option.splits)
  qed
  moreover have "pending_ok ?c"
    using assms by (auto simp: begin_Deliver_def conn_ok_def pending_ok_def nth_append returned_def less_Suc_eq split: option.splits if_splits)
  moreover have "reader_ok ?c"
    using assms by (auto simp: begin_Deliver_def conn_ok_def reader_ok_def answers_def nth_append split: option.splits reader_pc.splits)
  ultimately show ?thesis using assms c by (simp add: conn_ok_def)
qed

lemma ctx_done_call:
  "cl_frame (cn_calls (ctx_done i e c) ! j) = cl_frame (cn_calls c ! j)" "cl_pc (cn_calls (ctx_done i e c) ! j) = cl_pc (cn_calls c ! j)"
  "cl_slot (cn_calls (ctx_done i e c) ! j) = cl_slot (cn_calls c ! j)" "length (cn_calls (ctx_done i e c)) = length (cn_calls c)"
  by (cases "i < length (cn_calls c) \<and> i = j"; auto simp: ctx_done_def nth_list_update list_update_beyond)+

lemma ctx_done_conn [simp]:
  "cn_pending (ctx_done i e c) = cn_pending c" "cn_done (ctx_done i e c) = cn_done c" "cn_reader (ctx_done i e c) = cn_reader c"
  "cn_sent (ctx_done i e c) = cn_sent c" "cn_read (ctx_done i e c) = cn_read c"
  by (simp_all add: ctx_done_def)

lemma ctx_done_ok: "conn_ok c \<Longrightarrow> conn_ok (ctx_done i e c)"
proof -
  assume ok: "conn_ok c"
  have a: "answers (ctx_done i e c) a (cn_calls (ctx_done i e c) ! j) = answers c a (cn_calls c ! j)" for a j
    by (simp add: answers_def ctx_done_call)
  have "call_ok (ctx_done i e c) (cn_calls (ctx_done i e c) ! j) = call_ok c (cn_calls c ! j)" for j
    unfolding call_ok_def a ctx_done_call ctx_done_conn by (rule refl)
  moreover have "reader_ok (ctx_done i e c) = reader_ok c" unfolding reader_ok_def a ctx_done_call ctx_done_conn by (rule refl)
  moreover have "pending_ok (ctx_done i e c) = pending_ok c"
    unfolding pending_ok_def returned_def ctx_done_call ctx_done_conn by (rule refl)
  ultimately show ?thesis using ok by (simp add: conn_ok_def ctx_done_call)
qed

lemma reachable_conn_ok: "reachable_conn c \<Longrightarrow> conn_ok c"
proof (induction rule: reachable_conn.induct)
  case conn_init
  show ?case by (simp add: newConn_def conn_ok_def pending_ok_def reader_ok_def)
next
  case (conn_next c c')
  from conn_next.hyps(2) show ?case
    by cases (use conn_next.IH begin_Deliver_ok call_step_ok reader_step_ok ctx_done_ok in auto)
qed

subsection \<open>What Deliver promises\<close>

text \<open>
  C20. An ack is never given to the wrong delivery: in every reachable state of a connection, however its
  calls and its reader interleave, a \<^verbatim>\<open>Deliver\<close> that has returned an ack had written its own frame, and
  the ack is an ack frame read from this socket that carries the frame's delivery id.
\<close>

theorem Deliver_ack_matches:
  assumes "reachable_conn c" "i < length (cn_calls c)" "cl_pc (cn_calls c ! i) = Returned (Inr a)"
  shows "a \<in> set (cn_read c) \<and> ack_Type a = FrameAck \<and> ack_DeliveryID a = evf_DeliveryID (cl_frame (cn_calls c ! i)) \<and>
    cl_frame (cn_calls c ! i) \<in> set (cn_sent c)"
proof -
  have "conn_ok c" using assms(1) by (rule reachable_conn_ok)
  then show ?thesis using assms(2,3) by (auto simp: conn_ok_def call_ok_def answers_def)
qed

text \<open>
  The map of pending acks does not leak: every entry belongs to a \<^verbatim>\<open>Deliver\<close> still in flight, for the
  delivery id of its frame, so once all calls have returned an open connection has no entry left.
\<close>

theorem pending_no_leak:
  assumes "reachable_conn c" "cn_pending c = Some m"
  shows "(\<forall>k i. m k = Some i \<longrightarrow> i < length (cn_calls c) \<and> \<not> returned (cn_calls c ! i) \<and>
      evf_DeliveryID (cl_frame (cn_calls c ! i)) = k) \<and> (list_all returned (cn_calls c) \<longrightarrow> m = Map.empty)"
proof (intro conjI impI)
  have ok: "pending_ok c" using reachable_conn_ok [OF assms(1)] by (simp add: conn_ok_def)
  then show 1: "\<forall>k i. m k = Some i \<longrightarrow> i < length (cn_calls c) \<and> \<not> returned (cn_calls c ! i) \<and>
      evf_DeliveryID (cl_frame (cn_calls c ! i)) = k"
    using assms(2) by (simp add: pending_ok_def)
  assume "list_all returned (cn_calls c)"
  then have "m k = None" for k using 1 by (cases "m k") (auto simp: list_all_length)
  then show "m = Map.empty" by blast
qed

text \<open>How many steps of its own a call can still make.\<close>

definition rank :: "nat \<Rightarrow> conn \<Rightarrow> nat" where
  "rank i c = (case cl_pc (cn_calls c ! i) of Registered \<Rightarrow> 3 | Waiting \<Rightarrow> 2 | Leaving r \<Rightarrow> 1 | Returned r \<Rightarrow> 0)"

lemma call_step_rank:
  assumes "call_step i c c'"
  shows "rank i c' < rank i c" "j \<noteq> i \<Longrightarrow> rank j c' = rank j c" "cn_done c' = cn_done c"
    "length (cn_calls c') = length (cn_calls c)"
  using assms by (cases; simp add: rank_def leave_Deliver_def)+

lemma reader_step_rank:
  assumes "reader_step c c'" "conn_ok c"
  shows "rank i c' = rank i c" "cn_done c \<Longrightarrow> cn_done c'" "length (cn_calls c') = length (cn_calls c)"
proof -
  have same: "cl_pc (cn_calls (send_ack k a c) ! i) = cl_pc (cn_calls c ! i)"
    if "cn_reader c = Sending k a" for k a
  proof -
    have "k < length (cn_calls c)" using that assms(2) by (simp add: conn_ok_def reader_ok_def)
    then show ?thesis by (cases "i = k") (simp_all add: send_ack_def)
  qed
  have "cl_pc (cn_calls c' ! i) = cl_pc (cn_calls c ! i) \<and> (cn_done c \<longrightarrow> cn_done c') \<and>
      length (cn_calls c') = length (cn_calls c)"
    using assms(1)
    by cases (use same in \<open>auto simp: read_frame_def send_ack_def Let_def split: option.splits\<close>)
  then show "rank i c' = rank i c" "cn_done c \<Longrightarrow> cn_done c'" "length (cn_calls c') = length (cn_calls c)"
    by (simp_all add: rank_def)
qed

lemma begin_Deliver_rank: "i < length (cn_calls c) \<Longrightarrow> rank i (begin_Deliver f c) = rank i c"
  "cn_done (begin_Deliver f c) = cn_done c" "length (cn_calls (begin_Deliver f c)) = Suc (length (cn_calls c))"
  by (auto simp: rank_def begin_Deliver_def nth_append split: option.splits)

lemma conn_step_rank:
  assumes "conn_step c c'" "conn_ok c" "i < length (cn_calls c)"
  shows "rank i c' \<le> rank i c \<and> (cn_done c \<longrightarrow> cn_done c') \<and> i < length (cn_calls c')"
  using assms(1)
proof cases
  case (step_begin f)
  with assms(3) begin_Deliver_rank show ?thesis by simp
next
  case (step_call k)
  with assms(3) call_step_rank [OF step_call] show ?thesis by (cases "i = k") auto
next
  case step_reader
  with assms(2,3) reader_step_rank show ?thesis by simp
next
  case (step_ctx k e)
  with assms(3) show ?thesis by (simp add: rank_def ctx_done_call)
qed

text \<open>A call that waits without an ack and with time left has a step exactly when the connection is closed.\<close>

lemma waiting_step:
  assumes "i < length (cn_calls c)" "cl_pc (cn_calls c ! i) = Waiting" "cl_slot (cn_calls c ! i) = None" "cl_ctx (cn_calls c ! i) = None"
  shows "call_step i c c' \<longleftrightarrow> cn_done c \<and> c' = set_pc i (Leaving (Inl ErrClosed)) c"
proof
  assume "call_step i c c'"
  then show "cn_done c \<and> c' = set_pc i (Leaving (Inl ErrClosed)) c" by cases (use assms in simp_all)
next
  assume "cn_done c \<and> c' = set_pc i (Leaving (Inl ErrClosed)) c"
  then show "call_step i c c'" using closed [OF assms(1,2)] by simp
qed

text \<open>
  C21. A closed connection lets go of every \<^verbatim>\<open>Deliver\<close>: once the reader has ended, a call that has not
  returned always has a step of its own to take, even if no ack comes and its context is never done; each such
  step brings it closer to its return, of which it is at most three steps away, and no step of anyone else takes it
  further away or reopens the connection. A call that waits with neither an ack nor a context that is done
  can only leave with \<^verbatim>\<open>ErrClosed\<close>, and as long as the connection is not closed it cannot leave at all: it is the end of
  the reader that releases it. So no worker is left waiting on a tunnel that is gone.
\<close>

theorem Deliver_returns_after_close:
  assumes "reachable_conn c" "cn_done c" "i < length (cn_calls c)" "\<not> returned (cn_calls c ! i)"
  shows "(\<exists>c'. call_step i c c') \<and> rank i c \<in> {1, 2, 3} \<and>
    (\<forall>c'. call_step i c c' \<longrightarrow> rank i c' < rank i c \<and> (rank i c' = 0 \<longleftrightarrow> returned (cn_calls c' ! i))) \<and>
    (\<forall>c'. conn_step c c' \<longrightarrow> cn_done c' \<and> rank i c' \<le> rank i c) \<and>
    (cl_pc (cn_calls c ! i) = Waiting \<longrightarrow> cl_slot (cn_calls c ! i) = None \<longrightarrow> cl_ctx (cn_calls c ! i) = None \<longrightarrow>
       (\<forall>c'. call_step i c c' \<longleftrightarrow> c' = set_pc i (Leaving (Inl ErrClosed)) c) \<and>
       (\<forall>c'. \<not> call_step i (c\<lparr>cn_done := False\<rparr>) c'))"
proof (intro conjI)
  show "\<exists>c'. call_step i c c'"
  proof (cases "cl_pc (cn_calls c ! i)")
    case Registered
    with assms(3) show ?thesis using call_step.written by blast
  next
    case Waiting
    with assms(2,3) show ?thesis using call_step.closed by blast
  next
    case (Leaving r)
    with assms(3) show ?thesis using call_step.leave by blast
  qed (use assms(4) in \<open>simp add: returned_def\<close>)
  have zero: "rank i c = 0 \<longleftrightarrow> returned (cn_calls c ! i)" "rank i c \<le> 3" for c
    by (simp_all add: rank_def returned_def split: call_pc.splits)
  show "rank i c \<in> {1, 2, 3}" using assms(4) zero [of c] by auto
  show "\<forall>c'. call_step i c c' \<longrightarrow> rank i c' < rank i c \<and> (rank i c' = 0 \<longleftrightarrow> returned (cn_calls c' ! i))"
    using call_step_rank(1) zero(1) by simp
  show "\<forall>c'. conn_step c c' \<longrightarrow> cn_done c' \<and> rank i c' \<le> rank i c"
    using conn_step_rank reachable_conn_ok assms(1-3) by blast
  show "cl_pc (cn_calls c ! i) = Waiting \<longrightarrow> cl_slot (cn_calls c ! i) = None \<longrightarrow> cl_ctx (cn_calls c ! i) = None \<longrightarrow>
      (\<forall>c'. call_step i c c' \<longleftrightarrow> c' = set_pc i (Leaving (Inl ErrClosed)) c) \<and> (\<forall>c'. \<not> call_step i (c\<lparr>cn_done := False\<rparr>) c')"
    using assms(2,3) waiting_step [of i c] waiting_step [of i "c\<lparr>cn_done := False\<rparr>"] by simp
qed

subsection \<open>A concrete connection\<close>

text \<open>One delivery is written, its ack is read, handed over and returned; or the socket closes first.\<close>

definition frame_example :: EventFrame where
  "frame_example = \<lparr>evf_Type = FrameEvent, evf_DeliveryID = ''d1'', evf_EventID = ''e1'', evf_Source = ''s'',
     evf_ContentType = '''', evf_Headers = Some [], evf_Body = ''x''\<rparr>"

definition ack_bytes :: bytes where
  "ack_bytes = marshal_object [(''type'', marshal_string ''ack''), (''delivery_id'', marshal_string ''d1''),
     (''status_code'', ''200'')]"

definition ack_example :: AckFrame where
  "ack_example = \<lparr>ack_Type = ''ack'', ack_DeliveryID = ''d1'', ack_StatusCode = 200, ack_Error = '''', ack_DurationMs = 0\<rparr>"

lemma Unmarshal_ack_example: "Unmarshal_AckFrame ack_bytes = Some ack_example"
  by code_simp

definition conn_waiting :: conn where
  "conn_waiting = newConn\<lparr>cn_pending := Some [''d1'' \<mapsto> 0], cn_sent := [frame_example],
     cn_calls := [\<lparr>cl_frame = frame_example, cl_pc = Waiting, cl_slot = None, cl_ctx = None\<rparr>]\<rparr>"

definition conn_acked :: conn where
  "conn_acked = newConn\<lparr>cn_sent := [frame_example], cn_read := [ack_example],
     cn_calls := [\<lparr>cl_frame = frame_example, cl_pc = Returned (Inr ack_example), cl_slot = None, cl_ctx = None\<rparr>]\<rparr>"

lemma reach_call: "reachable_conn c \<Longrightarrow> call_step i c c' \<Longrightarrow> reachable_conn c'"
  by (blast intro: conn_next step_call)

lemma reach_reader: "reachable_conn c \<Longrightarrow> reader_step c c' \<Longrightarrow> reachable_conn c'"
  by (blast intro: conn_next step_reader)

lemma reachable_waiting: "reachable_conn conn_waiting"
proof -
  let ?c = "begin_Deliver frame_example newConn"
  have "reachable_conn ?c" by (rule conn_next [OF conn_init step_begin])
  moreover have "call_step 0 ?c (set_pc 0 Waiting (?c\<lparr>cn_sent := cn_sent ?c @ [cl_frame (cn_calls ?c ! 0)]\<rparr>))"
    by (rule written) (simp_all add: begin_Deliver_def newConn_def)
  ultimately have "reachable_conn (set_pc 0 Waiting (?c\<lparr>cn_sent := cn_sent ?c @ [cl_frame (cn_calls ?c ! 0)]\<rparr>))"
    by (rule reach_call)
  then show ?thesis
    by (simp add: conn_waiting_def set_pc_def begin_Deliver_def newConn_def frame_example_def)
qed

lemma reachable_acked: "reachable_conn conn_acked"
proof -
  let ?x = "\<lparr>cl_frame = frame_example, cl_pc = Waiting, cl_slot = Some ack_example, cl_ctx = None\<rparr>"
  let ?c1 = "conn_waiting\<lparr>cn_read := [ack_example], cn_reader := Sending 0 ack_example\<rparr>"
  let ?c2 = "conn_waiting\<lparr>cn_read := [ack_example], cn_calls := [?x]\<rparr>"
  let ?c3 = "conn_waiting\<lparr>cn_read := [ack_example], cn_calls := [?x\<lparr>cl_slot := None, cl_pc := Leaving (Inr ack_example)\<rparr>]\<rparr>"
  have "reader_step conn_waiting (read_frame ack_bytes conn_waiting)"
    by (rule read) (simp add: conn_waiting_def newConn_def)
  then have "reachable_conn ?c1"
    using reach_reader [OF reachable_waiting] Unmarshal_ack_example
    by (simp add: read_frame_def ack_example_def FrameAck_def conn_waiting_def newConn_def Let_def)
  then have "reachable_conn (send_ack 0 ack_example ?c1)" by (rule reach_reader) (simp add: send)
  then have "reachable_conn ?c2" by (simp add: send_ack_def conn_waiting_def newConn_def)
  moreover have "call_step 0 ?c2 (set_pc 0 (Leaving (Inr ack_example))
      (?c2\<lparr>cn_calls := (cn_calls ?c2)[0 := (cn_calls ?c2 ! 0)\<lparr>cl_slot := None\<rparr>]\<rparr>))"
    by (rule acked) simp_all
  ultimately have "reachable_conn ?c3" using reach_call by (fastforce simp: set_pc_def)
  moreover have "call_step 0 ?c3 (leave_Deliver 0 (Inr ack_example) ?c3)" by (rule leave) simp_all
  ultimately have "reachable_conn (leave_Deliver 0 (Inr ack_example) ?c3)" by (rule reach_call)
  then show ?thesis
    by (simp add: leave_Deliver_def set_pc_def conn_waiting_def conn_acked_def newConn_def frame_example_def)
qed

theorem Deliver_ack_matches_witness:
  "ack_example \<in> set (cn_read conn_acked) \<and> ack_Type ack_example = FrameAck \<and> ack_DeliveryID ack_example = ''d1''"
  using Deliver_ack_matches [OF reachable_acked, of 0 ack_example] by (simp add: conn_acked_def frame_example_def)

theorem pending_no_leak_witness:
  "cn_pending conn_waiting = Some [''d1'' \<mapsto> 0] \<and> \<not> returned (cn_calls conn_waiting ! 0)"
  using pending_no_leak [OF reachable_waiting, of "[''d1'' \<mapsto> 0]"] by (simp add: conn_waiting_def)

definition conn_closed :: conn where
  "conn_closed = conn_waiting\<lparr>cn_pending := None, cn_reader := Ended, cn_done := True\<rparr>"

lemma reachable_closed: "reachable_conn conn_closed"
proof -
  let ?c = "conn_waiting\<lparr>cn_pending := None, cn_reader := Closing\<rparr>"
  have "reader_step conn_waiting ?c" by (rule read_error) (simp add: conn_waiting_def newConn_def)
  then have "reachable_conn ?c" by (rule reach_reader [OF reachable_waiting])
  moreover have "reader_step ?c (?c\<lparr>cn_done := True, cn_reader := Ended\<rparr>)" by (rule close) simp
  ultimately have "reachable_conn (?c\<lparr>cn_done := True, cn_reader := Ended\<rparr>)" by (rule reach_reader)
  then show ?thesis by (simp add: conn_closed_def conn_waiting_def newConn_def)
qed

theorem Deliver_returns_after_close_witness:
  "cn_done conn_closed \<and> cl_pc (cn_calls conn_closed ! 0) = Waiting \<and> cl_ctx (cn_calls conn_closed ! 0) = None \<and>
   call_step 0 conn_closed (set_pc 0 (Leaving (Inl ErrClosed)) conn_closed) \<and> \<not> (\<exists>c'. call_step 0 (conn_closed\<lparr>cn_done := False\<rparr>) c')"
  using Deliver_returns_after_close [OF reachable_closed, of 0]
  by (simp add: conn_closed_def conn_waiting_def returned_def)

subsection \<open>Frames survive the wire\<close>

fun header_value :: "string list option \<Rightarrow> json" where
  "header_value None = JNull"
| "header_value (Some vs) = JArray (map JString vs)"

fun headers_value :: "nheader \<Rightarrow> json" where
  "headers_value None = JNull"
| "headers_value (Some kvs) = JObject (map (\<lambda>(k, vs). (k, header_value vs)) (sort_key fst kvs))"

definition headers_valid :: "nheader \<Rightarrow> bool" where
  "headers_valid h = (case h of None \<Rightarrow> True | Some kvs \<Rightarrow> distinct (map fst kvs) \<and>
     list_all (\<lambda>(k, vs). utf8_valid k \<and> (case vs of None \<Rightarrow> True | Some v \<Rightarrow> list_all utf8_valid v)) kvs)"

definition frame_valid :: "EventFrame \<Rightarrow> bool" where
  "frame_valid f \<longleftrightarrow> utf8_valid (evf_Type f) \<and> utf8_valid (evf_DeliveryID f) \<and> utf8_valid (evf_EventID f) \<and>
     utf8_valid (evf_Source f) \<and> utf8_valid (evf_ContentType f) \<and> headers_valid (evf_Headers f)"

lemma renders_headers:
  assumes "headers_valid h"
  shows "renders 1 (marshal_nheader h) (headers_value h)"
proof (cases h)
  case None
  then show ?thesis by (simp add: marshal_nheader_def renders_null)
next
  case (Some kvs)
  let ?k = "sort_key fst kvs"
  have "renders 0 (case vs of None \<Rightarrow> ''null'' | Some v \<Rightarrow> marshal_strings v) (header_value vs)"
    if "(k, vs) \<in> set kvs" for k vs
    using that assms Some renders_null renders_strings
    by (cases vs) (auto simp: headers_valid_def list_all_iff)
  then have "list_all2 (member_renders 0) (map (\<lambda>(k, vs). (k, case vs of None \<Rightarrow> ''null'' | Some v \<Rightarrow> marshal_strings v)) ?k)
      (map (\<lambda>(k, vs). (k, header_value vs)) ?k)"
    using assms Some
    by (auto simp: list_all2_map1 list_all2_map2 list_all2_same member_renders_def headers_valid_def list_all_iff)
  moreover have "distinct (map fst (map (\<lambda>(k, vs). (k, header_value vs)) ?k))"
    using assms Some by (simp add: headers_valid_def comp_def case_prod_unfold distinct_map)
  ultimately show ?thesis using renders_object [of 0] Some by (simp add: marshal_nheader_def)
qed

text \<open>The members of an event frame on the wire, and the values they are read back as.\<close>

definition frame_members :: "EventFrame \<Rightarrow> (string \<times> bytes) list" where
  "frame_members f =
     [(''type'', marshal_string (evf_Type f)), (''delivery_id'', marshal_string (evf_DeliveryID f)),
      (''event_id'', marshal_string (evf_EventID f)), (''source'', marshal_string (evf_Source f))] @
     (if evf_ContentType f = '''' then [] else [(''content_type'', marshal_string (evf_ContentType f))]) @
     [(''headers'', marshal_nheader (evf_Headers f)), (''body'', marshal_string (b64_std_Encode (evf_Body f)))]"

definition frame_values :: "EventFrame \<Rightarrow> (string \<times> json) list" where
  "frame_values f =
     [(''type'', JString (evf_Type f)), (''delivery_id'', JString (evf_DeliveryID f)),
      (''event_id'', JString (evf_EventID f)), (''source'', JString (evf_Source f))] @
     (if evf_ContentType f = '''' then [] else [(''content_type'', JString (evf_ContentType f))]) @
     [(''headers'', headers_value (evf_Headers f)), (''body'', JString (b64_std_Encode (evf_Body f)))]"

lemma frame_members_render:
  assumes "frame_valid f"
  shows "list_all2 (member_renders 1) (frame_members f) (frame_values f)"
proof -
  have "list_all (\<lambda>c. (of_char c :: nat) < 128) (b64_std_Encode (evf_Body f))"
    using b64_std_Encode_graphic [of "evf_Body f"] by (auto simp: list_all_iff graphic_def)
  then have "renders 1 (marshal_string (b64_std_Encode (evf_Body f))) (JString (b64_std_Encode (evf_Body f)))"
    by (intro renders_string ascii_valid)
  moreover have "utf8_valid ''type''" "utf8_valid ''delivery_id''" "utf8_valid ''event_id''" "utf8_valid ''source''"
    "utf8_valid ''content_type''" "utf8_valid ''headers''" "utf8_valid ''body''"
    by (rule ascii_valid, simp)+
  moreover have "renders 1 (marshal_nheader (evf_Headers f)) (headers_value (evf_Headers f))"
    using assms by (intro renders_headers) (simp add: frame_valid_def)
  ultimately show ?thesis
    unfolding frame_members_def frame_values_def using assms
    by (simp add: frame_valid_def member_renders_def renders_string)
qed

lemma header_text_shape:
  "skips (case vs of None \<Rightarrow> ''null'' | Some v \<Rightarrow> marshal_strings v)" "tight (case vs of None \<Rightarrow> ''null'' | Some v \<Rightarrow> marshal_strings v)"
  by (cases vs; simp add: skips_strings skips_word tight_texts; simp add: tight_def json_space_def)+

lemma frame_members_shape:
  "\<forall>m \<in> set (frame_members f). skips (snd m) \<and> tight (snd m)"
proof -
  have "skips (marshal_nheader h) \<and> tight (marshal_nheader h)" for h
  proof (cases h)
    case None
    then show ?thesis by (simp add: marshal_nheader_def skips_word tight_def json_space_def)
  next
    case (Some kvs)
    then show ?thesis using header_text_shape(1)
      by (auto simp: marshal_nheader_def tight_texts intro!: skips_object)
  qed
  then show ?thesis by (auto simp: frame_members_def skips_string tight_texts)
qed

lemma Unmarshal_frame:
  assumes "frame_valid f"
  shows "Unmarshal_struct fs zero (marshal_EventFrame f) = fold_opt (set_member fs) (frame_members f) zero"
proof -
  have "distinct (map fst (frame_values f))" by (simp add: frame_values_def)
  then show ?thesis
    using Unmarshal_struct_text [OF frame_members_render [OF assms] _ _ frame_members_shape, of fs zero]
    by (simp add: marshal_EventFrame_def frame_members_def max_depth_def)
qed

end
