(* ===== verification/Delivery.thy ===== *)
theory Delivery
  imports Queue Buckets Retry Tunnel
begin

text \<open>
  The delivery worker (\<^verbatim>\<open>internal/delivery\<close>: \<^verbatim>\<open>dispatch.go\<close>, \<^verbatim>\<open>tunnel_dispatch.go\<close>, \<^verbatim>\<open>worker.go\<close>): one
  job is one attempt to deliver one event to one destination, over HTTP or down a tunnel, and its outcome
  is recorded with the delivery's new status in one transaction.

  What lies outside the repository is the record \<open>outside\<close>: parsing an id (\<^verbatim>\<open>pgtype.UUID.Scan\<close>), whether
  \<^verbatim>\<open>http.NewRequest\<close> takes the URL, what the network answers to a request within its timeout, how long
  it takes, and the texts of error values. Requests and frames that leave the process are recorded
  in the order they are sent, so that sending is visible in the theorems.
\<close>

subsection \<open>Attempt results\<close>

definition maxResponseBodyBytes :: nat where "maxResponseBodyBytes = 64 * 1024"
definition defaultTimeout :: duration where "defaultTimeout = 30 * second"
definition pausedSnoozeInterval :: duration where "pausedSnoozeInterval = 30 * second"

definition statusSucceeded :: string where "statusSucceeded = ''succeeded''"
definition statusFailed :: string where "statusFailed = ''failed''"
definition statusDeadLettered :: string where "statusDeadLettered = ''dead_lettered''"

record attemptResult =
  ar_requestHeaders :: "bytes option"
  ar_statusCode :: "int option"
  ar_responseHeaders :: "bytes option"
  ar_responseBody :: "string option"
  ar_errMsg :: "string option"
  ar_durationMs :: "int option"
  ar_succeeded :: bool
  ar_retryable :: bool

definition zero_result :: attemptResult where
  "zero_result = \<lparr>ar_requestHeaders = None, ar_statusCode = None, ar_responseHeaders = None,
     ar_responseBody = None, ar_errMsg = None, ar_durationMs = None, ar_succeeded = False, ar_retryable = False\<rparr>"

text \<open>\<^verbatim>\<open>http.StatusText\<close>\<close>

definition status_texts :: "(int \<times> string) list" where
  "status_texts = [(100, ''Continue''), (101, ''Switching Protocols''), (102, ''Processing''), (103, ''Early Hints''),
     (200, ''OK''), (201, ''Created''), (202, ''Accepted''), (203, ''Non-Authoritative Information''),
     (204, ''No Content''), (205, ''Reset Content''), (206, ''Partial Content''), (207, ''Multi-Status''),
     (208, ''Already Reported''), (226, ''IM Used''), (300, ''Multiple Choices''), (301, ''Moved Permanently''),
     (302, ''Found''), (303, ''See Other''), (304, ''Not Modified''), (305, ''Use Proxy''),
     (307, ''Temporary Redirect''), (308, ''Permanent Redirect''), (400, ''Bad Request''), (401, ''Unauthorized''),
     (402, ''Payment Required''), (403, ''Forbidden''), (404, ''Not Found''), (405, ''Method Not Allowed''),
     (406, ''Not Acceptable''), (407, ''Proxy Authentication Required''), (408, ''Request Timeout''),
     (409, ''Conflict''), (410, ''Gone''), (411, ''Length Required''), (412, ''Precondition Failed''),
     (413, ''Request Entity Too Large''), (414, ''Request URI Too Long''), (415, ''Unsupported Media Type''),
     (416, ''Requested Range Not Satisfiable''), (417, ''Expectation Failed''), (418, ''I'' @ [CHR 0x27] @ ''m a teapot''),
     (421, ''Misdirected Request''), (422, ''Unprocessable Entity''), (423, ''Locked''), (424, ''Failed Dependency''),
     (425, ''Too Early''), (426, ''Upgrade Required''), (428, ''Precondition Required''), (429, ''Too Many Requests''),
     (431, ''Request Header Fields Too Large''), (451, ''Unavailable For Legal Reasons''),
     (500, ''Internal Server Error''), (501, ''Not Implemented''), (502, ''Bad Gateway''),
     (503, ''Service Unavailable''), (504, ''Gateway Timeout''), (505, ''HTTP Version Not Supported''),
     (506, ''Variant Also Negotiates''), (507, ''Insufficient Storage''), (508, ''Loop Detected''),
     (510, ''Not Extended''), (511, ''Network Authentication Required'')]"

definition StatusText :: "int \<Rightarrow> string" where
  "StatusText code = (case map_of status_texts code of None \<Rightarrow> '''' | Some s \<Rightarrow> s)"

definition isRetryableStatus :: "int \<Rightarrow> bool" where
  "isRetryableStatus code \<longleftrightarrow> code = 408 \<or> code = 429 \<or> code \<ge> 500"

text \<open>The lines both transports end with: what a status code means.\<close>

definition with_status :: "int \<Rightarrow> attemptResult \<Rightarrow> attemptResult" where
  "with_status code r =
     (let ok = (200 \<le> code \<and> code < 300);
          r1 = r\<lparr>ar_statusCode := Some (int32_of code), ar_succeeded := ok\<rparr>
      in if ok then r1 else r1\<lparr>ar_errMsg := Some (StatusText code), ar_retryable := isRetryableStatus code\<rparr>)"

subsection \<open>The outside\<close>

record http_out =
  ho_url :: string
  ho_header :: header
  ho_body :: bytes

record http_response =
  hr_status :: int
  hr_header :: header
  hr_body :: bytes

datatype outgoing = Post http_out | Push uuid EventFrame

record outside =
  o_Scan :: "string \<Rightarrow> uuid option"
  o_NewRequest :: "string \<Rightarrow> string option"
  o_Do :: "duration \<Rightarrow> http_out \<Rightarrow> string + http_response"
  o_elapsed :: duration
  o_db_error :: "db_error \<Rightarrow> string"
  o_json_error :: "bytes \<Rightarrow> string"

type_synonym tunnels = "(duration \<Rightarrow> EventFrame \<Rightarrow> deliver_result) registry"

definition elapsed :: "outside \<Rightarrow> int option" where
  "elapsed env = Some (int32_of (go_div (o_elapsed env) millisecond))"

definition timeout_of :: "destination \<Rightarrow> duration" where
  "timeout_of dest = (let timeout = int64_of (dst_timeout_ms dest * millisecond)
     in if timeout \<le> 0 then defaultTimeout else timeout)"

subsection \<open>One HTTP attempt\<close>

definition delivery_request :: "destination \<Rightarrow> bytes \<Rightarrow> string option \<Rightarrow> string \<Rightarrow> http_out" where
  "delivery_request dest body contentType deliveryID =
     (let h1 = header_Set [] ''Webhook-Id'' deliveryID;
          h2 = (case contentType of None \<Rightarrow> h1 | Some ct \<Rightarrow> header_Set h1 ''Content-Type'' ct)
      in \<lparr>ho_url = dst_url dest, ho_header = h2, ho_body = body\<rparr>)"

definition dispatch :: "outside \<Rightarrow> destination \<Rightarrow> bytes \<times> string option \<Rightarrow> string \<Rightarrow> attemptResult \<times> outgoing list" where
  "dispatch env dest event deliveryID =
     (case o_NewRequest env (dst_url dest) of
        Some err \<Rightarrow> (zero_result\<lparr>ar_errMsg := Some err\<rparr>, [])
      | None \<Rightarrow>
          let req = delivery_request dest (fst event) (snd event) deliveryID;
              result = zero_result\<lparr>ar_requestHeaders := Some (marshal_header (ho_header req)), ar_durationMs := elapsed env\<rparr>
          in case o_Do env (timeout_of dest) req of
               Inl err \<Rightarrow> (result\<lparr>ar_errMsg := Some err, ar_retryable := True\<rparr>, [Post req])
             | Inr resp \<Rightarrow>
                 let body = take maxResponseBodyBytes (hr_body resp)
                 in (with_status (hr_status resp)
                       (result\<lparr>ar_responseHeaders := Some (marshal_header (hr_header resp)),
                               ar_responseBody := (if body \<noteq> [] then Some body else None)\<rparr>),
                     [Post req]))"

subsection \<open>One attempt down a tunnel\<close>

text \<open>\<^verbatim>\<open>json.Unmarshal\<close> into a \<^verbatim>\<open>map[string][]string\<close>: a null value is a nil slice, a null element the empty string.\<close>

fun string_elem :: "json \<Rightarrow> string option" where
  "string_elem (JString s) = Some s"
| "string_elem JNull = Some ''''"
| "string_elem _ = None"

fun strings_value :: "json \<Rightarrow> string list option option" where
  "strings_value JNull = Some None"
| "strings_value (JArray vs) = (if list_all (\<lambda>v. string_elem v \<noteq> None) vs
     then Some (Some (map (the \<circ> string_elem) vs)) else None)"
| "strings_value _ = None"

definition decode_headers :: "bytes \<Rightarrow> nheader option" where
  "decode_headers data = (case json_Unmarshal data of
     Some JNull \<Rightarrow> Some None
   | Some (JObject ms) \<Rightarrow>
       if list_all (\<lambda>m. strings_value (snd m) \<noteq> None) ms
       then Some (Some (map (\<lambda>m. (fst m, the (strings_value (snd m)))) ms)) else None
   | _ \<Rightarrow> None)"

definition deliver_error_text :: "deliver_error \<Rightarrow> string" where
  "deliver_error_text e = (case e of ErrClosed \<Rightarrow> ''tunnel connection closed'' | WriteFailed s \<Rightarrow> s | CtxDone s \<Rightarrow> s)"

definition event_frame :: "tunnel_event_row \<Rightarrow> nheader \<Rightarrow> string \<Rightarrow> EventFrame" where
  "event_frame event headers deliveryID =
     \<lparr>evf_Type = FrameEvent, evf_DeliveryID = deliveryID, evf_EventID = uuidString (te_id event),
      evf_Source = te_source_name event, evf_ContentType = text_String (te_content_type event),
      evf_Headers = headers, evf_Body = te_raw_body event\<rparr>"

text \<open>What is left once the event row is loaded.\<close>

definition push_event :: "outside \<Rightarrow> destination \<Rightarrow> (duration \<Rightarrow> EventFrame \<Rightarrow> deliver_result) \<Rightarrow> string \<Rightarrow>
    tunnel_event_row \<Rightarrow> attemptResult \<times> outgoing list" where
  "push_event env dest deliver deliveryID event =
     (case decode_headers (te_raw_headers event) of
        None \<Rightarrow> (zero_result\<lparr>ar_errMsg := Some (''decoding stored headers: '' @ o_json_error env (te_raw_headers event)),
                  ar_durationMs := elapsed env\<rparr>, [])
      | Some headers \<Rightarrow>
          let frame = event_frame event headers deliveryID;
              result = zero_result\<lparr>ar_requestHeaders := Some (marshal_nheader headers), ar_durationMs := elapsed env\<rparr>
          in (case deliver (timeout_of dest) frame of
                Inl e \<Rightarrow> result\<lparr>ar_errMsg := Some (deliver_error_text e)\<rparr>
              | Inr ack \<Rightarrow>
                  if ack_Error ack \<noteq> '''' then result\<lparr>ar_errMsg := Some (ack_Error ack)\<rparr>
                  else with_status (ack_StatusCode ack) result,
              [Push (dst_id dest) frame]))"

definition dispatchTunnel :: "outside \<Rightarrow> tunnels \<Rightarrow> destination \<Rightarrow> uuid \<Rightarrow> string \<Rightarrow> world \<Rightarrow>
    (attemptResult \<times> outgoing list) \<times> world" where
  "dispatchTunnel env tunnels dest eventID deliveryID w =
     (case Lookup tunnels (dst_id dest) of
        None \<Rightarrow> ((zero_result\<lparr>ar_errMsg := Some ''tunnel not connected'', ar_durationMs := elapsed env\<rparr>, []), w)
      | Some deliver \<Rightarrow>
          (case GetEventForTunnelDelivery eventID w of
             (Inl NoRows, w1) \<Rightarrow> ((zero_result\<lparr>ar_errMsg := Some ''event gone'', ar_durationMs := elapsed env\<rparr>, []), w1)
           | (Inl e, w1) \<Rightarrow> ((zero_result\<lparr>ar_errMsg := Some (o_db_error env e), ar_durationMs := elapsed env,
                                ar_retryable := True\<rparr>, []), w1)
           | (Inr event, w1) \<Rightarrow> (push_event env dest deliver deliveryID event, w1)))"

subsection \<open>The worker\<close>

definition deliveryStatus :: "attemptResult \<Rightarrow> int \<Rightarrow> int \<Rightarrow> string" where
  "deliveryStatus r attempt maxAttempts =
     (if ar_succeeded r then statusSucceeded
      else if \<not> ar_retryable r then statusDeadLettered
      else if attempt \<ge> maxAttempts then statusDeadLettered
      else statusFailed)"

definition recordAttempt :: "uuid \<Rightarrow> string \<Rightarrow> attemptResult \<Rightarrow> unit dbm" where
  "recordAttempt deliveryID status r = inTx
     (bind (RecordDeliveryOutcome deliveryID status) (\<lambda>attemptNumber.
      InsertDeliveryAttempt \<lparr>ia_delivery = deliveryID, ia_number = attemptNumber,
        ia_request_headers = ar_requestHeaders r, ia_status_code = ar_statusCode r,
        ia_response_headers = ar_responseHeaders r, ia_response_body = ar_responseBody r,
        ia_error = ar_errMsg r, ia_duration_ms = ar_durationMs r\<rparr>))"

text \<open>
  What \<^verbatim>\<open>Work\<close> returns: nil, \<^verbatim>\<open>river.JobSnooze\<close>, \<^verbatim>\<open>river.JobCancel\<close> with its message, or an error, on
  which River retries the job at the time \<^verbatim>\<open>NextRetry\<close> gives, until its attempts are used up.
\<close>

datatype work_error = LoadDelivery db_error | LoadDestination db_error | LoadEvent db_error
  | RecordAttempt db_error | DeliveryFailed string

datatype work_result = Completed | Snoozed duration | Cancelled string | Errored work_error

record worker_state =
  ws_world :: world
  ws_pacer :: pacer
  ws_sent :: "outgoing list"

text \<open>The end of \<^verbatim>\<open>Work\<close>, from the attempt's result on.\<close>

definition work_verdict :: "string \<Rightarrow> string \<Rightarrow> attemptResult \<Rightarrow> work_result" where
  "work_verdict deliveryID url r =
     (if ar_succeeded r then Completed
      else if \<not> ar_retryable r
      then Cancelled (''delivery '' @ deliveryID @ '' to '' @ url @ '' dead-lettered: '' @ text_String (ar_errMsg r))
      else Errored (DeliveryFailed (''delivery '' @ deliveryID @ '' to '' @ url @ '' failed: '' @ text_String (ar_errMsg r))))"

definition finish_attempt :: "delivery_job \<Rightarrow> uuid \<Rightarrow> destination \<Rightarrow> attemptResult \<times> outgoing list \<Rightarrow>
    worker_state \<Rightarrow> work_result \<times> worker_state" where
  "finish_attempt job deliveryID dest out s =
     (let s1 = s\<lparr>ws_sent := ws_sent s @ snd out\<rparr>;
          status = deliveryStatus (fst out) (dj_attempt job) (dj_max_attempts job)
      in case recordAttempt deliveryID status (fst out) (ws_world s1) of
           (Inl e, w) \<Rightarrow> (Errored (RecordAttempt e), s1\<lparr>ws_world := w\<rparr>)
         | (Inr u, w) \<Rightarrow> (work_verdict (da_delivery_id (dj_args job)) (dst_url dest) (fst out), s1\<lparr>ws_world := w\<rparr>))"

text \<open>The choice of the transport.\<close>

definition attempt_delivery :: "outside \<Rightarrow> tunnels \<Rightarrow> delivery_job \<Rightarrow> delivery \<Rightarrow> destination \<Rightarrow>
    worker_state \<Rightarrow> work_result \<times> worker_state" where
  "attempt_delivery env tunnels job delivery dest s =
     (if IsURL (dst_url dest)
      then (case dispatchTunnel env tunnels dest (dl_event delivery) (da_delivery_id (dj_args job)) (ws_world s) of
              (out, w) \<Rightarrow> finish_attempt job (dl_id delivery) dest out (s\<lparr>ws_world := w\<rparr>))
      else (case GetEventForDelivery (dl_event delivery) (ws_world s) of
              (Inl NoRows, w) \<Rightarrow> (Completed, s\<lparr>ws_world := w\<rparr>)
            | (Inl e, w) \<Rightarrow> (Errored (LoadEvent e), s\<lparr>ws_world := w\<rparr>)
            | (Inr event, w) \<Rightarrow> finish_attempt job (dl_id delivery) dest
                (dispatch env dest event (da_delivery_id (dj_args job))) (s\<lparr>ws_world := w\<rparr>)))"

text \<open>The pause and the pacing, once the destination is known.\<close>

definition pace_delivery :: "outside \<Rightarrow> tunnels \<Rightarrow> delivery_job \<Rightarrow> delivery \<Rightarrow> destination \<Rightarrow>
    worker_state \<Rightarrow> work_result \<times> worker_state" where
  "pace_delivery env tunnels job delivery dest s =
     (if dst_paused_at dest \<noteq> None then (Snoozed pausedSnoozeInterval, s)
      else (let rps = (case dst_rate_limit dest of None \<Rightarrow> 0 | Some r \<Rightarrow> r);
                now = w_now (ws_world s);
                (wait, p) = pacer_reserve (dst_id dest) rps now now (ws_pacer s);
                s1 = s\<lparr>ws_pacer := p\<rparr>
            in if wait > 0 then (Snoozed wait, s1) else attempt_delivery env tunnels job delivery dest s1))"

definition Work :: "outside \<Rightarrow> tunnels \<Rightarrow> delivery_job \<Rightarrow> worker_state \<Rightarrow> work_result \<times> worker_state" where
  "Work env tunnels job s =
     (case o_Scan env (da_delivery_id (dj_args job)) of
        None \<Rightarrow> (Completed, s)
      | Some deliveryID \<Rightarrow>
          (case GetDelivery deliveryID (ws_world s) of
             (Inl NoRows, w) \<Rightarrow> (Completed, s\<lparr>ws_world := w\<rparr>)
           | (Inl e, w) \<Rightarrow> (Errored (LoadDelivery e), s\<lparr>ws_world := w\<rparr>)
           | (Inr delivery, w) \<Rightarrow>
               if dl_status delivery = statusSucceeded then (Completed, s\<lparr>ws_world := w\<rparr>)
               else (case GetDestination (dl_destination delivery) (dl_tenant delivery) w of
                       (Inl NoRows, w1) \<Rightarrow> (Completed, s\<lparr>ws_world := w1\<rparr>)
                     | (Inl e, w1) \<Rightarrow> (Errored (LoadDestination e), s\<lparr>ws_world := w1\<rparr>)
                     | (Inr dest, w1) \<Rightarrow> pace_delivery env tunnels job delivery dest (s\<lparr>ws_world := w1\<rparr>))))"

subsection \<open>What a job may send\<close>

text \<open>A message that carries the payload of an event to a destination, under the delivery's id.\<close>

fun carries :: "outgoing \<Rightarrow> destination \<Rightarrow> event \<Rightarrow> string \<Rightarrow> bool" where
  "carries (Post req) dest e deliveryID \<longleftrightarrow>
     \<not> IsURL (dst_url dest) \<and> req = delivery_request dest (ev_raw_body e) (ev_content_type e) deliveryID"
| "carries (Push did f) dest e deliveryID \<longleftrightarrow>
     IsURL (dst_url dest) \<and> did = dst_id dest \<and> evf_Type f = FrameEvent \<and> evf_DeliveryID f = deliveryID \<and>
     evf_EventID f = uuidString (ev_id e) \<and> evf_Body f = ev_raw_body e \<and>
     decode_headers (ev_raw_headers e) = Some (evf_Headers f)"

text \<open>A delivery that is due: not yet succeeded, to a destination of its tenant that is there and not paused.\<close>

definition due :: "database \<Rightarrow> delivery \<Rightarrow> destination \<Rightarrow> bool" where
  "due d x dest \<longleftrightarrow> x \<in> set (db_deliveries d) \<and> dl_status x \<noteq> ''succeeded'' \<and> dest \<in> set (db_destinations d) \<and>
     dst_id dest = dl_destination x \<and> dst_tenant dest = dl_tenant x \<and> dst_paused_at dest = None"

text \<open>
  A result that may be recorded: a success has a 2xx status code, and the kept response body is within
  the cap. The attempt made for a due delivery: its result, and at most one message.
\<close>

definition success_code :: "int option \<Rightarrow> bool" where
  "success_code c = (case c of None \<Rightarrow> False | Some n \<Rightarrow> 200 \<le> n \<and> n < 300)"

definition body_ok :: "string option \<Rightarrow> bool" where
  "body_ok b = (case b of None \<Rightarrow> True | Some s \<Rightarrow> length s \<le> maxResponseBodyBytes)"

definition result_ok :: "attemptResult \<Rightarrow> bool" where
  "result_ok r \<longleftrightarrow> (ar_succeeded r \<longrightarrow> success_code (ar_statusCode r)) \<and> body_ok (ar_responseBody r)"

definition sends :: "database \<Rightarrow> delivery \<Rightarrow> destination \<Rightarrow> string \<Rightarrow> attemptResult \<times> outgoing list \<Rightarrow> bool" where
  "sends d x dest deliveryID out \<longleftrightarrow> result_ok (fst out) \<and> (snd out = [] \<or>
     (\<exists>e \<in> set (db_events d). ev_id e = dl_event x \<and> (\<exists>m. snd out = [m] \<and> carries m dest e deliveryID)))"

lemma with_status_ok: "body_ok (ar_responseBody r) \<Longrightarrow> result_ok (with_status code r)"
  using int32_of_id [of code] by (auto simp: with_status_def result_ok_def success_code_def Let_def)

lemma zero_result_ok: "ar_succeeded zero_result = False" "ar_responseBody zero_result = None"
  by (simp_all add: zero_result_def)

lemma dispatch_ok: "result_ok (fst (dispatch env dest event deliveryID))"
  by (auto simp: dispatch_def Let_def result_ok_def [of "r\<lparr>ar_errMsg := e\<rparr>" for r e]
      result_ok_def [of "r\<lparr>ar_errMsg := e, ar_retryable := b\<rparr>" for r e b] zero_result_ok body_ok_def
      intro!: with_status_ok split: option.splits sum.splits)

lemma dispatch_sends: "snd (dispatch env dest event deliveryID) = [] \<or>
   snd (dispatch env dest event deliveryID) = [Post (delivery_request dest (fst event) (snd event) deliveryID)]"
  by (auto simp: dispatch_def Let_def split: option.splits sum.splits)

lemma failed_ok: "\<not> ar_succeeded r \<Longrightarrow> ar_responseBody r = None \<Longrightarrow> result_ok r"
  by (simp add: result_ok_def body_ok_def)

lemma push_event_ok: "result_ok (fst (push_event env dest deliver deliveryID row))"
  by (auto simp: push_event_def Let_def zero_result_ok body_ok_def
      intro!: failed_ok with_status_ok split: option.splits sum.splits)

lemma push_event_sends: "snd (push_event env dest deliver deliveryID row) = [] \<or>
   (\<exists>hs. decode_headers (te_raw_headers row) = Some hs \<and>
     snd (push_event env dest deliver deliveryID row) = [Push (dst_id dest) (event_frame row hs deliveryID)])"
  by (auto simp: push_event_def Let_def split: option.splits)

lemma GetEventForDelivery_Inr:
  assumes "GetEventForDelivery eid w = (Inr ev, w')"
  shows "\<exists>e \<in> set (db_events (w_db w)). ev_id e = eid \<and> ev = (ev_raw_body e, ev_content_type e)"
  using assms one_row_in by (fastforce simp: GetEventForDelivery_def query_Inr)

lemma GetEventForTunnelDelivery_Inr:
  assumes "GetEventForTunnelDelivery eid w = (Inr row, w')"
  shows "\<exists>e \<in> set (db_events (w_db w)). ev_id e = eid \<and> te_id row = ev_id e \<and> te_raw_headers row = ev_raw_headers e \<and>
     te_raw_body row = ev_raw_body e"
  using assms by (force simp: GetEventForTunnelDelivery_def query_Inr dest!: one_row_in)

lemma dispatchTunnel_sends:
  assumes "dispatchTunnel env tunnels dest (dl_event x) deliveryID w = (out, w')" "IsURL (dst_url dest)"
  shows "sends (w_db w) x dest deliveryID out"
proof -
  have ok: "result_ok (fst out)"
    using assms(1) by (auto simp: dispatchTunnel_def zero_result_ok intro!: failed_ok push_event_ok
        split: option.splits prod.splits sum.splits db_error.splits)
  show ?thesis
  proof (cases "snd out = []")
    case False
    then obtain deliver row where row: "GetEventForTunnelDelivery (dl_event x) w = (Inr row, w')"
      "out = push_event env dest deliver deliveryID row"
      using assms(1) by (auto simp: dispatchTunnel_def split: option.splits prod.splits sum.splits db_error.splits)
    then obtain hs where hs: "decode_headers (te_raw_headers row) = Some hs"
      "snd out = [Push (dst_id dest) (event_frame row hs deliveryID)]"
      using False push_event_sends by metis
    obtain e where "e \<in> set (db_events (w_db w))" "ev_id e = dl_event x" "te_id row = ev_id e"
      "te_raw_headers row = ev_raw_headers e" "te_raw_body row = ev_raw_body e"
      using GetEventForTunnelDelivery_Inr [OF row(1)] by blast
    with hs assms(2) ok show ?thesis unfolding sends_def by (auto simp: event_frame_def intro!: bexI [of _ e])
  qed (simp add: sends_def ok)
qed

subsection \<open>The cases of Work\<close>



text \<open>An attempt is made from a world that differs from the first only in the statements counted.\<close>

definition same_store :: "world \<Rightarrow> world \<Rightarrow> bool" where
  "same_store w w' \<longleftrightarrow> w_db w' = w_db w \<and> w_pg w' = w_pg w \<and> w_now w' = w_now w"

lemma same_store_query: "query f w = (r, w') \<Longrightarrow> same_store w w'"
  using query_db steadyD [OF steady_query] by (fastforce simp: same_store_def)

lemma same_store_trans: "same_store w w1 \<Longrightarrow> same_store w1 w2 \<Longrightarrow> same_store w w2"
  by (simp add: same_store_def)

lemma dispatchTunnel_world:
  assumes "dispatchTunnel env tunnels dest eid deliveryID w = (out, w')"
  shows "same_store w w'"
proof -
  obtain r w1 where g: "GetEventForTunnelDelivery eid w = (r, w1)" by (rule prod.exhaust)
  then have "same_store w w1" unfolding GetEventForTunnelDelivery_def by (rule same_store_query)
  moreover have "w' = w \<or> w' = w1"
    using assms g by (auto simp: dispatchTunnel_def split: option.splits sum.splits db_error.splits)
  ultimately show ?thesis by (auto simp: same_store_def)
qed

lemma attempt_delivery_cases:
  assumes "attempt_delivery env tunnels job x dest s = (r, s')"
  shows "(same_store (ws_world s) (ws_world s') \<and> ws_sent s' = ws_sent s) \<or>
    (\<exists>out w. same_store (ws_world s) w \<and> sends (w_db w) x dest (da_delivery_id (dj_args job)) out \<and>
       finish_attempt job (dl_id x) dest out (s\<lparr>ws_world := w\<rparr>) = (r, s'))"
proof (cases "IsURL (dst_url dest)")
  case True
  obtain out w where d: "dispatchTunnel env tunnels dest (dl_event x) (da_delivery_id (dj_args job)) (ws_world s) = (out, w)"
    by (rule prod.exhaust)
  with assms True have "finish_attempt job (dl_id x) dest out (s\<lparr>ws_world := w\<rparr>) = (r, s')"
    by (simp add: attempt_delivery_def)
  moreover have "sends (w_db w) x dest (da_delivery_id (dj_args job)) out"
    using dispatchTunnel_sends [OF d True] dispatchTunnel_world [OF d] by (simp add: same_store_def)
  ultimately show ?thesis using dispatchTunnel_world [OF d] by blast
next
  case False
  obtain res w where g: "GetEventForDelivery (dl_event x) (ws_world s) = (res, w)" by (rule prod.exhaust)
  then have w: "same_store (ws_world s) w" unfolding GetEventForDelivery_def by (rule same_store_query)
  show ?thesis
  proof (cases res)
    case (Inl e)
    with assms False g w show ?thesis by (auto simp: attempt_delivery_def split: db_error.splits)
  next
    case (Inr ev)
    let ?out = "dispatch env dest ev (da_delivery_id (dj_args job))"
    obtain e where "e \<in> set (db_events (w_db (ws_world s)))" "ev_id e = dl_event x" "ev = (ev_raw_body e, ev_content_type e)"
      using GetEventForDelivery_Inr g Inr by blast
    then have "sends (w_db w) x dest (da_delivery_id (dj_args job)) ?out"
      using w False dispatch_sends [of env dest ev] dispatch_ok unfolding sends_def same_store_def by fastforce
    moreover have "finish_attempt job (dl_id x) dest ?out (s\<lparr>ws_world := w\<rparr>) = (r, s')"
      using assms False g Inr by (simp add: attempt_delivery_def)
    ultimately show ?thesis using w by blast
  qed
qed

lemma pace_delivery_cases:
  assumes "pace_delivery env tunnels job x dest s = (r, s')"
  shows "(same_store (ws_world s) (ws_world s') \<and> ws_sent s' = ws_sent s) \<or>
    (\<exists>out w p. dst_paused_at dest = None \<and> same_store (ws_world s) w \<and>
       sends (w_db w) x dest (da_delivery_id (dj_args job)) out \<and>
       finish_attempt job (dl_id x) dest out (s\<lparr>ws_pacer := p, ws_world := w\<rparr>) = (r, s'))"
proof (cases "dst_paused_at dest = None")
  case True
  obtain wait p where p: "pacer_reserve (dst_id dest) (case dst_rate_limit dest of None \<Rightarrow> 0 | Some r \<Rightarrow> r)
      (w_now (ws_world s)) (w_now (ws_world s)) (ws_pacer s) = (wait, p)" by (rule prod.exhaust)
  show ?thesis
  proof (cases "wait > 0")
    case waits: True
    with True p assms have "s' = s\<lparr>ws_pacer := p\<rparr>" by (simp add: pace_delivery_def Let_def)
    then show ?thesis by (simp add: same_store_def)
  next
    case False
    with True p assms have "attempt_delivery env tunnels job x dest (s\<lparr>ws_pacer := p\<rparr>) = (r, s')"
      by (simp add: pace_delivery_def Let_def)
    from attempt_delivery_cases [OF this] True show ?thesis by auto
  qed
next
  case False
  with assms have "s' = s" by (simp add: pace_delivery_def)
  then show ?thesis by (simp add: same_store_def)
qed

text \<open>Every run of \<^verbatim>\<open>Work\<close> leaves the store alone and sends nothing, or makes one attempt for a due delivery.\<close>

lemma Work_cases:
  assumes "Work env tunnels job s = (r, s')"
  obtains (idle) "same_store (ws_world s) (ws_world s')" "ws_sent s' = ws_sent s"
  | (tried) x dest out w p where "o_Scan env (da_delivery_id (dj_args job)) = Some (dl_id x)" "due (w_db w) x dest"
      "sends (w_db w) x dest (da_delivery_id (dj_args job)) out" "same_store (ws_world s) w"
      "finish_attempt job (dl_id x) dest out (s\<lparr>ws_pacer := p, ws_world := w\<rparr>) = (r, s')"
proof (cases "o_Scan env (da_delivery_id (dj_args job))")
  case None
  with assms have "s' = s" by (simp add: Work_def)
  then show thesis using idle by (simp add: same_store_def)
next
  case (Some did)
  obtain res w1 where g: "GetDelivery did (ws_world s) = (res, w1)" by (rule prod.exhaust)
  then have w1: "same_store (ws_world s) w1" unfolding GetDelivery_def by (rule same_store_query)
  show thesis
  proof (cases "\<exists>x. res = Inr x \<and> dl_status x \<noteq> ''succeeded''")
    case False
    with assms Some g w1 show thesis
      by (intro idle) (auto simp: Work_def statusSucceeded_def split: sum.splits db_error.splits if_splits)
  next
    case True
    then obtain x where x: "res = Inr x" "dl_status x \<noteq> ''succeeded''" by blast
    then have xin: "x \<in> set (db_deliveries (w_db w1))" "dl_id x = did"
      using g w1 by (auto simp: GetDelivery_def query_Inr same_store_def dest: one_row_Inr)
    obtain res2 w2 where g2: "GetDestination (dl_destination x) (dl_tenant x) w1 = (res2, w2)" by (rule prod.exhaust)
    then have w2: "same_store w1 w2" unfolding GetDestination_def by (rule same_store_query)
    have w12: "same_store (ws_world s) w2" by (rule same_store_trans [OF w1 w2])
    show thesis
    proof (cases res2)
      case (Inl e)
      with assms Some g g2 x w12 show thesis
        by (intro idle) (auto simp: Work_def statusSucceeded_def split: db_error.splits)
    next
      case (Inr dest)
      then have din: "dest \<in> set (db_destinations (w_db w1))" "dst_id dest = dl_destination x" "dst_tenant dest = dl_tenant x"
        using g2 by (auto simp: GetDestination_def query_Inr dest: one_row_Inr)
      have run: "pace_delivery env tunnels job x dest (s\<lparr>ws_world := w2\<rparr>) = (r, s')"
        using assms Some g g2 x Inr by (simp add: Work_def statusSucceeded_def)
      from pace_delivery_cases [OF this] show thesis
      proof (elim disjE exE conjE)
        assume "same_store (ws_world (s\<lparr>ws_world := w2\<rparr>)) (ws_world s')" "ws_sent s' = ws_sent (s\<lparr>ws_world := w2\<rparr>)"
        with same_store_trans [OF w12] show thesis by (intro idle) simp_all
      next
        fix out w p
        assume p: "dst_paused_at dest = None" and w: "same_store (ws_world (s\<lparr>ws_world := w2\<rparr>)) w"
          and o: "sends (w_db w) x dest (da_delivery_id (dj_args job)) out"
          and f: "finish_attempt job (dl_id x) dest out (s\<lparr>ws_world := w2, ws_pacer := p, ws_world := w\<rparr>) = (r, s')"
        have "same_store w2 w" using w by simp
        then have "due (w_db w) x dest" "same_store (ws_world s) w"
          using w2 w12 xin x p din by (simp_all add: due_def same_store_def)
        moreover have "s\<lparr>ws_world := w2, ws_pacer := p, ws_world := w\<rparr> = s\<lparr>ws_pacer := p, ws_world := w\<rparr>" by simp
        ultimately show thesis using tried o f Some xin(2) by metis
      qed
    qed
  qed
qed

subsection \<open>Recording an attempt\<close>

text \<open>The delivery row and the attempt row that one recorded attempt leaves behind.\<close>

definition outcome :: "string \<Rightarrow> time \<Rightarrow> delivery \<Rightarrow> delivery" where
  "outcome status now x = x\<lparr>dl_status := status, dl_attempt_count := dl_attempt_count x + 1,
     dl_last_attempted_at := Some now,
     dl_dead_lettered_at := (if status = ''dead_lettered'' then Some now else dl_dead_lettered_at x),
     dl_updated_at := now\<rparr>"

definition attempt_row :: "delivery \<Rightarrow> attemptResult \<Rightarrow> time \<Rightarrow> delivery_attempt \<Rightarrow> bool" where
  "attempt_row x r now a \<longleftrightarrow> at_delivery a = dl_id x \<and> at_number a = dl_attempt_count x + 1 \<and>
     at_status_code a = ar_statusCode r \<and> at_response_body a = ar_responseBody r \<and> at_error a = ar_errMsg r \<and>
     at_duration_ms a = ar_durationMs r \<and> at_attempted_at a = now"

definition recorded :: "uuid \<Rightarrow> string \<Rightarrow> attemptResult \<Rightarrow> time \<Rightarrow> database \<Rightarrow> database \<Rightarrow> bool" where
  "recorded did status r now d d' \<longleftrightarrow>
     (\<exists>x a. x \<in> set (db_deliveries d) \<and> dl_id x = did \<and> attempt_row x r now a \<and>
        d' = d\<lparr>db_deliveries := update_where (\<lambda>y. dl_id y = did) (outcome status now) (db_deliveries d),
              db_attempts := db_attempts d @ [a]\<rparr>)"

lemma filter_Cons_in: "filter P xs = x # ys \<Longrightarrow> x \<in> set xs \<and> P x"
  by (metis (no_types, lifting) filter_set list.set_intros(1) mem_Collect_eq set_filter)

lemma recordAttempt_Inr:
  assumes "recordAttempt did status r w = (Inr u, w')"
  shows "recorded did status r (w_now w) (w_db w) (w_db w')" "w_now w' = w_now w"
proof -
  obtain x xs where x: "filter (\<lambda>y. dl_id y = did) (db_deliveries (w_db w)) = x # xs"
    using assms by (auto simp: recordAttempt_def inTx_Inr bind_Inr RecordDeliveryOutcome_def exec_Inr split: list.splits)
  define a where "a = last (db_attempts (w_db w'))"
  have "w_db w' = (w_db w)\<lparr>db_deliveries := update_where (\<lambda>y. dl_id y = did) (outcome status (w_now w)) (db_deliveries (w_db w)),
              db_attempts := db_attempts (w_db w) @ [a]\<rparr> \<and> attempt_row x r (w_now w) a \<and> w_now w' = w_now w"
    using assms x filter_Cons_in [OF x]
    by (auto simp: recordAttempt_def inTx_Inr bind_Inr RecordDeliveryOutcome_def InsertDeliveryAttempt_def exec_Inr
        outcome_def [abs_def] a_def attempt_row_def split: list.splits if_splits option.splits prod.splits)
  with filter_Cons_in [OF x] show "recorded did status r (w_now w) (w_db w) (w_db w')" "w_now w' = w_now w"
    unfolding recorded_def by blast+
qed

lemma recordAttempt_Inl: "recordAttempt did status r w = (Inl e, w') \<Longrightarrow> w_db w' = w_db w"
  unfolding recordAttempt_def by (rule inTx_Inl_db)

lemma finish_attempt_cases:
  assumes "finish_attempt job did dest out s = (r, s')"
  shows "ws_sent s' = ws_sent s @ snd out"
    and "(w_db (ws_world s') = w_db (ws_world s) \<and> (\<exists>e. r = Errored (RecordAttempt e))) \<or>
      (recorded did (deliveryStatus (fst out) (dj_attempt job) (dj_max_attempts job)) (fst out)
         (w_now (ws_world s)) (w_db (ws_world s)) (w_db (ws_world s')) \<and>
       r = work_verdict (da_delivery_id (dj_args job)) (dst_url dest) (fst out))"
  using assms recordAttempt_Inr(1) recordAttempt_Inl
  by (auto simp: finish_attempt_def Let_def split: prod.splits sum.splits)

text \<open>
  C14. The worker sends only what is due: a run of a delivery job sends nothing or exactly one message, and
  it sends one only for a delivery that is stored and has not succeeded, to a destination of the same
  tenant that exists and is not paused; the message is a POST with the event's raw body, its content
  type and the delivery's id in \<^verbatim>\<open>Webhook-Id\<close>, or, for a tunnel URL, a frame with the raw body and headers.
\<close>

theorem Work_sends_only_due:
  "\<exists>out. ws_sent (snd (Work env tunnels job s)) = ws_sent s @ out \<and>
     (out = [] \<or>
      (\<exists>x dest e m. out = [m] \<and> o_Scan env (da_delivery_id (dj_args job)) = Some (dl_id x) \<and>
         due (w_db (ws_world s)) x dest \<and> e \<in> set (db_events (w_db (ws_world s))) \<and> ev_id e = dl_event x \<and>
         carries m dest e (da_delivery_id (dj_args job))))"
proof -
  obtain r s' where run: "Work env tunnels job s = (r, s')" by (rule prod.exhaust)
  from run show ?thesis
  proof (cases rule: Work_cases)
    case idle
    with run show ?thesis by simp
  next
    case (tried x dest out w p)
    have sent: "ws_sent s' = ws_sent s @ snd out" using finish_attempt_cases(1) [OF tried(5)] by simp
    show ?thesis
      by (rule exI [of _ "snd out"]) (use run sent tried in \<open>auto simp: sends_def same_store_def\<close>)
  qed
qed

text \<open>
  C15. The attempt history and the delivery status never disagree: a run of a delivery job either leaves the
  database as it was (and then it sent nothing, or reports that the outcome could not be recorded, so
  that the job is retried), or it records exactly one attempt, numbered one above the delivery's count, with
  the status that \<^verbatim>\<open>deliveryStatus\<close> gives its result, in one transaction, and answers River accordingly:
  nil for a success, cancel for a permanent failure, an error for a retryable one.
\<close>

theorem Work_records_outcome:
  "case Work env tunnels job s of (r, s') \<Rightarrow>
     (w_db (ws_world s') = w_db (ws_world s) \<and> (ws_sent s' = ws_sent s \<or> (\<exists>e. r = Errored (RecordAttempt e)))) \<or>
     (\<exists>did url res. o_Scan env (da_delivery_id (dj_args job)) = Some did \<and>
        recorded did (deliveryStatus res (dj_attempt job) (dj_max_attempts job)) res (w_now (ws_world s))
          (w_db (ws_world s)) (w_db (ws_world s')) \<and>
        r = work_verdict (da_delivery_id (dj_args job)) url res)"
proof -
  obtain r s' where run: "Work env tunnels job s = (r, s')" by (rule prod.exhaust)
  from run show ?thesis
  proof (cases rule: Work_cases)
    case idle
    with run show ?thesis by (simp add: same_store_def)
  next
    case (tried x dest out w p)
    have w: "w_db w = w_db (ws_world s)" "w_now w = w_now (ws_world s)"
      using tried(4) by (simp_all add: same_store_def)
    from finish_attempt_cases(2) [OF tried(5)] show ?thesis unfolding run using tried(1) w by auto
  qed
qed

subsection \<open>The history of a delivery\<close>

definition attempts_of :: "database \<Rightarrow> uuid \<Rightarrow> delivery_attempt list" where
  "attempts_of d did = filter (\<lambda>a. at_delivery a = did) (db_attempts d)"

text \<open>
  The attempts of a delivery are numbered 1, 2, ... up to its count; a delivery is marked succeeded only
  if its last attempt got a 2xx answer; no kept response body is longer than the cap.
\<close>

definition history_ok :: "delivery \<Rightarrow> delivery_attempt list \<Rightarrow> bool" where
  "history_ok x as \<longleftrightarrow>
     map at_number as = map int [1..<Suc (length as)] \<and> dl_attempt_count x = int (length as) \<and>
     (dl_status x = ''succeeded'' \<longrightarrow> as \<noteq> [] \<and> success_code (at_status_code (last as))) \<and>
     list_all (\<lambda>a. body_ok (at_response_body a)) as"

definition deliveries_ok :: "database \<Rightarrow> bool" where
  "deliveries_ok d \<longleftrightarrow> distinct (map dl_id (db_deliveries d)) \<and>
     (\<forall>x \<in> set (db_deliveries d). history_ok x (attempts_of d (dl_id x))) \<and>
     (\<forall>a \<in> set (db_attempts d). at_delivery a \<in> dl_id ` set (db_deliveries d))"

lemma history_ok_next:
  assumes "history_ok x as" "attempt_row x r now a" "result_ok r" "status = ''succeeded'' \<longrightarrow> ar_succeeded r"
  shows "history_ok (outcome status now x) (as @ [a])"
  using assms by (auto simp: history_ok_def attempt_row_def result_ok_def outcome_def)

lemma dl_id_outcome [simp]: "dl_id (outcome status now x) = dl_id x"
  by (simp add: outcome_def)

lemma recorded_ok:
  assumes "recorded did status r now d d'" "deliveries_ok d" "result_ok r" "status = ''succeeded'' \<longrightarrow> ar_succeeded r"
  shows "deliveries_ok d'"
proof -
  obtain x a where x: "x \<in> set (db_deliveries d)" "dl_id x = did" "attempt_row x r now a"
    and d': "d' = d\<lparr>db_deliveries := update_where (\<lambda>y. dl_id y = did) (outcome status now) (db_deliveries d),
              db_attempts := db_attempts d @ [a]\<rparr>"
    using assms(1) by (auto simp: recorded_def)
  have ids: "map dl_id (db_deliveries d') = map dl_id (db_deliveries d)"
    unfolding d' by (simp add: map_update_where)
  have dist: "distinct (map dl_id (db_deliveries d))" using assms(2) by (simp add: deliveries_ok_def)
  have att: "attempts_of d' k = attempts_of d k @ (if k = did then [a] else [])" for k
    using x by (auto simp: attempts_of_def d' attempt_row_def)
  have "history_ok y (attempts_of d' (dl_id y))" if "y \<in> set (db_deliveries d')" for y
  proof -
    have "y \<in> set (update_where (\<lambda>y. dl_id y = did) (outcome status now) (db_deliveries d))" using that by (simp add: d')
    then show ?thesis
    proof (cases rule: in_set_update_whereE)
      case (1 z)
      then have "z = x" using dist x by (metis distinct_map inj_onD)
      then show ?thesis
        using 1 x assms(2-4) history_ok_next [of x] by (auto simp: att deliveries_ok_def)
    next
      case 2
      then show ?thesis using assms(2) by (simp add: att deliveries_ok_def)
    qed
  qed
  moreover have "at_delivery b \<in> dl_id ` set (db_deliveries d')" if "b \<in> set (db_attempts d')" for b
  proof -
    have "b \<in> set (db_attempts d) \<or> b = a" using that by (auto simp: d')
    then show ?thesis
      using x assms(2) unfolding map_eq_set [OF ids] by (auto simp: deliveries_ok_def attempt_row_def)
  qed
  ultimately show ?thesis using dist ids by (simp add: deliveries_ok_def)
qed

text \<open>
  The history invariant survives every delivery job, whatever the destination answers and whichever
  statement fails: attempts stay numbered 1 to the delivery's attempt count without gaps, a delivery
  shown as succeeded has a last attempt with a 2xx status, and no stored response exceeds 64 KiB.
\<close>

theorem Work_keeps_history:
  assumes "deliveries_ok (w_db (ws_world s))"
  shows "deliveries_ok (w_db (ws_world (snd (Work env tunnels job s))))"
proof -
  obtain r s' where run: "Work env tunnels job s = (r, s')" by (rule prod.exhaust)
  from run show ?thesis
  proof (cases rule: Work_cases)
    case idle
    with run assms show ?thesis by (simp add: same_store_def)
  next
    case (tried x dest out w p)
    have ok: "result_ok (fst out)" "w_db w = w_db (ws_world s)" using tried(3,4) by (simp_all add: sends_def same_store_def)
    have "deliveryStatus (fst out) (dj_attempt job) (dj_max_attempts job) = ''succeeded'' \<longrightarrow> ar_succeeded (fst out)"
      by (simp add: deliveryStatus_def statusSucceeded_def statusDeadLettered_def statusFailed_def)
    with finish_attempt_cases(2) [OF tried(5)] recorded_ok assms ok show ?thesis unfolding run by auto
  qed
qed

subsection \<open>The whole of a successful run\<close>

lemma filter_unique:
  assumes "distinct (map f xs)" "x \<in> set xs" "P x"
  shows "filter (\<lambda>y. f y = f x \<and> P y) xs = [x]"
  using assms by (induction xs) (auto simp: filter_empty_conv image_iff)

lemma filter_key_unique: "distinct (map f xs) \<Longrightarrow> x \<in> set xs \<Longrightarrow> filter (\<lambda>y. f y = f x) xs = [x]"
  using filter_unique [of f xs x "\<lambda>_. True"] by simp

text \<open>A PostgreSQL that answers every statement, with fresh ids for attempts.\<close>

definition store_up :: "world \<Rightarrow> bool" where
  "store_up w \<longleftrightarrow> (\<forall>n. \<not> pg_fault (w_pg w) n) \<and> (\<forall>n. pg_uuid (w_pg w) n \<notin> at_id ` set (db_attempts (w_db w)))"

definition storable :: "postgres \<Rightarrow> attemptResult \<Rightarrow> bool" where
  "storable pg r \<longleftrightarrow> jsonb_opt pg (ar_requestHeaders r) \<noteq> None \<and> jsonb_opt pg (ar_responseHeaders r) \<noteq> None \<and>
     text_opt pg (ar_responseBody r) \<and> text_opt pg (ar_errMsg r)"

lemma next_number_free:
  assumes "deliveries_ok d" "x \<in> set (db_deliveries d)"
  shows "\<not> list_ex (\<lambda>a. at_delivery a = dl_id x \<and> at_number a = dl_attempt_count x + 1) (db_attempts d)"
proof
  assume "list_ex (\<lambda>a. at_delivery a = dl_id x \<and> at_number a = dl_attempt_count x + 1) (db_attempts d)"
  then obtain a where a: "a \<in> set (attempts_of d (dl_id x))" "at_number a = dl_attempt_count x + 1"
    by (auto simp: list_ex_iff attempts_of_def)
  have h: "history_ok x (attempts_of d (dl_id x))" using assms by (simp add: deliveries_ok_def)
  then have "at_number ` set (attempts_of d (dl_id x)) = int ` set [1..<Suc (length (attempts_of d (dl_id x)))]"
    unfolding history_ok_def by (metis set_map)
  then have "at_number a \<in> int ` {1..<Suc (length (attempts_of d (dl_id x)))}" using a(1) by (metis imageI set_upt)
  then have "at_number a \<le> int (length (attempts_of d (dl_id x)))" by auto
  with a(2) h show False by (simp add: history_ok_def)
qed

lemma recordAttempt_succeeds:
  assumes up: "store_up w" and ok: "deliveries_ok (w_db w)" and x: "x \<in> set (db_deliveries (w_db w))"
    and status: "status \<in> set delivery_statuses" and r: "storable (w_pg w) r"
  shows "\<exists>w'. recordAttempt (dl_id x) status r w = (Inr (), w')"
proof -
  have f: "filter (\<lambda>y. dl_id y = dl_id x) (db_deliveries (w_db w)) = [x]"
    using ok x filter_key_unique by (auto simp: deliveries_ok_def)
  have ids: "dl_id x \<in> dl_id ` set (update_where (\<lambda>y. dl_id y = dl_id x) g (db_deliveries (w_db w)))"
    if "\<And>y. dl_id (g y) = dl_id y" for g
    by (subst map_eq_set [OF map_update_where]) (use x that in simp_all)
  show ?thesis
    using up r next_number_free [OF ok x] status
    unfolding recordAttempt_def inTx_def bind_def RecordDeliveryOutcome_def InsertDeliveryAttempt_def exec_def
      store_up_def storable_def
    by (auto simp: f ids split: option.splits prod.splits sum.splits)
qed

text \<open>The reference decision table for an HTTP status code on a given attempt.\<close>

definition status_decision :: "int \<Rightarrow> int \<Rightarrow> int \<Rightarrow> string" where
  "status_decision code attempt maxAttempts =
     (if 200 \<le> code \<and> code < 300 then ''succeeded''
      else if (code \<in> {408, 429} \<or> 500 \<le> code) \<and> attempt < maxAttempts then ''failed''
      else ''dead_lettered'')"

definition kept_body :: "http_response \<Rightarrow> string option" where
  "kept_body resp = (if hr_body resp = [] then None else Some (take maxResponseBodyBytes (hr_body resp)))"

lemma dispatch_answered:
  assumes "o_NewRequest env (dst_url dest) = None"
    "o_Do env (timeout_of dest) (delivery_request dest (fst event) (snd event) deliveryID) = Inr resp"
  shows "\<exists>r. dispatch env dest event deliveryID =
      (with_status (hr_status resp) r, [Post (delivery_request dest (fst event) (snd event) deliveryID)]) \<and>
    ar_responseBody r = kept_body resp \<and> ar_errMsg r = None \<and> \<not> ar_retryable r \<and>
    ar_requestHeaders r = Some (marshal_header (ho_header (delivery_request dest (fst event) (snd event) deliveryID))) \<and>
    ar_responseHeaders r = Some (marshal_header (hr_header resp))"
  by (rule exI [of _ "zero_result\<lparr>ar_requestHeaders := Some (marshal_header (ho_header (delivery_request dest (fst event) (snd event) deliveryID))),
      ar_durationMs := elapsed env, ar_responseHeaders := Some (marshal_header (hr_header resp)), ar_responseBody := kept_body resp\<rparr>"])
    (use assms in \<open>simp add: dispatch_def Let_def kept_body_def zero_result_def maxResponseBodyBytes_def\<close>)

lemma deliveryStatus_code:
  "deliveryStatus (with_status code r) attempt maxAttempts = status_decision code attempt maxAttempts" if "\<not> ar_retryable r"
  using that by (auto simp: deliveryStatus_def with_status_def status_decision_def isRetryableStatus_def Let_def
    statusSucceeded_def statusDeadLettered_def statusFailed_def)

lemma status_decision_valid: "status_decision code attempt maxAttempts \<in> set delivery_statuses"
  by (simp add: status_decision_def delivery_statuses_def)

lemma Work_reaches_dispatch:
  assumes "store_up (ws_world s)" "o_Scan env (da_delivery_id (dj_args job)) = Some (dl_id x)"
    "due (w_db (ws_world s)) x dest" "dst_rate_limit dest = None" "\<not> IsURL (dst_url dest)"
    "distinct (map dl_id (db_deliveries (w_db (ws_world s))))"
    "distinct (map dst_id (db_destinations (w_db (ws_world s))))" "distinct (map ev_id (db_events (w_db (ws_world s))))"
    "e \<in> set (db_events (w_db (ws_world s)))" "ev_id e = dl_event x"
  shows "\<exists>w. same_store (ws_world s) w \<and> Work env tunnels job s =
    finish_attempt job (dl_id x) dest (dispatch env dest (ev_raw_body e, ev_content_type e) (da_delivery_id (dj_args job)))
      (s\<lparr>ws_world := w\<rparr>)"
proof -
  let ?w = "ws_world s"
  have up: "\<not> pg_fault (w_pg ?w) n" for n using assms(1) by (simp add: store_up_def)
  have "filter (\<lambda>y. dl_id y = dl_id x) (db_deliveries (w_db ?w)) = [x]"
    using assms(3,6) filter_key_unique by (auto simp: due_def)
  then have 1: "GetDelivery (dl_id x) ?w = (Inr x, tick ?w)"
    using up by (simp add: GetDelivery_def query_Inr)
  have "filter (\<lambda>y. dst_id y = dst_id dest \<and> dst_tenant y = dl_tenant x) (db_destinations (w_db ?w)) = [dest]"
    using assms(3,7) filter_unique [of dst_id _ dest "\<lambda>y. dst_tenant y = dl_tenant x"] by (auto simp: due_def)
  then have 2: "GetDestination (dl_destination x) (dl_tenant x) (tick ?w) = (Inr dest, tick (tick ?w))"
    using up assms(3) by (simp add: GetDestination_def query_Inr due_def)
  have "filter (\<lambda>y. ev_id y = ev_id e) (db_events (w_db ?w)) = [e]"
    by (rule filter_key_unique [OF assms(8,9)])
  then have 3: "GetEventForDelivery (dl_event x) (tick (tick ?w)) = (Inr (ev_raw_body e, ev_content_type e), tick (tick (tick ?w)))"
    using up assms(10) by (simp add: GetEventForDelivery_def query_Inr)
  have "Work env tunnels job s =
    finish_attempt job (dl_id x) dest (dispatch env dest (ev_raw_body e, ev_content_type e) (da_delivery_id (dj_args job)))
      (s\<lparr>ws_world := tick (tick (tick ?w))\<rparr>)"
    using assms(2-5) 1 2 3
    by (simp add: Work_def pace_delivery_def attempt_delivery_def pacer_reserve_def due_def statusSucceeded_def Let_def)
  then show ?thesis by (intro exI [of _ "tick (tick (tick ?w))"]) (simp add: same_store_def)
qed

lemma Work_answered:
  assumes "store_up (ws_world s)" "deliveries_ok (w_db (ws_world s))"
    and "o_Scan env (da_delivery_id (dj_args job)) = Some (dl_id x)" "due (w_db (ws_world s)) x dest"
    and "distinct (map dst_id (db_destinations (w_db (ws_world s))))" "distinct (map ev_id (db_events (w_db (ws_world s))))"
    and "e \<in> set (db_events (w_db (ws_world s)))" "ev_id e = dl_event x"
    and "dst_rate_limit dest = None" "\<not> IsURL (dst_url dest)" "o_NewRequest env (dst_url dest) = None"
    and "req = delivery_request dest (ev_raw_body e) (ev_content_type e) (da_delivery_id (dj_args job))"
    and "o_Do env (timeout_of dest) req = Inr resp" "0 \<le> hr_status resp" "hr_status resp < 2 ^ 31"
    and "pg_jsonb (w_pg (ws_world s)) (marshal_header (ho_header req)) \<noteq> None"
    and "pg_jsonb (w_pg (ws_world s)) (marshal_header (hr_header resp)) \<noteq> None"
    and "text_opt (w_pg (ws_world s)) (kept_body resp)" "pg_text (w_pg (ws_world s)) (StatusText (hr_status resp))"
    and "Work env tunnels job s = (r, s')"
  shows "ws_sent s' = ws_sent s @ [Post req] \<and>
    (\<exists>y a. y \<in> set (db_deliveries (w_db (ws_world s'))) \<and> dl_id y = dl_id x \<and>
       dl_status y = status_decision (hr_status resp) (dj_attempt job) (dj_max_attempts job) \<and>
       attempts_of (w_db (ws_world s')) (dl_id x) = attempts_of (w_db (ws_world s)) (dl_id x) @ [a] \<and>
       at_status_code a = Some (hr_status resp) \<and> at_response_body a = kept_body resp) \<and>
    (r = Completed \<longleftrightarrow> 200 \<le> hr_status resp \<and> hr_status resp < 300) \<and>
    ((\<exists>msg. r = Errored (DeliveryFailed msg)) \<longleftrightarrow> isRetryableStatus (hr_status resp))"
proof -
  let ?id = "da_delivery_id (dj_args job)" and ?ev = "(ev_raw_body e, ev_content_type e)"
  obtain r0 where r0: "dispatch env dest ?ev ?id = (with_status (hr_status resp) r0, [Post req])"
    "ar_responseBody r0 = kept_body resp" "ar_errMsg r0 = None" "\<not> ar_retryable r0"
    "ar_requestHeaders r0 = Some (marshal_header (ho_header req))" "ar_responseHeaders r0 = Some (marshal_header (hr_header resp))"
    using dispatch_answered [of env dest ?ev ?id resp] assms(11-13) by auto
  define res where "res = with_status (hr_status resp) r0"
  have dec: "deliveryStatus res (dj_attempt job) (dj_max_attempts job) =
      status_decision (hr_status resp) (dj_attempt job) (dj_max_attempts job)"
    unfolding res_def using r0(4) by (rule deliveryStatus_code)
  have stor: "storable (w_pg (ws_world s)) res"
    using r0 assms(16-19) by (auto simp: res_def with_status_def storable_def jsonb_opt_def text_opt_def Let_def split: option.splits)
  obtain w where w: "same_store (ws_world s) w"
    "Work env tunnels job s = finish_attempt job (dl_id x) dest (res, [Post req]) (s\<lparr>ws_world := w\<rparr>)"
    using Work_reaches_dispatch [OF assms(1,3,4,9,10) _ assms(5,6,7,8), of tunnels] assms(2) r0(1)
    by (auto simp: deliveries_ok_def res_def)
  have "store_up w" "deliveries_ok (w_db w)" "x \<in> set (db_deliveries (w_db w))" "storable (w_pg w) res"
    using w(1) assms(1,2,4) stor by (simp_all add: same_store_def store_up_def due_def)
  then obtain w' where w': "recordAttempt (dl_id x) (status_decision (hr_status resp) (dj_attempt job) (dj_max_attempts job)) res w = (Inr (), w')"
    using recordAttempt_succeeds status_decision_valid by blast
  have fin: "r = work_verdict ?id (dst_url dest) res" "s' = s\<lparr>ws_sent := ws_sent s @ [Post req], ws_world := w'\<rparr>"
    using assms(20) unfolding w(2) by (simp_all add: finish_attempt_def dec w' Let_def)
  obtain x2 a where a: "x2 \<in> set (db_deliveries (w_db w))" "dl_id x2 = dl_id x" "attempt_row x2 res (w_now w) a"
    "w_db w' = (w_db w)\<lparr>db_deliveries := update_where (\<lambda>y. dl_id y = dl_id x)
       (outcome (status_decision (hr_status resp) (dj_attempt job) (dj_max_attempts job)) (w_now w)) (db_deliveries (w_db w)),
       db_attempts := db_attempts (w_db w) @ [a]\<rparr>"
    using recordAttempt_Inr(1) [OF w'] unfolding recorded_def by blast
  let ?y = "outcome (status_decision (hr_status resp) (dj_attempt job) (dj_max_attempts job)) (w_now w) x"
  have "?y \<in> set (db_deliveries (w_db w'))" using assms(4) w(1) a(4) by (simp add: set_update_where due_def same_store_def)
  moreover have "attempts_of (w_db w') (dl_id x) = attempts_of (w_db (ws_world s)) (dl_id x) @ [a]"
    using a w(1) by (simp add: attempts_of_def attempt_row_def same_store_def)
  moreover have "at_status_code a = Some (hr_status resp)" "at_response_body a = kept_body resp"
    using a(3) r0(2) assms(14,15) int32_of_id [of "hr_status resp"]
    by (simp_all add: attempt_row_def res_def with_status_def Let_def)
  moreover have "r = Completed \<longleftrightarrow> 200 \<le> hr_status resp \<and> hr_status resp < 300"
    "(\<exists>msg. r = Errored (DeliveryFailed msg)) \<longleftrightarrow> isRetryableStatus (hr_status resp)"
    using r0(4) by (auto simp: fin(1) work_verdict_def res_def with_status_def isRetryableStatus_def Let_def)
  ultimately show ?thesis unfolding fin(2)
    by (intro conjI exI [of _ ?y] exI [of _ a]) (simp_all add: outcome_def)
qed

text \<open>
  C17. A due HTTP delivery that is answered is delivered and recorded as documented: with the store up, the
  worker POSTs the stored body once, and the status follows the code: 2xx succeeds; 408, 429 and 5xx
  fail and are retried while attempts are left; everything else, and the last attempt, is dead-lettered.
  The new attempt keeps the code and at most 64 KiB of the answer, and River is told to complete, to cancel
  or to retry the job.
\<close>

theorem Work_http_answered:
  assumes "store_up (ws_world s)" "deliveries_ok (w_db (ws_world s))"
    and "o_Scan env (da_delivery_id (dj_args job)) = Some (dl_id x)" "due (w_db (ws_world s)) x dest"
    and "distinct (map dst_id (db_destinations (w_db (ws_world s))))" "distinct (map ev_id (db_events (w_db (ws_world s))))"
    and "e \<in> set (db_events (w_db (ws_world s)))" "ev_id e = dl_event x"
    and "dst_rate_limit dest = None" "\<not> IsURL (dst_url dest)" "o_NewRequest env (dst_url dest) = None"
    and "req = delivery_request dest (ev_raw_body e) (ev_content_type e) (da_delivery_id (dj_args job))"
    and "o_Do env (timeout_of dest) req = Inr resp" "0 \<le> hr_status resp" "hr_status resp < 2 ^ 31"
    and "pg_jsonb (w_pg (ws_world s)) (marshal_header (ho_header req)) \<noteq> None"
    and "pg_jsonb (w_pg (ws_world s)) (marshal_header (hr_header resp)) \<noteq> None"
    and "text_opt (w_pg (ws_world s)) (kept_body resp)" "pg_text (w_pg (ws_world s)) (StatusText (hr_status resp))"
    and "Work env tunnels job s = (r, s')"
  shows "ws_sent s' = ws_sent s @ [Post req] \<and>
    (\<exists>y a. y \<in> set (db_deliveries (w_db (ws_world s'))) \<and> dl_id y = dl_id x \<and>
       dl_status y = status_decision (hr_status resp) (dj_attempt job) (dj_max_attempts job) \<and>
       attempts_of (w_db (ws_world s')) (dl_id x) = attempts_of (w_db (ws_world s)) (dl_id x) @ [a] \<and>
       at_status_code a = Some (hr_status resp) \<and> at_response_body a = kept_body resp) \<and>
    (r = Completed \<longleftrightarrow> 200 \<le> hr_status resp \<and> hr_status resp < 300) \<and>
    ((\<exists>msg. r = Errored (DeliveryFailed msg)) \<longleftrightarrow> isRetryableStatus (hr_status resp))"
  using assms by (rule Work_answered)





subsection \<open>A delivery that succeeded is not sent again\<close>

text \<open>A worker runs any jobs in any order, each possibly more than once, as River may redeliver them.\<close>

primrec run_jobs :: "(outside \<times> tunnels \<times> delivery_job) list \<Rightarrow> worker_state \<Rightarrow> worker_state" where
  "run_jobs [] s = s"
| "run_jobs (j # js) s = (case j of (env, tunnels, job) \<Rightarrow> run_jobs js (snd (Work env tunnels job s)))"

definition succeeded :: "database \<Rightarrow> uuid \<Rightarrow> bool" where
  "succeeded d did \<longleftrightarrow> distinct (map dl_id (db_deliveries d)) \<and>
     list_ex (\<lambda>x. dl_id x = did \<and> dl_status x = ''succeeded'') (db_deliveries d)"

lemma due_not_succeeded: "due d x dest \<Longrightarrow> succeeded d did \<Longrightarrow> dl_id x \<noteq> did"
  by (auto simp: due_def succeeded_def list_ex_iff distinct_map dest: inj_onD)

lemma recorded_succeeded:
  assumes "recorded k status r now d d'" "succeeded d did" "k \<noteq> did"
  shows "succeeded d' did"
proof -
  obtain a where d': "d' = d\<lparr>db_deliveries := update_where (\<lambda>y. dl_id y = k) (outcome status now) (db_deliveries d),
      db_attempts := db_attempts d @ [a]\<rparr>"
    using assms(1) by (auto simp: recorded_def)
  have "map dl_id (db_deliveries d') = map dl_id (db_deliveries d)" unfolding d' by (simp add: map_update_where)
  moreover have "list_ex (\<lambda>x. dl_id x = did \<and> dl_status x = ''succeeded'') (db_deliveries d')"
    using assms(2,3) by (auto simp: d' succeeded_def list_ex_iff set_update_where)
  ultimately show ?thesis using assms(2) by (simp add: succeeded_def)
qed

lemma Work_succeeded:
  assumes "succeeded (w_db (ws_world s)) did"
  shows "succeeded (w_db (ws_world (snd (Work env tunnels job s)))) did"
    and "o_Scan env (da_delivery_id (dj_args job)) = Some did \<Longrightarrow> ws_sent (snd (Work env tunnels job s)) = ws_sent s"
proof -
  obtain r s' where run: "Work env tunnels job s = (r, s')" by (rule prod.exhaust)
  from run have "succeeded (w_db (ws_world s')) did \<and>
      (o_Scan env (da_delivery_id (dj_args job)) = Some did \<longrightarrow> ws_sent s' = ws_sent s)"
  proof (cases rule: Work_cases)
    case idle
    with assms show ?thesis by (simp add: same_store_def)
  next
    case (tried x dest out w p)
    have w: "w_db w = w_db (ws_world s)" using tried(4) by (simp add: same_store_def)
    have ne: "dl_id x \<noteq> did" using due_not_succeeded tried(2) assms w by simp
    from finish_attempt_cases(2) [OF tried(5)] recorded_succeeded [OF _ _ ne] assms w tried(1) ne show ?thesis by auto
  qed
  then show "succeeded (w_db (ws_world (snd (Work env tunnels job s)))) did"
    "o_Scan env (da_delivery_id (dj_args job)) = Some did \<Longrightarrow> ws_sent (snd (Work env tunnels job s)) = ws_sent s"
    using run by simp_all
qed

text \<open>What the jobs of one delivery send, in a run of jobs.\<close>

primrec sent_for :: "uuid \<Rightarrow> (outside \<times> tunnels \<times> delivery_job) list \<Rightarrow> worker_state \<Rightarrow> outgoing list" where
  "sent_for did [] s = []"
| "sent_for did (j # js) s = (case j of (env, tunnels, job) \<Rightarrow>
     (if o_Scan env (da_delivery_id (dj_args job)) = Some did
      then drop (length (ws_sent s)) (ws_sent (snd (Work env tunnels job s))) else []) @
     sent_for did js (snd (Work env tunnels job s)))"

text \<open>
  C16. Once a delivery is recorded as succeeded it is never sent again by its jobs, and stays succeeded, however
  many times River runs them and whatever other jobs run in between.
\<close>

theorem succeeded_never_resent:
  assumes "succeeded (w_db (ws_world s)) did"
  shows "sent_for did jobs s = [] \<and> succeeded (w_db (ws_world (run_jobs jobs s))) did"
  using assms
proof (induction jobs arbitrary: s)
  case (Cons j js)
  obtain env tunnels job where j: "j = (env, tunnels, job)" by (metis prod_cases3)
  show ?case using Cons.IH [OF Work_succeeded(1) [OF Cons.prems]] Work_succeeded(2) [OF Cons.prems] by (simp add: j)
qed simp

subsection \<open>A concrete delivery\<close>

definition delivery_example :: delivery where
  "delivery_example = \<lparr>dl_id = 5, dl_tenant = 1, dl_event = 3, dl_destination = 9, dl_river_job = Some 1,
     dl_status = ''pending'', dl_attempt_count = 0, dl_next_attempt_at = None, dl_last_attempted_at = None,
     dl_dead_lettered_at = None, dl_created_at = 0, dl_updated_at = 0\<rparr>"

definition worker_example :: "string \<Rightarrow> worker_state" where
  "worker_example status = \<lparr>ws_world = world_example\<lparr>w_db := db_example\<lparr>db_deliveries := [delivery_example\<lparr>dl_status := status\<rparr>]\<rparr>\<rparr>,
     ws_pacer = Map.empty, ws_sent = []\<rparr>"

definition outside_example :: "int \<Rightarrow> outside" where
  "outside_example code = \<lparr>o_Scan = (\<lambda>_. Some 5), o_NewRequest = (\<lambda>_. None),
     o_Do = (\<lambda>_ _. Inr \<lparr>hr_status = code, hr_header = [], hr_body = ''no''\<rparr>), o_elapsed = 0, o_db_error = (\<lambda>_. ''''),
     o_json_error = (\<lambda>_. '''')\<rparr>"

definition job_example :: "int \<Rightarrow> delivery_job" where
  "job_example attempt = \<lparr>dj_args = \<lparr>da_delivery_id = ''5'', da_backoff_base = 2, da_backoff_max = 60\<rparr>,
     dj_attempt = attempt, dj_max_attempts = 3\<rparr>"

lemmas worker_example_defs = worker_example_def delivery_example_def outside_example_def job_example_def

lemma worker_example_ok: "deliveries_ok (w_db (ws_world (worker_example ''pending'')))"
  by (simp add: worker_example_defs example_defs deliveries_ok_def history_ok_def attempts_of_def)

theorem Work_keeps_history_witness:
  "deliveries_ok (w_db (ws_world (snd (Work (outside_example 503) Map.empty (job_example 1) (worker_example ''pending'')))))"
  by (rule Work_keeps_history [OF worker_example_ok])

theorem succeeded_never_resent_witness:
  "sent_for 5 [(outside_example 200, Map.empty, job_example 1), (outside_example 200, Map.empty, job_example 2)]
     (worker_example ''succeeded'') = []"
proof -
  have "succeeded (w_db (ws_world (worker_example ''succeeded''))) 5"
    by (simp add: worker_example_defs example_defs succeeded_def)
  from succeeded_never_resent [OF this] show ?thesis by blast
qed

theorem Work_http_answered_witness:
  "fst (Work (outside_example 503) Map.empty (job_example 1) (worker_example ''pending'')) \<noteq> Completed \<and>
   (\<exists>y. dl_status y = ''failed'' \<and>
     y \<in> set (db_deliveries (w_db (ws_world (snd (Work (outside_example 503) Map.empty (job_example 1) (worker_example ''pending'')))))))"
proof -
  let ?s = "worker_example ''pending''" and ?req = "delivery_request destination_example ''x'' None ''5''"
  let ?resp = "\<lparr>hr_status = 503, hr_header = [], hr_body = ''no''\<rparr>"
  have up: "store_up (ws_world ?s)" by (simp add: worker_example_defs example_defs store_up_def)
  have d: "due (w_db (ws_world ?s)) (delivery_example\<lparr>dl_status := ''pending''\<rparr>) destination_example"
    by (simp add: worker_example_defs example_defs due_def)
  have 1: "o_Scan (outside_example 503) (da_delivery_id (dj_args (job_example 1))) = Some (dl_id (delivery_example\<lparr>dl_status := ''pending''\<rparr>))"
    by (simp add: worker_example_defs)
  have 2: "distinct (map dst_id (db_destinations (w_db (ws_world ?s))))" "distinct (map ev_id (db_events (w_db (ws_world ?s))))"
    "event_example \<in> set (db_events (w_db (ws_world ?s)))" "ev_id event_example = dl_event (delivery_example\<lparr>dl_status := ''pending''\<rparr>)"
    by (simp_all add: worker_example_defs example_defs)
  have 3: "dst_rate_limit destination_example = None" "\<not> IsURL (dst_url destination_example)"
    "o_NewRequest (outside_example 503) (dst_url destination_example) = None"
    "?req = delivery_request destination_example (ev_raw_body event_example) (ev_content_type event_example) (da_delivery_id (dj_args (job_example 1)))"
    "o_Do (outside_example 503) (timeout_of destination_example) ?req = Inr ?resp" "0 \<le> hr_status ?resp" "hr_status ?resp < 2 ^ 31"
    by (simp_all add: worker_example_defs example_defs IsURL_def URLScheme_def HasPrefix_def)
  have 4: "pg_jsonb (w_pg (ws_world ?s)) (marshal_header (ho_header ?req)) \<noteq> None"
    "pg_jsonb (w_pg (ws_world ?s)) (marshal_header (hr_header ?resp)) \<noteq> None"
    "text_opt (w_pg (ws_world ?s)) (kept_body ?resp)" "pg_text (w_pg (ws_world ?s)) (StatusText (hr_status ?resp))"
    by (simp_all add: worker_example_defs example_defs text_opt_def split: option.splits)
  obtain r s' where run: "Work (outside_example 503) Map.empty (job_example 1) ?s = (r, s')" by (rule prod.exhaust)
  from Work_http_answered [OF up worker_example_ok 1 d 2 3 4 run]
  show ?thesis unfolding run by (auto simp: status_decision_def job_example_def)
qed


end
