(* ===== verification/Tunnel_Session.thy ===== *)
theory Tunnel_Session
  imports Tunnel
begin

text \<open>
  The tunnel endpoint (\<^verbatim>\<open>internal/tunnel/handler.go\<close>): a session creates an ephemeral destination, registers
  its socket, routes the chosen sources to it, and removes the destination when the socket goes away.
  The WebSocket upgrade, the random label and whether the ready frame can be written are inputs.
\<close>

subsection \<open>Constants\<close>

definition tunnelTimeoutMs :: int where "tunnelTimeoutMs = 30000"
definition tunnelMaxAttempts :: int where "tunnelMaxAttempts = 1"
definition tunnelBackoffBaseSeconds :: int where "tunnelBackoffBaseSeconds = 1"
definition tunnelBackoffMaxSeconds :: int where "tunnelBackoffMaxSeconds = 5"

record ReadyFrame =
  rf_Type :: string
  rf_DestinationID :: string
  rf_Sources :: "string list"

definition marshal_ReadyFrame :: "ReadyFrame \<Rightarrow> bytes" where
  "marshal_ReadyFrame f = marshal_object [(''type'', marshal_string (rf_Type f)),
     (''destination_id'', marshal_string (rf_DestinationID f)), (''sources'', marshal_strings (rf_Sources f))]"

subsection \<open>The steps of a session\<close>

datatype resolve_error = NoSources | UnknownSource | StoreFailed db_error

definition resolveSources :: "string \<Rightarrow> world \<Rightarrow> (resolve_error + source list) \<times> world" where
  "resolveSources name w =
     (if name = '''' \<or> name = ''all''
      then (case ListSources DefaultTenantID w of
              (Inl e, w1) \<Rightarrow> (Inl (StoreFailed e), w1)
            | (Inr sources, w1) \<Rightarrow> (if sources = [] then Inl NoSources else Inr sources, w1))
      else (case GetSourceByName DefaultTenantID name w of
              (Inl NoRows, w1) \<Rightarrow> (Inl UnknownSource, w1)
            | (Inl e, w1) \<Rightarrow> (Inl (StoreFailed e), w1)
            | (Inr s, w1) \<Rightarrow> (Inr [s], w1)))"

text \<open>\<^verbatim>\<open>writeError\<close>: the status and message of a refusal before the upgrade.\<close>

definition resolve_refusal :: "resolve_error \<Rightarrow> int \<times> string" where
  "resolve_refusal e = (case e of UnknownSource \<Rightarrow> (404, ''unknown source'')
   | NoSources \<Rightarrow> (400, ''no sources configured to tunnel'') | StoreFailed x \<Rightarrow> (500, ''internal error''))"

definition randomLabel :: "bytes \<Rightarrow> string" where
  "randomLabel b = hex_Encode (take 4 b)"

definition attach :: "bytes \<Rightarrow> destination dbm" where
  "attach random = (let label = ''tunnel-'' @ randomLabel random in
     InsertDestination DefaultTenantID \<lparr>dp_name = label, dp_url = URLScheme @ label, dp_auth_config = ''{}'',
       dp_timeout_ms = tunnelTimeoutMs, dp_rate_limit = None, dp_max_attempts = tunnelMaxAttempts,
       dp_backoff_base = tunnelBackoffBaseSeconds, dp_backoff_max = tunnelBackoffMaxSeconds\<rparr>)"

definition routeSources :: "destination \<Rightarrow> source list \<Rightarrow> unit dbm" where
  "routeSources dest sources =
     for_each (\<lambda>s. bind (InsertRoute DefaultTenantID (src_id s) (dst_id dest) True) (\<lambda>_. ret ())) sources"

text \<open>An error of the delete is only logged.\<close>

definition detach :: "destination \<Rightarrow> 'c registry \<times> world \<Rightarrow> 'c registry \<times> world" where
  "detach dest s = (unregister (dst_id dest) (fst s), snd (DeleteDestination (dst_id dest) DefaultTenantID (snd s)))"

text \<open>
  The handler up to its read loop. A session that got that far is \<open>Attached\<close> and ends with \<open>detach\<close>; the
  earlier exits after the registration run the deferred \<open>detach\<close> at once.
\<close>

datatype session = Refused int string | UpgradeFailed | AttachFailed | RoutingFailed | ReadyFailed
  | Attached destination ReadyFrame

definition open_tunnel :: "string \<Rightarrow> bool \<Rightarrow> bytes \<Rightarrow> bool \<Rightarrow> 'c \<Rightarrow> 'c registry \<times> world \<Rightarrow> session \<times> 'c registry \<times> world" where
  "open_tunnel name upgrade random ready conn s =
     (case resolveSources name (snd s) of
        (Inl e, w1) \<Rightarrow> (case resolve_refusal e of (status, msg) \<Rightarrow> (Refused status msg, fst s, w1))
      | (Inr sources, w1) \<Rightarrow>
          if \<not> upgrade then (UpgradeFailed, fst s, w1)
          else (case attach random w1 of
                  (Inl e, w2) \<Rightarrow> (AttachFailed, fst s, w2)
                | (Inr dest, w2) \<Rightarrow>
                    let reg = register (dst_id dest) conn (fst s) in
                    (case routeSources dest sources w2 of
                       (Inl e, w3) \<Rightarrow> (RoutingFailed, detach dest (reg, w3))
                     | (Inr u, w3) \<Rightarrow>
                         if \<not> ready then (ReadyFailed, detach dest (reg, w3))
                         else (Attached dest \<lparr>rf_Type = FrameReady, rf_DestinationID = uuidString (dst_id dest),
                                              rf_Sources = map src_name sources\<rparr>, reg, w3))))"

text \<open>\<^verbatim>\<open>Register\<close> at startup sweeps what an earlier process left behind.\<close>

definition Register :: "nat dbm" where
  "Register = DeleteStaleTunnelDestinations DefaultTenantID"

subsection \<open>References between the tables\<close>

definition refs_to_destinations :: "database \<Rightarrow> bool" where
  "refs_to_destinations d \<longleftrightarrow>
     (\<forall>r \<in> set (db_routes d). rt_destination r \<in> dst_id ` set (db_destinations d)) \<and>
     (\<forall>x \<in> set (db_deliveries d). dl_destination x \<in> dst_id ` set (db_destinations d)) \<and>
     (\<forall>a \<in> set (db_attempts d). at_delivery a \<in> dl_id ` set (db_deliveries d)) \<and>
     (\<forall>a \<in> set (db_alerts d). as_destination a \<in> dst_id ` set (db_destinations d)) \<and>
     distinct (map dl_id (db_deliveries d))"

lemma attach_Inr:
  assumes "attach random w = (Inr dest, w')"
  shows "dst_id dest \<notin> dst_id ` set (db_destinations (w_db w)) \<and> IsURL (dst_url dest) \<and> dst_tenant dest = DefaultTenantID \<and>
    dst_paused_at dest = None \<and> dst_max_attempts dest = 1 \<and>
    w_db w' = (w_db w)\<lparr>db_destinations := db_destinations (w_db w) @ [dest]\<rparr>"
  using assms
  by (auto simp: attach_def InsertDestination_def exec_Inr Let_def IsURL_def HasPrefix_def tunnelMaxAttempts_def split: option.splits if_splits)

lemma routeSources_rows:
  "routeSources dest sources w = (r, w') \<Longrightarrow> \<exists>rs. w_db w' = (w_db w)\<lparr>db_routes := db_routes (w_db w) @ rs\<rparr> \<and>
     (\<forall>x \<in> set rs. rt_destination x = dst_id dest \<and> rt_enabled x) \<and> (r = Inr () \<longrightarrow> map rt_source rs = map src_id sources)"
proof (induction sources arbitrary: w)
  case Nil
  then show ?case by (auto simp: routeSources_def ret_def intro!: exI [of _ "[]"])
next
  case (Cons s ss)
  obtain q w1 where q: "InsertRoute DefaultTenantID (src_id s) (dst_id dest) True w = (q, w1)" by (rule prod.exhaust)
  show ?case
  proof (cases q)
    case (Inl e)
    with q Cons.prems have "w' = w1" "r = Inl e" by (simp_all add: routeSources_def bind_def)
    moreover have "w_db w1 = w_db w" using q Inl exec_Inl_db unfolding InsertRoute_def by blast
    ultimately show ?thesis by (intro exI [of _ "[]"]) simp
  next
    case (Inr x)
    with q Cons.prems have rest: "routeSources dest ss w1 = (r, w')" by (simp add: routeSources_def bind_def ret_def)
    have x: "w_db w1 = (w_db w)\<lparr>db_routes := db_routes (w_db w) @ [x]\<rparr>" "rt_destination x = dst_id dest" "rt_enabled x" "rt_source x = src_id s"
      using q Inr by (auto simp: InsertRoute_def exec_Inr Let_def split: if_splits)
    obtain rs where "w_db w' = (w_db w1)\<lparr>db_routes := db_routes (w_db w1) @ rs\<rparr>"
      "\<forall>y \<in> set rs. rt_destination y = dst_id dest \<and> rt_enabled y" "r = Inr () \<longrightarrow> map rt_source rs = map src_id ss"
      using Cons.IH [OF rest] by blast
    with x show ?thesis by (intro exI [of _ "x # rs"]) simp
  qed
qed

text \<open>Deleting a destination that nothing but these routes refers to restores the database.\<close>

lemma filter_all: "(\<forall>x \<in> set xs. P x) \<Longrightarrow> filter P xs = xs"
  by (simp add: filter_id_conv)

lemma filter_none: "(\<forall>x \<in> set xs. \<not> P x) \<Longrightarrow> filter P xs = []"
  by (simp add: filter_empty_conv)

lemma delete_attached:
  assumes "refs_to_destinations d" "dst_id dest \<notin> dst_id ` set (db_destinations d)" "dst_tenant dest = tenant"
    "\<forall>x \<in> set rs. rt_destination x = dst_id dest"
  shows "delete_destinations (\<lambda>x. dst_id x = dst_id dest \<and> dst_tenant x = tenant)
    (d\<lparr>db_destinations := db_destinations d @ [dest], db_routes := db_routes d @ rs\<rparr>) = d"
proof -
  have gone: "(\<lambda>x. dst_id dest) ` {x. (x = dest \<or> x \<in> set (db_destinations d)) \<and> dst_id x = dst_id dest \<and> dst_tenant x = tenant} = {dst_id dest}"
    using assms(3) by auto
  have ne: "\<forall>r \<in> set (db_routes d). rt_destination r \<noteq> dst_id dest" "\<forall>x \<in> set (db_deliveries d). dl_destination x \<noteq> dst_id dest"
    "\<forall>a \<in> set (db_alerts d). as_destination a \<noteq> dst_id dest"
    using assms(1,2) unfolding refs_to_destinations_def by metis+
  have "filter (\<lambda>x. dst_id x = dst_id dest \<longrightarrow> dst_tenant x \<noteq> tenant) (db_destinations d) = db_destinations d"
    using assms(2) by (intro filter_all) (auto simp: image_iff)
  moreover have "filter (\<lambda>r. rt_destination r \<noteq> dst_id dest) (db_routes d) = db_routes d" "filter (\<lambda>r. rt_destination r \<noteq> dst_id dest) rs = []"
    "filter (\<lambda>x. dl_destination x \<noteq> dst_id dest) (db_deliveries d) = db_deliveries d"
    "filter (\<lambda>a. as_destination a \<noteq> dst_id dest) (db_alerts d) = db_alerts d"
    using ne assms(4) by (simp_all add: filter_all filter_none)
  moreover have "filter (\<lambda>a. at_delivery a \<notin> dl_id ` {x \<in> set (db_deliveries d). dl_destination x = dst_id dest}) (db_attempts d) = db_attempts d"
    using ne(2) by (intro filter_all) blast
  ultimately show ?thesis using assms(3) by (simp add: delete_destinations_def Let_def gone)
qed

text \<open>What \<open>open_tunnel\<close> leaves behind when the session starts.\<close>

lemma same_db_resolve:
  assumes "resolveSources name w = (r, w')"
  shows "w_db w' = w_db w"
proof -
  obtain r1 w1 r2 w2 where q: "ListSources DefaultTenantID w = (r1, w1)" "GetSourceByName DefaultTenantID name w = (r2, w2)"
    by (meson prod.exhaust)
  then have "w_db w1 = w_db w" "w_db w2 = w_db w"
    unfolding ListSources_def GetSourceByName_def by (auto dest: query_db text_query_db)
  then show ?thesis
    using assms q by (auto simp: resolveSources_def split: if_splits sum.splits db_error.splits)
qed

lemma open_tunnel_Attached:
  assumes "open_tunnel name upgrade random ready conn (reg, w) = (Attached dest frame, reg1, w1)"
  shows "\<exists>rs. w_db w1 = (w_db w)\<lparr>db_destinations := db_destinations (w_db w) @ [dest], db_routes := db_routes (w_db w) @ rs\<rparr> \<and>
    (\<forall>x \<in> set rs. rt_destination x = dst_id dest) \<and> dst_id dest \<notin> dst_id ` set (db_destinations (w_db w)) \<and>
    dst_tenant dest = DefaultTenantID \<and> reg1 = reg(dst_id dest \<mapsto> conn)"
proof -
  obtain sources w2 w3 where s: "resolveSources name w = (Inr sources, w2)" "attach random w2 = (Inr dest, w3)"
    "routeSources dest sources w3 = (Inr (), w1)" "reg1 = reg(dst_id dest \<mapsto> conn)"
    using assms by (auto simp: open_tunnel_def Let_def register_def split: sum.splits prod.splits if_splits)
  obtain rs where "w_db w1 = (w_db w3)\<lparr>db_routes := db_routes (w_db w3) @ rs\<rparr>" "\<forall>x \<in> set rs. rt_destination x = dst_id dest"
    using routeSources_rows [OF s(3)] by blast
  with attach_Inr [OF s(2)] same_db_resolve [OF s(1)] s(4) show ?thesis by (intro exI [of _ rs]) simp
qed

text \<open>A session that is closed before anything else has happened leaves the database as it was.\<close>

lemma detach_restores:
  assumes "refs_to_destinations (w_db w)"
    and "open_tunnel name upgrade random ready conn (reg, w) = (Attached dest frame, reg1, w1)"
    and "\<not> pg_fault (w_pg w1) (w_step w1)"
  shows "w_db (snd (detach dest (reg1, w1))) = w_db w \<and> fst (detach dest (reg1, w1)) = reg(dst_id dest := None)"
proof -
  obtain rs where rs: "w_db w1 = (w_db w)\<lparr>db_destinations := db_destinations (w_db w) @ [dest], db_routes := db_routes (w_db w) @ rs\<rparr>"
    "\<forall>x \<in> set rs. rt_destination x = dst_id dest" "dst_id dest \<notin> dst_id ` set (db_destinations (w_db w))"
    "dst_tenant dest = DefaultTenantID" "reg1 = reg(dst_id dest \<mapsto> conn)"
    using open_tunnel_Attached [OF assms(2)] by blast
  have "w_db (snd (DeleteDestination (dst_id dest) DefaultTenantID w1)) =
      delete_destinations (\<lambda>x. dst_id x = dst_id dest \<and> dst_tenant x = DefaultTenantID) (w_db w1)"
    using assms(3) by (simp add: DeleteDestination_def exec_def Let_def)
  also have "\<dots> = w_db w" unfolding rs(1) by (rule delete_attached [OF assms(1) rs(3,4,2)])
  finally show ?thesis using rs(5) by (simp add: detach_def unregister_def)
qed

definition tunnel_example :: destination where
  "tunnel_example = destination_example\<lparr>dst_id := 101, dst_name := ''tunnel-'' @ randomLabel ''ABCD'', dst_url := ''tunnel://tunnel-'' @ randomLabel ''ABCD'',
     dst_timeout_ms := 30000, dst_max_attempts := 1, dst_backoff_base := 1, dst_backoff_max := 5\<rparr>"

definition session_db :: database where
  "session_db = db_example\<lparr>db_destinations := [destination_example, tunnel_example],
     db_routes := db_routes db_example @ [\<lparr>rt_id = 102, rt_tenant = 1, rt_source = 7, rt_destination = 101, rt_enabled = True, rt_created_at = 0\<rparr>]\<rparr>"

lemma session_example:
  "\<exists>frame w1. open_tunnel ''all'' True ''ABCD'' True () (Map.empty, world_example) = (Attached tunnel_example frame, [101 \<mapsto> ()], w1) \<and>
     w_db w1 = session_db \<and> w_pg w1 = pg_example \<and> w_now w1 = 0"
  by (simp add: open_tunnel_def resolveSources_def ListSources_def query_def exec_def attach_def InsertDestination_def routeSources_def
      InsertRoute_def bind_def ret_def register_def tick_def example_defs DefaultTenantID_def tunnelTimeoutMs_def tunnelMaxAttempts_def
      tunnelBackoffBaseSeconds_def tunnelBackoffMaxSeconds_def URLScheme_def tunnel_example_def session_db_def
      Let_def sort_key_def)

end
