(* ===== verification/Cli_Tunnel.thy ===== *)
theory Cli_Tunnel
  imports Delivery Tunnel_Session
begin

text \<open>
  The client half of the tunnel (\<^verbatim>\<open>cli/internal/tunnel\<close>, \<^verbatim>\<open>cli/internal/forward\<close>): the \<^verbatim>\<open>listen\<close> command keeps a socket to
  the gateway, replays every event frame at a local server and acknowledges it with what the server said.

  Parameters: the dial and what is then read from the socket, the local server's answer to a request, how long it took,
  the parser and printer of URLs, \<^verbatim>\<open>rand.Int64N\<close>, and the \<^verbatim>\<open>%q\<close> of fmt. The frames are those of \<open>Tunnel\<close>, which declares the
  same structs. A map is read in the order of its association list, which stands for Go's unspecified one.
\<close>

subsection \<open>Replaying a webhook at a local server\<close>

definition hopByHopHeaders :: "string list" where
  "hopByHopHeaders = [''Connection'', ''Content-Length'', ''Host'', ''Keep-Alive'', ''Proxy-Authenticate'', ''Proxy-Authorization'',
     ''Te'', ''Trailer'', ''Transfer-Encoding'', ''Upgrade'']"

record forward_request =
  fq_Target :: string
  fq_Headers :: nheader
  fq_Body :: bytes
  fq_WebhookID :: string

record forward_result =
  fs_StatusCode :: int
  fs_Elapsed :: duration

text \<open>The machine's part in one POST: whether the URL makes a request, the answer or the client's error, and the time taken.\<close>

record machine =
  lm_NewRequest :: "string \<Rightarrow> string option"
  lm_Do :: "http_out \<Rightarrow> string + int"
  lm_elapsed :: duration

definition nheader_list :: "nheader \<Rightarrow> (string \<times> string list) list" where
  "nheader_list h = (case h of None \<Rightarrow> []
   | Some kvs \<Rightarrow> map (\<lambda>(k, vs). (k, case vs of None \<Rightarrow> [] | Some v \<Rightarrow> v)) kvs)"

definition copy_header :: "header \<Rightarrow> string \<times> string list \<Rightarrow> header" where
  "copy_header h nv = (case nv of (name, values) \<Rightarrow>
     if CanonicalHeaderKey name \<in> set hopByHopHeaders then h
     else foldl (\<lambda>h v. header_Add h name v) h values)"

definition replay_request :: "forward_request \<Rightarrow> http_out" where
  "replay_request req =
     (let h = foldl copy_header [] (nheader_list (fq_Headers req));
          h' = (if fq_WebhookID req \<noteq> '''' then header_Set h ''Webhook-Id'' (fq_WebhookID req) else h)
      in \<lparr>ho_url = fq_Target req, ho_header = h', ho_body = fq_Body req\<rparr>)"

text \<open>The result, the error if there was one, and the requests that left the process.\<close>

definition forward_Post :: "machine \<Rightarrow> forward_request \<Rightarrow> forward_result \<times> string option \<times> http_out list" where
  "forward_Post m req =
     (case lm_NewRequest m (fq_Target req) of
        Some err \<Rightarrow> (\<lparr>fs_StatusCode = 0, fs_Elapsed = 0\<rparr>, Some err, [])
      | None \<Rightarrow>
          let httpReq = replay_request req
          in case lm_Do m httpReq of
               Inl err \<Rightarrow> (\<lparr>fs_StatusCode = 0, fs_Elapsed = lm_elapsed m\<rparr>, Some err, [httpReq])
             | Inr code \<Rightarrow> (\<lparr>fs_StatusCode = code, fs_Elapsed = lm_elapsed m\<rparr>, None, [httpReq]))"

record event_label =
  el_Type :: string
  el_EventType :: string
  el_Event :: string

definition label_fields :: "(string \<times> event_label field) list" where
  "label_fields = [(''type'', string_field el_Type_update), (''event_type'', string_field el_EventType_update),
     (''event'', string_field el_Event_update)]"

definition EventType :: "nheader \<Rightarrow> bytes \<Rightarrow> string" where
  "EventType headers body =
     (let v = header_Get (nheader_list headers) ''X-GitHub-Event''
      in if v \<noteq> '''' then v
         else case Unmarshal_struct label_fields \<lparr>el_Type = '''', el_EventType = '''', el_Event = ''''\<rparr> body of
           None \<Rightarrow> ''''
         | Some parsed \<Rightarrow> (case filter (\<lambda>c. c \<noteq> '''') [el_Type parsed, el_EventType parsed, el_Event parsed] of
             [] \<Rightarrow> '''' | candidate # _ \<Rightarrow> candidate))"

text \<open>The arguments \<open>stamp\<close> and \<open>took\<close> are the printed time of day and the printed, rounded duration.\<close>

definition arrow :: string where "arrow = [CHR '' '', CHR 0xE2, CHR 0x86, CHR 0x92, CHR '' '']"

definition Line :: "string \<Rightarrow> string \<Rightarrow> string \<Rightarrow> string \<Rightarrow> forward_result \<Rightarrow> string option \<Rightarrow> string" where
  "Line stamp took source eventType res err =
     (let label = (if eventType \<noteq> '''' then source @ '' '' @ eventType else source)
      in case err of
           Some e \<Rightarrow> stamp @ '' '' @ label @ arrow @ ''error: '' @ e @ '' ('' @ took @ '')''
         | None \<Rightarrow> stamp @ '' '' @ label @ arrow @ FormatInt (fs_StatusCode res) @ '' ('' @ took @ '')'')"

subsection \<open>Frames\<close>

text \<open>
  \<^verbatim>\<open>json.Unmarshal\<close> into a map merges into the map that is there; into a byte slice it decodes base64, or
  takes an array of numbers.
\<close>

definition headers_field :: "('r \<Rightarrow> nheader) \<Rightarrow> ((nheader \<Rightarrow> nheader) \<Rightarrow> 'r \<Rightarrow> 'r) \<Rightarrow> 'r field" where
  "headers_field get upd raw v r = (case v of
     JNull \<Rightarrow> Some (upd (\<lambda>_. None) r)
   | JObject ms \<Rightarrow>
       if list_all (\<lambda>m. strings_value (snd m) \<noteq> None) ms
       then (let new = map (\<lambda>m. (fst m, the (strings_value (snd m)))) ms;
                 old = (case get r of None \<Rightarrow> [] | Some kvs \<Rightarrow> filter (\<lambda>kv. fst kv \<notin> fst ` set new) kvs)
             in Some (upd (\<lambda>_. Some (new @ old)) r))
       else None
   | _ \<Rightarrow> None)"

definition parse_byte :: "string \<Rightarrow> char option" where
  "parse_byte lit = (if lit = [] \<or> hd lit = CHR ''-'' then None else case ParseInt64 lit of None \<Rightarrow> None
   | Some n \<Rightarrow> if n \<le> 255 then Some (char_of (nat n)) else None)"

fun byte_elems :: "bytes \<Rightarrow> json list \<Rightarrow> bytes option" where
  "byte_elems old [] = Some []"
| "byte_elems old (v # vs) = (case v of
     JNumber lit \<Rightarrow> (case parse_byte lit of None \<Rightarrow> None | Some b \<Rightarrow> map_option ((#) b) (byte_elems (tl old) vs))
   | JNull \<Rightarrow> map_option ((#) (if old = [] then CHR 0x00 else hd old)) (byte_elems (tl old) vs)
   | _ \<Rightarrow> None)"

definition bytes_field :: "('r \<Rightarrow> bytes) \<Rightarrow> ((bytes \<Rightarrow> bytes) \<Rightarrow> 'r \<Rightarrow> 'r) \<Rightarrow> 'r field" where
  "bytes_field get upd raw v r = (case v of
     JString s \<Rightarrow> map_option (\<lambda>b. upd (\<lambda>_. b) r) (b64_std_Decode s)
   | JArray vs \<Rightarrow> map_option (\<lambda>b. upd (\<lambda>_. b) r) (byte_elems (get r) vs)
   | JNull \<Rightarrow> Some (upd (\<lambda>_. []) r) | _ \<Rightarrow> None)"

record typedFrame =
  tf_Type :: string

definition Unmarshal_typedFrame :: "bytes \<Rightarrow> typedFrame option" where
  "Unmarshal_typedFrame data = Unmarshal_struct [(''type'', string_field tf_Type_update)] \<lparr>tf_Type = ''''\<rparr> data"

definition ready_fields :: "(string \<times> ReadyFrame field) list" where
  "ready_fields = [(''type'', string_field rf_Type_update), (''destination_id'', string_field rf_DestinationID_update),
     (''sources'', strings_field rf_Sources rf_Sources_update)]"

definition Unmarshal_ReadyFrame :: "bytes \<Rightarrow> ReadyFrame option" where
  "Unmarshal_ReadyFrame data = Unmarshal_struct ready_fields \<lparr>rf_Type = '''', rf_DestinationID = '''', rf_Sources = []\<rparr> data"

definition event_fields :: "(string \<times> EventFrame field) list" where
  "event_fields = [(''type'', string_field evf_Type_update), (''delivery_id'', string_field evf_DeliveryID_update),
     (''event_id'', string_field evf_EventID_update), (''source'', string_field evf_Source_update),
     (''content_type'', string_field evf_ContentType_update), (''headers'', headers_field evf_Headers evf_Headers_update),
     (''body'', bytes_field evf_Body evf_Body_update)]"

definition no_event :: EventFrame where
  "no_event = \<lparr>evf_Type = '''', evf_DeliveryID = '''', evf_EventID = '''', evf_Source = '''', evf_ContentType = '''',
     evf_Headers = None, evf_Body = []\<rparr>"

definition Unmarshal_EventFrame :: "bytes \<Rightarrow> EventFrame option" where
  "Unmarshal_EventFrame data = Unmarshal_struct event_fields no_event data"

definition marshal_AckFrame :: "AckFrame \<Rightarrow> bytes" where
  "marshal_AckFrame a = marshal_object
     ([(''type'', marshal_string (ack_Type a)), (''delivery_id'', marshal_string (ack_DeliveryID a)),
       (''status_code'', FormatInt (ack_StatusCode a))] @
      (if ack_Error a = '''' then [] else [(''error'', marshal_string (ack_Error a))]) @
      (if ack_DurationMs a = 0 then [] else [(''duration_ms'', FormatInt (ack_DurationMs a))]))"

subsection \<open>One connection\<close>

record Options =
  op_GatewayURL :: string
  op_APIKey :: string
  op_Source :: string
  op_ForwardTo :: string

datatype session_error = PermanentError string | Transient string

text \<open>What \<^verbatim>\<open>handle\<close> sends: the requests to the local server, then the frame it writes to the gateway.\<close>

definition handle :: "Options \<Rightarrow> machine \<Rightarrow> EventFrame \<Rightarrow> http_out list \<times> AckFrame" where
  "handle opts m frame =
     (case forward_Post m \<lparr>fq_Target = op_ForwardTo opts, fq_Headers = evf_Headers frame, fq_Body = evf_Body frame,
        fq_WebhookID = evf_DeliveryID frame\<rparr> of (res, err, sent) \<Rightarrow>
      let ack = \<lparr>ack_Type = FrameAck, ack_DeliveryID = evf_DeliveryID frame, ack_StatusCode = 0, ack_Error = '''',
                 ack_DurationMs = go_div (fs_Elapsed res) millisecond\<rparr>
      in (sent, case err of Some e \<Rightarrow> ack\<lparr>ack_Error := e\<rparr> | None \<Rightarrow> ack\<lparr>ack_StatusCode := fs_StatusCode res\<rparr>))"

text \<open>
  The read loop, on the messages that arrive before the read fails with \<open>lost\<close>: whether the tunnel became ready, how the
  session ended, and the frames for which a goroutine was started, in order. All of them run to their end before the session
  returns, so their acknowledgements, one each, are written in some order.
\<close>

fun read_loop :: "(bytes \<Rightarrow> string) \<Rightarrow> bool \<Rightarrow> bytes list \<Rightarrow> string \<Rightarrow> bool \<times> session_error \<times> EventFrame list" where
  "read_loop json_error ready [] lost = (ready, Transient lost, [])"
| "read_loop json_error ready (data # rest) lost =
     (case Unmarshal_typedFrame data of
        None \<Rightarrow> read_loop json_error ready rest lost
      | Some typed \<Rightarrow>
          if tf_Type typed = FrameReady then
            (case Unmarshal_ReadyFrame data of
               None \<Rightarrow> (ready, Transient (''decoding ready frame: '' @ json_error data), [])
             | Some frame \<Rightarrow> read_loop json_error True rest lost)
          else if tf_Type typed = FrameEvent then
            (case Unmarshal_EventFrame data of
               None \<Rightarrow> read_loop json_error ready rest lost
             | Some frame \<Rightarrow> (case read_loop json_error ready rest lost of (r, e, started) \<Rightarrow> (r, e, frame # started)))
          else read_loop json_error ready rest lost)"

text \<open>\<^verbatim>\<open>url.QueryEscape\<close>, for the one query parameter.\<close>

definition query_plain :: "char \<Rightarrow> bool" where
  "query_plain c = (let n = (of_char c :: nat) in
     48 \<le> n \<and> n \<le> 57 \<or> 65 \<le> n \<and> n \<le> 90 \<or> 97 \<le> n \<and> n \<le> 122 \<or> c \<in> set ''-_.~'')"

definition QueryEscape :: "string \<Rightarrow> string" where
  "QueryEscape s = concat (map (\<lambda>c. if query_plain c then [c] else if c = CHR '' '' then ''+''
     else CHR ''%'' # map upper_char (hex_byte c)) s)"

record url =
  u_Scheme :: string
  u_Path :: string
  u_RawQuery :: string

record 'u platform =
  pl_Parse :: "string \<Rightarrow> string + 'u url_scheme"
  pl_String :: "'u url_scheme \<Rightarrow> string"
  pl_quote :: "string \<Rightarrow> string"
  pl_json_error :: "bytes \<Rightarrow> string"

definition websocketURL :: "'u platform \<Rightarrow> string \<Rightarrow> string \<Rightarrow> string + string" where
  "websocketURL pl gatewayURL source =
     (case pl_Parse pl gatewayURL of
        Inl e \<Rightarrow> Inl (''invalid gateway URL '' @ pl_quote pl gatewayURL @ '': '' @ e)
      | Inr u \<Rightarrow>
          if u_Scheme u \<noteq> ''http'' \<and> u_Scheme u \<noteq> ''https''
          then Inl (''gateway URL must be http or https, got '' @ pl_quote pl (u_Scheme u))
          else Inr (pl_String pl (u\<lparr>u_Scheme := (if u_Scheme u = ''http'' then ''ws'' else ''wss''),
                 u_Path := TrimSuffix (u_Path u) ''/'' @ ''/api/tunnel'',
                 u_RawQuery := (if source \<noteq> '''' then ''source='' @ QueryEscape source else '''')\<rparr>)))"

text \<open>The dial is refused, with the status of the response if there was one, or the socket is up and messages arrive until it is lost.\<close>

datatype dialled = DialFailed "int option" string | Socket "bytes list" string

definition dash :: string where "dash = [CHR '' '', CHR 0xE2, CHR 0x80, CHR 0x94, CHR '' '']"

definition dialError :: "'u platform \<Rightarrow> Options \<Rightarrow> int option \<Rightarrow> string \<Rightarrow> session_error" where
  "dialError pl opts resp err =
     (let lost = Transient (''connecting to '' @ op_GatewayURL opts @ '': '' @ err) in
      case resp of None \<Rightarrow> lost
      | Some code \<Rightarrow>
          if code = 401 then PermanentError (op_GatewayURL opts @ '' rejected the credential'' @ dash @ ''run `login` again'')
          else if code = 403 then PermanentError ''that key lacks the `tunnel` scope''
          else if code = 404 then PermanentError (''no source named '' @ pl_quote pl (op_Source opts) @ '' on '' @ op_GatewayURL opts)
          else if code = 400 then PermanentError (op_GatewayURL opts @ '' has no sources configured to tunnel'')
          else lost)"

definition runSession :: "'u platform \<Rightarrow> (string \<Rightarrow> header \<Rightarrow> dialled) \<Rightarrow> Options \<Rightarrow> bool \<times> session_error \<times> EventFrame list" where
  "runSession pl dial opts =
     (case websocketURL pl (op_GatewayURL opts) (op_Source opts) of
        Inl e \<Rightarrow> (False, PermanentError e, [])
      | Inr endpoint \<Rightarrow>
          (case dial endpoint [(''Authorization'', [''Bearer '' @ op_APIKey opts])] of
             DialFailed resp err \<Rightarrow> (False, dialError pl opts resp err, [])
           | Socket messages lost \<Rightarrow> read_loop (pl_json_error pl) False messages lost))"

subsection \<open>Reconnecting\<close>

definition minBackoff :: duration where "minBackoff = second"
definition maxBackoff :: duration where "maxBackoff = 30 * second"

definition jitter :: "(int \<Rightarrow> int) \<Rightarrow> duration \<Rightarrow> duration" where
  "jitter Int64N d = (let half = go_div d 2 in if half \<le> 0 then d else half + Int64N (half + 1))"

text \<open>
  One turn of the loop of \<^verbatim>\<open>Listen\<close>: the dial, whether the context ended during the session or during the wait, and the
  random numbers. \<open>Running\<close> is the state after the given turns.
\<close>

record turn =
  tn_dial :: "string \<Rightarrow> header \<Rightarrow> dialled"
  tn_cancelled :: bool
  tn_interrupted :: bool
  tn_Int64N :: "int \<Rightarrow> int"

datatype listen_end = CleanExit | GaveUp string | Running

fun Listen_from :: "'u platform \<Rightarrow> Options \<Rightarrow> duration \<Rightarrow> turn list \<Rightarrow> duration list \<times> listen_end" where
  "Listen_from pl opts delay [] = ([], Running)"
| "Listen_from pl opts delay (t # ts) =
     (case runSession pl (tn_dial t) opts of (up, err, _) \<Rightarrow>
      if tn_cancelled t then ([], CleanExit)
      else case err of
        PermanentError msg \<Rightarrow> ([], GaveUp msg)
      | Transient _ \<Rightarrow>
          let b = (if up then minBackoff else delay);
              w = jitter (tn_Int64N t) b
          in if tn_interrupted t then ([w], CleanExit)
             else (case Listen_from pl opts (if b < maxBackoff then min (b * 2) maxBackoff else b) ts of
                     (ws, e) \<Rightarrow> (w # ws, e)))"

definition Listen :: "'u platform \<Rightarrow> Options \<Rightarrow> turn list \<Rightarrow> duration list \<times> listen_end" where
  "Listen pl opts ts = Listen_from pl opts minBackoff ts"

subsection \<open>The headers a local server sees\<close>

lemma Values_foldl_Add:
  "header_Values (foldl (\<lambda>h v. header_Add h name v) h vs) k = header_Values h k @ (if k = CanonicalHeaderKey name then vs else [])"
  by (induction vs arbitrary: h) auto

lemma Values_copy_header:
  "header_Values (copy_header h (name, vs)) k =
     header_Values h k @ (if k = CanonicalHeaderKey name \<and> k \<notin> set hopByHopHeaders then vs else [])"
  by (auto simp: copy_header_def Values_foldl_Add)

lemma Values_copy_headers:
  "header_Values (foldl copy_header h kvs) k =
     header_Values h k @ concat (map (\<lambda>(name, vs). if k = CanonicalHeaderKey name \<and> k \<notin> set hopByHopHeaders then vs else []) kvs)"
proof (induction kvs arbitrary: h)
  case (Cons kv kvs)
  then show ?case by (cases kv) (simp add: Values_copy_header)
qed simp

text \<open>The names in a request that \<^verbatim>\<open>net/http\<close> parsed: canonical, each once.\<close>

definition canonical_names :: "(string \<times> string list) list \<Rightarrow> bool" where
  "canonical_names kvs \<longleftrightarrow> distinct (map fst kvs) \<and> list_all (\<lambda>kv. CanonicalHeaderKey (fst kv) = fst kv) kvs"

lemma Values_canonical:
  assumes "canonical_names kvs"
  shows "concat (map (\<lambda>(name, vs). if k = CanonicalHeaderKey name \<and> k \<notin> set hopByHopHeaders then vs else []) kvs) =
    (if k \<in> set hopByHopHeaders then [] else header_Values kvs k)"
  using assms
proof (induction kvs)
  case (Cons kv kvs)
  obtain name vs where kv: "kv = (name, vs)" by fastforce
  have "canonical_names kvs" using Cons.prems by (simp add: canonical_names_def)
  moreover have "header_Values kvs name = []"
    using Cons.prems kv by (simp add: canonical_names_def header_Values_def map_of_eq_None_iff [THEN iffD2])
  ultimately show ?case using Cons kv by (auto simp: canonical_names_def)
qed simp

lemma Values_copied:
  "canonical_names kvs \<Longrightarrow> header_Values (foldl copy_header [] kvs) k = (if k \<in> set hopByHopHeaders then [] else header_Values kvs k)"
  by (simp only: Values_copy_headers Values_canonical header_Values_simps append_Nil)

lemma nheader_sort:
  assumes "canonical_names (nheader_list h)"
  shows "canonical_names (nheader_list (map_option (sort_key fst) h))"
    "header_Values (nheader_list (map_option (sort_key fst) h)) k = header_Values (nheader_list h) k"
proof -
  let ?g = "\<lambda>kv. (fst kv, case snd kv of None \<Rightarrow> [] | Some v \<Rightarrow> v)"
  have l: "nheader_list h = map ?g (case h of None \<Rightarrow> [] | Some kvs \<Rightarrow> kvs)"
    "nheader_list (map_option (sort_key fst) h) = map ?g (sort_key fst (case h of None \<Rightarrow> [] | Some kvs \<Rightarrow> kvs))"
    by (cases h; simp add: nheader_list_def case_prod_unfold)+
  then have s: "set (nheader_list (map_option (sort_key fst) h)) = set (nheader_list h)" by simp
  have d: "distinct (map fst (nheader_list (map_option (sort_key fst) h))) \<longleftrightarrow> distinct (map fst (nheader_list h))"
    unfolding l by (simp add: comp_def distinct_map)
  with assms s show "canonical_names (nheader_list (map_option (sort_key fst) h))"
    by (simp add: canonical_names_def list_all_iff)
  have "map_of (nheader_list (map_option (sort_key fst) h)) = map_of (nheader_list h)"
    using assms d s by (simp add: map_of_inject_set canonical_names_def)
  then show "header_Values (nheader_list (map_option (sort_key fst) h)) k = header_Values (nheader_list h) k"
    by (simp add: header_Values_def)
qed

lemma replay_headers:
  assumes "canonical_names (nheader_list h)"
  shows "header_Values (ho_header (replay_request \<lparr>fq_Target = t, fq_Headers = h, fq_Body = b, fq_WebhookID = wid\<rparr>)) k =
    (if wid \<noteq> '''' \<and> k = ''Webhook-Id'' then [wid]
     else if k \<in> set hopByHopHeaders then [] else header_Values (nheader_list h) k)"
proof -
  have "CanonicalHeaderKey ''Webhook-Id'' = ''Webhook-Id''" by code_simp
  then show ?thesis
    by (simp add: replay_request_def Let_def Values_copied [OF assms])
qed

subsection \<open>Frames survive the wire\<close>

definition sorted_headers :: "EventFrame \<Rightarrow> EventFrame" where
  "sorted_headers f = f\<lparr>evf_Headers := map_option (sort_key fst) (evf_Headers f)\<rparr>"

lemma strings_value_of: "strings_value (header_value vs) = Some vs"
  by (cases vs) (simp_all add: list_all_iff comp_def)

lemma headers_field_value:
  assumes "get r = None"
  shows "headers_field get upd raw (headers_value h) r = Some (upd (\<lambda>_. map_option (sort_key fst) h) r)"
  using assms by (cases h) (auto simp: headers_field_def strings_value_of list_all_iff case_prod_unfold comp_def)

text \<open>Fields that only look at the value, not at its text: reading a written struct is setting the values.\<close>

definition textless :: "(string \<times> 'r field) list \<Rightarrow> bool" where
  "textless fs \<longleftrightarrow> (\<forall>f \<in> set fs. \<forall>raw v r. snd f raw v r = snd f [] v r)"

definition set_value :: "(string \<times> 'r field) list \<Rightarrow> string \<times> json \<Rightarrow> 'r \<Rightarrow> 'r option" where
  "set_value fs kj r = (case find (\<lambda>f. fold_key (fst f) = fold_key (fst kj)) fs of None \<Rightarrow> Some r | Some f \<Rightarrow> snd f [] (snd kj) r)"

lemma set_member_value:
  assumes "textless fs" "member_renders n m kj" "n < max_depth"
  shows "set_member fs m r = set_value fs kj r"
proof -
  have "json_Unmarshal (snd m) = Some (snd kj)" "fst m = fst kj"
    using assms(2) renders_Unmarshal [OF _ assms(3)] by (auto simp: member_renders_def)
  note u = this
  show ?thesis
  proof (cases "find (\<lambda>f. fold_key (fst f) = fold_key (fst kj)) fs")
    case None
    then show ?thesis by (simp add: set_member_def set_value_def u)
  next
    case (Some f)
    then have "f \<in> set fs" using find_SomeD by metis
    then have "snd f (snd m) (snd kj) r = snd f [] (snd kj) r" using assms(1) unfolding textless_def by blast
    with Some show ?thesis by (simp add: set_member_def set_value_def u)
  qed
qed

lemma fold_set_values:
  assumes "textless fs" "list_all2 (member_renders n) ms kjs" "n < max_depth"
  shows "fold_opt (set_member fs) ms r = fold_opt (set_value fs) kjs r"
  using assms(2)
proof (induction ms kjs arbitrary: r rule: list_all2_induct)
  case (Cons m ms kj kjs)
  then show ?case using set_member_value [OF assms(1) Cons.hyps(1) assms(3)] by (simp split: option.splits)
qed simp

lemma textless_fields: "textless event_fields" "textless ack_fields" "textless ready_fields"
    "textless [(''type'', string_field tf_Type_update)]"
  by (simp_all add: textless_def event_fields_def ack_fields_def ready_fields_def string_field_def [abs_def]
      int64_field_def [abs_def] strings_field_def [abs_def] headers_field_def [abs_def] bytes_field_def [abs_def])

lemma Unmarshal_EventFrame_marshal:
  assumes "frame_valid f"
  shows "Unmarshal_EventFrame (marshal_EventFrame f) = Some (sorted_headers f)"
proof -
  have "fold_opt (set_value event_fields) (frame_values f) no_event = Some (sorted_headers f)"
    by (simp add: frame_values_def event_fields_def set_value_def no_event_def string_field_def headers_field_value bytes_field_def
        b64_std_Decode_Encode sorted_headers_def upper_char_def)
  then show ?thesis
    using fold_set_values [OF textless_fields(1) frame_members_render [OF assms]]
    by (simp add: Unmarshal_EventFrame_def Unmarshal_frame [OF assms] max_depth_def)
qed

lemma Unmarshal_typedFrame_event:
  assumes "frame_valid f"
  shows "Unmarshal_typedFrame (marshal_EventFrame f) = Some \<lparr>tf_Type = evf_Type f\<rparr>"
proof -
  have "fold_opt (set_value [(''type'', string_field tf_Type_update)]) (frame_values f) \<lparr>tf_Type = ''''\<rparr> = Some \<lparr>tf_Type = evf_Type f\<rparr>"
    by (simp add: frame_values_def set_value_def string_field_def upper_char_def)
  then show ?thesis
    using fold_set_values [OF textless_fields(4) frame_members_render [OF assms], of "\<lparr>tf_Type = ''''\<rparr>"]
    by (simp add: Unmarshal_typedFrame_def Unmarshal_frame [OF assms] max_depth_def)
qed

definition ready_values :: "ReadyFrame \<Rightarrow> (string \<times> json) list" where
  "ready_values f = [(''type'', JString (rf_Type f)), (''destination_id'', JString (rf_DestinationID f)),
     (''sources'', JArray (map JString (rf_Sources f)))]"

definition ready_valid :: "ReadyFrame \<Rightarrow> bool" where
  "ready_valid f \<longleftrightarrow> utf8_valid (rf_Type f) \<and> utf8_valid (rf_DestinationID f) \<and> list_all utf8_valid (rf_Sources f)"

lemma Unmarshal_ready:
  assumes "ready_valid f" "textless fs"
  shows "Unmarshal_struct fs zero (marshal_ReadyFrame f) = fold_opt (set_value fs) (ready_values f) zero"
proof -
  let ?ms = "[(''type'', marshal_string (rf_Type f)), (''destination_id'', marshal_string (rf_DestinationID f)),
    (''sources'', marshal_strings (rf_Sources f))]"
  have "utf8_valid ''type''" "utf8_valid ''destination_id''" "utf8_valid ''sources''" by (rule ascii_valid, simp)+
  then have r: "list_all2 (member_renders 1) ?ms (ready_values f)"
    using assms(1) by (simp add: ready_values_def ready_valid_def member_renders_def renders_string renders_strings list_all_iff)
  have "Unmarshal_struct fs zero (marshal_object ?ms) = fold_opt (set_member fs) ?ms zero"
    by (rule Unmarshal_struct_text [OF r]) (simp_all add: ready_values_def max_depth_def skips_string skips_strings tight_texts)
  then show ?thesis using fold_set_values [OF assms(2) r] by (simp add: marshal_ReadyFrame_def max_depth_def)
qed

lemma string_elems_strings: "string_elems old (map JString ss) = Some ss"
  by (induction ss arbitrary: old) simp_all

lemma Unmarshal_ReadyFrame_marshal:
  assumes "ready_valid f"
  shows "Unmarshal_ReadyFrame (marshal_ReadyFrame f) = Some f" "Unmarshal_typedFrame (marshal_ReadyFrame f) = Some \<lparr>tf_Type = rf_Type f\<rparr>"
  unfolding Unmarshal_ReadyFrame_def Unmarshal_typedFrame_def
    Unmarshal_ready [OF assms textless_fields(3)] Unmarshal_ready [OF assms textless_fields(4)]
  by (simp_all add: ready_values_def set_value_def ready_fields_def string_field_def strings_field_def string_elems_strings upper_char_def)

definition ack_valid :: "AckFrame \<Rightarrow> bool" where
  "ack_valid a \<longleftrightarrow> utf8_valid (ack_Type a) \<and> utf8_valid (ack_DeliveryID a) \<and> utf8_valid (ack_Error a) \<and>
     ack_StatusCode a \<in> {- (2 ^ 63) ..< 2 ^ 63} \<and> ack_DurationMs a \<in> {- (2 ^ 63) ..< 2 ^ 63}"

lemma Unmarshal_AckFrame_marshal:
  assumes "ack_valid a"
  shows "Unmarshal_AckFrame (marshal_AckFrame a) = Some a"
proof -
  let ?ms = "[(''type'', marshal_string (ack_Type a)), (''delivery_id'', marshal_string (ack_DeliveryID a)),
       (''status_code'', FormatInt (ack_StatusCode a))] @
      (if ack_Error a = '''' then [] else [(''error'', marshal_string (ack_Error a))]) @
      (if ack_DurationMs a = 0 then [] else [(''duration_ms'', FormatInt (ack_DurationMs a))])"
  let ?vs = "[(''type'', JString (ack_Type a)), (''delivery_id'', JString (ack_DeliveryID a)),
       (''status_code'', JNumber (FormatInt (ack_StatusCode a)))] @
      (if ack_Error a = '''' then [] else [(''error'', JString (ack_Error a))]) @
      (if ack_DurationMs a = 0 then [] else [(''duration_ms'', JNumber (FormatInt (ack_DurationMs a)))])"
  have "utf8_valid ''type''" "utf8_valid ''delivery_id''" "utf8_valid ''status_code''" "utf8_valid ''error''" "utf8_valid ''duration_ms''"
    by (rule ascii_valid, simp)+
  then have r: "list_all2 (member_renders 1) ?ms ?vs"
    using assms by (simp add: ack_valid_def member_renders_def renders_string renders_int)
  have "Unmarshal_struct ack_fields no_ack (marshal_object ?ms) = fold_opt (set_member ack_fields) ?ms no_ack"
    by (rule Unmarshal_struct_text [OF r]) (auto simp: max_depth_def skips_string skips_FormatInt tight_texts tight_FormatInt)
  also have "\<dots> = fold_opt (set_value ack_fields) ?vs no_ack"
    by (rule fold_set_values [OF textless_fields(2) r]) (simp add: max_depth_def)
  also have "\<dots> = Some a"
    using assms ParseInt_FormatInt [of "ack_StatusCode a"] ParseInt_FormatInt [of "ack_DurationMs a"]
    by (simp add: set_value_def ack_fields_def string_field_def int64_field_def no_ack_def ack_valid_def upper_char_def)
  finally show ?thesis by (simp add: Unmarshal_AckFrame_def marshal_AckFrame_def)
qed

subsection \<open>From the gateway to the local server and back\<close>

text \<open>The request a local server gets for a frame: the provider's body and headers, less those of the connection.\<close>

definition replays :: "Options \<Rightarrow> EventFrame \<Rightarrow> http_out \<Rightarrow> bool" where
  "replays opts f r \<longleftrightarrow> ho_url r = op_ForwardTo opts \<and> ho_body r = evf_Body f \<and>
     (\<forall>k. header_Values (ho_header r) k =
        (if evf_DeliveryID f \<noteq> '''' \<and> k = ''Webhook-Id'' then [evf_DeliveryID f]
         else if k \<in> set hopByHopHeaders then [] else header_Values (nheader_list (evf_Headers f)) k))"

text \<open>The acknowledgement of a frame that was replayed: it reaches the gateway with what the local server answered.\<close>

definition acks :: "EventFrame \<Rightarrow> string + int \<Rightarrow> AckFrame \<Rightarrow> bool" where
  "acks f answer ack \<longleftrightarrow> Unmarshal_AckFrame (marshal_AckFrame ack) = Some ack \<and>
     ack_Type ack = FrameAck \<and> ack_DeliveryID ack = evf_DeliveryID f \<and>
     (case answer of Inl e \<Rightarrow> ack_Error ack = e \<and> ack_StatusCode ack = 0 | Inr code \<Rightarrow> ack_Error ack = '''' \<and> ack_StatusCode ack = code)"

text \<open>Codes and durations are int64, error texts are valid UTF-8.\<close>

definition machine_ok :: "machine \<Rightarrow> bool" where
  "machine_ok m \<longleftrightarrow> - (2 ^ 63) \<le> lm_elapsed m \<and> lm_elapsed m < 2 ^ 63 \<and>
     (\<forall>r. case lm_Do m r of Inl e \<Rightarrow> utf8_valid e | Inr code \<Rightarrow> - (2 ^ 63) \<le> code \<and> code < 2 ^ 63)"

definition event_ok :: "EventFrame \<Rightarrow> bool" where
  "event_ok f \<longleftrightarrow> frame_valid f \<and> evf_Type f = FrameEvent \<and> canonical_names (nheader_list (evf_Headers f))"

lemma go_div_bounds:
  assumes "- (2 ^ 63) \<le> d" "d < 2 ^ 63"
  shows "go_div d millisecond \<in> {- (2 ^ 63) ..< 2 ^ 63}"
proof -
  have "\<bar>d\<bar> div 1000000 \<le> 2 ^ 63 div 1000000" using assms by (intro zdiv_mono1) auto
  moreover have "0 \<le> \<bar>d\<bar> div 1000000" by (simp add: pos_imp_zdiv_nonneg_iff)
  ultimately have "0 \<le> \<bar>d\<bar> div 1000000" "\<bar>d\<bar> div 1000000 \<le> 2 ^ 62" by simp_all
  then show ?thesis by (auto simp: go_div_def millisecond_def sgn_if)
qed

lemma handle_replays:
  assumes "event_ok f" "machine_ok m" "lm_NewRequest m (op_ForwardTo opts) = None"
  shows "\<exists>r ack. handle opts m (sorted_headers f) = ([r], ack) \<and> replays opts f r \<and> acks f (lm_Do m r) ack"
proof -
  have c: "canonical_names (nheader_list (evf_Headers f))" and v: "utf8_valid (evf_DeliveryID f)"
    using assms(1) by (simp_all add: event_ok_def frame_valid_def)
  let ?q = "\<lparr>fq_Target = op_ForwardTo opts, fq_Headers = map_option (sort_key fst) (evf_Headers f), fq_Body = evf_Body f,
    fq_WebhookID = evf_DeliveryID f\<rparr>"
  let ?r = "replay_request ?q"
  define ack where "ack = snd (handle opts m (sorted_headers f))"
  have h: "handle opts m (sorted_headers f) = ([?r], ack)"
    using assms(3) by (auto simp: ack_def handle_def forward_Post_def sorted_headers_def Let_def split: sum.splits)
  have "replays opts f ?r"
    unfolding replays_def replay_headers [OF nheader_sort(1) [OF c]] nheader_sort(2) [OF c]
    by (simp add: replay_request_def Let_def)
  moreover have "utf8_valid FrameAck" "utf8_valid ''''" by (rule ascii_valid, simp add: FrameAck_def)+
  then have "acks f (lm_Do m ?r) ack"
    using assms(2,3) v go_div_bounds [of "lm_elapsed m"]
    by (auto simp: acks_def ack_def handle_def forward_Post_def sorted_headers_def Let_def machine_ok_def ack_valid_def
        split: sum.splits dest: spec [of _ ?r] intro!: Unmarshal_AckFrame_marshal)
  ultimately show ?thesis using h by blast
qed

lemma read_loop_events:
  assumes "list_all event_ok fs"
  shows "read_loop je ready (map marshal_EventFrame fs) lost = (ready, Transient lost, map sorted_headers fs)"
  using assms
proof (induction fs)
  case (Cons f fs)
  have "evf_Type f = FrameEvent" "frame_valid f" using Cons.prems by (simp_all add: event_ok_def)
  moreover have "FrameEvent \<noteq> FrameReady" by (simp add: FrameEvent_def FrameReady_def)
  ultimately show ?case
    using Cons by (simp add: Unmarshal_typedFrame_event Unmarshal_EventFrame_marshal)
qed simp

text \<open>
  C22. The tunnel, end to end. When the client reaches the gateway and the gateway writes its ready frame and then event frames (of
  valid UTF-8, with the canonical header names that \<^verbatim>\<open>net/http\<close> gives it), the session becomes ready and every event, in order, is
  replayed once at the local server: the provider's body byte for byte, every header with all its values except the
  connection's own, and the delivery's id as \<^verbatim>\<open>Webhook-Id\<close>. Each is acknowledged by its delivery id, and from the bytes of the
  acknowledgement the gateway reads the status the local server answered, or the reason it could not be reached.
\<close>

theorem tunnel_end_to_end:
  assumes "websocketURL pl (op_GatewayURL opts) (op_Source opts) = Inr endpoint"
    and "dial endpoint [(''Authorization'', [''Bearer '' @ op_APIKey opts])] = Socket (marshal_ReadyFrame rf # map marshal_EventFrame fs) lost"
    and "ready_valid rf" "rf_Type rf = FrameReady" "list_all event_ok fs"
    and "machine_ok m" "lm_NewRequest m (op_ForwardTo opts) = None"
  shows "\<exists>started. runSession pl dial opts = (True, Transient lost, started) \<and>
    list_all2 (\<lambda>f f'. \<exists>r ack. handle opts m f' = ([r], ack) \<and> replays opts f r \<and> acks f (lm_Do m r) ack) fs started"
proof -
  have "runSession pl dial opts = (True, Transient lost, map sorted_headers fs)"
    using assms(1-4) by (simp add: runSession_def Unmarshal_ReadyFrame_marshal read_loop_events [OF assms(5)])
  moreover have "list_all2 (\<lambda>f f'. \<exists>r ack. handle opts m f' = ([r], ack) \<and> replays opts f r \<and> acks f (lm_Do m r) ack) fs (map sorted_headers fs)"
    using assms(5) handle_replays [OF _ assms(6,7)] by (auto simp: list_all2_map2 list_all2_same list_all_iff)
  ultimately show ?thesis by blast
qed

definition machine_example :: machine where
  "machine_example = \<lparr>lm_NewRequest = (\<lambda>_. None), lm_Do = (\<lambda>r. Inr (if ho_body r = ''{}'' then 200 else 500)), lm_elapsed = 45 * millisecond\<rparr>"

definition platform_example :: "unit platform" where
  "platform_example = \<lparr>pl_Parse = (\<lambda>s. Inr \<lparr>u_Scheme = takeWhile (\<lambda>c. c \<noteq> CHR '':'') s, u_Path = '''', u_RawQuery = ''''\<rparr>),
     pl_String = (\<lambda>u. u_Scheme u @ ''://gateway'' @ u_Path u @ ''?'' @ u_RawQuery u), pl_quote = (\<lambda>s. s), pl_json_error = (\<lambda>_. '''')\<rparr>"

definition options_example :: Options where
  "options_example = \<lparr>op_GatewayURL = ''https://gateway'', op_APIKey = ''whg_k'', op_Source = ''stripe'', op_ForwardTo = ''http://localhost:3000''\<rparr>"

definition ready_example :: ReadyFrame where
  "ready_example = \<lparr>rf_Type = FrameReady, rf_DestinationID = ''d'', rf_Sources = [''stripe'']\<rparr>"

definition dial_example :: "EventFrame list \<Rightarrow> string \<Rightarrow> header \<Rightarrow> dialled" where
  "dial_example fs endpoint h = (if endpoint = ''wss://gateway/api/tunnel?source=stripe''
     then Socket (marshal_ReadyFrame ready_example # map marshal_EventFrame fs) ''EOF'' else DialFailed None ''no such host'')"

theorem tunnel_end_to_end_witness:
  "\<exists>started. runSession platform_example (dial_example [frame_example]) options_example = (True, Transient ''EOF'', started) \<and>
     list_all2 (\<lambda>f f'. \<exists>r ack. handle options_example machine_example f' = ([r], ack) \<and> replays options_example f r \<and>
       acks f (lm_Do machine_example r) ack) [frame_example] started"
proof (rule tunnel_end_to_end)
  show "websocketURL platform_example (op_GatewayURL options_example) (op_Source options_example) = Inr ''wss://gateway/api/tunnel?source=stripe''"
    by code_simp
  show "list_all event_ok [frame_example]"
    by (auto simp: event_ok_def frame_valid_def frame_example_def headers_valid_def FrameEvent_def canonical_names_def
        nheader_list_def CanonicalHeaderKey_def intro!: ascii_valid) code_simp?
  show "ready_valid ready_example"
    by (auto simp: ready_valid_def ready_example_def FrameReady_def intro!: ascii_valid)
qed (simp_all add: dial_example_def ready_example_def machine_example_def machine_ok_def millisecond_def options_example_def)

subsection \<open>Reconnects are paced\<close>

text \<open>How many sessions in a row did not become ready, when the loop waits after each of these.\<close>

fun failures :: "nat \<Rightarrow> bool list \<Rightarrow> nat list" where
  "failures n [] = []"
| "failures n (up # ups) = (if up then 0 else n) # failures (Suc (if up then 0 else n)) ups"

definition pause_after :: "nat \<Rightarrow> duration" where
  "pause_after k = min (2 ^ k * second) (30 * second)"

definition became_ready :: "'u platform \<Rightarrow> Options \<Rightarrow> turn \<Rightarrow> bool" where
  "became_ready pl opts t = fst (runSession pl (tn_dial t) opts)"

definition ended_with :: "'u platform \<Rightarrow> Options \<Rightarrow> turn \<Rightarrow> session_error" where
  "ended_with pl opts t = fst (snd (runSession pl (tn_dial t) opts))"

definition draws :: "turn \<Rightarrow> bool" where
  "draws t \<longleftrightarrow> (\<forall>n > 0. 0 \<le> tn_Int64N t n \<and> tn_Int64N t n < n)"

lemma pause_after_0: "pause_after 0 = minBackoff"
  by (simp add: pause_after_def minBackoff_def second_def)

lemma pause_after_Suc:
  "(if pause_after k < maxBackoff then min (pause_after k * 2) maxBackoff else pause_after k) = pause_after (Suc k)"
  by (auto simp: pause_after_def maxBackoff_def second_def min_def)

lemma pause_after_bounds: "second \<le> pause_after k" "pause_after k \<le> 30 * second"
proof -
  have "1 * second \<le> 2 ^ k * second" by (intro mult_right_mono) (simp_all add: second_def)
  then show "second \<le> pause_after k" "pause_after k \<le> 30 * second" by (simp_all add: pause_after_def second_def)
qed

lemma jitter_bounds:
  assumes "draws t"
  shows "pause_after k div 2 \<le> jitter (tn_Int64N t) (pause_after k)" "jitter (tn_Int64N t) (pause_after k) \<le> pause_after k"
proof -
  let ?d = "pause_after k"
  have "0 < ?d div 2" using pause_after_bounds(1) [of k] by (simp add: second_def)
  moreover have "go_div ?d 2 = ?d div 2" using pause_after_bounds(1) [of k] by (simp add: go_div_nonneg second_def)
  ultimately have "jitter (tn_Int64N t) ?d = ?d div 2 + tn_Int64N t (?d div 2 + 1)"
    "0 \<le> tn_Int64N t (?d div 2 + 1)" "tn_Int64N t (?d div 2 + 1) \<le> ?d div 2"
    using assms unfolding jitter_def draws_def Let_def by (simp, simp, smt (verit))
  then show "?d div 2 \<le> jitter (tn_Int64N t) ?d" "jitter (tn_Int64N t) ?d \<le> ?d" by linarith+
qed

lemma Listen_turn:
  "Listen_from pl opts (pause_after n) (t # ts) =
     (if tn_cancelled t then ([], CleanExit)
      else case ended_with pl opts t of
        PermanentError msg \<Rightarrow> ([], GaveUp msg)
      | Transient e \<Rightarrow> (let k = (if became_ready pl opts t then 0 else n); w = jitter (tn_Int64N t) (pause_after k)
          in if tn_interrupted t then ([w], CleanExit)
             else (case Listen_from pl opts (pause_after (Suc k)) ts of (ws, e) \<Rightarrow> (w # ws, e))))"
proof -
  obtain up err fs where r: "runSession pl (tn_dial t) opts = (up, err, fs)" by (cases "runSession pl (tn_dial t) opts")
  have b: "(if up then minBackoff else pause_after n) = pause_after (if up then 0 else n)" by (simp add: pause_after_0)
  show ?thesis
    by (simp add: r became_ready_def ended_with_def Let_def b pause_after_Suc split del: if_split cong: session_error.case_cong if_cong)
qed

lemma read_loop_transient: "\<exists>e. fst (snd (read_loop je r ms lost)) = Transient e"
proof (induction ms arbitrary: r)
  case (Cons data ms)
  obtain r' e fs where "read_loop je r ms lost = (r', e, fs)" by (cases "read_loop je r ms lost")
  with Cons [of r] Cons [of True] show ?case by (auto split: option.splits)
qed simp

lemma runSession_permanent:
  assumes "ended_with pl opts t = PermanentError msg"
  shows "websocketURL pl (op_GatewayURL opts) (op_Source opts) = Inl msg \<or>
    (\<exists>endpoint h code err. tn_dial t endpoint h = DialFailed (Some code) err \<and> code \<in> {400, 401, 403, 404})"
proof (cases "websocketURL pl (op_GatewayURL opts) (op_Source opts)")
  case (Inl e)
  then show ?thesis using assms by (simp add: ended_with_def runSession_def)
next
  case (Inr endpoint)
  have "\<exists>h resp err. tn_dial t endpoint h = DialFailed resp err \<and> dialError pl opts resp err = PermanentError msg"
    using assms Inr read_loop_transient [of "pl_json_error pl" False]
    by (auto simp: ended_with_def runSession_def split: dialled.splits) (metis session_error.distinct(1))
  then obtain h resp err where d: "tn_dial t endpoint h = DialFailed resp err" "dialError pl opts resp err = PermanentError msg" by blast
  then obtain code where "resp = Some code" "code \<in> {400, 401, 403, 404}"
    by (auto simp: dialError_def Let_def split: option.splits if_splits)
  with d show ?thesis by blast
qed

lemma Listen_from_paces:
  assumes "list_all draws ts" "Listen_from pl opts (pause_after n) ts = (ws, e)"
  shows "list_all2 (\<lambda>k w. pause_after k div 2 \<le> w \<and> w \<le> pause_after k) (take (length ws) (failures n (map (became_ready pl opts) ts))) ws \<and>
    (case e of Running \<Rightarrow> length ws = length ts
     | CleanExit \<Rightarrow> (\<exists>t \<in> set ts. tn_cancelled t \<or> tn_interrupted t)
     | GaveUp msg \<Rightarrow> length ws < length ts \<and> ended_with pl opts (ts ! length ws) = PermanentError msg)"
  using assms
proof (induction ts arbitrary: n ws e)
  case (Cons t ts)
  define k where "k = (if became_ready pl opts t then 0 else n)"
  obtain ws' e' where r: "Listen_from pl opts (pause_after (Suc k)) ts = (ws', e')" by fastforce
  have d: "draws t" "list_all draws ts" using Cons.prems(1) by simp_all
  have f: "failures n (map (became_ready pl opts) (t # ts)) = k # failures (Suc k) (map (became_ready pl opts) ts)"
    by (simp add: k_def)
  have turn: "Listen_from pl opts (pause_after n) (t # ts) = (if tn_cancelled t then ([], CleanExit)
      else case ended_with pl opts t of
        PermanentError msg \<Rightarrow> ([], GaveUp msg)
      | Transient e \<Rightarrow> if tn_interrupted t then ([jitter (tn_Int64N t) (pause_after k)], CleanExit)
          else (jitter (tn_Int64N t) (pause_after k) # ws', e'))"
    by (simp only: Listen_turn Let_def k_def [symmetric] r prod.case)
  from Cons.prems(2) Cons.IH [OF d(2) r] jitter_bounds [OF d(1)] show ?case
    unfolding turn f by (auto split: if_splits session_error.splits listen_end.splits)
qed auto

text \<open>
  Reconnecting is paced and ends only for a reason. The wait after a session, when \<open>k\<close> sessions in a row did not become ready, lies
  between a half of and the whole of \<open>2\<close> to the \<open>k\<close> seconds, capped at half a minute, and a session that became ready starts
  the count anew; so no wait is shorter than half a second or longer than thirty. \<^verbatim>\<open>Listen\<close> stops only when its context ends,
  or at a gateway URL it cannot use or a refusal with 400, 401, 403 or 404, which no retry can change; after everything else it tries
  again.
\<close>

theorem Listen_paces:
  assumes "list_all draws ts" "Listen pl opts ts = (ws, e)"
  shows "list_all2 (\<lambda>k w. pause_after k div 2 \<le> w \<and> w \<le> pause_after k) (take (length ws) (failures 0 (map (became_ready pl opts) ts))) ws \<and>
    (\<forall>w \<in> set ws. 500 * millisecond \<le> w \<and> w \<le> 30 * second) \<and>
    (case e of Running \<Rightarrow> length ws = length ts
     | CleanExit \<Rightarrow> (\<exists>t \<in> set ts. tn_cancelled t \<or> tn_interrupted t)
     | GaveUp msg \<Rightarrow> length ws < length ts \<and>
         (websocketURL pl (op_GatewayURL opts) (op_Source opts) = Inl msg \<or>
          (\<exists>endpoint h code err. tn_dial (ts ! length ws) endpoint h = DialFailed (Some code) err \<and> code \<in> {400, 401, 403, 404})))"
proof -
  have l: "list_all2 (\<lambda>k w. pause_after k div 2 \<le> w \<and> w \<le> pause_after k) (take (length ws) (failures 0 (map (became_ready pl opts) ts))) ws"
    and e: "case e of Running \<Rightarrow> length ws = length ts
     | CleanExit \<Rightarrow> (\<exists>t \<in> set ts. tn_cancelled t \<or> tn_interrupted t)
     | GaveUp msg \<Rightarrow> length ws < length ts \<and> ended_with pl opts (ts ! length ws) = PermanentError msg"
    using Listen_from_paces [OF assms(1), of pl opts 0 ws e] assms(2) by (simp_all add: Listen_def pause_after_0)
  have "500 * millisecond \<le> w \<and> w \<le> 30 * second" if w: "w \<in> set ws" for w
  proof -
    obtain i where i: "i < length ws" "w = ws ! i" using w by (auto simp: in_set_conv_nth)
    let ?k = "take (length ws) (failures 0 (map (became_ready pl opts) ts)) ! i"
    have "pause_after ?k div 2 \<le> w" "w \<le> pause_after ?k" using list_all2_nthD2 [OF l i(1)] i(2) by simp_all
    then show ?thesis using pause_after_bounds [of ?k] by (simp add: second_def millisecond_def)
  qed
  moreover have "case e of Running \<Rightarrow> length ws = length ts
     | CleanExit \<Rightarrow> (\<exists>t \<in> set ts. tn_cancelled t \<or> tn_interrupted t)
     | GaveUp msg \<Rightarrow> length ws < length ts \<and>
         (websocketURL pl (op_GatewayURL opts) (op_Source opts) = Inl msg \<or>
          (\<exists>endpoint h code err. tn_dial (ts ! length ws) endpoint h = DialFailed (Some code) err \<and> code \<in> {400, 401, 403, 404}))"
  proof (cases e)
    case (GaveUp msg)
    with e have g: "length ws < length ts" "ended_with pl opts (ts ! length ws) = PermanentError msg" by simp_all
    from g(1) runSession_permanent [OF g(2)] show ?thesis unfolding GaveUp listen_end.case by (rule conjI)
  qed (use e in simp_all)
  ultimately show ?thesis using l by blast
qed

definition turns_example :: "turn list" where
  "turns_example = map (\<lambda>d. \<lparr>tn_dial = d, tn_cancelled = False, tn_interrupted = False, tn_Int64N = (\<lambda>n. n - 1)\<rparr>)
     [\<lambda>_ _. DialFailed None ''refused'', \<lambda>_ _. DialFailed (Some 502) ''bad gateway'', dial_example [], \<lambda>_ _. DialFailed (Some 403) ''forbidden'']"

theorem Listen_paces_witness:
  "Listen platform_example options_example turns_example =
     ([second, 2 * second, second], GaveUp ''that key lacks the `tunnel` scope'') \<and>
   list_all (\<lambda>w. 500 * millisecond \<le> w \<and> w \<le> 30 * second) [second, 2 * second, second]"
proof -
  have url: "websocketURL platform_example (op_GatewayURL options_example) (op_Source options_example) = Inr ''wss://gateway/api/tunnel?source=stripe''"
    by code_simp
  have "ready_valid ready_example" by (auto simp: ready_valid_def ready_example_def FrameReady_def intro!: ascii_valid)
  then have up: "runSession platform_example (dial_example []) options_example = (True, Transient ''EOF'', [])"
    by (simp add: runSession_def url dial_example_def Unmarshal_ReadyFrame_marshal ready_example_def)
  have down: "runSession platform_example (\<lambda>_ _. DialFailed r x) options_example = (False, dialError platform_example options_example r x, [])" for r x
    by (simp add: runSession_def url)
  have "Listen platform_example options_example turns_example = ([second, 2 * second, second], GaveUp ''that key lacks the `tunnel` scope'')"
    by (simp add: Listen_def turns_example_def up down dialError_def jitter_def minBackoff_def maxBackoff_def second_def go_div_def)
  moreover have "list_all draws turns_example" by (simp add: turns_example_def draws_def)
  ultimately show ?thesis using Listen_paces [of turns_example platform_example options_example] unfolding list_all_iff by blast
qed

end
