(* ===== verification/Events_Api.thy ===== *)
theory Events_Api
  imports Api_Base Delivery
begin

text \<open>
  Reading events through the API (\<^verbatim>\<open>internal/api/events.go\<close>): the paginated list, one event, and the trace of
  an event with every delivery and attempt.
\<close>

subsection \<open>The list\<close>

definition defaultEventsPageSize :: int where "defaultEventsPageSize = 50"
definition maxEventsPageSize :: int where "maxEventsPageSize = 200"

definition parseTimeParam :: "api_env \<Rightarrow> string \<Rightarrow> time option" where
  "parseTimeParam env s = e_ParseTime env s"

record list_params =
  lp_filter :: event_filter
  lp_cursor :: "uuid option"
  lp_limit :: int

definition parseListEventsQuery :: "api_env \<Rightarrow> url_values \<Rightarrow> string + list_params" where
  "parseListEventsQuery env q =
     and_then (param q ''source_id'' (parseUUID env) ''invalid source_id'') (\<lambda>source.
     and_then (param q ''verified'' ParseBool ''verified must be true or false'') (\<lambda>verified.
     and_then (param q ''after'' (parseTimeParam env) ''after must be an RFC3339 timestamp'') (\<lambda>after.
     and_then (param q ''before'' (parseTimeParam env) ''before must be an RFC3339 timestamp'') (\<lambda>before.
     and_then (param q ''search'' Some '''') (\<lambda>search.
     and_then (param q ''delivery_status'' (\<lambda>v. if v \<in> set validDeliveryStatuses then Some v else None) ''invalid delivery_status'') (\<lambda>status.
     and_then (param q ''cursor'' (parseUUID env) ''invalid cursor'') (\<lambda>cursor.
     and_then (param q ''limit'' (\<lambda>v. case ParseInt64 v of None \<Rightarrow> None | Some n \<Rightarrow> if n \<le> 0 then None else Some (min n maxEventsPageSize))
       ''limit must be a positive integer'') (\<lambda>limit.
     let size = (case limit of None \<Rightarrow> defaultEventsPageSize | Some n \<Rightarrow> n)
     in Inr \<lparr>lp_filter = \<lparr>ef_tenant = DefaultTenantID, ef_source = source, ef_verified = verified, ef_after = after,
               ef_before = before, ef_search = search, ef_delivery_status = status\<rparr>,
             lp_cursor = cursor, lp_limit = int32_of (size + 1)\<rparr>))))))))"

record eventSummary =
  es_ID :: string
  es_SourceID :: string
  es_ContentType :: string
  es_DedupeKey :: string
  es_Verified :: bool
  es_ReceivedAt :: time

record listEventsResponse =
  le_Events :: "eventSummary list"
  le_NextCursor :: string

definition summary :: "event \<Rightarrow> eventSummary" where
  "summary e = \<lparr>es_ID = uuidString (ev_id e), es_SourceID = uuidString (ev_source e),
     es_ContentType = text_String (ev_content_type e), es_DedupeKey = text_String (ev_dedupe_key e),
     es_Verified = ev_verified e, es_ReceivedAt = ev_received_at e\<rparr>"

definition list_events :: "api_env \<Rightarrow> url_values \<Rightarrow> world \<Rightarrow> listEventsResponse reply \<times> world" where
  "list_events env q w =
     (case parseListEventsQuery env q of
        Inl msg \<Rightarrow> (Problem 400 msg, w)
      | Inr params \<Rightarrow>
          or_500 (ListEvents (lp_filter params) (lp_cursor params) (lp_limit params) w) (\<lambda>rows.
            let size = nat (lp_limit params - 1)
            in if length rows > size
               then Reply 200 \<lparr>le_Events = map summary (take size rows), le_NextCursor = uuidString (ev_id (last (take size rows)))\<rparr>
               else Reply 200 \<lparr>le_Events = map summary rows, le_NextCursor = ''''\<rparr>))"

subsection \<open>One event\<close>

record eventDetail =
  ed_ID :: string
  ed_SourceID :: string
  ed_RawHeaders :: bytes
  ed_RawBody :: bytes
  ed_ContentType :: string
  ed_ParsedBody :: "bytes option"
  ed_DedupeKey :: string
  ed_Verified :: bool
  ed_ReceivedAt :: time

definition detail :: "event \<Rightarrow> eventDetail" where
  "detail e = \<lparr>ed_ID = uuidString (ev_id e), ed_SourceID = uuidString (ev_source e), ed_RawHeaders = ev_raw_headers e,
     ed_RawBody = ev_raw_body e, ed_ContentType = text_String (ev_content_type e), ed_ParsedBody = ev_parsed_body e,
     ed_DedupeKey = text_String (ev_dedupe_key e), ed_Verified = ev_verified e, ed_ReceivedAt = ev_received_at e\<rparr>"

definition get_event :: "api_env \<Rightarrow> string \<Rightarrow> world \<Rightarrow> eventDetail reply \<times> world" where
  "get_event env pathID w =
     (case parseUUID env pathID of
        None \<Rightarrow> (Problem 400 ''invalid event id'', w)
      | Some eid \<Rightarrow> or_404 ''event not found'' (GetEvent eid DefaultTenantID w) (\<lambda>e. Reply 200 (detail e)))"

subsection \<open>The trace\<close>

record traceAttempt =
  ta_AttemptNumber :: int
  ta_RequestHeaders :: "bytes option"
  ta_ResponseStatusCode :: "int option"
  ta_ResponseHeaders :: "bytes option"
  ta_ResponseBodyTruncated :: string
  ta_Error :: string
  ta_DurationMs :: "int option"
  ta_AttemptedAt :: time

record traceDelivery =
  td_DeliveryID :: string
  td_DestinationID :: string
  td_Status :: string
  td_AttemptCount :: int
  td_QueuedAt :: time
  td_DeadLetteredAt :: "time option"
  td_Attempts :: "traceAttempt list"

record eventTrace =
  et_EventID :: string
  et_ReceivedAt :: time
  et_Verified :: bool
  et_Deliveries :: "traceDelivery list"

definition trace_attempt :: "delivery_attempt \<Rightarrow> traceAttempt" where
  "trace_attempt a = \<lparr>ta_AttemptNumber = at_number a, ta_RequestHeaders = at_request_headers a,
     ta_ResponseStatusCode = at_status_code a, ta_ResponseHeaders = at_response_headers a,
     ta_ResponseBodyTruncated = text_String (at_response_body a), ta_Error = text_String (at_error a),
     ta_DurationMs = at_duration_ms a, ta_AttemptedAt = at_attempted_at a\<rparr>"

text \<open>The map \<^verbatim>\<open>attemptsByDelivery\<close>, built row by row; a missing key is nil, which reads as the empty list.\<close>

definition group_attempts :: "delivery_attempt list \<Rightarrow> uuid \<Rightarrow> traceAttempt list" where
  "group_attempts rows = fold (\<lambda>a m. m(at_delivery a := m (at_delivery a) @ [trace_attempt a])) rows (\<lambda>_. [])"

definition trace_delivery :: "(uuid \<Rightarrow> traceAttempt list) \<Rightarrow> delivery \<Rightarrow> traceDelivery" where
  "trace_delivery attempts d = \<lparr>td_DeliveryID = uuidString (dl_id d), td_DestinationID = uuidString (dl_destination d),
     td_Status = dl_status d, td_AttemptCount = dl_attempt_count d, td_QueuedAt = dl_created_at d,
     td_DeadLetteredAt = dl_dead_lettered_at d, td_Attempts = attempts (dl_id d)\<rparr>"

definition trace :: "api_env \<Rightarrow> string \<Rightarrow> world \<Rightarrow> eventTrace reply \<times> world" where
  "trace env pathID w =
     (case parseUUID env pathID of
        None \<Rightarrow> (Problem 400 ''invalid event id'', w)
      | Some eid \<Rightarrow>
          (case GetEvent eid DefaultTenantID w of
             (Inl NoRows, w1) \<Rightarrow> (Problem 404 ''event not found'', w1)
           | (Inl err, w1) \<Rightarrow> (internal_error, w1)
           | (Inr e, w1) \<Rightarrow>
               (case ListEventDeliveries eid DefaultTenantID w1 of
                  (Inl err, w2) \<Rightarrow> (internal_error, w2)
                | (Inr deliveries, w2) \<Rightarrow>
                    or_500 (ListEventDeliveryAttempts eid DefaultTenantID w2) (\<lambda>attempts.
                      Reply 200 \<lparr>et_EventID = uuidString (ev_id e), et_ReceivedAt = ev_received_at e,
                        et_Verified = ev_verified e,
                        et_Deliveries = map (trace_delivery (group_attempts attempts)) deliveries\<rparr>))))"

subsection \<open>Following the cursors\<close>

text \<open>The events a list request is about: those its filter matches before its cursor, newest id first.\<close>

definition listed :: "postgres \<Rightarrow> database \<Rightarrow> list_params \<Rightarrow> event list" where
  "listed pg d p = rev (sort_key ev_id
     (filter (\<lambda>e. event_matches pg d (lp_filter p) e \<and> (case lp_cursor p of None \<Rightarrow> True | Some c \<Rightarrow> ev_id e < c)) (db_events d)))"

text \<open>A client that repeats its request with the cursor of the last answer, until there is none.\<close>

fun follow :: "nat \<Rightarrow> api_env \<Rightarrow> url_values \<Rightarrow> world \<Rightarrow> eventSummary list option" where
  "follow 0 env q w = None"
| "follow (Suc n) env q w =
     (case list_events env q w of
        (Reply status r, w1) \<Rightarrow>
          if le_NextCursor r = '''' then Some (le_Events r)
          else map_option (append (le_Events r)) (follow n env ((''cursor'', le_NextCursor r) # q) w1)
      | _ \<Rightarrow> None)"

lemma parse_cursor:
  assumes "parseListEventsQuery env q = Inr p" "e_Scan env c = Some u" "c \<noteq> ''''"
  shows "parseListEventsQuery env ((''cursor'', c) # q) = Inr (p\<lparr>lp_cursor := Some u\<rparr>)"
proof -
  have "param ((''cursor'', c) # q) ''cursor'' (parseUUID env) msg = Inr (Some u)" for msg
    using assms(2,3) by (simp add: param_def query_Get_def parseUUID_def)
  then show ?thesis using assms(1) unfolding parseListEventsQuery_def and_then_Inr
    by (clarsimp simp: param_other Let_def and_then_def)
qed

lemma param_limit:
  assumes "param q k (\<lambda>v. case ParseInt64 v of None \<Rightarrow> None
    | Some n \<Rightarrow> if n \<le> 0 then None else Some (min n maxEventsPageSize)) msg = Inr limit"
  shows "limit = None \<or> (\<exists>n. limit = Some n \<and> 0 < n \<and> n \<le> 200)"
  using assms by (auto simp: param_def Let_def maxEventsPageSize_def split: if_splits option.splits)

lemma parse_limit:
  assumes "parseListEventsQuery env q = Inr p"
  shows "1 < lp_limit p \<and> lp_limit p \<le> 201"
proof -
  have size: "1 < int32_of (n + 1) \<and> int32_of (n + 1) \<le> 201" if "0 < n" "n \<le> 200" for n
    using that by (simp add: int32_of_def signed_take_bit_int_eq_self)
  show ?thesis using assms unfolding parseListEventsQuery_def and_then_Inr
    by (clarsimp simp: Let_def dest!: param_limit) (use size [of 50] size in \<open>auto simp: defaultEventsPageSize_def\<close>)
qed

lemma sorted_filter_drop:
  assumes "sorted_wrt (\<lambda>x y. ev_id y < ev_id x) ys" "n < length ys"
  shows "filter (\<lambda>e. ev_id e < ev_id (ys ! n)) ys = drop (Suc n) ys"
proof -
  have "filter (\<lambda>e. ev_id e < ev_id (ys ! n)) (take (Suc n) ys) = []"
  proof -
    have "ev_id (ys ! n) \<le> ev_id (ys ! i)" if "i \<le> n" for i
      using that assms by (cases "i = n") (simp_all add: sorted_wrt_iff_nth_less order_less_imp_le)
    then have "\<forall>e \<in> set (take (Suc n) ys). \<not> ev_id e < ev_id (ys ! n)"
      by (auto simp: in_set_conv_nth less_Suc_eq_le not_less)
    then show ?thesis by (simp add: filter_empty_conv)
  qed
  moreover have "filter (\<lambda>e. ev_id e < ev_id (ys ! n)) (drop (Suc n) ys) = drop (Suc n) ys"
    using assms by (auto simp: filter_id_conv in_set_conv_nth sorted_wrt_iff_nth_less)
  moreover have "filter P ys = filter P (take (Suc n) ys) @ filter P (drop (Suc n) ys)" for P
    by (simp flip: filter_append)
  ultimately show ?thesis by simp
qed

lemma listed_sorted:
  assumes "distinct (map ev_id (db_events d))"
  shows "sorted_wrt (\<lambda>x y. ev_id y < ev_id x) (listed pg d p)"
proof -
  let ?xs = "sort_key ev_id (filter (\<lambda>e. event_matches pg d (lp_filter p) e \<and>
      (case lp_cursor p of None \<Rightarrow> True | Some c \<Rightarrow> ev_id e < c)) (db_events d))"
  have "distinct (map ev_id ?xs)"
    using assms by (simp add: distinct_map inj_on_def)
  then have "sorted_wrt (<) (map ev_id ?xs)" by (simp add: strict_sorted_iff)
  then show ?thesis by (simp add: listed_def sorted_wrt_rev sorted_wrt_map)
qed

lemma listed_cursor:
  assumes "case lp_cursor p of None \<Rightarrow> True | Some c \<Rightarrow> u \<le> c"
  shows "listed pg d (p\<lparr>lp_cursor := Some u\<rparr>) = filter (\<lambda>e. ev_id e < u) (listed pg d p)"
proof -
  have "(event_matches pg d (lp_filter p) e \<and> ev_id e < u) \<longleftrightarrow>
      (event_matches pg d (lp_filter p) e \<and> (case lp_cursor p of None \<Rightarrow> True | Some c \<Rightarrow> ev_id e < c)) \<and> ev_id e < u" for e
    using assms by (auto split: option.splits)
  then show ?thesis by (simp add: listed_def rev_filter [symmetric] filter_sort conj_assoc)
qed

lemma listed_before: "e \<in> set (listed pg d p) \<Longrightarrow> lp_cursor p = Some c \<Longrightarrow> ev_id e < c"
  by (auto simp: listed_def)

lemma list_events_page:
  assumes "parseListEventsQuery env q = Inr p" "filter_texts (w_pg w) (lp_filter p)" "\<not> pg_fault (w_pg w) (w_step w)"
  shows "list_events env q w =
    (let ys = listed (w_pg w) (w_db w) p; size = nat (lp_limit p - 1)
     in (if size < length ys
         then Reply 200 \<lparr>le_Events = map summary (take size ys), le_NextCursor = uuidString (ev_id (ys ! (size - 1)))\<rparr>
         else Reply 200 \<lparr>le_Events = map summary ys, le_NextCursor = ''''\<rparr>, tick w))"
proof -
  let ?ys = "listed (w_pg w) (w_db w) p" and ?size = "nat (lp_limit p - 1)"
  have lim: "nat (lp_limit p) = Suc ?size" "0 < ?size" using parse_limit [OF assms(1)] by (simp_all add: Suc_nat_eq_nat_zadd1)
  have "ListEvents (lp_filter p) (lp_cursor p) (lp_limit p) w = (Inr (take (Suc ?size) ?ys), tick w)"
    using assms(2,3) by (simp add: ListEvents_def exec_def listed_def lim(1) tick_def)
  moreover have "last (take ?size ?ys) = ?ys ! (?size - 1)" if "?size < length ?ys"
    using that lim(2) by (subst last_conv_nth) auto
  ultimately show ?thesis using assms(1) by (auto simp: list_events_def or_500_def Let_def min_def)
qed

lemma uuidString_not_empty: "uuidString u \<noteq> ''''"
  using length_uuidString [of u] by auto

lemma follow_listed:
  assumes "\<And>u. e_Scan env (uuidString u) = Some u" "\<And>n. \<not> pg_fault (w_pg w) n"
    "distinct (map ev_id (db_events (w_db w)))" "parseListEventsQuery env q = Inr p" "filter_texts (w_pg w) (lp_filter p)"
    "length (listed (w_pg w) (w_db w) p) < fuel"
  shows "follow fuel env q w = Some (map summary (listed (w_pg w) (w_db w) p))"
  using assms
proof (induction fuel arbitrary: q p w)
  case (Suc fuel)
  let ?ys = "listed (w_pg w) (w_db w) p" and ?size = "nat (lp_limit p - 1)"
  note page = list_events_page [OF Suc.prems(4,5) Suc.prems(2)]
  show ?case
  proof (cases "?size < length ?ys")
    case True
    let ?u = "ev_id (?ys ! (?size - 1))"
    have size: "0 < ?size" using parse_limit [OF Suc.prems(4)] by simp
    have last: "?ys ! (?size - 1) \<in> set ?ys" using True size by simp
    have rest: "listed (w_pg w) (w_db w) (p\<lparr>lp_cursor := Some ?u\<rparr>) = drop ?size ?ys"
    proof -
      have "case lp_cursor p of None \<Rightarrow> True | Some c \<Rightarrow> ?u \<le> c"
        using listed_before [OF last] by (auto split: option.splits)
      from listed_cursor [OF this] sorted_filter_drop [OF listed_sorted [OF Suc.prems(3)], of "?size - 1"] True size
      show ?thesis by simp
    qed
    have "parseListEventsQuery env ((''cursor'', uuidString ?u) # q) = Inr (p\<lparr>lp_cursor := Some ?u\<rparr>)"
      by (rule parse_cursor [OF Suc.prems(4,1) uuidString_not_empty])
    then have "follow fuel env ((''cursor'', uuidString ?u) # q) (tick w) =
        Some (map summary (listed (w_pg (tick w)) (w_db (tick w)) (p\<lparr>lp_cursor := Some ?u\<rparr>)))"
      by (intro Suc.IH) (use Suc.prems True size rest in \<open>simp_all\<close>)
    then have "follow fuel env ((''cursor'', uuidString ?u) # q) (tick w) = Some (map summary (drop ?size ?ys))"
      by (simp add: rest del: One_nat_def)
    then have "follow (Suc fuel) env q w = Some (map summary (take ?size ?ys) @ map summary (drop ?size ?ys))"
      using True by (simp add: page Let_def uuidString_not_empty del: One_nat_def)
    then show ?thesis by (simp flip: map_append)
  next
    case False
    then show ?thesis by (simp add: page Let_def)
  qed
qed simp

text \<open>
  C31. Pagination loses nothing and repeats nothing: a client that follows the cursors of the event list with
  any accepted filter and page size reaches the end after at most as many requests as there are matching
  events (plus one), and the pages together are exactly the matching events, each once, newest id first.
  (The store does not fail or change in between, and an id that the server wrote can be read back.)
\<close>

theorem events_pagination:
  assumes "\<forall>u. e_Scan env (uuidString u) = Some u" and "\<forall>n. \<not> pg_fault (w_pg w) n"
    and "distinct (map ev_id (db_events (w_db w)))"
    and "parseListEventsQuery env q = Inr p" and "lp_cursor p = None" and "filter_texts (w_pg w) (lp_filter p)"
    and "length (filter (event_matches (w_pg w) (w_db w) (lp_filter p)) (db_events (w_db w))) < fuel"
  shows "follow fuel env q w =
    Some (map summary (rev (sort_key ev_id (filter (event_matches (w_pg w) (w_db w) (lp_filter p)) (db_events (w_db w))))))"
proof -
  have "listed (w_pg w) (w_db w) p =
      rev (sort_key ev_id (filter (event_matches (w_pg w) (w_db w) (lp_filter p)) (db_events (w_db w))))"
    by (simp add: listed_def assms(5))
  with follow_listed [of env w q p fuel] assms show ?thesis by simp
qed

subsection \<open>The trace is the history\<close>

lemma group_attempts_filter:
  "group_attempts rows did = map trace_attempt (filter (\<lambda>a. at_delivery a = did) rows)"
proof -
  have "fold (\<lambda>a m. m(at_delivery a := m (at_delivery a) @ [trace_attempt a])) rows m did =
      m did @ map trace_attempt (filter (\<lambda>a. at_delivery a = did) rows)" for m
    by (induction rows arbitrary: m) auto
  then show ?thesis by (simp add: group_attempts_def)
qed

text \<open>The join of the attempts with the deliveries of an event keeps all attempts of each of them.\<close>

lemma join_attempts:
  assumes "distinct (map dl_id ds)" "x \<in> set ds" "P x"
  shows "filter (\<lambda>a. at_delivery a = dl_id x) [a. a \<leftarrow> as, y \<leftarrow> ds, dl_id y = at_delivery a \<and> P y] =
    filter (\<lambda>a. at_delivery a = dl_id x) as"
proof (induction as)
  case (Cons a as)
  have "filter (\<lambda>b. at_delivery b = dl_id x) (concat (map (\<lambda>y. if dl_id y = at_delivery a \<and> P y then [a] else []) ds)) =
      (if at_delivery a = dl_id x then [a] else [])"
  proof (cases "at_delivery a = dl_id x")
    case True
    have "concat (map (\<lambda>y. if dl_id y = dl_id x \<and> P y then [a] else []) ds) = [a]"
      using assms
    proof (induction ds)
      case (Cons y ds)
      have "concat (map (\<lambda>y. if dl_id y = dl_id x \<and> P y then [a] else []) ds) = []" if "x = y"
        using that Cons.prems(1) by (auto simp: image_iff)
      with Cons show ?case by (auto simp: image_iff)
    qed simp
    with True show ?thesis by simp
  qed (auto simp: filter_empty_conv)
  with Cons show ?case by simp
qed simp

lemma sort_key_sorted: "sorted (map f xs) \<Longrightarrow> sort_key f xs = xs"
  by (simp add: sorted_sort_id sort_key_id_if_sorted)

lemma trace_attempts_history:
  assumes "deliveries_ok d" "x \<in> set (db_deliveries d)" "dl_event x = eid" "dl_tenant x = tenant"
  shows "filter (\<lambda>a. at_delivery a = dl_id x) (sort_key at_delivery (sort_key at_number
      [a. a \<leftarrow> db_attempts d, y \<leftarrow> db_deliveries d, dl_id y = at_delivery a \<and> dl_event y = eid \<and> dl_tenant y = tenant])) =
    attempts_of d (dl_id x)"
proof -
  have h: "history_ok x (attempts_of d (dl_id x))" and dist: "distinct (map dl_id (db_deliveries d))"
    using assms(1,2) by (auto simp: deliveries_ok_def)
  have "sorted (map at_number (attempts_of d (dl_id x)))"
  proof -
    have "map at_number (attempts_of d (dl_id x)) = map int [1..<Suc (length (attempts_of d (dl_id x)))]"
      using h unfolding history_ok_def by blast
    moreover have "sorted (map int [1..<n])" for n by (simp add: sorted_iff_nth_mono)
    ultimately show ?thesis by (simp only:)
  qed
  moreover have "sorted (map at_delivery (attempts_of d (dl_id x)))"
  proof -
    have "map at_delivery (attempts_of d (dl_id x)) = replicate (length (attempts_of d (dl_id x))) (dl_id x)"
      by (simp add: attempts_of_def map_replicate_const flip: map_replicate_const)
    then show ?thesis by simp
  qed
  ultimately show ?thesis
    using join_attempts [OF dist assms(2), of "\<lambda>y. dl_event y = eid \<and> dl_tenant y = tenant" "db_attempts d"] assms(3,4)
    by (simp add: filter_sort sort_key_sorted attempts_of_def)
qed

text \<open>
  The trace tells the whole history: for a stored event of the tenant, whose delivery history is
  consistent (the invariant that every delivery job keeps), a trace answered with 200 lists exactly the
  deliveries of the event, and under each of them all its recorded attempts and no other delivery's, in the
  order 1, 2, ... up to the attempt count it reports.
\<close>

theorem trace_complete:
  assumes "deliveries_ok (w_db w)" and "e_Scan env pathID = Some eid" and "fst (trace env pathID w) = Reply 200 t"
  shows "et_Deliveries t = map (trace_delivery (\<lambda>did. map trace_attempt (attempts_of (w_db w) did)))
      (sort_key dl_created_at (filter (\<lambda>x. dl_event x = eid \<and> dl_tenant x = DefaultTenantID) (db_deliveries (w_db w)))) \<and>
    list_all (\<lambda>td. map ta_AttemptNumber (td_Attempts td) = map int [1..<Suc (nat (td_AttemptCount td))]) (et_Deliveries t)"
proof -
  let ?d = "w_db w"
  let ?xs = "sort_key dl_created_at (filter (\<lambda>x. dl_event x = eid \<and> dl_tenant x = DefaultTenantID) (db_deliveries ?d))"
  let ?rows = "sort_key at_delivery (sort_key at_number
      [a. a \<leftarrow> db_attempts ?d, y \<leftarrow> db_deliveries ?d, dl_id y = at_delivery a \<and> dl_event y = eid \<and> dl_tenant y = DefaultTenantID])"
  have t: "et_Deliveries t = map (trace_delivery (group_attempts ?rows)) ?xs"
    using assms(2,3)
    by (auto simp: trace_def parseUUID_def internal_error_def or_500_def GetEvent_def ListEventDeliveries_def
        ListEventDeliveryAttempts_def query_Inr split: prod.splits sum.splits db_error.splits dest!: query_db)
  have groups: "group_attempts ?rows (dl_id x) = map trace_attempt (attempts_of ?d (dl_id x))" if "x \<in> set ?xs" for x
    unfolding group_attempts_filter
    by (rule arg_cong [where f = "map trace_attempt"], rule trace_attempts_history [OF assms(1)]) (use that in auto)
  then have eq: "et_Deliveries t = map (trace_delivery (\<lambda>did. map trace_attempt (attempts_of ?d did))) ?xs"
    unfolding t by (intro map_cong refl) (simp add: trace_delivery_def)
  have "map ta_AttemptNumber (map trace_attempt (attempts_of ?d (dl_id x))) = map int [1..<Suc (nat (dl_attempt_count x))]"
    if "x \<in> set ?xs" for x
  proof -
    have "history_ok x (attempts_of ?d (dl_id x))" using that assms(1) by (auto simp: deliveries_ok_def)
    then have "map at_number (attempts_of ?d (dl_id x)) = map int [1..<Suc (length (attempts_of ?d (dl_id x)))]"
      "nat (dl_attempt_count x) = length (attempts_of ?d (dl_id x))" unfolding history_ok_def by simp_all
    then show ?thesis by (simp only: list.map_comp comp_def trace_attempt_def traceAttempt.simps)
  qed
  then have "list_all (\<lambda>td. map ta_AttemptNumber (td_Attempts td) = map int [1..<Suc (nat (td_AttemptCount td))]) (et_Deliveries t)"
    unfolding eq list_all_iff by (auto simp: trace_delivery_def simp del: upt_Suc)
  with eq show ?thesis by simp
qed

subsection \<open>On the example database\<close>

definition events_env :: api_env where
  "events_env = \<lparr>e_Scan = scan_uuid, e_ParseTime = (\<lambda>_. None), e_UnmarshalTime = (\<lambda>_. None),
     e_MarshalTime = (\<lambda>_. None), e_ParseURL = (\<lambda>_. None)\<rparr>"

definition events_world :: world where
  "events_world = world_example\<lparr>w_db := db_example\<lparr>db_events := [event_example, event_example\<lparr>ev_id := 4\<rparr>]\<rparr>\<rparr>"

lemma first_page: "parseListEventsQuery events_env [(''limit'', ''1'')] = Inr \<lparr>lp_filter = \<lparr>ef_tenant = DefaultTenantID,
    ef_source = None, ef_verified = None, ef_after = None, ef_before = None, ef_search = None, ef_delivery_status = None\<rparr>,
    lp_cursor = None, lp_limit = 2\<rparr>"
  by code_simp

theorem events_pagination_witness:
  "follow 5 events_env [(''limit'', ''1'')] events_world = Some (map summary [event_example\<lparr>ev_id := 4\<rparr>, event_example])"
proof -
  let ?f = "\<lparr>ef_tenant = DefaultTenantID, ef_source = None, ef_verified = None, ef_after = None, ef_before = None,
    ef_search = None, ef_delivery_status = None\<rparr>"
  have all: "filter (event_matches (w_pg events_world) (w_db events_world) ?f) (db_events (w_db events_world)) =
      [event_example, event_example\<lparr>ev_id := 4\<rparr>]"
    by (simp add: events_world_def event_matches_def DefaultTenantID_def event_example_def)
  have "follow 5 events_env [(''limit'', ''1'')] events_world = Some (map summary (rev (sort_key ev_id
      (filter (event_matches (w_pg events_world) (w_db events_world) ?f) (db_events (w_db events_world))))))"
    using events_pagination [OF _ _ _ first_page, of events_world 5] all
    by (simp add: scan_uuidString events_env_def events_world_def world_example_def pg_example_def event_example_def
        filter_texts_def text_opt_def)
  then show ?thesis unfolding all by (simp add: event_example_def)
qed

definition attempt_example :: delivery_attempt where
  "attempt_example = \<lparr>at_id = 50, at_delivery = dl_id delivery_example, at_number = 1, at_request_headers = None,
     at_status_code = Some 503, at_response_headers = None, at_response_body = None, at_error = Some ''Service Unavailable'',
     at_duration_ms = Some 12, at_attempted_at = 0\<rparr>"

definition trace_world :: world where
  "trace_world = world_example\<lparr>w_db := db_example\<lparr>db_deliveries := [delivery_example\<lparr>dl_attempt_count := 1, dl_status := ''failed''\<rparr>],
     db_attempts := [attempt_example]\<rparr>\<rparr>"

theorem trace_complete_witness:
  "\<exists>t. fst (trace events_env (uuidString 3) trace_world) = Reply 200 t \<and>
     map td_Attempts (et_Deliveries t) = [[trace_attempt attempt_example]]"
proof -
  have 1: "deliveries_ok (w_db trace_world)"
    by (simp add: deliveries_ok_def trace_world_def history_ok_def attempts_of_def attempt_example_def body_ok_def)
  have 2: "e_Scan events_env (uuidString 3) = Some 3" by (simp add: events_env_def scan_uuidString)
  have get: "GetEvent 3 DefaultTenantID trace_world = (Inr event_example, tick trace_world)"
    by (simp add: GetEvent_def query_Inr trace_world_def example_defs DefaultTenantID_def)
  have up: "\<not> pg_fault (w_pg trace_world) n" for n by (simp add: trace_world_def world_example_def pg_example_def)
  obtain xs where xs: "ListEventDeliveries 3 DefaultTenantID (tick trace_world) = (Inr xs, tick (tick trace_world))"
    by (simp add: ListEventDeliveries_def query_Inr up)
  obtain rows where rows: "ListEventDeliveryAttempts 3 DefaultTenantID (tick (tick trace_world)) = (Inr rows, tick (tick (tick trace_world)))"
    by (simp add: ListEventDeliveryAttempts_def query_Inr up)
  obtain t where 3: "fst (trace events_env (uuidString 3) trace_world) = Reply 200 t"
    using 2 get xs rows by (simp add: trace_def parseUUID_def or_500_def)
  have 4: "map td_Attempts (et_Deliveries t) = [[trace_attempt attempt_example]]"
    using conjunct1 [OF trace_complete [OF 1 2 3]]
    by (simp add: trace_world_def delivery_example_def DefaultTenantID_def attempts_of_def attempt_example_def trace_delivery_def)
  show ?thesis by (rule exI [of _ t], rule conjI [OF 3 4])
qed

end
