(* ===== verification/Replay.thy ===== *)
theory Replay
  imports Api_Base Queue
begin

text \<open>
  Re-delivery: replaying one event and bulk replays (\<^verbatim>\<open>internal/api/replay.go\<close>, the filter of
  \<^verbatim>\<open>internal/queue/queue.go\<close>, the worker \<^verbatim>\<open>internal/delivery/replay_worker.go\<close>) and recovering a
  dead-lettered delivery (\<^verbatim>\<open>internal/api/deliveries.go\<close>).
\<close>

subsection \<open>The filter\<close>

record ReplayFilter =
  f_SourceID :: "string option"
  f_Verified :: "bool option"
  f_After :: "time option"
  f_Before :: "time option"
  f_Search :: "string option"
  f_DeliveryStatus :: "string option"

definition no_filter :: ReplayFilter where
  "no_filter = \<lparr>f_SourceID = None, f_Verified = None, f_After = None, f_Before = None, f_Search = None,
     f_DeliveryStatus = None\<rparr>"

definition filter_fields :: "api_env \<Rightarrow> (string \<times> ReplayFilter field) list" where
  "filter_fields env = [(''source_id'', string_ptr f_SourceID_update), (''verified'', bool_ptr f_Verified_update),
     (''after'', time_ptr env f_After_update), (''before'', time_ptr env f_Before_update),
     (''search'', string_ptr f_Search_update), (''delivery_status'', string_ptr f_DeliveryStatus_update)]"

text \<open>\<^verbatim>\<open>json.Marshal\<close> of the filter: nil pointers are omitted; a time that has no RFC 3339 form is an error.\<close>

definition omitempty :: "string \<Rightarrow> ('a \<Rightarrow> bytes) \<Rightarrow> 'a option \<Rightarrow> (string \<times> bytes) list" where
  "omitempty k f v = (case v of None \<Rightarrow> [] | Some x \<Rightarrow> [(k, f x)])"

definition marshal_bool :: "bool \<Rightarrow> bytes" where
  "marshal_bool b = (if b then ''true'' else ''false'')"

definition marshal_time :: "api_env \<Rightarrow> time \<Rightarrow> bytes" where
  "marshal_time env t = marshal_string (case e_MarshalTime env t of None \<Rightarrow> '''' | Some s \<Rightarrow> s)"

definition filter_members :: "api_env \<Rightarrow> ReplayFilter \<Rightarrow> (string \<times> bytes) list" where
  "filter_members env f =
     omitempty ''source_id'' marshal_string (f_SourceID f) @ omitempty ''verified'' marshal_bool (f_Verified f) @
     omitempty ''after'' (marshal_time env) (f_After f) @ omitempty ''before'' (marshal_time env) (f_Before f) @
     omitempty ''search'' marshal_string (f_Search f) @ omitempty ''delivery_status'' marshal_string (f_DeliveryStatus f)"

definition time_writable :: "api_env \<Rightarrow> time option \<Rightarrow> bool" where
  "time_writable env t = (case t of None \<Rightarrow> True | Some x \<Rightarrow> e_MarshalTime env x \<noteq> None)"

definition marshal_ReplayFilter :: "api_env \<Rightarrow> ReplayFilter \<Rightarrow> bytes option" where
  "marshal_ReplayFilter env f =
     (if time_writable env (f_After f) \<and> time_writable env (f_Before f)
      then Some (marshal_object (filter_members env f)) else None)"

text \<open>\<open>Some msg\<close> is a refusal.\<close>

definition validateReplayFilter :: "api_env \<Rightarrow> ReplayFilter \<Rightarrow> string option" where
  "validateReplayFilter env f =
     (if (case f_SourceID f of None \<Rightarrow> False | Some s \<Rightarrow> parseUUID env s = None) then Some ''invalid source_id''
      else if (case f_DeliveryStatus f of None \<Rightarrow> False | Some st \<Rightarrow> st \<notin> set validDeliveryStatuses)
      then Some ''invalid delivery_status'' else None)"

definition replayFilterToParams :: "api_env \<Rightarrow> uuid \<Rightarrow> ReplayFilter \<Rightarrow> event_filter option" where
  "replayFilterToParams env tenant f =
     (let p = \<lparr>ef_tenant = tenant, ef_source = None, ef_verified = f_Verified f, ef_after = f_After f,
               ef_before = f_Before f, ef_search = f_Search f, ef_delivery_status = f_DeliveryStatus f\<rparr>
      in case f_SourceID f of None \<Rightarrow> Some p
         | Some s \<Rightarrow> (case e_Scan env s of None \<Rightarrow> None | Some u \<Rightarrow> Some (p\<lparr>ef_source := Some u\<rparr>)))"

subsection \<open>The API\<close>

record replayEventResponse =
  rer_event_id :: string
  rer_deliveries_created :: nat

definition replayEvent :: "api_env \<Rightarrow> string \<Rightarrow> world \<Rightarrow> replayEventResponse reply \<times> world" where
  "replayEvent env pathID w =
     (case parseUUID env pathID of
        None \<Rightarrow> (Problem 400 ''invalid event id'', w)
      | Some eid \<Rightarrow>
          (case GetEvent eid DefaultTenantID w of
             (Inl NoRows, w1) \<Rightarrow> (Problem 404 ''event not found'', w1)
           | (Inl e, w1) \<Rightarrow> (internal_error, w1)
           | (Inr event, w1) \<Rightarrow>
               or_500 (inTx (EnqueueDeliveries (ev_tenant event) (ev_source event) (ev_id event)) w1) (\<lambda>n.
                 Reply 202 \<lparr>rer_event_id = uuidString (ev_id event), rer_deliveries_created = n\<rparr>)))"

record replayResponse =
  rr_id :: string
  rr_status :: string
  rr_filter :: bytes
  rr_matched :: "int option"
  rr_requeued :: "int option"
  rr_created_at :: time
  rr_completed_at :: "time option"

definition toReplayResponse :: "replay \<Rightarrow> replayResponse" where
  "toReplayResponse r = \<lparr>rr_id = uuidString (rp_id r), rr_status = rp_status r, rr_filter = rp_filter r,
     rr_matched = rp_matched r, rr_requeued = rp_requeued r, rr_created_at = rp_created_at r,
     rr_completed_at = rp_completed_at r\<rparr>"

definition bulkReplay :: "api_env \<Rightarrow> bytes \<Rightarrow> world \<Rightarrow> replayResponse reply \<times> world" where
  "bulkReplay env body w =
     (case Decode_struct (filter_fields env) no_filter body of
        None \<Rightarrow> (Problem 400 ''invalid JSON body'', w)
      | Some flt \<Rightarrow>
          (case validateReplayFilter env flt of
             Some msg \<Rightarrow> (Problem 400 msg, w)
           | None \<Rightarrow>
               (case marshal_ReplayFilter env flt of
                  None \<Rightarrow> (internal_error, w)
                | Some filterJSON \<Rightarrow>
                    or_500 (inTx (bind (InsertReplay DefaultTenantID None filterJSON) (\<lambda>replay.
                        bind (InsertReplayJob (uuidString (rp_id replay))) (\<lambda>_. ret replay))) w)
                      (\<lambda>replay. Reply 202 (toReplayResponse replay)))))"

definition getReplay :: "api_env \<Rightarrow> string \<Rightarrow> world \<Rightarrow> replayResponse reply \<times> world" where
  "getReplay env pathID w =
     (case parseUUID env pathID of
        None \<Rightarrow> (Problem 400 ''invalid replay id'', w)
      | Some rid \<Rightarrow>
          or_404 ''replay not found'' (GetReplay rid w) (\<lambda>r.
            if rp_tenant r \<noteq> DefaultTenantID then Problem 404 ''replay not found''
            else Reply 200 (toReplayResponse r)))"

record recoverResponse =
  rc_delivery_id :: string
  rc_status :: string

definition deliveryStatusDeadLettered :: string where "deliveryStatusDeadLettered = ''dead_lettered''"

text \<open>The transaction of \<^verbatim>\<open>recover\<close>.\<close>

definition recover_tx :: "uuid \<Rightarrow> destination \<Rightarrow> unit dbm" where
  "recover_tx did dest = inTx
     (bind (ResetDeliveryForRecovery did) (\<lambda>_.
      bind (InsertDeliveryJob \<lparr>da_delivery_id = uuidString did, da_backoff_base = dst_backoff_base dest,
              da_backoff_max = dst_backoff_max dest\<rparr> (dst_max_attempts dest)) (\<lambda>job.
      SetDeliveryRiverJobID did job)))"

definition recover :: "api_env \<Rightarrow> string \<Rightarrow> world \<Rightarrow> recoverResponse reply \<times> world" where
  "recover env pathID w =
     (case parseUUID env pathID of
        None \<Rightarrow> (Problem 400 ''invalid delivery id'', w)
      | Some did \<Rightarrow>
          (case GetDelivery did w of
             (Inl NoRows, w1) \<Rightarrow> (Problem 404 ''delivery not found'', w1)
           | (Inl e, w1) \<Rightarrow> (internal_error, w1)
           | (Inr delivery, w1) \<Rightarrow>
               if dl_status delivery \<noteq> deliveryStatusDeadLettered then (Problem 409 ''delivery is not dead-lettered'', w1)
               else (case GetDestination (dl_destination delivery) (dl_tenant delivery) w1 of
                       (Inl NoRows, w2) \<Rightarrow> (Problem 409 ''destination no longer exists'', w2)
                     | (Inl e, w2) \<Rightarrow> (internal_error, w2)
                     | (Inr dest, w2) \<Rightarrow>
                         or_500 (recover_tx did dest w2) (\<lambda>_.
                           Reply 200 \<lparr>rc_delivery_id = uuidString did, rc_status = ''pending''\<rparr>))))"

subsection \<open>The bulk replay worker\<close>

definition statusReplayCompleted :: string where "statusReplayCompleted = ''completed''"
definition statusReplayFailed :: string where "statusReplayFailed = ''failed''"

datatype replay_error = LoadReplay db_error | DecodeFilter | BuildParams | SelectEvents db_error
  | ReplayEvent uuid db_error | FinishFailed db_error

text \<open>\<open>None\<close> is nil. The error of the update in \<^verbatim>\<open>fail\<close> is only logged.\<close>

definition replay_fail :: "uuid \<Rightarrow> int \<Rightarrow> int \<Rightarrow> world \<Rightarrow> world" where
  "replay_fail rid matched requeued w =
     snd (FinishReplay rid statusReplayFailed (Some (int32_of matched)) (Some (int32_of requeued)) w)"

definition replayOne :: "uuid \<Rightarrow> uuid \<Rightarrow> uuid \<Rightarrow> nat dbm" where
  "replayOne tenant sid eid = inTx (EnqueueDeliveries tenant sid eid)"

text \<open>The loop over the events: how many deliveries were created, and the event it stopped at, if any.\<close>

fun replay_events :: "uuid \<Rightarrow> (uuid \<times> uuid) list \<Rightarrow> nat \<Rightarrow> world \<Rightarrow> (uuid \<times> db_error) option \<times> nat \<times> world" where
  "replay_events tenant [] requeued w = (None, requeued, w)"
| "replay_events tenant ((eid, sid) # evs) requeued w =
     (case replayOne tenant sid eid w of
        (Inl e, w1) \<Rightarrow> (Some (eid, e), requeued, w1)
      | (Inr n, w1) \<Rightarrow> replay_events tenant evs (requeued + n) w1)"

definition replay_run :: "uuid \<Rightarrow> uuid \<Rightarrow> (uuid \<times> uuid) list \<Rightarrow> world \<Rightarrow> replay_error option \<times> world" where
  "replay_run rid tenant events w =
     (case replay_events tenant events 0 w of
        (Some (eid, e), requeued, w1) \<Rightarrow>
          (Some (ReplayEvent eid e), replay_fail rid (int (length events)) (int requeued) w1)
      | (None, requeued, w1) \<Rightarrow>
          (case FinishReplay rid statusReplayCompleted (Some (int32_of (int (length events))))
                  (Some (int32_of (int requeued))) w1 of
             (Inl e, w2) \<Rightarrow> (Some (FinishFailed e), w2)
           | (Inr u, w2) \<Rightarrow> (None, w2)))"

definition ReplayWorker_Work :: "api_env \<Rightarrow> string \<Rightarrow> world \<Rightarrow> replay_error option \<times> world" where
  "ReplayWorker_Work env replayID w =
     (case e_Scan env replayID of
        None \<Rightarrow> (None, w)
      | Some rid \<Rightarrow>
          (case GetReplay rid w of
             (Inl NoRows, w1) \<Rightarrow> (None, w1)
           | (Inl e, w1) \<Rightarrow> (Some (LoadReplay e), w1)
           | (Inr replay, w1) \<Rightarrow>
               (case Unmarshal_struct (filter_fields env) no_filter (rp_filter replay) of
                  None \<Rightarrow> (Some DecodeFilter, replay_fail rid 0 0 w1)
                | Some flt \<Rightarrow>
                    (case replayFilterToParams env (rp_tenant replay) flt of
                       None \<Rightarrow> (Some BuildParams, replay_fail rid 0 0 w1)
                     | Some params \<Rightarrow>
                         (case ListEventsForReplay params w1 of
                            (Inl e, w2) \<Rightarrow> (Some (SelectEvents e), replay_fail rid 0 0 w2)
                          | (Inr events, w2) \<Rightarrow> replay_run rid (rp_tenant replay) events w2)))))"

subsection \<open>What a bulk replay does to the store\<close>

text \<open>The pairs of event and target a replay of \<open>evs\<close> queues, in order.\<close>

definition replay_plan :: "database \<Rightarrow> (uuid \<times> uuid) list \<Rightarrow> (uuid \<times> delivery_target) list" where
  "replay_plan d evs = concat (map (\<lambda>(eid, sid). map (Pair eid) (enabled_targets d sid)) evs)"

text \<open>Exactly one linked pair of delivery and job is added per element of the plan, with new ids.\<close>

definition requeued :: "uuid \<Rightarrow> (uuid \<times> delivery_target) list \<Rightarrow> database \<Rightarrow> database \<Rightarrow> bool" where
  "requeued tenant plan d d' \<longleftrightarrow>
     (\<exists>xjs. list_all2 (\<lambda>(eid, t) (x, j). queued_for tenant eid t x j) plan xjs \<and>
        distinct (map (dl_id \<circ> fst) xjs) \<and> dl_id ` set (db_deliveries d) \<inter> (dl_id \<circ> fst) ` set xjs = {} \<and>
        distinct (map (jb_id \<circ> snd) xjs) \<and> jb_id ` set (db_jobs d) \<inter> (jb_id \<circ> snd) ` set xjs = {} \<and>
        d' = d\<lparr>db_deliveries := db_deliveries d @ map fst xjs, db_jobs := db_jobs d @ map snd xjs\<rparr>)"

definition finished :: "uuid \<Rightarrow> string \<Rightarrow> nat \<Rightarrow> nat \<Rightarrow> time \<Rightarrow> database \<Rightarrow> database" where
  "finished rid status matched n now d =
     d\<lparr>db_replays := update_where (\<lambda>r. rp_id r = rid)
        (\<lambda>r. r\<lparr>rp_status := status, rp_matched := Some (int32_of (int matched)),
               rp_requeued := Some (int32_of (int n)), rp_completed_at := Some now\<rparr>) (db_replays d)\<rparr>"

text \<open>The tenant and the events that the stored filter of a replay selects.\<close>

definition selection :: "api_env \<Rightarrow> postgres \<Rightarrow> database \<Rightarrow> uuid \<Rightarrow> (uuid \<times> (uuid \<times> uuid) list) option" where
  "selection env pg d rid =
     (case filter (\<lambda>r. rp_id r = rid) (db_replays d) of [] \<Rightarrow> None
      | replay # _ \<Rightarrow>
          Option.bind (Unmarshal_struct (filter_fields env) no_filter (rp_filter replay)) (\<lambda>flt.
          map_option (\<lambda>params. (rp_tenant replay, map (\<lambda>e. (ev_id e, ev_source e))
                        (sort_key ev_id (filter (event_matches pg d params) (db_events d)))))
            (replayFilterToParams env (rp_tenant replay) flt)))"

lemma requeued_Nil [simp]: "requeued tenant [] d d' \<longleftrightarrow> d' = d"
  by (simp add: requeued_def)

lemma fanned_out_requeued: "fanned_out tenant eid ts d d' \<Longrightarrow> requeued tenant (map (Pair eid) ts) d d'"
  by (simp add: fanned_out_def requeued_def list_all2_map1)

lemma requeued_append:
  assumes "requeued tenant p d d1" "requeued tenant q d1 d2"
  shows "requeued tenant (p @ q) d d2"
proof -
  obtain xs where xs: "list_all2 (\<lambda>(eid, t) (x, j). queued_for tenant eid t x j) p xs"
    "distinct (map (dl_id \<circ> fst) xs)" "dl_id ` set (db_deliveries d) \<inter> (dl_id \<circ> fst) ` set xs = {}"
    "distinct (map (jb_id \<circ> snd) xs)" "jb_id ` set (db_jobs d) \<inter> (jb_id \<circ> snd) ` set xs = {}"
    "d1 = d\<lparr>db_deliveries := db_deliveries d @ map fst xs, db_jobs := db_jobs d @ map snd xs\<rparr>"
    using assms(1) unfolding requeued_def by metis
  obtain ys where ys: "list_all2 (\<lambda>(eid, t) (x, j). queued_for tenant eid t x j) q ys"
    "distinct (map (dl_id \<circ> fst) ys)" "dl_id ` set (db_deliveries d1) \<inter> (dl_id \<circ> fst) ` set ys = {}"
    "distinct (map (jb_id \<circ> snd) ys)" "jb_id ` set (db_jobs d1) \<inter> (jb_id \<circ> snd) ` set ys = {}"
    "d2 = d1\<lparr>db_deliveries := db_deliveries d1 @ map fst ys, db_jobs := db_jobs d1 @ map snd ys\<rparr>"
    using assms(2) unfolding requeued_def by metis
  have new: "dl_id ` set (db_deliveries d) \<inter> (dl_id \<circ> fst) ` set ys = {}" "(dl_id \<circ> fst) ` set xs \<inter> (dl_id \<circ> fst) ` set ys = {}"
    "jb_id ` set (db_jobs d) \<inter> (jb_id \<circ> snd) ` set ys = {}" "(jb_id \<circ> snd) ` set xs \<inter> (jb_id \<circ> snd) ` set ys = {}"
    using ys(3,5) by (simp_all add: xs(6) image_Un image_comp Int_Un_distrib2)
  show ?thesis unfolding requeued_def
    by (rule exI [of _ "xs @ ys"], intro conjI)
      (use xs ys new in \<open>simp_all add: image_Un Int_Un_distrib list_all2_appendI\<close>)
qed

lemma requeued_targets: "requeued tenant p d d' \<Longrightarrow> enabled_targets d' sid = enabled_targets d sid"
  by (auto simp: requeued_def enabled_targets_def)

lemma requeued_plan: "requeued tenant p d d' \<Longrightarrow> replay_plan d' evs = replay_plan d evs"
  by (simp add: replay_plan_def requeued_targets)

lemma replayOne_Inr:
  assumes "replayOne tenant sid eid w = (Inr n, w')"
  shows "requeued tenant (replay_plan (w_db w) [(eid, sid)]) (w_db w) (w_db w') \<and>
    n = length (replay_plan (w_db w) [(eid, sid)])"
  using assms
  by (auto simp: replayOne_def inTx_Inr EnqueueDeliveries_def bind_Inr ListEnabledDeliveryTargetsForSource_def query_Inr
      replay_plan_def dest!: EnqueueDeliveriesTo_Inr fanned_out_requeued)

lemma replayOne_now: "replayOne tenant sid eid w = (r, w') \<Longrightarrow> w_now w' = w_now w"
  unfolding replayOne_def by (metis steadyD steady_inTx steady_EnqueueDeliveries)

lemma replay_events_result:
  assumes "replay_events tenant evs n w = (stop, m, w')"
  shows "\<exists>k \<le> length evs. requeued tenant (replay_plan (w_db w) (take k evs)) (w_db w) (w_db w') \<and>
    m = n + length (replay_plan (w_db w) (take k evs)) \<and>
    (case stop of None \<Rightarrow> k = length evs | Some (eid, e) \<Rightarrow> k < length evs \<and> eid = fst (evs ! k)) \<and> w_now w' = w_now w"
  using assms
proof (induction evs arbitrary: n w)
  case Nil
  then show ?case by (auto simp: replay_plan_def)
next
  case (Cons ev evs)
  obtain eid sid where ev: "ev = (eid, sid)" by (rule prod.exhaust)
  obtain r w1 where one: "replayOne tenant sid eid w = (r, w1)" by (rule prod.exhaust)
  show ?case
  proof (cases r)
    case (Inl e)
    then have "w_db w1 = w_db w" using one by (auto simp: replayOne_def dest: inTx_Inl_db)
    then show ?thesis using Cons.prems Inl one replayOne_now [OF one]
      by (intro exI [of _ 0]) (auto simp: ev replay_plan_def)
  next
    case (Inr c)
    note first = replayOne_Inr [OF one [unfolded Inr]]
    have "replay_events tenant evs (n + c) w1 = (stop, m, w')" using Cons.prems Inr one by (simp add: ev)
    from Cons.IH [OF this] obtain k where k: "k \<le> length evs"
      "requeued tenant (replay_plan (w_db w1) (take k evs)) (w_db w1) (w_db w')"
      "m = n + c + length (replay_plan (w_db w1) (take k evs))" "w_now w' = w_now w1"
      "case stop of None \<Rightarrow> k = length evs | Some (eid, e) \<Rightarrow> k < length evs \<and> eid = fst (evs ! k)"
      by blast
    have plan: "replay_plan (w_db w) (take (Suc k) (ev # evs)) =
        replay_plan (w_db w) [(eid, sid)] @ replay_plan (w_db w1) (take k evs)"
      using requeued_plan [of tenant "replay_plan (w_db w) [(eid, sid)]" "w_db w" "w_db w1"] first
      by (simp add: replay_plan_def ev)
    show ?thesis
      by (rule exI [of _ "Suc k"], unfold plan)
        (use k first replayOne_now [OF one] in \<open>auto intro: requeued_append split: option.splits\<close>)
  qed
qed

lemma FinishReplay_result:
  assumes "FinishReplay rid status (Some (int32_of (int m))) (Some (int32_of (int n))) w = (r, w')"
  shows "w_db w' = (case r of Inl e \<Rightarrow> w_db w | Inr u \<Rightarrow> finished rid status m n (w_now w) (w_db w))"
  using assms by (auto simp: FinishReplay_def finished_def exec_def split: if_splits)

lemma replay_fail_result:
  "w_db (replay_fail rid (int m) (int n) w) \<in> {w_db w, finished rid statusReplayFailed m n (w_now w) (w_db w)}"
  using FinishReplay_result [of rid statusReplayFailed m n w, OF prod.collapse [symmetric]]
  by (auto simp: replay_fail_def split: sum.splits)

lemma replay_fail_none:
  "w_db (replay_fail rid 0 0 w) \<in> {w_db w, finished rid statusReplayFailed 0 0 (w_now w) (w_db w)}"
  using replay_fail_result [of rid 0 0 w] by simp

text \<open>
  What a run of the worker leaves behind, for the events \<open>evs\<close> that the filter selects, by how it ends. \<open>fanned k\<close>: the
  first \<open>k\<close> events have been fanned out, and nothing else has changed. Marking the replay as failed may itself fail.
\<close>

definition replay_outcome :: "uuid \<Rightarrow> uuid \<Rightarrow> (uuid \<times> uuid) list \<Rightarrow> time \<Rightarrow> database \<Rightarrow> replay_error option \<Rightarrow> database \<Rightarrow> bool" where
  "replay_outcome rid tenant evs now d res d' \<longleftrightarrow>
     (let fanned = (\<lambda>k d1. requeued tenant (replay_plan d (take k evs)) d d1);
          created = (\<lambda>k. length (replay_plan d (take k evs)))
      in case res of
           None \<Rightarrow> \<exists>d1. fanned (length evs) d1 \<and> d' = finished rid statusReplayCompleted (length evs) (created (length evs)) now d1
         | Some (LoadReplay e) \<Rightarrow> d' = d
         | Some (SelectEvents e) \<Rightarrow> d' \<in> {d, finished rid statusReplayFailed 0 0 now d}
         | Some (ReplayEvent eid e) \<Rightarrow> \<exists>k d1. k < length evs \<and> eid = fst (evs ! k) \<and> fanned k d1 \<and>
             d' \<in> {d1, finished rid statusReplayFailed (length evs) (created k) now d1}
         | Some (FinishFailed e) \<Rightarrow> fanned (length evs) d'
         | Some _ \<Rightarrow> False)"

lemma replay_run_outcome:
  assumes "replay_run rid tenant evs w = (res, w')"
  shows "replay_outcome rid tenant evs (w_now w) (w_db w) res (w_db w')"
proof -
  obtain stop m w1 where loop: "replay_events tenant evs 0 w = (stop, m, w1)" by (metis prod_cases3)
  obtain k where k: "k \<le> length evs" "requeued tenant (replay_plan (w_db w) (take k evs)) (w_db w) (w_db w1)"
    "m = length (replay_plan (w_db w) (take k evs))" "w_now w1 = w_now w"
    "case stop of None \<Rightarrow> k = length evs | Some (eid, e) \<Rightarrow> k < length evs \<and> eid = fst (evs ! k)"
    using replay_events_result [OF loop] by auto
  show ?thesis
  proof (cases stop)
    case (Some x)
    then obtain eid e where x: "stop = Some (eid, e)" by (metis prod.exhaust)
    have "res = Some (ReplayEvent eid e)" "w' = replay_fail rid (int (length evs)) (int m) w1"
      using assms loop x by (simp_all add: replay_run_def)
    moreover have "\<exists>k' d1. k' < length evs \<and> eid = fst (evs ! k') \<and> requeued tenant (replay_plan (w_db w) (take k' evs)) (w_db w) d1 \<and>
        w_db (replay_fail rid (int (length evs)) (int m) w1) \<in>
          {d1, finished rid statusReplayFailed (length evs) (length (replay_plan (w_db w) (take k' evs))) (w_now w) d1}"
      by (intro exI [of _ k] exI [of _ "w_db w1"]) (use k x replay_fail_result [of rid "length evs" m w1] in auto)
    ultimately show ?thesis by (simp add: replay_outcome_def Let_def)
  next
    case None
    obtain r w2 where fin: "FinishReplay rid statusReplayCompleted (Some (int32_of (int (length evs))))
        (Some (int32_of (int m))) w1 = (r, w2)" by (rule prod.exhaust)
    show ?thesis
      using assms loop None fin k FinishReplay_result [OF fin]
      by (auto simp: replay_outcome_def Let_def replay_run_def split: sum.splits intro: exI [of _ "w_db w1"])
  qed
qed

text \<open>
  C29. The counts of a bulk replay are truthful. For the events that the stored filter selects, a run of the
  worker fans out the first k of them, each to the enabled targets of its source, one linked pair of a
  pending delivery and a job per target with fresh ids, and changes nothing else but the replay row. A run
  that returns nil has done so for all of them, and the row says completed, with the number of events selected
  and the number of deliveries created (as int32). A run that stops at an event, the one after the first k, keeps
  the deliveries of these k, and the row, if it could still be written, says failed with the number of all events
  selected and of the deliveries created so far. When the events could not be read nothing is fanned out and the row says
  failed with two zeros or is unchanged; when the row could not be read nothing changes; when only the last update
  failed all events are fanned out and the row is unchanged.
\<close>

theorem ReplayWorker_counts:
  assumes "e_Scan env replayID = Some rid"
    and "selection env (w_pg w) (w_db w) rid = Some (tenant, evs)"
    and "ReplayWorker_Work env replayID w = (res, w')"
  shows "replay_outcome rid tenant evs (w_now w) (w_db w) res (w_db w')"
proof -
  obtain replay rows flt params where row: "filter (\<lambda>r. rp_id r = rid) (db_replays (w_db w)) = replay # rows"
    and flt: "Unmarshal_struct (filter_fields env) no_filter (rp_filter replay) = Some flt"
    and params: "replayFilterToParams env (rp_tenant replay) flt = Some params"
    and tenant: "tenant = rp_tenant replay"
    and evs: "evs = map (\<lambda>e. (ev_id e, ev_source e))
          (sort_key ev_id (filter (event_matches (w_pg w) (w_db w) params) (db_events (w_db w))))"
    using assms(2) by (auto simp: selection_def bind_eq_Some_conv split: list.splits)
  show ?thesis
  proof (cases "pg_fault (w_pg w) (w_step w)")
    case True
    then have "res = Some (LoadReplay Unavailable)" "w_db w' = w_db w"
      using assms(1,3) by (auto simp: ReplayWorker_Work_def GetReplay_def query_def exec_def)
    then show ?thesis by (simp add: replay_outcome_def Let_def)
  next
    case False
    then have get: "GetReplay rid w = (Inr replay, tick w)" by (simp add: GetReplay_def query_Inr row)
    obtain r w2 where list: "ListEventsForReplay params (tick w) = (r, w2)" by (rule prod.exhaust)
    have w2: "w_db w2 = w_db w" "w_now w2 = w_now w" "r = Inr evs \<or> (\<exists>e. r = Inl e)"
      using list by (auto simp: ListEventsForReplay_def exec_def evs split: if_splits)
    show ?thesis
    proof (cases r)
      case (Inl e)
      then have "res = Some (SelectEvents e)" "w' = replay_fail rid 0 0 w2"
        using assms(1,3) get flt params list by (auto simp: ReplayWorker_Work_def)
      then show ?thesis using replay_fail_none [of rid w2] by (simp add: w2 replay_outcome_def Let_def)
    next
      case (Inr x)
      then have "replay_run rid tenant evs w2 = (res, w')"
        using assms(1,3) get flt params list w2(3) by (simp add: ReplayWorker_Work_def tenant)
      from replay_run_outcome [OF this] show ?thesis by (simp add: w2)
    qed
  qed
qed

definition replay_env :: api_env where
  "replay_env = \<lparr>e_Scan = (\<lambda>_. Some 5), e_ParseTime = (\<lambda>_. None), e_UnmarshalTime = (\<lambda>_. None),
     e_MarshalTime = (\<lambda>_. None), e_ParseURL = (\<lambda>_. None)\<rparr>"

definition replay_world :: world where
  "replay_world = world_example\<lparr>w_db := db_example\<lparr>db_replays := [\<lparr>rp_id = 5, rp_tenant = 1, rp_requested_by = None,
     rp_filter = ''{}'', rp_status = ''running'', rp_matched = None, rp_requeued = None, rp_created_at = 0,
     rp_completed_at = None\<rparr>]\<rparr>\<rparr>"

lemma empty_filter: "Unmarshal_struct (filter_fields replay_env) no_filter ''{}'' = Some no_filter"
  by code_simp

lemma no_filter_params: "replayFilterToParams env tenant no_filter = Some \<lparr>ef_tenant = tenant, ef_source = None,
    ef_verified = None, ef_after = None, ef_before = None, ef_search = None, ef_delivery_status = None\<rparr>"
  by (simp add: replayFilterToParams_def no_filter_def Let_def)

lemma replay_selection: "selection replay_env (w_pg replay_world) (w_db replay_world) 5 = Some (1, [(3, 7)])"
  unfolding selection_def
  by (simp add: empty_filter no_filter_params replay_world_def example_defs event_matches_def)

lemma replay_example_ends: "fst (ReplayWorker_Work replay_env ''5'' replay_world) = None"
proof -
  have "e_Scan replay_env ''5'' = Some 5" by (simp add: replay_env_def)
  then show ?thesis
    by (simp add: ReplayWorker_Work_def empty_filter no_filter_params GetReplay_def ListEventsForReplay_def query_def exec_def
        replay_world_def example_defs event_matches_def replay_run_def replayOne_def inTx_def EnqueueDeliveries_def EnqueueDeliveriesTo_def
        ListEnabledDeliveryTargetsForSource_def enabled_targets_def enqueue_target_def InsertDelivery_def InsertDeliveryJob_def
        river_InsertTx_def SetDeliveryRiverJobID_def FinishReplay_def bind_def ret_def tick_def Let_def sort_key_def
        statusReplayCompleted_def target_of_def filter_texts_def text_opt_def)
qed

theorem ReplayWorker_counts_witness:
  "fst (ReplayWorker_Work replay_env ''5'' replay_world) = None \<and>
   (\<exists>d1. requeued 1 (replay_plan (w_db replay_world) [(3, 7)]) (w_db replay_world) d1 \<and>
      w_db (snd (ReplayWorker_Work replay_env ''5'' replay_world)) =
        finished 5 statusReplayCompleted 1 (length (replay_plan (w_db replay_world) [(3, 7)])) 0 d1)"
proof -
  have "e_Scan replay_env ''5'' = Some 5" by (simp add: replay_env_def)
  from ReplayWorker_counts [OF this replay_selection prod.collapse [symmetric]] show ?thesis
    by (simp add: replay_example_ends replay_outcome_def Let_def) (simp add: replay_world_def example_defs)
qed

subsection \<open>Recovering a dead-lettered delivery\<close>

text \<open>The delivery is pending again, and one new job with the destination's policy is linked to it.\<close>

definition recovered :: "delivery \<Rightarrow> destination \<Rightarrow> time \<Rightarrow> database \<Rightarrow> database \<Rightarrow> bool" where
  "recovered x dest now d d' \<longleftrightarrow>
     (\<exists>j. jb_id j \<notin> jb_id ` set (db_jobs d) \<and>
        jb_args j = DeliveryArgs \<lparr>da_delivery_id = uuidString (dl_id x), da_backoff_base = dst_backoff_base dest,
                      da_backoff_max = dst_backoff_max dest\<rparr> \<and>
        jb_max_attempts j = max 1 (dst_max_attempts dest) \<and>
        d' = d\<lparr>db_deliveries := update_where (\<lambda>y. dl_id y = dl_id x)
                 (\<lambda>y. y\<lparr>dl_status := ''pending'', dl_dead_lettered_at := None, dl_next_attempt_at := None,
                        dl_updated_at := now, dl_river_job := Some (jb_id j)\<rparr>) (db_deliveries d),
               db_jobs := db_jobs d @ [j]\<rparr>)"

lemma recover_tx_Inr:
  assumes "recover_tx (dl_id x) dest w = (Inr u, w')"
  shows "recovered x dest (w_now w) (w_db w) (w_db w')"
proof -
  have upd: "update_where P g (update_where P f xs) = update_where P (g \<circ> f) xs"
    if "\<And>y. P (f y) = P y" for P f g and xs :: "delivery list"
    using that by (simp add: update_where_def)
  let ?j = "\<lparr>jb_id = pg_job_id (w_pg w) (Suc (Suc (w_step w))), jb_args = DeliveryArgs \<lparr>da_delivery_id = uuidString (dl_id x),
    da_backoff_base = dst_backoff_base dest, da_backoff_max = dst_backoff_max dest\<rparr>,
    jb_max_attempts = (if dst_max_attempts dest < 1 then 1 else dst_max_attempts dest)\<rparr>"
  show ?thesis unfolding recovered_def
    by (rule exI [of _ ?j])
      (use assms in \<open>auto simp: recover_tx_def inTx_Inr bind_Inr exec_Inr ResetDeliveryForRecovery_def InsertDeliveryJob_def
        river_InsertTx_def SetDeliveryRiverJobID_def Let_def upd comp_def split: if_splits\<close>)
qed

text \<open>
  C30. Recovery is all or nothing: the endpoint answers 200 exactly when it has put a dead-lettered delivery
  whose destination still exists back to pending and queued one new job for it, with the destination's
  current retry policy and at least one attempt, linked to the delivery in the same transaction; every other
  answer is a 4xx or 500 that leaves the database unchanged.
\<close>

theorem recover_outcome:
  "case recover env pathID w of (r, w') \<Rightarrow>
     (\<exists>x dest. e_Scan env pathID = Some (dl_id x) \<and> x \<in> set (db_deliveries (w_db w)) \<and> dl_status x = deliveryStatusDeadLettered \<and>
        dest \<in> set (db_destinations (w_db w)) \<and> dst_id dest = dl_destination x \<and> dst_tenant dest = dl_tenant x \<and>
        r = Reply 200 \<lparr>rc_delivery_id = uuidString (dl_id x), rc_status = ''pending''\<rparr> \<and>
        recovered x dest (w_now w) (w_db w) (w_db w')) \<or>
     (\<exists>status msg. r = Problem status msg \<and> status \<in> {400, 404, 409, 500} \<and> w_db w' = w_db w)"
proof (cases "e_Scan env pathID")
  case None
  then show ?thesis by (simp add: recover_def parseUUID_def)
next
  case (Some did)
  obtain r1 w1 where get: "GetDelivery did w = (r1, w1)" by (rule prod.exhaust)
  have w1: "w_db w1 = w_db w" using get by (auto simp: GetDelivery_def dest: query_db)
  show ?thesis
  proof (cases r1)
    case (Inl e)
    then show ?thesis using Some get w1 by (cases e) (simp_all add: recover_def parseUUID_def internal_error_def)
  next
    case (Inr x)
    have x: "x \<in> set (db_deliveries (w_db w))" "dl_id x = did" "w1 = tick w"
      using get Inr by (auto simp: GetDelivery_def query_Inr dest!: one_row_Inr)
    obtain r2 w2 where dest: "GetDestination (dl_destination x) (dl_tenant x) w1 = (r2, w2)" by (rule prod.exhaust)
    have w2: "w_db w2 = w_db w" using dest w1 by (auto simp: GetDestination_def dest: query_db)
    consider "dl_status x \<noteq> deliveryStatusDeadLettered" | e where "dl_status x = deliveryStatusDeadLettered" "r2 = Inl e"
      | d where "dl_status x = deliveryStatusDeadLettered" "r2 = Inr d" by (cases r2) auto
    then show ?thesis
    proof cases
      case 1
      then show ?thesis using Some get Inr w1 by (simp add: recover_def parseUUID_def)
    next
      case (2 e)
      then show ?thesis using Some get Inr dest w2
        by (cases e) (simp_all add: recover_def parseUUID_def internal_error_def)
    next
      case (3 d)
      have d: "d \<in> set (db_destinations (w_db w))" "dst_id d = dl_destination x" "dst_tenant d = dl_tenant x" "w2 = tick w1"
        using dest 3 w1 by (auto simp: GetDestination_def query_Inr dest!: one_row_Inr)
      obtain r3 w3 where tx: "recover_tx did d w2 = (r3, w3)" by (rule prod.exhaust)
      have run: "recover env pathID w = or_500 (r3, w3) (\<lambda>_. Reply 200 \<lparr>rc_delivery_id = uuidString did, rc_status = ''pending''\<rparr>)"
        using Some get Inr dest 3 tx by (simp add: recover_def parseUUID_def)
      show ?thesis
      proof (cases r3)
        case (Inl e)
        then have "w_db w3 = w_db w" using tx w2 by (auto simp: recover_tx_def dest: inTx_Inl_db)
        then show ?thesis by (simp add: run or_500_def Inl internal_error_def)
      next
        case (Inr u)
        have "recovered x d (w_now w2) (w_db w2) (w_db w3)"
          by (rule recover_tx_Inr) (use tx Inr x(2) in simp)
        then have "recovered x d (w_now w) (w_db w) (w_db w3)" by (simp add: d(4) x(3))
        with d(1-3) show ?thesis using Some 3 x by (auto simp: run or_500_def Inr)
      qed
    qed
  qed
qed

subsection \<open>A filter survives its storage\<close>

text \<open>What the two ends need of the time package: a time that can be written is read back from that text.\<close>

definition times_ok :: "api_env \<Rightarrow> bool" where
  "times_ok env \<longleftrightarrow> (\<forall>t s. e_MarshalTime env t = Some s \<longrightarrow> utf8_valid s \<and> e_UnmarshalTime env s = Some t)"

definition filter_valid :: "ReplayFilter \<Rightarrow> bool" where
  "filter_valid f \<longleftrightarrow> pred_option utf8_valid (f_SourceID f) \<and> pred_option utf8_valid (f_Search f) \<and>
     pred_option utf8_valid (f_DeliveryStatus f)"

definition omit_value :: "string \<Rightarrow> ('a \<Rightarrow> json) \<Rightarrow> 'a option \<Rightarrow> (string \<times> json) list" where
  "omit_value k j v = (case v of None \<Rightarrow> [] | Some x \<Rightarrow> [(k, j x)])"

lemma omit_simps [simp]:
  "omitempty k f None = []" "omitempty k f (Some x) = [(k, f x)]"
  "omit_value k j None = []" "omit_value k j (Some x) = [(k, j x)]"
  by (simp_all add: omitempty_def omit_value_def)

lemma omit_renders:
  assumes "utf8_valid k" "pred_option (\<lambda>x. renders n (f x) (j x)) v"
  shows "list_all2 (member_renders n) (omitempty k f v) (omit_value k j v)"
  using assms by (cases v) (simp_all add: member_renders_def)

text \<open>A member that is written and read back sets its field; one that is omitted leaves the zero value.\<close>

lemma fold_omitempty:
  assumes "find (\<lambda>f. fold_key (fst f) = fold_key k) flds = Some (name, fld)" "n < max_depth"
    "pred_option (\<lambda>x. renders n (f x) (j x) \<and> fld (f x) (j x) r = Some (upd (\<lambda>_. Some x) r)) v"
    "upd (\<lambda>_. None) r = r"
  shows "fold_opt (set_member flds) (omitempty k f v) r = Some (upd (\<lambda>_. v) r)"
  using assms set_member_renders [OF assms(1) _ assms(2), of _ _ r] by (cases v) auto

lemma filter_keys: "utf8_valid ''source_id''" "utf8_valid ''verified''" "utf8_valid ''after''" "utf8_valid ''before''"
  "utf8_valid ''search''" "utf8_valid ''delivery_status''"
  by (rule ascii_valid, simp)+

definition time_value :: "api_env \<Rightarrow> time \<Rightarrow> json" where
  "time_value env t = JString (case e_MarshalTime env t of None \<Rightarrow> '''' | Some s \<Rightarrow> s)"

lemma renders_time:
  assumes "times_ok env" "time_writable env v"
  shows "pred_option (\<lambda>t. renders n (marshal_time env t) (time_value env t)) v"
    and "pred_option (\<lambda>t. renders n (marshal_time env t) (time_value env t) \<and>
      time_ptr env upd (marshal_time env t) (time_value env t) r = Some (upd (\<lambda>_. Some t) r)) v"
  using assms
  by (cases v; auto simp: times_ok_def time_writable_def marshal_time_def time_value_def time_ptr_def renders_string)+

lemma renders_option:
  "pred_option utf8_valid v \<Longrightarrow> pred_option (\<lambda>s. renders n (marshal_string s) (JString s)) v"
  "pred_option utf8_valid v \<Longrightarrow> pred_option (\<lambda>s. renders n (marshal_string s) (JString s) \<and>
     string_ptr supd (marshal_string s) (JString s) r = Some (supd (\<lambda>_. Some s) r)) v"
  "pred_option (\<lambda>x. renders n (marshal_bool x) (JBool x)) c"
  "pred_option (\<lambda>x. renders n (marshal_bool x) (JBool x) \<and>
     bool_ptr bupd (marshal_bool x) (JBool x) r = Some (bupd (\<lambda>_. Some x) r)) c"
  by (cases v; cases c; simp add: renders_string renders_bool marshal_bool_def string_ptr_def bool_ptr_def)+

lemma skips_bool: "skips (marshal_bool c)" and tight_bool: "tight (marshal_bool c)"
  by (cases c; simp add: marshal_bool_def skips_word tight_def json_space_def)+

lemma filter_find:
  "find (\<lambda>f. fold_key (fst f) = fold_key ''source_id'') (filter_fields env) = Some (''source_id'', string_ptr f_SourceID_update)"
  "find (\<lambda>f. fold_key (fst f) = fold_key ''verified'') (filter_fields env) = Some (''verified'', bool_ptr f_Verified_update)"
  "find (\<lambda>f. fold_key (fst f) = fold_key ''after'') (filter_fields env) = Some (''after'', time_ptr env f_After_update)"
  "find (\<lambda>f. fold_key (fst f) = fold_key ''before'') (filter_fields env) = Some (''before'', time_ptr env f_Before_update)"
  "find (\<lambda>f. fold_key (fst f) = fold_key ''search'') (filter_fields env) = Some (''search'', string_ptr f_Search_update)"
  "find (\<lambda>f. fold_key (fst f) = fold_key ''delivery_status'') (filter_fields env) =
     Some (''delivery_status'', string_ptr f_DeliveryStatus_update)"
  by (simp_all add: filter_fields_def upper_char_def)

lemma filter_members_set:
  assumes "times_ok env" "filter_valid f" "time_writable env (f_After f)" "time_writable env (f_Before f)"
  shows "fold_opt (set_member (filter_fields env)) (filter_members env f) no_filter = Some f"
proof -
  have valid: "pred_option utf8_valid (f_SourceID f)" "pred_option utf8_valid (f_Search f)" "pred_option utf8_valid (f_DeliveryStatus f)"
    using assms(2) by (simp_all add: filter_valid_def)
  have depth: "0 < max_depth" by (simp add: max_depth_def)
  note steps = fold_omitempty [where upd = f_SourceID_update, OF filter_find(1) depth renders_option(2) [OF valid(1)]]
    fold_omitempty [where upd = f_Verified_update, OF filter_find(2) depth renders_option(4)]
    fold_omitempty [where upd = f_After_update, OF filter_find(3) depth renders_time(2) [OF assms(1,3)]]
    fold_omitempty [where upd = f_Before_update, OF filter_find(4) depth renders_time(2) [OF assms(1,4)]]
    fold_omitempty [where upd = f_Search_update, OF filter_find(5) depth renders_option(2) [OF valid(2)]]
    fold_omitempty [where upd = f_DeliveryStatus_update, OF filter_find(6) depth renders_option(2) [OF valid(3)]]
  show ?thesis unfolding filter_members_def no_filter_def by (simp add: fold_opt_append steps)
qed

text \<open>
  The filter a client posts is the filter the worker applies: what the API stores for a filter with
  valid UTF-8 in its strings, \<^verbatim>\<open>json.Unmarshal\<close> in the worker reads back as the same filter, every absent
  field absent and every present field with its value, given that a written time is read back.
\<close>

theorem filter_roundtrip:
  assumes "times_ok env" and "filter_valid f" and "marshal_ReplayFilter env f = Some b"
  shows "Unmarshal_struct (filter_fields env) no_filter b = Some f"
proof -
  have writable: "time_writable env (f_After f)" "time_writable env (f_Before f)" and b: "b = marshal_object (filter_members env f)"
    using assms(3) by (auto simp: marshal_ReplayFilter_def split: if_splits)
  let ?kjs = "omit_value ''source_id'' JString (f_SourceID f) @ omit_value ''verified'' JBool (f_Verified f) @
     omit_value ''after'' (time_value env) (f_After f) @ omit_value ''before'' (time_value env) (f_Before f) @
     omit_value ''search'' JString (f_Search f) @ omit_value ''delivery_status'' JString (f_DeliveryStatus f)"
  have renders: "list_all2 (member_renders 0) (filter_members env f) ?kjs" unfolding filter_members_def
    by (intro list_all2_appendI omit_renders filter_keys renders_option renders_time [OF assms(1)] writable)
      (use assms(2) in \<open>simp_all add: filter_valid_def\<close>)
  have dist: "distinct (map fst ?kjs)"
    by (simp add: omit_value_def split: option.splits)
  have texts: "\<forall>m \<in> set (filter_members env f). skips (snd m) \<and> tight (snd m)"
    by (auto simp: filter_members_def omitempty_def marshal_time_def skips_string tight_texts skips_bool tight_bool
        split: option.splits)
  have "Unmarshal_struct (filter_fields env) no_filter b =
      fold_opt (set_member (filter_fields env)) (filter_members env f) no_filter"
    unfolding b by (rule Unmarshal_struct_text [OF renders dist _ texts]) (simp add: max_depth_def)
  then show ?thesis using filter_members_set [OF assms(1,2) writable] by simp
qed

definition filter_env :: api_env where
  "filter_env = replay_env\<lparr>e_MarshalTime := (\<lambda>t. if t = 0 then Some ''1970-01-01T00:00:00Z'' else None),
     e_UnmarshalTime := (\<lambda>s. if s = ''1970-01-01T00:00:00Z'' then Some 0 else None)\<rparr>"

definition filter_example :: ReplayFilter where
  "filter_example = no_filter\<lparr>f_After := Some 0, f_Verified := Some True, f_Search := Some ''order''\<rparr>"

theorem filter_roundtrip_witness:
  "Unmarshal_struct (filter_fields filter_env) no_filter (marshal_object (filter_members filter_env filter_example)) =
     Some filter_example"
proof (rule filter_roundtrip)
  show "times_ok filter_env"
    by (auto simp: times_ok_def filter_env_def intro!: ascii_valid split: if_splits)
  show "filter_valid filter_example"
    by (auto simp: filter_valid_def filter_example_def no_filter_def intro!: ascii_valid)
  show "marshal_ReplayFilter filter_env filter_example = Some (marshal_object (filter_members filter_env filter_example))"
    by (simp add: marshal_ReplayFilter_def time_writable_def filter_example_def no_filter_def filter_env_def)
qed

end
