(* ===== verification/Go_Paths.thy ===== *)
theory Go_Paths
  imports Go_Strings
begin

text \<open>
  \<^verbatim>\<open>path.Clean\<close> and \<^verbatim>\<open>filepath.Join\<close> of the standard library, on slash-separated paths: empty elements and dots go, a
  double dot takes the element before it with it, and cannot leave the root.
\<close>

definition clean_step :: "bool \<Rightarrow> string list \<Rightarrow> string \<Rightarrow> string list" where
  "clean_step rooted st c =
     (if c = '''' \<or> c = ''.'' then st
      else if c = ''..'' then (case st of [] \<Rightarrow> (if rooted then [] else [''..'']) | x # xs \<Rightarrow> (if x = ''..'' then ''..'' # st else xs))
      else c # st)"

fun join_slash :: "string list \<Rightarrow> string" where
  "join_slash [] = ''''"
| "join_slash [x] = x"
| "join_slash (x # y # xs) = x @ CHR ''/'' # join_slash (y # xs)"

definition clean_elems :: "bool \<Rightarrow> string \<Rightarrow> string list" where
  "clean_elems rooted p = rev (foldl (clean_step rooted) [] (Split CHR ''/'' p))"

definition path_Clean :: "string \<Rightarrow> string" where
  "path_Clean p =
     (if p \<noteq> '''' \<and> hd p = CHR ''/'' then CHR ''/'' # join_slash (clean_elems True p)
      else if clean_elems False p = [] then ''.'' else join_slash (clean_elems False p))"

definition filepath_Join :: "string list \<Rightarrow> string" where
  "filepath_Join es =
     (case dropWhile (\<lambda>e. e = '''') es of [] \<Rightarrow> '''' | es' \<Rightarrow> path_Clean (join_slash es'))"

text \<open>What a cleaned rooted path consists of: proper names only.\<close>

definition proper :: "string \<Rightarrow> bool" where
  "proper e \<longleftrightarrow> e \<noteq> '''' \<and> e \<noteq> ''.'' \<and> e \<noteq> ''..'' \<and> CHR ''/'' \<notin> set e"

lemma Split_no_sep: "e \<in> set (Split c s) \<Longrightarrow> c \<notin> set e"
proof (induction s arbitrary: e)
  case (Cons d s)
  obtain x xs where x: "Split c s = x # xs" by (cases "Split c s") simp_all
  show ?case
  proof (cases "d = c")
    case True
    with Cons show ?thesis by auto
  next
    case False
    then have "e = d # x \<or> e \<in> set xs" using Cons.prems x by auto
    with False Cons.IH [of x] Cons.IH [of e] x show ?thesis by auto
  qed
qed simp

lemma clean_step_rooted: "list_all proper st \<Longrightarrow> CHR ''/'' \<notin> set c \<Longrightarrow> list_all proper (clean_step True st c)"
  by (cases st) (auto simp: clean_step_def proper_def)

lemma clean_fold_rooted:
  "list_all proper st \<Longrightarrow> \<forall>c \<in> set cs. CHR ''/'' \<notin> set c \<Longrightarrow> list_all proper (foldl (clean_step True) st cs)"
  by (induction cs arbitrary: st) (simp_all add: clean_step_rooted)

lemma clean_elems_rooted: "list_all proper (clean_elems True p)"
proof -
  have "list_all proper (foldl (clean_step True) [] (Split CHR ''/'' p))"
    by (rule clean_fold_rooted) (use Split_no_sep in auto)
  then show ?thesis by (simp add: clean_elems_def list_all_iff)
qed

end
