(* ===== verification/Cli_Client.thy ===== *)
theory Cli_Client
  imports Cli_Tunnel Events_Api Replay Go_Paths
begin

text \<open>
  The command-line client beside the tunnel (\<^verbatim>\<open>cli/internal/client\<close>, \<^verbatim>\<open>cli/internal/config\<close>, \<^verbatim>\<open>cli/internal/cli\<close>): the API client, the
  stored credentials, and the commands \<^verbatim>\<open>login\<close>, \<^verbatim>\<open>replay\<close>, \<^verbatim>\<open>trigger\<close> and \<^verbatim>\<open>listen\<close>. The record \<open>cli_env\<close> holds what is outside: the
  environment, the operating system's answers to file operations, YAML, the URL parser, and the gateway's answers. What is
  printed is left out, and errors are values instead of texts. The files on disk are a map from paths to contents and permissions.
\<close>

subsection \<open>Outside\<close>

record CliConfig =
  cc_GatewayURL :: string
  cc_APIKey :: string

type_synonym files = "string \<rightharpoonup> bytes \<times> nat"

record cli_env =
  ce_Getenv :: "string \<Rightarrow> string"
  ce_UserHomeDir :: "string + string"
  ce_ReadError :: "string \<Rightarrow> string option"
  ce_MkdirError :: "string \<Rightarrow> string option"
  ce_WriteError :: "string \<Rightarrow> bytes \<Rightarrow> (string \<times> bytes option) option"
  ce_yaml_Unmarshal :: "bytes \<Rightarrow> string + CliConfig"
  ce_yaml_Marshal :: "CliConfig \<Rightarrow> string + bytes"
  ce_ParseURL :: "string \<Rightarrow> string + string \<times> string \<times> string"
  ce_UnmarshalTime :: "string \<Rightarrow> time option"
  ce_NewRequest :: "string \<Rightarrow> string option"
  ce_Do :: "string \<Rightarrow> string \<Rightarrow> header \<Rightarrow> string + int \<times> bytes"

text \<open>\<^verbatim>\<open>ce_ParseURL\<close> gives the scheme, the host and the \<^verbatim>\<open>String()\<close> of the parsed URL.\<close>

datatype cli_error =
    LocatingHome string | NotLoggedIn | ReadingConfig string string | ParsingConfig string string
  | CreatingDir string string | EncodingConfig string | WritingConfig string string
  | URLRequired | URLInvalid string | URLScheme_bad string | URLNoHost | ForwardToError cli_error
  | BuildingRequest string | ContactingGateway string | APIError int string | DecodingResponse string | NoSourceNamed string string
  | APIKeyRequired | ReadingURL string | ReadingAPIKey string | CredentialRejected string | LacksReadScope | CouldNotReach string cli_error
  | LacksWriteScope | NoSamplePayload string string
  | GiveIdOrLast | GiveOnlyOne | LastNotPositive | FetchingEvent string cli_error | ReplayingEvent string string | EventsFailed nat nat

subsection \<open>The stored credentials\<close>

definition build_Name :: string where "build_Name = ''whg''"

definition config_Dir :: "cli_env \<Rightarrow> cli_error + string" where
  "config_Dir env =
     (let xdg = ce_Getenv env ''XDG_CONFIG_HOME'' in
      if xdg \<noteq> '''' then Inr (filepath_Join [xdg, build_Name])
      else case ce_UserHomeDir env of
        Inl e \<Rightarrow> Inl (LocatingHome e)
      | Inr home \<Rightarrow> Inr (filepath_Join [home, ''.config'', build_Name]))"

definition config_Path :: "cli_env \<Rightarrow> cli_error + string" where
  "config_Path env = and_then (config_Dir env) (\<lambda>dir. Inr (filepath_Join [dir, ''config.yaml'']))"

definition cli_config_Load :: "cli_env \<Rightarrow> files \<Rightarrow> cli_error + CliConfig" where
  "cli_config_Load env fs =
     and_then (config_Path env) (\<lambda>path.
       case ce_ReadError env path of
         Some e \<Rightarrow> Inl (ReadingConfig path e)
       | None \<Rightarrow> (case fs path of
           None \<Rightarrow> Inl NotLoggedIn
         | Some (data, _) \<Rightarrow> (case ce_yaml_Unmarshal env data of Inl e \<Rightarrow> Inl (ParsingConfig path e) | Inr cfg \<Rightarrow> Inr cfg)))"

text \<open>\<^verbatim>\<open>os.WriteFile\<close>: the permissions are those of a new file only; a failed write may leave something behind.\<close>

definition WriteFile :: "cli_env \<Rightarrow> string \<Rightarrow> bytes \<Rightarrow> nat \<Rightarrow> files \<Rightarrow> string option \<times> files" where
  "WriteFile env path data perm fs =
     (let mode = (case fs path of None \<Rightarrow> perm | Some (_, m) \<Rightarrow> m) in
      case ce_WriteError env path data of
        None \<Rightarrow> (None, fs(path \<mapsto> (data, mode)))
      | Some (e, None) \<Rightarrow> (Some e, fs)
      | Some (e, Some left) \<Rightarrow> (Some e, fs(path \<mapsto> (left, mode))))"

definition cli_config_Save :: "cli_env \<Rightarrow> CliConfig \<Rightarrow> files \<Rightarrow> (cli_error + string) \<times> files" where
  "cli_config_Save env cfg fs =
     (case config_Dir env of
        Inl e \<Rightarrow> (Inl e, fs)
      | Inr dir \<Rightarrow>
          (case ce_MkdirError env dir of
             Some e \<Rightarrow> (Inl (CreatingDir dir e), fs)
           | None \<Rightarrow>
               (case ce_yaml_Marshal env cfg of
                  Inl e \<Rightarrow> (Inl (EncodingConfig e), fs)
                | Inr data \<Rightarrow>
                    let path = filepath_Join [dir, ''config.yaml''] in
                    (case WriteFile env path data (6 * 64) fs of
                       (Some e, fs') \<Rightarrow> (Inl (WritingConfig path e), fs')
                     | (None, fs') \<Rightarrow> (Inr path, fs')))))"

subsection \<open>The API client\<close>

record Client =
  cl_baseURL :: string
  cl_apiKey :: string

definition client_New :: "string \<Rightarrow> string \<Rightarrow> Client" where
  "client_New baseURL apiKey = \<lparr>cl_baseURL = TrimSuffix baseURL ''/'', cl_apiKey = apiKey\<rparr>"

record client_Source =
  so_ID :: string
  so_Name :: string
  so_ProviderType :: string
  so_EndpointPath :: string
  so_CreatedAt :: time

record client_Event =
  ce_ID :: string
  ce_SourceID :: string
  ce_RawHeaders :: nheader
  ce_RawBody :: bytes
  ce_ContentType :: string
  ce_Verified :: bool
  ce_ReceivedAt :: time

record client_EventSummary =
  su_ID :: string
  su_SourceID :: string
  su_Verified :: bool
  su_ReceivedAt :: time

record client_TestEvent =
  tv_EventID :: string
  tv_Verified :: bool

text \<open>The zero \<^verbatim>\<open>time.Time\<close>, and a field of that type.\<close>

definition zero_time :: time where "zero_time = - 62135596800 * second"

definition time_field :: "cli_env \<Rightarrow> ((time \<Rightarrow> time) \<Rightarrow> 'r \<Rightarrow> 'r) \<Rightarrow> 'r field" where
  "time_field env upd raw v r = (case v of
     JString s \<Rightarrow> map_option (\<lambda>t. upd (\<lambda>_. t) r) (ce_UnmarshalTime env s)
   | JNull \<Rightarrow> Some r | _ \<Rightarrow> None)"

text \<open>The texts of the elements of a JSON array, and decoding them into a slice of structs.\<close>

definition array_texts :: "bytes \<Rightarrow> bytes list" where
  "array_texts data = (let inner = butlast (tl (json_trim data))
     in if json_trim inner = [] then [] else map json_trim (split_top 0 False [] (inner @ ''}'')))"

definition Unmarshal_structs :: "(string \<times> 'r field) list \<Rightarrow> 'r \<Rightarrow> bytes \<Rightarrow> 'r list option" where
  "Unmarshal_structs fds zero data = (case json_Unmarshal data of
     Some (JArray vs) \<Rightarrow> those (map (Unmarshal_struct fds zero) (array_texts data))
   | Some JNull \<Rightarrow> Some []
   | _ \<Rightarrow> None)"

definition structs_field :: "(string \<times> 's field) list \<Rightarrow> 's \<Rightarrow> (('s list \<Rightarrow> 's list) \<Rightarrow> 'r \<Rightarrow> 'r) \<Rightarrow> 'r field" where
  "structs_field fds zero upd raw v r = map_option (\<lambda>xs. upd (\<lambda>_. xs) r) (Unmarshal_structs fds zero raw)"

definition client_source_fields :: "cli_env \<Rightarrow> (string \<times> client_Source field) list" where
  "client_source_fields env = [(''id'', string_field so_ID_update), (''name'', string_field so_Name_update),
     (''provider_type'', string_field so_ProviderType_update), (''endpoint_path'', string_field so_EndpointPath_update),
     (''created_at'', time_field env so_CreatedAt_update)]"

definition no_client_source :: client_Source where
  "no_client_source = \<lparr>so_ID = '''', so_Name = '''', so_ProviderType = '''', so_EndpointPath = '''', so_CreatedAt = zero_time\<rparr>"

definition client_event_fields :: "cli_env \<Rightarrow> (string \<times> client_Event field) list" where
  "client_event_fields env = [(''id'', string_field ce_ID_update), (''source_id'', string_field ce_SourceID_update),
     (''raw_headers'', headers_field ce_RawHeaders ce_RawHeaders_update), (''raw_body'', bytes_field ce_RawBody ce_RawBody_update),
     (''content_type'', string_field ce_ContentType_update), (''verified'', bool_field ce_Verified_update),
     (''received_at'', time_field env ce_ReceivedAt_update)]"

definition no_client_event :: client_Event where
  "no_client_event = \<lparr>ce_ID = '''', ce_SourceID = '''', ce_RawHeaders = None, ce_RawBody = [], ce_ContentType = '''',
     ce_Verified = False, ce_ReceivedAt = zero_time\<rparr>"

definition client_summary_fields :: "cli_env \<Rightarrow> (string \<times> client_EventSummary field) list" where
  "client_summary_fields env = [(''id'', string_field su_ID_update), (''source_id'', string_field su_SourceID_update),
     (''verified'', bool_field su_Verified_update), (''received_at'', time_field env su_ReceivedAt_update)]"

definition no_client_summary :: client_EventSummary where
  "no_client_summary = \<lparr>su_ID = '''', su_SourceID = '''', su_Verified = False, su_ReceivedAt = zero_time\<rparr>"

record events_envelope =
  ee_Events :: "client_EventSummary list"

text \<open>The error envelope, from the first 4096 bytes of the body.\<close>

record error_envelope =
  ev_Error :: string

definition statusError :: "int \<Rightarrow> bytes \<Rightarrow> cli_error" where
  "statusError status body =
     APIError status (case Unmarshal_struct [(''error'', string_field ev_Error_update)] \<lparr>ev_Error = ''''\<rparr> (take 4096 body) of
       Some e \<Rightarrow> ev_Error e | None \<Rightarrow> '''')"

definition client_do :: "cli_env \<Rightarrow> Client \<Rightarrow> string \<Rightarrow> string \<Rightarrow> (bytes \<Rightarrow> 'a option) \<Rightarrow> cli_error + 'a" where
  "client_do env c meth path decode =
     (case ce_NewRequest env (cl_baseURL c @ path) of
        Some e \<Rightarrow> Inl (BuildingRequest e)
      | None \<Rightarrow>
          (case ce_Do env meth (cl_baseURL c @ path)
                  (header_Set (header_Set [] ''Authorization'' (''Bearer '' @ cl_apiKey c)) ''Accept'' ''application/json'') of
             Inl e \<Rightarrow> Inl (ContactingGateway e)
           | Inr (status, body) \<Rightarrow>
               if status < 200 \<or> status \<ge> 300 then Inl (statusError status body)
               else (case decode body of None \<Rightarrow> Inl (DecodingResponse path) | Some x \<Rightarrow> Inr x)))"

text \<open>\<^verbatim>\<open>url.PathEscape\<close>\<close>

definition PathEscape :: "string \<Rightarrow> string" where
  "PathEscape s = concat (map (\<lambda>c. if query_plain c \<or> c \<in> set ''$&+:=@'' then [c] else CHR ''%'' # map upper_char (hex_byte c)) s)"

definition client_ListSources :: "cli_env \<Rightarrow> Client \<Rightarrow> cli_error + client_Source list" where
  "client_ListSources env c = client_do env c ''GET'' ''/api/sources''
     (\<lambda>body. Option.bind (first_value body) (Unmarshal_structs (client_source_fields env) no_client_source))"

definition SourceByName :: "cli_env \<Rightarrow> Client \<Rightarrow> string \<Rightarrow> cli_error + client_Source" where
  "SourceByName env c name =
     and_then (client_ListSources env c) (\<lambda>sources.
       case find (\<lambda>s. so_Name s = name) sources of
         Some s \<Rightarrow> Inr s
       | None \<Rightarrow> Inl (NoSourceNamed name (cl_baseURL c)))"

definition client_GetEvent :: "cli_env \<Rightarrow> Client \<Rightarrow> string \<Rightarrow> cli_error + client_Event" where
  "client_GetEvent env c eid = client_do env c ''GET'' (''/api/events/'' @ PathEscape eid)
     (Decode_struct (client_event_fields env) no_client_event)"

text \<open>The query is what \<^verbatim>\<open>url.Values.Encode\<close> writes, sorted by key.\<close>

definition client_ListEvents :: "cli_env \<Rightarrow> Client \<Rightarrow> string \<Rightarrow> int \<Rightarrow> cli_error + client_EventSummary list" where
  "client_ListEvents env c sourceID limit =
     (let query = (if limit > 0 then [''limit='' @ QueryEscape (FormatInt limit)] else []) @
                  (if sourceID \<noteq> '''' then [''source_id='' @ QueryEscape sourceID] else [])
      in and_then (client_do env c ''GET'' (''/api/events?'' @ sep_by CHR ''&'' query)
           (Decode_struct [(''events'', structs_field (client_summary_fields env) no_client_summary ee_Events_update)] \<lparr>ee_Events = []\<rparr>))
         (\<lambda>resp. Inr (ee_Events resp)))"

definition TriggerTestEvent :: "cli_env \<Rightarrow> Client \<Rightarrow> string \<Rightarrow> cli_error + client_TestEvent" where
  "TriggerTestEvent env c sourceID = client_do env c ''POST'' (''/api/sources/'' @ PathEscape sourceID @ ''/test-event'')
     (Decode_struct [(''event_id'', string_field tv_EventID_update), (''verified'', bool_field tv_Verified_update)]
        \<lparr>tv_EventID = '''', tv_Verified = False\<rparr>)"

definition strings_Contains :: "string \<Rightarrow> string \<Rightarrow> bool" where
  "strings_Contains s sub = list_ex (\<lambda>n. HasPrefix (drop n s) sub) [0..<Suc (length s)]"

definition NormalizeURL :: "cli_env \<Rightarrow> string \<Rightarrow> cli_error + string" where
  "NormalizeURL env raw0 =
     (let raw1 = TrimSpace raw0 in
      if raw1 = '''' then Inl URLRequired
      else let raw = (if strings_Contains raw1 ''://'' then raw1 else ''http://'' @ raw1) in
        (case ce_ParseURL env raw of
           Inl e \<Rightarrow> Inl (URLInvalid e)
         | Inr (scheme, host, text) \<Rightarrow>
             if scheme \<noteq> ''http'' \<and> scheme \<noteq> ''https'' then Inl (URLScheme_bad scheme)
             else if host = '''' then Inl URLNoHost
             else Inr (TrimSuffix text ''/'')))"

subsection \<open>Login\<close>

text \<open>The credentials read by the other commands, and the client made of them.\<close>

definition loadCredentials :: "cli_env \<Rightarrow> files \<Rightarrow> cli_error + CliConfig" where
  "loadCredentials env fs = cli_config_Load env fs"

definition gatewayClient :: "cli_env \<Rightarrow> files \<Rightarrow> cli_error + Client" where
  "gatewayClient env fs = and_then (loadCredentials env fs) (\<lambda>cfg. Inr (client_New (cc_GatewayURL cfg) (cc_APIKey cfg)))"

text \<open>
  Standard input: what is there, the error after it if it does not simply end, and, when it is a terminal, what
  \<^verbatim>\<open>ReadPassword\<close> gives.
\<close>

record input =
  in_text :: string
  in_error :: "string option"
  in_password :: "(string + string) option"

text \<open>\<^verbatim>\<open>ReadString\<close> up to a line feed, where the end of the input is no error.\<close>

definition read_line :: "input \<Rightarrow> (string + string) \<times> input" where
  "read_line i =
     (case Cut (CHR 0x0A) (in_text i) of
        Some (line, rest) \<Rightarrow> (Inr (line @ [CHR 0x0A]), i\<lparr>in_text := rest\<rparr>)
      | None \<Rightarrow> (case in_error i of Some e \<Rightarrow> Inl e | None \<Rightarrow> Inr (in_text i), i\<lparr>in_text := ''''\<rparr>))"

definition defaultGatewayURL :: string where "defaultGatewayURL = ''http://localhost:8080''"

definition promptURL :: "cli_env \<Rightarrow> files \<Rightarrow> input \<Rightarrow> (cli_error + string) \<times> input" where
  "promptURL env fs i =
     (let fallback = (case cli_config_Load env fs of
            Inr existing \<Rightarrow> if cc_GatewayURL existing \<noteq> '''' then cc_GatewayURL existing else defaultGatewayURL
          | Inl _ \<Rightarrow> defaultGatewayURL)
      in case read_line i of
           (Inl e, i') \<Rightarrow> (Inl (ReadingURL e), i')
         | (Inr line, i') \<Rightarrow> (Inr (if TrimSpace line \<noteq> '''' then TrimSpace line else fallback), i'))"

definition promptAPIKey :: "input \<Rightarrow> cli_error + string" where
  "promptAPIKey i =
     (case in_password i of
        Some (Inl e) \<Rightarrow> Inl (ReadingAPIKey e)
      | Some (Inr secret) \<Rightarrow> Inr secret
      | None \<Rightarrow> (case fst (read_line i) of Inl e \<Rightarrow> Inl (ReadingAPIKey e) | Inr line \<Rightarrow> Inr line))"

definition loginError :: "string \<Rightarrow> cli_error \<Rightarrow> cli_error" where
  "loginError gatewayURL err =
     (case err of
        APIError status msg \<Rightarrow>
          if status = 401 then CredentialRejected gatewayURL
          else if status = 403 then LacksReadScope
          else err
      | _ \<Rightarrow> CouldNotReach gatewayURL err)"

definition runLogin :: "cli_env \<Rightarrow> input \<Rightarrow> string \<Rightarrow> string \<Rightarrow> files \<Rightarrow> (cli_error + string) \<times> files" where
  "runLogin env i urlFlag keyFlag fs =
     (case (if urlFlag = '''' then promptURL env fs i else (Inr urlFlag, i)) of
        (Inl e, _) \<Rightarrow> (Inl e, fs)
      | (Inr gatewayURL, i') \<Rightarrow>
          (case NormalizeURL env gatewayURL of
             Inl e \<Rightarrow> (Inl e, fs)
           | Inr normalized \<Rightarrow>
               (case (if keyFlag = '''' then promptAPIKey i' else Inr keyFlag) of
                  Inl e \<Rightarrow> (Inl e, fs)
                | Inr key \<Rightarrow>
                    let apiKey = TrimSpace key in
                    if apiKey = '''' then (Inl APIKeyRequired, fs)
                    else (case client_ListSources env (client_New normalized apiKey) of
                            Inl err \<Rightarrow> (Inl (loginError normalized err), fs)
                          | Inr sources \<Rightarrow> cli_config_Save env \<lparr>cc_GatewayURL = normalized, cc_APIKey = apiKey\<rparr> fs))))"

subsection \<open>Trigger, listen and replay\<close>

definition triggerError :: "client_Source \<Rightarrow> cli_error \<Rightarrow> cli_error" where
  "triggerError source err =
     (case err of
        APIError status msg \<Rightarrow>
          if status = 403 then LacksWriteScope
          else if status = 400 then NoSamplePayload (so_ProviderType source) msg
          else err
      | _ \<Rightarrow> err)"

definition runTrigger :: "cli_env \<Rightarrow> files \<Rightarrow> string \<Rightarrow> cli_error + client_TestEvent" where
  "runTrigger env fs source =
     and_then (gatewayClient env fs) (\<lambda>api.
       and_then (SourceByName env api source) (\<lambda>found.
         case TriggerTestEvent env api (so_ID found) of
           Inl err \<Rightarrow> Inl (triggerError found err)
         | Inr result \<Rightarrow> Inr result))"

definition runListen :: "cli_env \<Rightarrow> files \<Rightarrow> string \<Rightarrow> string \<Rightarrow> 'u platform \<Rightarrow> turn list \<Rightarrow> cli_error + duration list \<times> listen_end" where
  "runListen env fs source forwardTo pl ts =
     and_then (loadCredentials env fs) (\<lambda>cfg.
       case NormalizeURL env forwardTo of
         Inl e \<Rightarrow> Inl (ForwardToError e)
       | Inr target \<Rightarrow> Inr (Listen pl \<lparr>op_GatewayURL = cc_GatewayURL cfg, op_APIKey = cc_APIKey cfg, op_Source = source,
           op_ForwardTo = target\<rparr> ts))"

definition replayTargets :: "cli_env \<Rightarrow> Client \<Rightarrow> string \<Rightarrow> string \<Rightarrow> int \<Rightarrow> cli_error + string list" where
  "replayTargets env api eventID source lastN =
     (if eventID \<noteq> '''' then Inr [eventID]
      else and_then (if source \<noteq> '''' then and_then (SourceByName env api source) (\<lambda>found. Inr (so_ID found)) else Inr '''')
        (\<lambda>sourceID. and_then (client_ListEvents env api sourceID lastN) (\<lambda>events. Inr (map su_ID events))))"

text \<open>The error of one event, and the requests made to the local server.\<close>

definition cli_replayOne :: "cli_env \<Rightarrow> Client \<Rightarrow> machine \<Rightarrow> string \<Rightarrow> string \<Rightarrow> cli_error option \<times> http_out list" where
  "cli_replayOne env api m target eid =
     (case client_GetEvent env api eid of
        Inl e \<Rightarrow> (Some (FetchingEvent eid e), [])
      | Inr event \<Rightarrow>
          (case forward_Post m \<lparr>fq_Target = target, fq_Headers = ce_RawHeaders event, fq_Body = ce_RawBody event, fq_WebhookID = ''''\<rparr> of
             (res, postErr, sent) \<Rightarrow> (map_option (ReplayingEvent (take 8 eid)) postErr, sent)))"

definition runReplay :: "cli_env \<Rightarrow> files \<Rightarrow> machine \<Rightarrow> string \<Rightarrow> string \<Rightarrow> string \<Rightarrow> int \<Rightarrow> cli_error option \<times> http_out list" where
  "runReplay env fs m eventID source forwardTo lastN =
     (if eventID = '''' \<and> lastN \<le> 0 then (Some GiveIdOrLast, [])
      else if eventID \<noteq> '''' \<and> lastN > 0 then (Some GiveOnlyOne, [])
      else if lastN < 0 then (Some LastNotPositive, [])
      else (case gatewayClient env fs of
              Inl e \<Rightarrow> (Some e, [])
            | Inr api \<Rightarrow>
                (case NormalizeURL env forwardTo of
                   Inl e \<Rightarrow> (Some (ForwardToError e), [])
                 | Inr target \<Rightarrow>
                     (case replayTargets env api eventID source lastN of
                        Inl e \<Rightarrow> (Some e, [])
                      | Inr ids \<Rightarrow>
                          if ids = [] then (None, [])
                          else (case client_ListSources env api of
                                  Inl e \<Rightarrow> (Some e, [])
                                | Inr names \<Rightarrow>
                                    let tries = map (cli_replayOne env api m target) ids;
                                        failures = length (filter (\<lambda>t. fst t \<noteq> None) tries)
                                    in (if failures > 0 then Some (EventsFailed failures (length ids)) else None,
                                        concat (map snd tries)))))))"

subsection \<open>What login leaves behind\<close>

lemma save_cases:
  assumes "cli_config_Save env cfg fs = (r, fs')"
  obtains (failed) e where "r = Inl e" "(\<forall>p x. e \<noteq> WritingConfig p x) \<longrightarrow> fs' = fs"
  | (saved) path data where "r = Inr path" "config_Path env = Inr path" "ce_yaml_Marshal env cfg = Inr data"
      "fs' = fs(path \<mapsto> (data, case fs path of None \<Rightarrow> 6 * 64 | Some (_, m) \<Rightarrow> m))"
proof (cases "config_Dir env")
  case (Inl e)
  with assms failed [of e] show thesis by (simp add: cli_config_Save_def)
next
  case (Inr dir)
  then have p: "config_Path env = Inr (filepath_Join [dir, ''config.yaml''])" by (simp add: config_Path_def and_then_def)
  from assms Inr show thesis
    by (auto simp: cli_config_Save_def WriteFile_def Let_def split: sum.splits option.splits prod.splits if_splits
        intro: failed saved [OF _ p])
qed

lemma runLogin_cases:
  assumes "runLogin env i url key fs = (r, fs')"
  obtains (refused) e where "r = Inl e" "fs' = fs"
  | (verified) cfg sources where "cc_APIKey cfg \<noteq> ''''" "client_ListSources env (client_New (cc_GatewayURL cfg) (cc_APIKey cfg)) = Inr sources"
      "cli_config_Save env cfg fs = (r, fs')"
proof -
  define q where "q = (if url = '''' then promptURL env fs i else (Inr url, i))"
  obtain u i' where "q = (u, i')" by fastforce
  note r = assms [unfolded runLogin_def Let_def, folded q_def, unfolded this prod.case]
  define k where "k = (if key = '''' then promptAPIKey i' else Inr key)"
  note r = r [folded k_def]
  consider (url) e where "u = Inl e" | (norm) g e where "u = Inr g" "NormalizeURL env g = Inl e"
    | (key) g n e where "u = Inr g" "NormalizeURL env g = Inr n" "k = Inl e"
    | (go) g n a where "u = Inr g" "NormalizeURL env g = Inr n" "k = Inr a" by (metis sum.exhaust)
  then show thesis
  proof cases
    case (go g n a)
    show thesis
    proof (cases "TrimSpace a = ''''")
      case True
      with go r refused [of APIKeyRequired] show thesis by simp
    next
      case False
      with go r refused verified [of "\<lparr>cc_GatewayURL = n, cc_APIKey = TrimSpace a\<rparr>"] show thesis
        by (cases "client_ListSources env (client_New n (TrimSpace a))") auto
    qed
  next
    case (url e)
    with r refused [of e] show thesis by simp
  next
    case (norm g e)
    with r refused [of e] show thesis by simp
  next
    case (key g n e)
    with r refused [of e] show thesis by simp
  qed
qed

text \<open>
  C24. Login stores what works, and only that. When it succeeds, the gateway has answered a request made with just the URL and the
  key that are then stored; every later command reads exactly these back and makes its client of them; no other file has changed,
  and a new file is readable by its owner only. When it fails, for whatever reason but the write itself, nothing on disk has changed.
\<close>

theorem login_stores_verified:
  assumes "\<forall>c b. ce_yaml_Marshal env c = Inr b \<longrightarrow> ce_yaml_Unmarshal env b = Inr c" "\<forall>p. ce_ReadError env p = None"
    and "runLogin env i url key fs = (r, fs')"
  shows "case r of
     Inl e \<Rightarrow> (\<forall>p x. e \<noteq> WritingConfig p x) \<longrightarrow> fs' = fs
   | Inr path \<Rightarrow> \<exists>cfg data sources. cc_APIKey cfg \<noteq> '''' \<and>
       client_ListSources env (client_New (cc_GatewayURL cfg) (cc_APIKey cfg)) = Inr sources \<and>
       fs' = fs(path \<mapsto> (data, case fs path of None \<Rightarrow> 6 * 64 | Some (_, mode) \<Rightarrow> mode)) \<and>
       loadCredentials env fs' = Inr cfg \<and> gatewayClient env fs' = Inr (client_New (cc_GatewayURL cfg) (cc_APIKey cfg))"
  using assms(3)
proof (cases rule: runLogin_cases)
  case (verified cfg sources)
  from verified(3) show ?thesis
  proof (cases rule: save_cases)
    case (saved path data)
    have "loadCredentials env fs' = Inr cfg"
      using saved assms(1,2) by (simp add: loadCredentials_def cli_config_Load_def and_then_def)
    with saved verified(1,2) show ?thesis by (auto simp: gatewayClient_def and_then_def)
  qed simp
qed simp

definition env_example :: cli_env where
  "env_example = \<lparr>ce_Getenv = (\<lambda>_. ''''), ce_UserHomeDir = Inr ''/home/dev'', ce_ReadError = (\<lambda>_. None), ce_MkdirError = (\<lambda>_. None),
     ce_WriteError = (\<lambda>_ _. None), ce_yaml_Unmarshal = (\<lambda>b. case Cut CHR '' '' b of None \<Rightarrow> Inl ''bad''
       | Some (u, k) \<Rightarrow> Inr \<lparr>cc_GatewayURL = u, cc_APIKey = k\<rparr>),
     ce_yaml_Marshal = (\<lambda>c. if CHR '' '' \<in> set (cc_GatewayURL c) then Inl ''bad'' else Inr (cc_GatewayURL c @ CHR '' '' # cc_APIKey c)),
     ce_ParseURL = (\<lambda>s. Inr (''http'', ''h'', s)), ce_UnmarshalTime = (\<lambda>_. Some 0), ce_NewRequest = (\<lambda>_. None),
     ce_Do = (\<lambda>meth u h. if header_Get h ''Authorization'' = ''Bearer whg_k'' then Inr (200, ''[]'') else Inr (401, ''''))\<rparr>"

theorem login_stores_verified_witness:
  "\<exists>fs'. runLogin env_example \<lparr>in_text = ''localhost:8080'' @ [CHR 0x0A] @ ''whg_k'', in_error = None, in_password = None\<rparr> '''' '''' Map.empty =
       (Inr ''/home/dev/.config/whg/config.yaml'', fs') \<and>
     gatewayClient env_example fs' = Inr \<lparr>cl_baseURL = ''http://localhost:8080'', cl_apiKey = ''whg_k''\<rparr>"
proof -
  let ?i = "\<lparr>in_text = ''localhost:8080'' @ [CHR 0x0A] @ ''whg_k'', in_error = None, in_password = None\<rparr> :: input"
  let ?p = "''/home/dev/.config/whg/config.yaml''"
  have "fst (runLogin env_example ?i '''' '''' Map.empty) = Inr ?p" by code_simp
  then obtain fs' where run: "runLogin env_example ?i '''' '''' Map.empty = (Inr ?p, fs')" by (metis prod.collapse)
  have y: "\<forall>c b. ce_yaml_Marshal env_example c = Inr b \<longrightarrow> ce_yaml_Unmarshal env_example b = Inr c"
    by (auto simp: env_example_def split: if_splits)
  have rd: "\<forall>p. ce_ReadError env_example p = None" by (simp add: env_example_def)
  have "map_sum (\<lambda>_. ()) (\<lambda>c. c) (gatewayClient env_example (snd (runLogin env_example ?i '''' '''' Map.empty))) =
      Inr \<lparr>cl_baseURL = ''http://localhost:8080'', cl_apiKey = ''whg_k''\<rparr>" by code_simp
  with login_stores_verified [OF y rd run] run show ?thesis by auto
qed

subsection \<open>A stored event, from the API to the local server\<close>

text \<open>
  How \<^verbatim>\<open>encoding/json\<close> writes a \<^verbatim>\<open>json.RawMessage\<close>: spaces outside strings go, and the characters that matter in HTML are
  escaped.
\<close>

function compact :: "bool \<Rightarrow> bytes \<Rightarrow> bytes" where
  "compact q [] = []"
| "compact q (c # s) =
     (if c = CHR ''<'' then hex4 60 @ compact q s
      else if c = CHR ''>'' then hex4 62 @ compact q s
      else if c = CHR ''&'' then hex4 38 @ compact q s
      else if c = CHR 0xE2 \<and> take 2 s = [CHR 0x80, CHR 0xA8] then hex4 0x2028 @ compact q (drop 2 s)
      else if c = CHR 0xE2 \<and> take 2 s = [CHR 0x80, CHR 0xA9] then hex4 0x2029 @ compact q (drop 2 s)
      else if q then
        (if c = CHR 0x5C then (case s of [] \<Rightarrow> [c] | d # s' \<Rightarrow> c # d # compact q s')
         else c # compact (c \<noteq> CHR 0x22) s)
      else if json_space c then compact q s
      else c # compact (c = CHR 0x22) s)"
  by pat_completeness auto
termination by (relation "measure (length \<circ> snd)") auto

text \<open>The body of a reply: \<^verbatim>\<open>writeJSON\<close> with the fields of \<^verbatim>\<open>eventDetail\<close> in order, and \<^verbatim>\<open>writeError\<close>.\<close>

definition detail_members :: "eventDetail \<Rightarrow> string \<Rightarrow> (string \<times> bytes) list" where
  "detail_members d received =
     [(''id'', marshal_string (ed_ID d)), (''source_id'', marshal_string (ed_SourceID d)),
      (''raw_headers'', compact False (ed_RawHeaders d)), (''raw_body'', marshal_string (b64_std_Encode (ed_RawBody d)))] @
     (if ed_ContentType d = '''' then [] else [(''content_type'', marshal_string (ed_ContentType d))]) @
     (case ed_ParsedBody d of None \<Rightarrow> [] | Some b \<Rightarrow> if b = [] then [] else [(''parsed_body'', compact False b)]) @
     (if ed_DedupeKey d = '''' then [] else [(''dedupe_key'', marshal_string (ed_DedupeKey d))]) @
     [(''verified'', marshal_bool (ed_Verified d)), (''received_at'', marshal_string received)]"

definition event_response :: "api_env \<Rightarrow> eventDetail reply \<Rightarrow> int \<times> bytes" where
  "event_response env rep = (case rep of
     Reply status d \<Rightarrow> (status, case e_MarshalTime env (ed_ReceivedAt d) of None \<Rightarrow> ''''
       | Some received \<Rightarrow> marshal_object (detail_members d received) @ [CHR 0x0A])
   | Problem status message \<Rightarrow> (status, marshal_object [(''error'', marshal_string message)] @ [CHR 0x0A])
   | NoContent \<Rightarrow> (204, ''''))"

text \<open>A text that is the compact form of one JSON value.\<close>

definition json_text :: "bytes \<Rightarrow> json \<Rightarrow> bool" where
  "json_text b j \<longleftrightarrow> renders (max_depth - 3) b j \<and> skips b \<and> tight b"

lemma json_text_string: "utf8_valid s \<Longrightarrow> json_text (marshal_string s) (JString s)"
  by (simp add: json_text_def renders_string skips_string tight_texts)

lemma json_text_bool: "json_text (marshal_bool b) (JBool b)"
  unfolding json_text_def using renders_bool [folded marshal_bool_def] skips_bool tight_bool by blast

lemma find_prefix_Some: "find P xs = Some x \<Longrightarrow> find P (xs @ ys) = Some x"
  by (induction xs) (auto split: if_splits)

lemma first_value_append:
  assumes "first_value b = Some x"
  shows "first_value (b @ rest) = Some x"
proof -
  have "[0..<Suc (length (b @ rest))] = [0..<Suc (length b)] @ [Suc (length b)..<Suc (length (b @ rest))]"
    using upt_add_eq_append [of 0 "Suc (length b)" "length rest"] by (simp del: upt_Suc)
  moreover have "map (\<lambda>n. take n (b @ rest)) [0..<Suc (length b)] = map (\<lambda>n. take n b) [0..<Suc (length b)]"
    by (rule map_cong) auto
  ultimately have "map (\<lambda>n. take n (b @ rest)) [0..<Suc (length (b @ rest))] = map (\<lambda>n. take n b) [0..<Suc (length b)] @
      map (\<lambda>n. take n (b @ rest)) [Suc (length b)..<Suc (length (b @ rest))]" by (simp only: map_append)
  then show ?thesis using assms find_prefix_Some unfolding first_value_def by metis
qed

lemma Decode_members:
  assumes "textless fs" "list_all2 (\<lambda>m kj. fst m = fst kj \<and> utf8_valid (fst m) \<and> json_text (snd m) (snd kj)) ms kjs" "distinct (map fst kjs)"
  shows "Decode_struct fs zero (marshal_object ms @ rest) = fold_opt (set_value fs) kjs zero"
proof -
  let ?b = "marshal_object ms"
  have r: "list_all2 (member_renders (max_depth - 3)) ms kjs"
    using assms(2) by (rule list_all2_mono) (auto simp: member_renders_def json_text_def)
  have t: "\<forall>m \<in> set ms. skips (snd m) \<and> tight (snd m)"
    using assms(2) by (induction rule: list_all2_induct) (auto simp: json_text_def)
  have "json_Unmarshal ?b = Some (JObject kjs)"
    using renders_Unmarshal [OF renders_object [OF r assms(3)]] by (simp add: max_depth_def)
  then have v: "json_Valid ?b" by (simp add: json_Valid_def)
  have "first_value (?b @ rest) = Some ?b"
    using first_value_object [OF v] marshal_object_ends [of ms] by (auto intro: first_value_append)
  then have "Decode_struct fs zero (?b @ rest) = Unmarshal_struct fs zero ?b"
    by (simp add: Decode_struct_def)
  also have "\<dots> = fold_opt (set_member fs) ms zero"
    by (rule Unmarshal_struct_text [OF r assms(3) _ t]) (simp add: max_depth_def)
  also have "\<dots> = fold_opt (set_value fs) kjs zero"
    by (rule fold_set_values [OF assms(1) r]) (simp add: max_depth_def)
  finally show ?thesis .
qed

lemma textless_client: "textless (client_event_fields env)"
  by (simp add: textless_def client_event_fields_def string_field_def [abs_def] headers_field_def [abs_def] bytes_field_def [abs_def]
      bool_field_def [abs_def] time_field_def [abs_def])

lemma headers_field_object:
  assumes "get r = None"
  shows "headers_field get upd raw (JObject (map (\<lambda>(k, vs). (k, header_value vs)) kvs)) r = Some (upd (\<lambda>_. Some kvs) r)"
  using assms by (auto simp: headers_field_def strings_value_of list_all_iff case_prod_unfold comp_def)

text \<open>
  An event that can be read back: its headers are, in whatever layout PostgreSQL returns them, a JSON object of the given
  headers, what was parsed of its body is JSON, its texts are valid UTF-8, and its time can be written and read.
\<close>

definition readable :: "api_env \<Rightarrow> cli_env \<Rightarrow> event \<Rightarrow> (string \<times> string list option) list \<Rightarrow> bool" where
  "readable genv env e kvs \<longleftrightarrow>
     json_text (compact False (ev_raw_headers e)) (JObject (map (\<lambda>(k, vs). (k, header_value vs)) kvs)) \<and>
     canonical_names (nheader_list (Some kvs)) \<and>
     (case ev_parsed_body e of None \<Rightarrow> True | Some b \<Rightarrow> b \<noteq> [] \<longrightarrow> (\<exists>j. json_text (compact False b) j)) \<and>
     utf8_valid (text_String (ev_content_type e)) \<and> utf8_valid (text_String (ev_dedupe_key e)) \<and>
     (case e_MarshalTime genv (ev_received_at e) of None \<Rightarrow> False | Some t \<Rightarrow> utf8_valid t \<and> ce_UnmarshalTime env t \<noteq> None)"

lemma graphic_valid: "list_all graphic s \<Longrightarrow> utf8_valid s"
  by (rule ascii_valid) (auto simp: list_all_iff graphic_def)

lemma uuid_valid: "utf8_valid (uuidString u)"
proof (rule graphic_valid)
  have "graphic CHR ''-''" by (simp add: graphic_def)
  then show "list_all graphic (uuidString u)"
    unfolding uuidString_def Let_def list_all_append using hex_Encode_graphic by simp
qed

lemma Decode_detail:
  assumes "readable genv env e kvs" "e_MarshalTime genv (ev_received_at e) = Some t"
  shows "\<exists>x. Decode_struct (client_event_fields env) no_client_event (marshal_object (detail_members (detail e) t) @ rest) = Some x \<and>
    ce_RawHeaders x = Some kvs \<and> ce_RawBody x = ev_raw_body e"
proof -
  let ?d = "detail e"
  obtain t' where t': "ce_UnmarshalTime env t = Some t'" using assms by (auto simp: readable_def)
  obtain pj where pj: "\<And>b. ev_parsed_body e = Some b \<Longrightarrow> b \<noteq> [] \<Longrightarrow> json_text (compact False b) pj"
    using assms(1) by (cases "ev_parsed_body e") (auto simp: readable_def)
  let ?kjs = "[(''id'', JString (ed_ID ?d)), (''source_id'', JString (ed_SourceID ?d)),
      (''raw_headers'', JObject (map (\<lambda>(k, vs). (k, header_value vs)) kvs)), (''raw_body'', JString (b64_std_Encode (ed_RawBody ?d)))] @
     (if ed_ContentType ?d = '''' then [] else [(''content_type'', JString (ed_ContentType ?d))]) @
     (case ed_ParsedBody ?d of None \<Rightarrow> [] | Some b \<Rightarrow> if b = [] then [] else [(''parsed_body'', pj)]) @
     (if ed_DedupeKey ?d = '''' then [] else [(''dedupe_key'', JString (ed_DedupeKey ?d))]) @
     [(''verified'', JBool (ed_Verified ?d)), (''received_at'', JString t)]"
  have names: "utf8_valid n" if "n \<in> set [''id'', ''source_id'', ''raw_headers'', ''raw_body'', ''content_type'', ''parsed_body'', ''dedupe_key'',
      ''verified'', ''received_at'']" for n
    using that by (intro ascii_valid) auto
  have ids: "utf8_valid (uuidString u)" for u by (rule uuid_valid)
  have b64: "utf8_valid (b64_std_Encode b)" for b
    by (rule graphic_valid) (rule b64_std_Encode_graphic)
  have "list_all2 (\<lambda>m kj. fst m = fst kj \<and> utf8_valid (fst m) \<and> json_text (snd m) (snd kj)) (detail_members ?d t) ?kjs"
    using assms pj ids b64
    by (auto simp: detail_members_def detail_def readable_def names json_text_string json_text_bool split: option.split)
  moreover have "distinct (map fst ?kjs)" by (auto split: option.split)
  ultimately have "Decode_struct (client_event_fields env) no_client_event (marshal_object (detail_members ?d t) @ rest) =
      fold_opt (set_value (client_event_fields env)) ?kjs no_client_event"
    by (rule Decode_members [OF textless_client])
  moreover have "\<exists>x. fold_opt (set_value (client_event_fields env)) ?kjs no_client_event = Some x \<and>
      ce_RawHeaders x = Some kvs \<and> ce_RawBody x = ev_raw_body e"
    using t' by (simp add: set_value_def client_event_fields_def no_client_event_def string_field_def headers_field_object bytes_field_def
        bool_field_def time_field_def b64_std_Decode_Encode detail_def upper_char_def split: option.split)
  ultimately show ?thesis by simp
qed

text \<open>
  C23. Replaying a stored event locally reproduces the provider's request. When a developer is logged in, and the gateway answers the
  request for the event by what its handler replies for a stored event, then the command makes exactly one request, to the
  normalized target, with the body the provider sent, byte for byte, and all values of all its headers but those of the
  connection; nothing is added. The command fails exactly when that request could not be made, and says that one of one event failed.
\<close>

theorem cli_replay_exact:
  assumes cli: "gatewayClient env fs = Inr api" "NormalizeURL env forwardTo = Inr target" "client_ListSources env api = Inr sources"
    and arg: "eid \<noteq> ''''" "parseUUID genv eid = Some (ev_id e)"
    and net: "ce_NewRequest env (cl_baseURL api @ ''/api/events/'' @ PathEscape eid) = None"
      "ce_Do env ''GET'' (cl_baseURL api @ ''/api/events/'' @ PathEscape eid)
         (header_Set (header_Set [] ''Authorization'' (''Bearer '' @ cl_apiKey api)) ''Accept'' ''application/json'') =
       Inr (event_response genv (fst (get_event genv eid w)))"
    and store: "e \<in> set (db_events (w_db w))" "distinct (map ev_id (db_events (w_db w)))" "ev_tenant e = DefaultTenantID"
      "\<not> pg_fault (w_pg w) (w_step w)"
    and event: "readable genv env e kvs"
    and target: "lm_NewRequest m target = None"
  shows "\<exists>r. runReplay env fs m eid '''' forwardTo 0 = (case lm_Do m r of Inl _ \<Rightarrow> Some (EventsFailed 1 1) | Inr _ \<Rightarrow> None, [r]) \<and>
    ho_url r = target \<and> ho_body r = ev_raw_body e \<and>
    (\<forall>k. header_Values (ho_header r) k = (if k \<in> set hopByHopHeaders then [] else header_Values (nheader_list (Some kvs)) k))"
proof -
  obtain t where t: "e_MarshalTime genv (ev_received_at e) = Some t" using event by (auto simp: readable_def split: option.splits)
  have "filter (\<lambda>x. ev_id x = ev_id e \<and> ev_tenant x = DefaultTenantID) (db_events (w_db w)) = [e]"
    using filter_unique [of ev_id "db_events (w_db w)" e "\<lambda>x. ev_tenant x = DefaultTenantID"] store by simp
  then have g: "fst (get_event genv eid w) = Reply 200 (detail e)"
    using arg(2) store(4) by (simp add: get_event_def or_404_def GetEvent_def query_def exec_def one_row_def)
  obtain x where x: "Decode_struct (client_event_fields env) no_client_event (marshal_object (detail_members (detail e) t) @ [CHR 0x0A]) = Some x"
    "ce_RawHeaders x = Some kvs" "ce_RawBody x = ev_raw_body e" using Decode_detail [OF event t] by blast
  have get: "client_GetEvent env api eid = Inr x"
    using net x(1) by (simp add: client_GetEvent_def client_do_def g event_response_def detail_def t)
  let ?r = "replay_request \<lparr>fq_Target = target, fq_Headers = Some kvs, fq_Body = ev_raw_body e, fq_WebhookID = ''''\<rparr>"
  have one: "cli_replayOne env api m target eid =
      (case lm_Do m ?r of Inl err \<Rightarrow> Some (ReplayingEvent (take 8 eid) err) | Inr _ \<Rightarrow> None, [?r])"
    using target by (auto simp: cli_replayOne_def get x(2,3) forward_Post_def Let_def split: sum.split)
  have "runReplay env fs m eid '''' forwardTo 0 = (case lm_Do m ?r of Inl _ \<Rightarrow> Some (EventsFailed 1 1) | Inr _ \<Rightarrow> None, [?r])"
    using cli arg(1) by (auto simp: runReplay_def replayTargets_def one Let_def split: sum.split)
  moreover have "canonical_names (nheader_list (Some kvs))" using event by (simp add: readable_def)
  ultimately show ?thesis
    using replay_headers [of "Some kvs" target "ev_raw_body e" "''''"] by (intro exI [of _ ?r]) (simp add: replay_request_def Let_def)
qed

definition stored_example :: event where
  "stored_example = event_example\<lparr>ev_tenant := DefaultTenantID, ev_raw_headers := ''{'' @ marshal_string ''X-A'' @ '': ['' @ marshal_string ''1'' @ '']}''\<rparr>"

definition stored_world :: world where
  "stored_world = world_example\<lparr>w_db := db_example\<lparr>db_events := [stored_example]\<rparr>\<rparr>"

definition stored_env :: api_env where
  "stored_env = events_env\<lparr>e_MarshalTime := (\<lambda>_. Some ''1970-01-01T00:00:00Z'')\<rparr>"

definition replay_env :: cli_env where
  "replay_env = env_example\<lparr>ce_Do := (\<lambda>meth u h. if u = ''http://gw/api/sources'' then Inr (200, ''[]'')
     else Inr (event_response stored_env (fst (get_event stored_env (uuidString 3) stored_world))))\<rparr>"

definition replay_files :: files where
  "replay_files p = (if p = ''/home/dev/.config/whg/config.yaml'' then Some (''http://gw whg_k'', 384) else None)"

lemma stored_readable: "readable stored_env replay_env stored_example [(''X-A'', Some [''1''])]"
proof -
  have "compact False (ev_raw_headers stored_example) = marshal_object [(''X-A'', marshal_strings [''1''])]" by code_simp
  moreover have "utf8_valid ''X-A''" "utf8_valid ''1''" "utf8_valid ''''" "utf8_valid ''1970-01-01T00:00:00Z''"
    by (rule ascii_valid, simp)+
  moreover have "renders (Suc (max_depth - 4)) (marshal_object [(''X-A'', marshal_strings [''1''])]) (JObject [(''X-A'', JArray (map JString [''1'']))])"
    using renders_strings [of "[''1'']"] calculation(2,3) by (intro renders_object) (simp_all add: member_renders_def)
  moreover have "skips (marshal_object [(''X-A'', marshal_strings [''1''])])" by (rule skips_object) (simp add: skips_strings)
  moreover have "CanonicalHeaderKey ''X-A'' = ''X-A''" by code_simp
  ultimately show ?thesis
    by (simp add: readable_def json_text_def tight_texts max_depth_def canonical_names_def nheader_list_def stored_example_def event_example_def
        stored_env_def replay_env_def env_example_def)
qed

theorem cli_replay_exact_witness:
  "\<exists>r. runReplay replay_env replay_files machine_example (uuidString 3) '''' ''localhost:3000'' 0 =
       (case lm_Do machine_example r of Inl _ \<Rightarrow> Some (EventsFailed 1 1) | Inr _ \<Rightarrow> None, [r]) \<and>
     ho_url r = ''http://localhost:3000'' \<and> ho_body r = ''x'' \<and> header_Values (ho_header r) ''X-A'' = [''1'']"
proof -
  let ?api = "\<lparr>cl_baseURL = ''http://gw'', cl_apiKey = ''whg_k''\<rparr>"
  have cli: "gatewayClient replay_env replay_files = Inr ?api" "NormalizeURL replay_env ''localhost:3000'' = Inr ''http://localhost:3000''"
    "client_ListSources replay_env ?api = Inr []" by code_simp+
  have arg: "uuidString 3 \<noteq> ''''" "parseUUID stored_env (uuidString 3) = Some (ev_id stored_example)"
    by (simp_all add: uuidString_not_empty parseUUID_def stored_env_def events_env_def scan_uuidString stored_example_def event_example_def)
  have net: "ce_NewRequest replay_env (cl_baseURL ?api @ ''/api/events/'' @ PathEscape (uuidString 3)) = None"
    "ce_Do replay_env ''GET'' (cl_baseURL ?api @ ''/api/events/'' @ PathEscape (uuidString 3))
         (header_Set (header_Set [] ''Authorization'' (''Bearer '' @ cl_apiKey ?api)) ''Accept'' ''application/json'') =
       Inr (event_response stored_env (fst (get_event stored_env (uuidString 3) stored_world)))"
    by (simp_all add: replay_env_def env_example_def)
  have store: "stored_example \<in> set (db_events (w_db stored_world))" "distinct (map ev_id (db_events (w_db stored_world)))"
    "ev_tenant stored_example = DefaultTenantID" "\<not> pg_fault (w_pg stored_world) (w_step stored_world)"
    by (simp_all add: stored_world_def stored_example_def world_example_def pg_example_def)
  have m: "lm_NewRequest machine_example ''http://localhost:3000'' = None" by (simp add: machine_example_def)
  have "''X-A'' \<notin> set hopByHopHeaders" "header_Values (nheader_list (Some [(''X-A'', Some [''1''])])) ''X-A'' = [''1'']" by code_simp+
  with cli_replay_exact [OF cli arg net store stored_readable m] show ?thesis
    by (auto simp: stored_example_def event_example_def)
qed

end
