(* ===== verification/Dashboard.thy ===== *)
theory Dashboard
  imports Go_Paths
begin

text \<open>
  The dashboard's files (\<^verbatim>\<open>web/dashboard/embed.go\<close>): which of the embedded files, the shell or an error a path gets, and how
  long a browser may keep it. The file system is a parameter; \<^verbatim>\<open>http.ServeContent\<close>, which sends the given bytes under a name, is
  the constructor \<open>Served\<close>.
\<close>

datatype node = File string bytes | Directory | Unstattable | Unseekable

type_synonym filesystem = "string \<Rightarrow> node option"

datatype page = NotFoundJSON | NotFoundText | NotBuilt | Served "string option" string bytes

definition isAPIPath :: "string \<Rightarrow> bool" where
  "isAPIPath p = (HasPrefix p ''/api/'' \<or> HasPrefix p ''/ingest/'')"

definition serveIndex :: "bytes \<Rightarrow> page" where
  "serveIndex index = Served (Some ''no-cache'') ''index.html'' index"

definition spa_ServeHTTP :: "filesystem \<Rightarrow> bytes \<Rightarrow> string \<Rightarrow> page" where
  "spa_ServeHTTP fsys index p =
     (if isAPIPath p then NotFoundJSON
      else let name = TrimPrefix (path_Clean p) ''/'' in
        (case fsys name of
           None \<Rightarrow> (if HasPrefix name ''assets/'' then NotFoundText else serveIndex index)
         | Some (File base content) \<Rightarrow>
             Served (if HasPrefix name ''assets/'' then Some ''public, max-age=31536000, immutable'' else None) base content
         | Some _ \<Rightarrow> serveIndex index))"

definition notBuilt :: "string \<Rightarrow> page" where
  "notBuilt p = (if isAPIPath p then NotFoundJSON else NotBuilt)"

definition handlerFor :: "filesystem \<Rightarrow> string \<Rightarrow> page" where
  "handlerFor fsys =
     (case fsys ''index.html'' of Some (File _ index) \<Rightarrow> spa_ServeHTTP fsys index | _ \<Rightarrow> notBuilt)"

lemma cleaned_name:
  assumes "p \<noteq> ''''" "hd p = CHR ''/''"
  shows "TrimPrefix (path_Clean p) ''/'' = join_slash (clean_elems True p)"
  using assms by (simp add: path_Clean_def TrimPrefix_def HasPrefix_def)

text \<open>
  The dashboard's handler keeps its promises to browsers and API clients, for every path a request can have: a path of the API or
  of the ingest endpoint gets the JSON error and nothing else does; a file is only ever looked up under proper names, so no path
  leaves the tree; what a browser may keep for ever is an existing file under assets; a missing one there is a 404 and not the
  shell; everything else is an existing file or the shell, and the shell must always be revalidated.
\<close>

theorem dashboard_serves:
  assumes "fsys ''index.html'' = Some (File base index)" "p \<noteq> ''''" "hd p = CHR ''/''"
    and "file = join_slash (clean_elems True p)"
  shows "list_all proper (clean_elems True p) \<and> (case handlerFor fsys p of
     NotFoundJSON \<Rightarrow> isAPIPath p
   | NotFoundText \<Rightarrow> \<not> isAPIPath p \<and> HasPrefix file ''assets/'' \<and> fsys file = None
   | NotBuilt \<Rightarrow> False
   | Served cache name body \<Rightarrow> \<not> isAPIPath p \<and>
       (fsys file = Some (File name body) \<and> (cache = None \<longleftrightarrow> \<not> HasPrefix file ''assets/'') \<and> cache \<noteq> Some ''no-cache'' \<or>
        cache = Some ''no-cache'' \<and> body = index \<and> \<not> (HasPrefix file ''assets/'' \<and> fsys file = None)))"
  using assms(1,4) cleaned_name [OF assms(2,3)] clean_elems_rooted [of p]
  by (auto simp: handlerFor_def spa_ServeHTTP_def serveIndex_def Let_def split: option.splits node.splits)

definition files_example :: filesystem where
  "files_example n = (if n = ''index.html'' then Some (File n ''shell'') else None)"

theorem dashboard_serves_witness:
  "list_all proper (clean_elems True ''/a/../../assets/x.js'') \<and> handlerFor files_example ''/a/../../assets/x.js'' = NotFoundText \<and>
   files_example ''assets/x.js'' = None"
proof -
  have h: "handlerFor files_example ''/a/../../assets/x.js'' = NotFoundText"
    "''assets/x.js'' = join_slash (clean_elems True ''/a/../../assets/x.js'')" by code_simp+
  have "files_example ''index.html'' = Some (File ''index.html'' ''shell'')" by (simp add: files_example_def)
  from dashboard_serves [of files_example _ _ "''/a/../../assets/x.js''", OF this _ _ h(2)] show ?thesis by (simp add: h(1))
qed

end
