(* ===== verification/Rules.thy ===== *)
theory Rules
  imports Queries Json
begin

text \<open>
  The rule engine (\<^verbatim>\<open>internal/rules/rules.go\<close>): the first enabled rule whose CEL expression is true of
  an event decides whether it is dropped or routed to an explicit list of destinations. cel-go is a
  parameter: whether the environment can be built, what compiles, what becomes a program, and what an
  evaluation gives.
\<close>

subsection \<open>CEL\<close>

text \<open>An activation binds \<^verbatim>\<open>body\<close>, \<^verbatim>\<open>headers\<close> and \<^verbatim>\<open>source\<close>; a result is a bool or something else.\<close>

record activation =
  av_body :: json
  av_headers :: json
  av_source :: json

datatype cel_value = CelBool bool | CelOther

record cel =
  cel_NewEnv :: bool
  cel_Compile :: "string \<Rightarrow> bool"
  cel_Program :: "string \<Rightarrow> bool"
  cel_Eval :: "string \<Rightarrow> activation \<Rightarrow> cel_value option"

subsection \<open>Evaluation\<close>

definition ActionDrop :: string where "ActionDrop = ''drop''"
definition ActionRoute :: string where "ActionRoute = ''route''"

text \<open>\<open>None\<close> is Go's nil.\<close>

record rule_input =
  in_Body :: "json option"
  in_Headers :: "json option"
  in_Source :: "json option"

record Decision =
  dc_Action :: string
  dc_RuleName :: string
  dc_RouteDestinationIDs :: "uuid list"

definition no_decision :: Decision where
  "no_decision = \<lparr>dc_Action = '''', dc_RuleName = '''', dc_RouteDestinationIDs = []\<rparr>"

definition Validate :: "cel \<Rightarrow> string \<Rightarrow> bool" where
  "Validate c expression = (if \<not> cel_NewEnv c then False else cel_Compile c expression)"

definition activation_of :: "rule_input \<Rightarrow> activation" where
  "activation_of i =
     (let obj = (\<lambda>v. case v of None \<Rightarrow> JObject [] | Some j \<Rightarrow> j)
      in \<lparr>av_body = obj (in_Body i), av_headers = obj (in_Headers i), av_source = obj (in_Source i)\<rparr>)"

text \<open>The loop over the rules: each \<^verbatim>\<open>continue\<close> is a recursive call on the rest.\<close>

primrec Evaluate_from :: "cel \<Rightarrow> activation \<Rightarrow> rule list \<Rightarrow> Decision" where
  "Evaluate_from c av [] = no_decision"
| "Evaluate_from c av (r # rs) =
     (if \<not> cel_Compile c (ru_expression r) then Evaluate_from c av rs
      else if \<not> cel_Program c (ru_expression r) then Evaluate_from c av rs
      else (case cel_Eval c (ru_expression r) av of
              None \<Rightarrow> Evaluate_from c av rs
            | Some CelOther \<Rightarrow> Evaluate_from c av rs
            | Some (CelBool matched) \<Rightarrow>
                if \<not> matched then Evaluate_from c av rs
                else \<lparr>dc_Action = ru_action r, dc_RuleName = ru_name r,
                      dc_RouteDestinationIDs = ru_route_dests r\<rparr>))"

definition Evaluate :: "cel \<Rightarrow> rule list \<Rightarrow> rule_input \<Rightarrow> Decision" where
  "Evaluate c rs i =
     (if rs = [] then no_decision
      else if \<not> cel_NewEnv c then no_decision
      else Evaluate_from c (activation_of i) rs)"

subsection \<open>First match wins, broken rules are skipped\<close>

text \<open>A rule is broken for an event when its expression has no boolean value there.\<close>

definition rule_value :: "cel \<Rightarrow> rule_input \<Rightarrow> rule \<Rightarrow> bool option" where
  "rule_value c i r =
     (if cel_NewEnv c \<and> cel_Compile c (ru_expression r) \<and> cel_Program c (ru_expression r)
      then (case cel_Eval c (ru_expression r) (activation_of i) of Some (CelBool b) \<Rightarrow> Some b | _ \<Rightarrow> None)
      else None)"

definition decision_of :: "rule \<Rightarrow> Decision" where
  "decision_of r = \<lparr>dc_Action = ru_action r, dc_RuleName = ru_name r,
     dc_RouteDestinationIDs = ru_route_dests r\<rparr>"

lemma Evaluate_from_find:
  assumes "cel_NewEnv c"
  shows "Evaluate_from c (activation_of i) rs =
    (case find (\<lambda>r. rule_value c i r = Some True) rs of None \<Rightarrow> no_decision | Some r \<Rightarrow> decision_of r)"
  using assms
  by (induction rs) (auto simp: rule_value_def decision_of_def split: option.splits cel_value.splits)

lemma Evaluate_find:
  "Evaluate c rs i =
    (case find (\<lambda>r. rule_value c i r = Some True) rs of None \<Rightarrow> no_decision | Some r \<Rightarrow> decision_of r)"
proof (cases "cel_NewEnv c")
  case True
  then show ?thesis by (simp add: Evaluate_def Evaluate_from_find)
next
  case False
  then have "find (\<lambda>r. rule_value c i r = Some True) rs = None"
    by (simp add: find_None_all rule_value_def)
  with False show ?thesis by (simp add: Evaluate_def)
qed

text \<open>
  Evaluation fails open: rules whose expression does not compile, cannot be made a program, errors or
  is not boolean for this event never influence the decision; removing them from the list, wherever they
  stand, leaves the decision unchanged.
\<close>

theorem Evaluate_skips_broken_rules:
  "Evaluate c rs i = Evaluate c (filter (\<lambda>r. rule_value c i r \<noteq> None) rs) i"
proof -
  have "find (\<lambda>r. rule_value c i r = Some True) rs =
    find (\<lambda>r. rule_value c i r = Some True) (filter (\<lambda>r. rule_value c i r \<noteq> None) rs)"
    by (induction rs) auto
  then show ?thesis by (simp add: Evaluate_find)
qed

text \<open>
  C10. First match wins, in priority order: when a rule of a source is true of an event and every enabled
  rule of the source that is also true of it has a higher priority number, or the same number and a
  later creation time, then evaluating the list that ListEnabledRulesForSource gives returns that rule's
  decision.
\<close>

theorem Evaluate_lowest_priority:
  assumes "r \<in> set (db_rules d)" "ru_source r = sid" "ru_enabled r" "rule_value c i r = Some True"
    and "\<And>r'. r' \<in> set (db_rules d) \<Longrightarrow> ru_source r' = sid \<Longrightarrow> ru_enabled r' \<Longrightarrow>
      rule_value c i r' = Some True \<Longrightarrow> r' \<noteq> r \<Longrightarrow>
      ru_priority r < ru_priority r' \<or> ru_priority r = ru_priority r' \<and> ru_created_at r < ru_created_at r'"
  shows "Evaluate c (enabled_rules d sid) i = decision_of r"
proof -
  let ?P = "\<lambda>r. rule_value c i r = Some True"
  let ?xs = "sort_key ru_created_at (filter (\<lambda>r. ru_source r = sid \<and> ru_enabled r) (db_rules d))"
  have er: "enabled_rules d sid = sort_key ru_priority ?xs" by (simp add: enabled_rules_def)
  have "r \<in> set (enabled_rules d sid)" using assms by (simp add: enabled_rules_def)
  then obtain x where x: "find ?P (enabled_rules d sid) = Some x"
    using assms(4) find_None_all [of ?P "enabled_rules d sid"] by (cases "find ?P (enabled_rules d sid)") auto
  then obtain ys zs where split: "enabled_rules d sid = ys @ x # zs" "?P x" "\<forall>y \<in> set ys. \<not> ?P y"
    by (auto simp: find_Some_split)
  have "x = r"
  proof (rule ccontr)
    assume ne: "x \<noteq> r"
    have "r \<in> set zs" using \<open>r \<in> set (enabled_rules d sid)\<close> split assms(4) ne by auto
    have "x \<in> set (enabled_rules d sid)" using split by simp
    then have less: "ru_priority r < ru_priority x \<or> ru_priority r = ru_priority x \<and> ru_created_at r < ru_created_at x"
      using assms(5) [of x] split(2) ne by (simp add: enabled_rules_def)
    have "sorted (map ru_priority (enabled_rules d sid))" by (simp add: er)
    then have "ru_priority x \<le> ru_priority r" using split(1) \<open>r \<in> set zs\<close> by (auto simp: sorted_append)
    with less have eq: "ru_priority r = ru_priority x" "ru_created_at r < ru_created_at x" by auto
    have "filter (\<lambda>y. ru_priority y = ru_priority x) (enabled_rules d sid) =
        filter (\<lambda>y. ru_priority y = ru_priority x) ?xs"
      unfolding er by (rule sort_key_stable)
    moreover have "sorted (map ru_created_at (filter (\<lambda>y. ru_priority y = ru_priority x) ?xs))"
      by (rule sorted_filter) simp
    ultimately have "sorted (map ru_created_at (filter (\<lambda>y. ru_priority y = ru_priority x) (ys @ x # zs)))"
      using split(1) by simp
    then have "ru_created_at x \<le> ru_created_at r"
      using \<open>r \<in> set zs\<close> eq(1) by (auto simp: sorted_append)
    with eq(2) show False by simp
  qed
  with x show ?thesis by (simp add: Evaluate_find)
qed

definition cel_example :: cel where
  "cel_example = \<lparr>cel_NewEnv = True, cel_Compile = (\<lambda>e. e \<noteq> ''(''), cel_Program = (\<lambda>_. True),
     cel_Eval = (\<lambda>e av. if e = ''true'' then Some (CelBool True)
                         else if e = ''false'' then Some (CelBool False) else None)\<rparr>"

definition rule_example :: "uuid \<Rightarrow> string \<Rightarrow> string \<Rightarrow> int \<Rightarrow> rule" where
  "rule_example rid expr act prio = \<lparr>ru_id = rid, ru_tenant = 1, ru_source = 7, ru_name = ''rule'',
     ru_expression = expr, ru_action = act, ru_route_dests = [], ru_priority = prio, ru_enabled = True,
     ru_created_at = 0, ru_updated_at = 0\<rparr>"

theorem Evaluate_lowest_priority_witness:
  "Evaluate cel_example
     (enabled_rules (empty_db\<lparr>db_rules := [rule_example 1 ''true'' ''route'' 20, rule_example 2 ''true'' ''drop'' 10]\<rparr>) 7)
     \<lparr>in_Body = None, in_Headers = None, in_Source = None\<rparr> = decision_of (rule_example 2 ''true'' ''drop'' 10)"
  by (rule Evaluate_lowest_priority) (auto simp: rule_example_def rule_value_def cel_example_def)

end
