(* ===== verification/Dedupe.thy ===== *)
theory Dedupe
  imports Queries Json Hashes
begin

text \<open>
  Deduplication (\<^verbatim>\<open>internal/ingest/dedupe.go\<close> and \<^verbatim>\<open>cleanup.go\<close>): the key of an event under a source's
  strategy, and the claims on the dedupe index. The index is a table shared by concurrent requests and
  the periodic cleanup job, so what a claim guarantees is stated over every interleaving of claims,
  cleanups, other work and the passing of time, as a step relation.
\<close>

subsection \<open>Deriving the key\<close>

definition dedupeExact :: string where "dedupeExact = ''exact''"
definition dedupeField :: string where "dedupeField = ''field''"
definition droppedReasonDuplicate :: string where "droppedReasonDuplicate = ''duplicate''"
definition defaultDedupeWindowSeconds :: int where "defaultDedupeWindowSeconds = 300"
definition maxDedupeKeyLen :: nat where "maxDedupeKeyLen = 256"

definition shorten :: "string \<Rightarrow> string" where
  "shorten value = (if length value \<le> maxDedupeKeyLen then value else hex_Encode (sha256 value))"

text \<open>Walking the objects of a document along the segments of a path.\<close>

primrec json_walk :: "string list \<Rightarrow> json \<Rightarrow> json option" where
  "json_walk [] current = Some current"
| "json_walk (s # ss) current =
     (case current of
        JObject ms \<Rightarrow> (case map_of ms s of None \<Rightarrow> None | Some v \<Rightarrow> json_walk ss v)
      | _ \<Rightarrow> None)"

definition jsonFieldValue :: "bytes \<Rightarrow> string \<Rightarrow> string option" where
  "jsonFieldValue document path =
     (let segments = Split CHR ''.'' (TrimPrefix (TrimPrefix path ''$'') ''.'') in
      if segments = [] \<or> hd segments = '''' then None
      else (case json_Unmarshal document of None \<Rightarrow> None
            | Some root \<Rightarrow>
                (case json_walk segments root of
                   None \<Rightarrow> None
                 | Some (JString v) \<Rightarrow> if v = '''' then None else Some v
                 | Some (JNumber v) \<Rightarrow> Some v
                 | Some (JBool b) \<Rightarrow> None
                 | Some _ \<Rightarrow> None)))"

definition dedupeKey :: "source \<Rightarrow> bytes \<Rightarrow> bytes option \<Rightarrow> string option" where
  "dedupeKey s body parsedBody =
     (if \<not> src_dedupe_enabled s then None
      else if text_String (src_dedupe_strategy s) = dedupeExact then Some (hex_Encode (sha256 body))
      else if text_String (src_dedupe_strategy s) = dedupeField then
        (case (parsedBody, src_dedupe_field_path s) of
           (Some doc, Some path) \<Rightarrow>
             (case jsonFieldValue doc path of None \<Rightarrow> None | Some v \<Rightarrow> Some (shorten v))
         | _ \<Rightarrow> None)
      else None)"

subsection \<open>The cleanup job\<close>

definition CleanupWorker_Work :: "unit dbm" where
  "CleanupWorker_Work = bind DeleteExpiredDedupEntries (\<lambda>deleted. ret ())"

subsection \<open>Keys\<close>

lemma json_walk_numbers_ok: "numbers_ok v \<Longrightarrow> json_walk ss v = Some v' \<Longrightarrow> numbers_ok v'"
proof (induction ss arbitrary: v)
  case (Cons s ss)
  then obtain ms v1 where "v = JObject ms" "map_of ms s = Some v1" "json_walk ss v1 = Some v'"
    by (auto split: json.splits option.splits)
  with Cons show ?case by (fastforce simp: list_all_iff dest: map_of_SomeD)
qed simp

lemma jsonFieldValue_ne:
  assumes "jsonFieldValue doc path = Some v"
  shows "v \<noteq> []"
proof -
  obtain root ss x where x: "json_Unmarshal doc = Some root" "json_walk ss root = Some x"
    "x = JString v \<and> v \<noteq> [] \<or> x = JNumber v"
    using assms by (auto simp: jsonFieldValue_def Let_def split: if_splits option.splits json.splits)
  have "numbers_ok x" using Unmarshal_numbers_ok json_walk_numbers_ok x(1,2) by blast
  with x(3) show ?thesis by auto
qed

lemma shorten_bounds: "v \<noteq> [] \<Longrightarrow> 0 < length (shorten v) \<and> length (shorten v) \<le> 256"
  by (cases "length v \<le> maxDedupeKeyLen")
    (simp_all add: shorten_def maxDedupeKeyLen_def length_hex_Encode length_sha256
      del: length_greater_0_conv length_0_conv, simp)

text \<open>
  A dedupe key is never empty and never longer than 256 bytes, whatever the payload and the field
  path, so an event is never lumped under an empty key and the stored keys stay bounded.
\<close>

theorem dedupeKey_bounds:
  assumes "dedupeKey s body parsedBody = Some k"
  shows "0 < length k \<and> length k \<le> 256"
proof -
  have "k = hex_Encode (sha256 body) \<or> (\<exists>doc path v. jsonFieldValue doc path = Some v \<and> k = shorten v)"
    using assms unfolding dedupeKey_def by (simp split: if_split_asm option.split_asm) metis
  then consider "k = hex_Encode (sha256 body)" | v where "k = shorten v" "v \<noteq> []"
    using jsonFieldValue_ne by blast
  then show ?thesis
  proof cases
    case 1
    show ?thesis unfolding 1 length_hex_Encode length_sha256 by simp
  next
    case 2
    show ?thesis unfolding 2(1) by (rule shorten_bounds) (rule 2(2))
  qed
qed

theorem dedupeKey_bounds_witness:
  "\<exists>k. dedupeKey source_example ''x'' None = Some k \<and> 0 < length k \<and> length k \<le> 256"
proof -
  have k: "dedupeKey source_example ''x'' None = Some (hex_Encode (sha256 ''x''))"
    by (simp add: dedupeKey_def dedupeExact_def source_example_def)
  show ?thesis using k dedupeKey_bounds [OF k] by metis
qed

subsection \<open>Claims under interleaving\<close>

text \<open>The primary key of \<^verbatim>\<open>dedup_entries\<close>: one row per source and key.\<close>

definition dedup_pk :: "database \<Rightarrow> bool" where
  "dedup_pk d \<longleftrightarrow> distinct (map (\<lambda>r. (dd_source r, dd_key r)) (db_dedup d))"

definition holds_key :: "uuid \<Rightarrow> string \<Rightarrow> uuid \<Rightarrow> time \<Rightarrow> database \<Rightarrow> bool" where
  "holds_key sid k e until d \<longleftrightarrow>
     \<lparr>dd_source = sid, dd_key = k, dd_event = e, dd_expires_at = until\<rparr> \<in> set (db_dedup d)"

text \<open>
  One step of the rest of the system, as the dedupe index sees it: another claim, the cleanup job, a
  step that leaves the index alone (any other statement), and in each case time may pass first.
\<close>

inductive dedup_step :: "world \<Rightarrow> world \<Rightarrow> bool" where
  claim: "w_now w \<le> t \<Longrightarrow> ClaimDedupeKey sid k e window (w\<lparr>w_now := t\<rparr>) = (r, w') \<Longrightarrow> dedup_step w w'"
| cleanup: "w_now w \<le> t \<Longrightarrow> CleanupWorker_Work (w\<lparr>w_now := t\<rparr>) = (r, w') \<Longrightarrow> dedup_step w w'"
| other: "w_now w \<le> w_now w' \<Longrightarrow> db_dedup (w_db w') = db_dedup (w_db w) \<Longrightarrow> dedup_step w w'"

abbreviation dedup_steps :: "world \<Rightarrow> world \<Rightarrow> bool" where
  "dedup_steps \<equiv> dedup_step\<^sup>*\<^sup>*"

lemma filter_dedup_row:
  assumes "dedup_pk d" "r \<in> set (db_dedup d)" "dedup_row sid k r"
  shows "filter (dedup_row sid k) (db_dedup d) = [r]"
proof -
  have "filter (dedup_row sid k) rs = [r]"
    if "distinct (map (\<lambda>r. (dd_source r, dd_key r)) rs)" "r \<in> set rs" for rs
    using that assms(3)
  proof (induction rs)
    case (Cons x rs)
    show ?case
    proof (cases "x = r")
      case True
      with Cons.prems have "\<forall>y \<in> set rs. \<not> dedup_row sid k y" by (auto simp: dedup_row_def image_iff)
      with True Cons.prems show ?thesis by (simp add: filter_empty_conv)
    next
      case False
      with Cons.prems have "r \<in> set rs" by simp
      with Cons.prems have "\<not> dedup_row sid k x" by (auto simp: dedup_row_def image_iff)
      with Cons \<open>r \<in> set rs\<close> show ?thesis by simp
    qed
  qed simp
  with assms show ?thesis by (simp add: dedup_pk_def)
qed

lemma keeps_dedup_pk_claim: "keeps dedup_pk (ClaimDedupeKey sid k e window)"
  unfolding ClaimDedupeKey_def
proof (rule keeps_exec)
  fix pg now n and d d' :: database and x
  let ?upd = "\<lambda>r :: dedup_entry. r\<lparr>dd_event := e, dd_expires_at := now + window * second\<rparr>"
  assume pk: "dedup_pk d"
  have upd: "map (\<lambda>r. (dd_source r, dd_key r)) (update_where (dedup_row sid k) ?upd (db_dedup d)) =
     map (\<lambda>r. (dd_source r, dd_key r)) (db_dedup d)" by (rule map_update_where) simp
  have new: "filter (dedup_row sid k) (db_dedup d) = [] \<Longrightarrow> (sid, k) \<notin> (\<lambda>r. (dd_source r, dd_key r)) ` set (db_dedup d)"
    by (auto simp: filter_empty_conv dedup_row_def)
  show "(let expires = now + window * second in
     if \<not> pg_text pg k then Inl DataError
     else if sid \<notin> src_id ` set (db_sources d) \<or> e \<notin> ev_id ` set (db_events d) then Inl ForeignKeyViolation
     else case filter (dedup_row sid k) (db_dedup d) of
       [] \<Rightarrow> Inr (e, d\<lparr>db_dedup := db_dedup d @
                [\<lparr>dd_source = sid, dd_key = k, dd_event = e, dd_expires_at = expires\<rparr>]\<rparr>)
     | r # _ \<Rightarrow>
         if dd_expires_at r \<le> now
         then Inr (e, d\<lparr>db_dedup := update_where (dedup_row sid k)
                (\<lambda>r. r\<lparr>dd_event := e, dd_expires_at := expires\<rparr>) (db_dedup d)\<rparr>)
         else Inl NoRows) = Inr (x, d') \<Longrightarrow> dedup_pk d'"
    using pk upd new by (auto simp: dedup_pk_def Let_def split: if_splits list.splits)
qed

lemma keeps_dedup_pk_cleanup: "keeps dedup_pk CleanupWorker_Work"
  unfolding CleanupWorker_Work_def DeleteExpiredDedupEntries_def
  by (intro keeps_intros keeps_exec) (auto simp: dedup_pk_def Let_def distinct_map_filter)

text \<open>What a successful claim does to the table.\<close>

lemma claim_Inr:
  assumes "ClaimDedupeKey sid k e window w = (Inr x, w')"
  defines "row \<equiv> \<lparr>dd_source = sid, dd_key = k, dd_event = e, dd_expires_at = w_now w + window * second\<rparr>"
  shows "x = e"
    "filter (dedup_row sid k) (db_dedup (w_db w)) = [] \<Longrightarrow> db_dedup (w_db w') = db_dedup (w_db w) @ [row]"
    "filter (dedup_row sid k) (db_dedup (w_db w)) = r # rs \<Longrightarrow> dd_expires_at r \<le> w_now w \<and>
       db_dedup (w_db w') = update_where (dedup_row sid k) (\<lambda>_. row) (db_dedup (w_db w))"
proof -
  have upd: "update_where (dedup_row sid k) (\<lambda>r. r\<lparr>dd_event := e, dd_expires_at := w_now w + window * second\<rparr>) xs =
    update_where (dedup_row sid k) (\<lambda>_. row) xs" for xs
    by (auto simp: update_where_def row_def dedup_row_def)
  show "x = e" using assms(1)
    by (auto simp: ClaimDedupeKey_def exec_Inr Let_def split: if_splits list.splits)
  show "filter (dedup_row sid k) (db_dedup (w_db w)) = [] \<Longrightarrow> db_dedup (w_db w') = db_dedup (w_db w) @ [row]"
    using assms(1) by (auto simp: ClaimDedupeKey_def exec_Inr Let_def row_def split: if_splits)
  show "filter (dedup_row sid k) (db_dedup (w_db w)) = r # rs \<Longrightarrow> dd_expires_at r \<le> w_now w \<and>
       db_dedup (w_db w') = update_where (dedup_row sid k) (\<lambda>_. row) (db_dedup (w_db w))"
    using assms(1) unfolding upd [symmetric]
    by (auto simp: ClaimDedupeKey_def exec_Inr Let_def split: if_splits)
qed

lemma claim_Inl_db: "ClaimDedupeKey sid k e window w = (Inl err, w') \<Longrightarrow> w_db w' = w_db w"
  unfolding ClaimDedupeKey_def by (rule exec_Inl_db)

text \<open>A claim or a cleanup before the expiry leaves the holder's row in place.\<close>

lemma claim_keeps_holder:
  assumes "dedup_pk (w_db w)" "holds_key sid k e until (w_db w)" "w_now w < until"
    and c: "ClaimDedupeKey sid' k' e' window w = (r, w')"
  shows "holds_key sid k e until (w_db w')"
proof (cases r)
  case (Inl err)
  then have "w_db w' = w_db w" using c claim_Inl_db by metis
  with assms(2) show ?thesis by simp
next
  case (Inr x)
  let ?row = "\<lparr>dd_source = sid, dd_key = k, dd_event = e, dd_expires_at = until\<rparr>"
  have mem: "?row \<in> set (db_dedup (w_db w))" using assms(2) by (simp add: holds_key_def)
  note c = claim_Inr [OF c [unfolded Inr]]
  show ?thesis
  proof (cases "sid' = sid \<and> k' = k")
    case True
    have "filter (dedup_row sid' k') (db_dedup (w_db w)) = [?row]"
      using assms(1) mem True by (intro filter_dedup_row) (auto simp: dedup_row_def)
    with c(3) assms(3) have False by fastforce
    then show ?thesis ..
  next
    case False
    then have other: "\<not> dedup_row sid' k' ?row" by (auto simp: dedup_row_def)
    show ?thesis
    proof (cases "filter (dedup_row sid' k') (db_dedup (w_db w))")
      case Nil
      with c(2) mem show ?thesis by (simp add: holds_key_def)
    next
      case (Cons r rs)
      with c(3) mem other show ?thesis by (simp add: holds_key_def set_update_where)
    qed
  qed
qed

lemma cleanup_keeps_holder:
  assumes "holds_key sid k e until (w_db w)" "w_now w < until" "CleanupWorker_Work w = (r, w')"
  shows "holds_key sid k e until (w_db w')"
  using assms
  by (auto simp: CleanupWorker_Work_def bind_def ret_def DeleteExpiredDedupEntries_def exec_def Let_def
      holds_key_def split: if_splits prod.splits sum.splits)

text \<open>The three steps as an invariant, as long as the window lasts.\<close>

lemma dedup_step_invariant:
  assumes "dedup_step w w'" "dedup_pk (w_db w)" "holds_key sid k e until (w_db w)" "w_now w' < until"
  shows "w_now w \<le> w_now w' \<and> dedup_pk (w_db w') \<and> holds_key sid k e until (w_db w')"
  using assms
proof (induction rule: dedup_step.induct)
  case (claim w t sid' k' e' window r w')
  have "w_now w' = t"
    using claim(2) steady_exec steadyD unfolding ClaimDedupeKey_def by fastforce
  moreover have "dedup_pk (w_db w')"
    using keepsD [OF keeps_dedup_pk_claim _ claim(2)] claim(3) by simp
  moreover have "holds_key sid k e until (w_db w')"
    using claim_keeps_holder [OF _ _ _ claim(2)] claim(3-) \<open>w_now w' = t\<close> by simp
  ultimately show ?case using claim(1) by simp
next
  case (cleanup w t r w')
  have "steady CleanupWorker_Work"
    unfolding CleanupWorker_Work_def DeleteExpiredDedupEntries_def by (intro keeps_intros)
  then have "w_now w' = t" using cleanup(2) steadyD by fastforce
  moreover have "dedup_pk (w_db w')"
    using keepsD [OF keeps_dedup_pk_cleanup _ cleanup(2)] cleanup(3) by simp
  moreover have "holds_key sid k e until (w_db w')"
    using cleanup_keeps_holder [OF _ _ cleanup(2)] cleanup(4-) \<open>w_now w' = t\<close> by simp
  ultimately show ?case using cleanup(1) by simp
next
  case (other w w')
  then show ?case by (simp add: dedup_pk_def holds_key_def)
qed

lemma dedup_step_time: "dedup_step w w' \<Longrightarrow> w_now w \<le> w_now w'"
proof (induction rule: dedup_step.induct)
  case (claim w t sid k e window r w')
  then show ?case using steady_exec steadyD unfolding ClaimDedupeKey_def by fastforce
next
  case (cleanup w t r w')
  have "steady CleanupWorker_Work"
    unfolding CleanupWorker_Work_def DeleteExpiredDedupEntries_def by (intro keeps_intros)
  with cleanup show ?case using steadyD by fastforce
qed simp

lemma dedup_steps_invariant:
  assumes "dedup_steps w w'" "dedup_pk (w_db w)" "holds_key sid k e until (w_db w)" "w_now w' < until"
  shows "dedup_pk (w_db w') \<and> holds_key sid k e until (w_db w')"
  using assms
proof (induction rule: rtranclp_induct)
  case (step v w')
  then have "w_now v < until" using dedup_step_time by fastforce
  with step dedup_step_invariant show ?case by blast
qed simp

lemma claim_Inr_holds:
  assumes c: "ClaimDedupeKey sid k e window w = (Inr x, w')"
  shows "holds_key sid k e (w_now w + window * second) (w_db w')"
proof (cases "filter (dedup_row sid k) (db_dedup (w_db w))")
  case Nil
  with claim_Inr(2) [OF c] show ?thesis by (simp add: holds_key_def)
next
  case (Cons r rs)
  then have "r \<in> set (filter (dedup_row sid k) (db_dedup (w_db w)))" by simp
  with claim_Inr(3) [OF c Cons] show ?thesis by (auto simp: holds_key_def set_update_where)
qed

text \<open>
  C4. At most one event per key and window. Once an event has claimed its dedupe key, no later claim of
  the same key for the same source succeeds before the window has passed, whatever claims, cleanups and
  other statements run in between: it is refused with NoRows, the answer ProcessEvent takes for a
  duplicate, unless the statement itself fails.
\<close>

theorem dedupe_claim_exclusive:
  assumes "dedup_pk (w_db w)"
    and "ClaimDedupeKey sid k e window w = (Inr x, w1)"
    and "dedup_steps w1 w2" "w_now w2 < w_now w + window * second"
  shows "fst (ClaimDedupeKey sid k e' window' w2) \<in> {Inl NoRows, Inl Unavailable, Inl DataError, Inl ForeignKeyViolation}"
proof -
  have "dedup_pk (w_db w1)" using keepsD [OF keeps_dedup_pk_claim assms(1,2)] .
  then have inv: "dedup_pk (w_db w2)" "holds_key sid k e (w_now w + window * second) (w_db w2)"
    using dedup_steps_invariant [OF assms(3)] claim_Inr_holds [OF assms(2)] assms(4) by blast+
  then have "filter (dedup_row sid k) (db_dedup (w_db w2)) =
      [\<lparr>dd_source = sid, dd_key = k, dd_event = e, dd_expires_at = w_now w + window * second\<rparr>]"
    by (intro filter_dedup_row) (auto simp: holds_key_def dedup_row_def)
  with assms(4) show ?thesis
    by (simp add: ClaimDedupeKey_def exec_def Let_def split: if_split)
qed

text \<open>The example world after event 3 has claimed the key, an hour and a cleanup later, and the claim then.\<close>

definition claimed_example :: world where
  "claimed_example = snd (ClaimDedupeKey 7 ''k'' 3 7200 world_example)"

lemma claimed_example_eq: "ClaimDedupeKey 7 ''k'' 3 7200 world_example = (Inr 3, claimed_example)"
  by (simp add: claimed_example_def ClaimDedupeKey_def exec_def example_defs)

theorem dedupe_claim_exclusive_witness:
  "fst (ClaimDedupeKey 7 ''k'' 3 7200 (claimed_example\<lparr>w_now := 3600 * second\<rparr>)) \<in>
     {Inl NoRows, Inl Unavailable, Inl DataError, Inl ForeignKeyViolation}"
  by (rule dedupe_claim_exclusive [OF _ claimed_example_eq])
    (auto simp: dedup_pk_def example_defs second_def claimed_example_def ClaimDedupeKey_def exec_def tick_def
      intro!: r_into_rtranclp dedup_step.other)

lemma filter_dedup_live:
  "filter (dedup_row sid k) (filter (\<lambda>r. \<not> dd_expires_at r \<le> now) xs) =
     filter (\<lambda>r. \<not> dd_expires_at r \<le> now) (filter (dedup_row sid k) xs)"
  by (simp add: conj_commute)

text \<open>
  C11. Cleanup is only housekeeping: running the cleanup job just before a claim never changes what the
  claim answers, compared with the same claim on the table the job did not touch. Correctness of
  deduplication does not depend on when, or whether, the job runs.
\<close>

theorem cleanup_transparent:
  assumes "dedup_pk (w_db w)" and "CleanupWorker_Work w = (r, w1)"
  shows "fst (ClaimDedupeKey sid k e window w1) = fst (ClaimDedupeKey sid k e window (w1\<lparr>w_db := w_db w\<rparr>))"
proof -
  have now: "w_now w1 = w_now w"
    and d: "w_db w1 = w_db w \<or> w_db w1 = (w_db w)\<lparr>db_dedup := filter (\<lambda>r. \<not> dd_expires_at r \<le> w_now w) (db_dedup (w_db w))\<rparr>"
    using assms(2)
    by (auto simp: CleanupWorker_Work_def bind_def ret_def DeleteExpiredDedupEntries_def exec_def Let_def
        split: if_splits prod.splits sum.splits)
  show ?thesis
  proof (cases "w_db w1 = w_db w")
    case True
    then show ?thesis by (metis (full_types) world.surjective world.update_convs(2))
  next
    case False
    with d have d: "w_db w1 = (w_db w)\<lparr>db_dedup := filter (\<lambda>r. \<not> dd_expires_at r \<le> w_now w) (db_dedup (w_db w))\<rparr>"
      by blast
    have rows: "filter (dedup_row sid k) (db_dedup (w_db w1)) =
      filter (\<lambda>r. \<not> dd_expires_at r \<le> w_now w) (filter (dedup_row sid k) (db_dedup (w_db w)))"
      by (simp add: d filter_dedup_live del: filter_filter)
    have one: "filter (dedup_row sid k) (db_dedup (w_db w)) = [] \<or> (\<exists>r. filter (dedup_row sid k) (db_dedup (w_db w)) = [r])"
    proof (cases "filter (dedup_row sid k) (db_dedup (w_db w))")
      case (Cons r rs)
      then have "r \<in> set (filter (dedup_row sid k) (db_dedup (w_db w)))" by simp
      then show ?thesis using filter_dedup_row [OF assms(1), of r sid k] by simp
    qed simp
    have tabs: "db_sources (w_db w1) = db_sources (w_db w)" "db_events (w_db w1) = db_events (w_db w)"
      by (simp_all add: d)
    from one show ?thesis
    proof
      assume "filter (dedup_row sid k) (db_dedup (w_db w)) = []"
      then show ?thesis using rows by (simp add: ClaimDedupeKey_def exec_def Let_def tabs del: filter_filter)
    next
      assume "\<exists>r. filter (dedup_row sid k) (db_dedup (w_db w)) = [r]"
      then obtain r where "filter (dedup_row sid k) (db_dedup (w_db w)) = [r]" by blast
      then show ?thesis using rows now
        by (cases "dd_expires_at r \<le> w_now w")
          (simp_all add: ClaimDedupeKey_def exec_def Let_def tabs del: filter_filter)
    qed
  qed
qed

theorem cleanup_transparent_witness:
  "fst (ClaimDedupeKey 7 ''k'' 3 60 (snd (CleanupWorker_Work claimed_example))) =
   fst (ClaimDedupeKey 7 ''k'' 3 60 ((snd (CleanupWorker_Work claimed_example))\<lparr>w_db := w_db claimed_example\<rparr>))"
  by (rule cleanup_transparent [of _ "fst (CleanupWorker_Work claimed_example)"])
    (simp_all add: dedup_pk_def claimed_example_def ClaimDedupeKey_def exec_def example_defs tick_def)

end
