(* ===== verification/Ingest.thy ===== *)
theory Ingest
  imports Sourcedef Secrets Rules Dedupe Queue Buckets
begin

text \<open>
  The ingest endpoint (\<^verbatim>\<open>internal/ingest/handler.go\<close>, \<^verbatim>\<open>rate_limit.go\<close>): look the source up, apply its
  rate limit, read the body under the size cap, and run the transactional core \<^verbatim>\<open>ProcessEvent\<close>, which
  verifies, stores, deduplicates, applies the rules and fans out. The answer 200 is given only after
  the commit.
\<close>

subsection \<open>The handler\<close>

record Handler =
  h_enc :: Encryptor
  h_catalog :: catalog
  h_cel :: cel
  h_maxBodyBytes :: int
  h_limiter :: rateLimiter

text \<open>
  A request: the path value, the headers, the bytes the client sends, and whether the connection fails
  before the end of the body.
\<close>

record http_request =
  rq_path :: string
  rq_header :: header
  rq_body :: bytes
  rq_broken :: bool

datatype read_result = TooLarge | ReadFailed | Body bytes

text \<open>\<^verbatim>\<open>io.ReadAll(http.MaxBytesReader(w, r.Body, maxBytes))\<close>\<close>

definition readBody :: "http_request \<Rightarrow> int \<Rightarrow> read_result" where
  "readBody r maxBytes =
     (if int (length (rq_body r)) > max 0 maxBytes then TooLarge
      else if rq_broken r then ReadFailed
      else Body (rq_body r))"

definition verify :: "Handler \<Rightarrow> time \<Rightarrow> source \<Rightarrow> bytes \<Rightarrow> header \<Rightarrow> bool" where
  "verify h now s body headers =
     (case h_catalog h (src_provider_type s) of
        None \<Rightarrow> True
      | Some def \<Rightarrow>
          (let secret = (case src_signing_secret s of
                           None \<Rightarrow> Some []
                         | Some c \<Rightarrow> if c = [] then Some [] else Decrypt (h_enc h) c)
           in case secret of None \<Rightarrow> False
              | Some sec \<Rightarrow>
                  (case Verify now def body headers sec of None \<Rightarrow> False | Some v \<Rightarrow> v)))"

text \<open>A JSON \<^verbatim>\<open>null\<close> decodes to nil; headers that are no object leave the map nil.\<close>

definition ruleInput :: "bytes option \<Rightarrow> bytes \<Rightarrow> source \<Rightarrow> rule_input" where
  "ruleInput parsedBody rawHeaders s =
     \<lparr>in_Body = (case parsedBody of None \<Rightarrow> None
        | Some b \<Rightarrow> (case json_Unmarshal b of Some JNull \<Rightarrow> None | v \<Rightarrow> v)),
      in_Headers = (case json_Unmarshal rawHeaders of Some (JObject ms) \<Rightarrow> Some (JObject ms) | _ \<Rightarrow> None),
      in_Source = Some (JObject [(''name'', JString (src_name s)),
                                 (''provider_type'', JString (src_provider_type s))])\<rparr>"

text \<open>The columns the event is inserted with.\<close>

definition event_params :: "Handler \<Rightarrow> time \<Rightarrow> source \<Rightarrow> bytes \<Rightarrow> header \<Rightarrow> insert_event_params" where
  "event_params h now s body headers =
     (let contentType = header_Get headers ''Content-Type'';
          parsedBody = (if json_Valid body then Some body else None)
      in \<lparr>ie_tenant = src_tenant s, ie_source = src_id s, ie_raw_headers = marshal_header headers,
          ie_raw_body = body, ie_content_type = (if contentType \<noteq> '''' then Some contentType else None),
          ie_parsed_body = parsedBody, ie_dedupe_key = dedupeKey s body parsedBody,
          ie_verified = verify h now s body headers\<rparr>)"

text \<open>Claiming the key: \<open>True\<close> when the event is a duplicate and has been marked as one.\<close>

definition dedupe_window :: "source \<Rightarrow> int" where
  "dedupe_window s = (if src_dedupe_window s \<le> 0 then defaultDedupeWindowSeconds else src_dedupe_window s)"

definition claim_key :: "source \<Rightarrow> uuid \<Rightarrow> string option \<Rightarrow> bool dbm" where
  "claim_key s eid key =
     (case key of
        None \<Rightarrow> ret False
      | Some k \<Rightarrow> (\<lambda>w.
          case ClaimDedupeKey (src_id s) k eid (dedupe_window s) w of
            (Inl NoRows, w1) \<Rightarrow> bind (MarkEventDropped eid droppedReasonDuplicate) (\<lambda>_. ret True) w1
          | (Inl e, w1) \<Rightarrow> (Inl e, w1)
          | (Inr _, w1) \<Rightarrow> (Inr False, w1)))"

text \<open>Acting on the decision of the rules.\<close>

definition apply_decision :: "source \<Rightarrow> uuid \<Rightarrow> Decision \<Rightarrow> unit dbm" where
  "apply_decision s eid decision =
     (if dc_Action decision = ActionDrop then MarkEventDropped eid (dc_RuleName decision)
      else if dc_Action decision = ActionRoute then
        bind (ListDeliveryTargetsByDestinationIDs (dc_RouteDestinationIDs decision) (src_tenant s)) (\<lambda>targets.
        bind (EnqueueDeliveriesTo (src_tenant s) eid targets) (\<lambda>_. ret ()))
      else bind (EnqueueDeliveries (src_tenant s) (src_id s) eid) (\<lambda>_. ret ()))"

text \<open>The body of the transaction, for the columns derived before it begins.\<close>

definition process_tx :: "Handler \<Rightarrow> source \<Rightarrow> insert_event_params \<Rightarrow> (insert_event_row \<times> bool) dbm" where
  "process_tx h s p =
     bind (InsertEvent p) (\<lambda>event.
       bind (claim_key s (ier_id event) (ie_dedupe_key p)) (\<lambda>duplicate.
         if duplicate then ret (event, ie_verified p)
         else bind (ListEnabledRulesForSource (src_id s)) (\<lambda>rules.
           bind (apply_decision s (ier_id event)
                  (Evaluate (h_cel h) rules (ruleInput (ie_parsed_body p) (ie_raw_headers p) s))) (\<lambda>_.
             ret (event, ie_verified p)))))"

definition ProcessEvent :: "Handler \<Rightarrow> source \<Rightarrow> bytes \<Rightarrow> header \<Rightarrow> (insert_event_row \<times> bool) dbm" where
  "ProcessEvent h s body headers =
     (\<lambda>w. inTx (process_tx h s (event_params h (w_now w) s body headers)) w)"

record response =
  rs_status :: nat
  rs_error :: "string option"

definition received :: response where
  "received = \<lparr>rs_status = 200, rs_error = None\<rparr>"

definition refuse :: "nat \<Rightarrow> string \<Rightarrow> response" where
  "refuse status message = \<lparr>rs_status = status, rs_error = Some message\<rparr>"

definition ingest :: "Handler \<Rightarrow> http_request \<Rightarrow> world \<Rightarrow> response \<times> Handler \<times> world" where
  "ingest h r w =
     (case GetSourceByEndpointPath (rq_path r) w of
        (Inl NoRows, w1) \<Rightarrow> (refuse 404 ''unknown source'', h, w1)
      | (Inl e, w1) \<Rightarrow> (refuse 500 ''internal error'', h, w1)
      | (Inr s, w1) \<Rightarrow>
          (let (ok, limiter) = rateLimiter_allow (src_endpoint_path s) (w_now w1) (w_now w1) (h_limiter h);
               h1 = h\<lparr>h_limiter := limiter\<rparr>
           in if \<not> ok then (refuse 429 ''rate limit exceeded'', h1, w1)
              else (case readBody r (h_maxBodyBytes h) of
                      TooLarge \<Rightarrow> (refuse 413 ''request body too large'', h1, w1)
                    | ReadFailed \<Rightarrow> (refuse 400 ''failed to read request body'', h1, w1)
                    | Body body \<Rightarrow>
                        (case ProcessEvent h1 s body (rq_header r) w1 of
                           (Inl e, w2) \<Rightarrow> (refuse 500 ''internal error'', h1, w2)
                         | (Inr _, w2) \<Rightarrow> (received, h1, w2)))))"

subsection \<open>What each step of ProcessEvent does\<close>

text \<open>The stored row of a webhook, before any decision about it.\<close>

definition stored_as :: "postgres \<Rightarrow> Handler \<Rightarrow> time \<Rightarrow> source \<Rightarrow> bytes \<Rightarrow> header \<Rightarrow> event \<Rightarrow> bool" where
  "stored_as pg h now s body headers e \<longleftrightarrow>
     ev_tenant e = src_tenant s \<and> ev_source e = src_id s \<and> ev_raw_body e = body \<and>
     pg_jsonb pg (marshal_header headers) = Some (ev_raw_headers e) \<and>
     ev_content_type e = (if header_Get headers ''Content-Type'' = '''' then None
                          else Some (header_Get headers ''Content-Type'')) \<and>
     ev_parsed_body e = (if json_Valid body then pg_jsonb pg body else None) \<and>
     ev_dedupe_key e = dedupeKey s body (if json_Valid body then Some body else None) \<and>
     ev_verified e = verify h now s body headers \<and> ev_received_at e = now"

text \<open>A row that holds the key and has not expired: the event would be a duplicate.\<close>

definition live_key :: "database \<Rightarrow> uuid \<Rightarrow> string \<Rightarrow> time \<Rightarrow> bool" where
  "live_key d sid k now \<longleftrightarrow> list_ex (\<lambda>r. dedup_row sid k r \<and> now < dd_expires_at r) (db_dedup d)"

lemma InsertEvent_Inr:
  assumes "InsertEvent (event_params h (w_now w) s body headers) w = (Inr row, w')"
  shows "\<exists>e. stored_as (w_pg w) h (w_now w) s body headers e \<and> ev_dropped_reason e = None \<and>
    ev_id e = ier_id row \<and> ev_id e \<notin> ev_id ` set (db_events (w_db w)) \<and>
    w_db w' = (w_db w)\<lparr>db_events := db_events (w_db w) @ [e]\<rparr> \<and> w_now w' = w_now w \<and> w_pg w' = w_pg w"
  by (rule exI [of _ "last (db_events (w_db w'))"])
    (use assms in \<open>auto simp: InsertEvent_def event_params_def exec_Inr Let_def stored_as_def jsonb_opt_def
      split: option.splits if_splits\<close>)

lemma MarkEventDropped_Inr:
  assumes "MarkEventDropped eid reason w = (Inr u, w')"
    and "db_events (w_db w) = es @ [e]" "ev_id e = eid" "eid \<notin> ev_id ` set es"
  shows "w_db w' = (w_db w)\<lparr>db_events := es @ [e\<lparr>ev_dropped_reason := Some reason\<rparr>]\<rparr>"
proof -
  have "\<forall>x \<in> set es. ev_id x \<noteq> eid" using assms(4) by auto
  with assms show ?thesis
    by (auto simp: MarkEventDropped_def exec_Inr update_where_fresh split: if_splits)
qed

lemma claim_refused:
  assumes "ClaimDedupeKey sid k eid window w = (Inl NoRows, w')"
  shows "live_key (w_db w) sid k (w_now w)"
proof -
  have "\<exists>r rs. filter (dedup_row sid k) (db_dedup (w_db w)) = r # rs \<and> w_now w < dd_expires_at r"
    using assms by (auto simp: ClaimDedupeKey_def exec_def Let_def split: if_splits list.splits)
  then obtain r rs where r: "filter (dedup_row sid k) (db_dedup (w_db w)) = r # rs" "w_now w < dd_expires_at r"
    by blast
  then have "r \<in> set (filter (dedup_row sid k) (db_dedup (w_db w)))" by simp
  with r(2) show ?thesis by (auto simp: live_key_def list_ex_iff)
qed

lemma claim_granted:
  assumes "ClaimDedupeKey sid k eid window w = (Inr x, w')" "dedup_pk (w_db w)"
  shows "\<not> live_key (w_db w) sid k (w_now w)"
proof
  assume "live_key (w_db w) sid k (w_now w)"
  then obtain r where r: "r \<in> set (db_dedup (w_db w))" "dedup_row sid k r" "w_now w < dd_expires_at r"
    by (auto simp: live_key_def list_ex_iff)
  then have "filter (dedup_row sid k) (db_dedup (w_db w)) = [r]"
    using assms(2) filter_dedup_row by blast
  with claim_Inr(3) [OF assms(1), of r "[]"] r(3) show False by simp
qed

lemma claim_db:
  assumes "ClaimDedupeKey sid k eid window w = (r, w')"
  shows "\<exists>rows. w_db w' = (w_db w)\<lparr>db_dedup := rows\<rparr>"
proof (cases r)
  case (Inl e)
  then have "w_db w' = (w_db w)\<lparr>db_dedup := db_dedup (w_db w)\<rparr>" using assms claim_Inl_db by fastforce
  then show ?thesis by blast
next
  case (Inr x)
  with assms show ?thesis
    by (auto simp: ClaimDedupeKey_def exec_Inr Let_def split: if_splits list.splits)
qed

lemma claim_steady: "steady (ClaimDedupeKey sid k eid window)" "steady (MarkEventDropped eid reason)"
  unfolding ClaimDedupeKey_def MarkEventDropped_def by (rule steady_exec)+

lemma claim_key_Inr:
  assumes c: "claim_key s eid key w = (Inr dup, w')" and pk: "dedup_pk (w_db w)"
    and e: "db_events (w_db w) = es @ [e]" "ev_id e = eid" "eid \<notin> ev_id ` set es"
  shows "dup \<longleftrightarrow> (\<exists>k. key = Some k \<and> live_key (w_db w) (src_id s) k (w_now w))"
    and "dup \<Longrightarrow> w_db w' = (w_db w)\<lparr>db_events := es @ [e\<lparr>ev_dropped_reason := Some ''duplicate''\<rparr>]\<rparr>"
    and "\<not> dup \<Longrightarrow> \<exists>rows. w_db w' = (w_db w)\<lparr>db_dedup := rows\<rparr>"
    and "w_pg w' = w_pg w \<and> w_now w' = w_now w"
proof -
  consider (none) "key = None" "\<not> dup" "w' = w"
    | (dup) k w1 where "key = Some k" "ClaimDedupeKey (src_id s) k eid (dedupe_window s) w = (Inl NoRows, w1)"
        "MarkEventDropped eid ''duplicate'' w1 = (Inr (), w')" "dup"
    | (new) k x where "key = Some k" "ClaimDedupeKey (src_id s) k eid (dedupe_window s) w = (Inr x, w')" "\<not> dup"
    using c by (auto simp: claim_key_def ret_def bind_Inr droppedReasonDuplicate_def
        split: option.splits prod.splits sum.splits db_error.splits)
  then have "(dup \<longleftrightarrow> (\<exists>k. key = Some k \<and> live_key (w_db w) (src_id s) k (w_now w))) \<and>
    (dup \<longrightarrow> w_db w' = (w_db w)\<lparr>db_events := es @ [e\<lparr>ev_dropped_reason := Some ''duplicate''\<rparr>]\<rparr>) \<and>
    (\<not> dup \<longrightarrow> (\<exists>rows. w_db w' = (w_db w)\<lparr>db_dedup := rows\<rparr>)) \<and> w_pg w' = w_pg w \<and> w_now w' = w_now w"
  proof cases
    case none
    have "w_db w = (w_db w)\<lparr>db_dedup := db_dedup (w_db w)\<rparr>" by simp
    with none show ?thesis by blast
  next
    case dup
    have "w_db w1 = w_db w" using claim_Inl_db [OF dup(2)] .
    moreover have "w_pg w1 = w_pg w \<and> w_now w1 = w_now w" "w_pg w' = w_pg w1 \<and> w_now w' = w_now w1"
      using steadyD claim_steady dup(2,3) by blast+
    ultimately show ?thesis
      using dup claim_refused [OF dup(2)] MarkEventDropped_Inr [OF dup(3)] e by simp
  next
    case new
    show ?thesis
      using new claim_granted [OF new(2) pk] claim_db [OF new(2)] steadyD [OF claim_steady(1) new(2)] by simp
  qed
  then show "dup \<longleftrightarrow> (\<exists>k. key = Some k \<and> live_key (w_db w) (src_id s) k (w_now w))"
    and "dup \<Longrightarrow> w_db w' = (w_db w)\<lparr>db_events := es @ [e\<lparr>ev_dropped_reason := Some ''duplicate''\<rparr>]\<rparr>"
    and "\<not> dup \<Longrightarrow> \<exists>rows. w_db w' = (w_db w)\<lparr>db_dedup := rows\<rparr>"
    and "w_pg w' = w_pg w \<and> w_now w' = w_now w" by blast+
qed

subsection \<open>The specification of ProcessEvent\<close>

text \<open>
  What should become of a webhook, as a function of the database it meets: it is a duplicate, or a
  rule drops it, or it goes to a list of targets (those of a routing rule, else the enabled routes).
\<close>

datatype verdict = Duplicate | Dropped string | Deliver "delivery_target list"

definition parsed :: "bytes \<Rightarrow> bytes option" where
  "parsed body = (if json_Valid body then Some body else None)"

definition rule_decision :: "Handler \<Rightarrow> database \<Rightarrow> source \<Rightarrow> bytes \<Rightarrow> header \<Rightarrow> Decision" where
  "rule_decision h d s body headers =
     Evaluate (h_cel h) (enabled_rules d (src_id s)) (ruleInput (parsed body) (marshal_header headers) s)"

definition is_duplicate :: "database \<Rightarrow> time \<Rightarrow> source \<Rightarrow> bytes \<Rightarrow> bool" where
  "is_duplicate d now s body =
     (case dedupeKey s body (parsed body) of None \<Rightarrow> False | Some k \<Rightarrow> live_key d (src_id s) k now)"

definition webhook_verdict :: "Handler \<Rightarrow> database \<Rightarrow> time \<Rightarrow> source \<Rightarrow> bytes \<Rightarrow> header \<Rightarrow> verdict" where
  "webhook_verdict h d now s body headers =
     (let dec = rule_decision h d s body headers in
      if is_duplicate d now s body then Duplicate
      else if dc_Action dec = ActionDrop then Dropped (dc_RuleName dec)
      else if dc_Action dec = ActionRoute
        then Deliver (targets_by_ids d (dc_RouteDestinationIDs dec) (src_tenant s))
      else Deliver (enabled_targets d (src_id s)))"

fun verdict_reason :: "verdict \<Rightarrow> string option" where
  "verdict_reason Duplicate = Some ''duplicate''"
| "verdict_reason (Dropped r) = Some r"
| "verdict_reason (Deliver ts) = None"

fun verdict_targets :: "verdict \<Rightarrow> delivery_target list" where
  "verdict_targets (Deliver ts) = ts"
| "verdict_targets _ = []"

text \<open>
  The database after a webhook was processed: one event row is added, with the reason it was dropped
  for, if any; exactly the verdict's targets get a delivery and a job; only the dedupe index may change
  besides.
\<close>

definition processed :: "postgres \<Rightarrow> Handler \<Rightarrow> time \<Rightarrow> source \<Rightarrow> bytes \<Rightarrow> header \<Rightarrow> database \<Rightarrow> event \<Rightarrow> database \<Rightarrow> bool" where
  "processed pg h now s body headers d e d' \<longleftrightarrow>
     stored_as pg h now s body headers e \<and> ev_id e \<notin> ev_id ` set (db_events d) \<and>
     ev_dropped_reason e = verdict_reason (webhook_verdict h d now s body headers) \<and>
     (\<exists>rows. fanned_out (src_tenant s) (ev_id e) (verdict_targets (webhook_verdict h d now s body headers))
        (d\<lparr>db_events := db_events d @ [e], db_dedup := rows\<rparr>) d')"

lemma fanned_out_nil: "fanned_out tenant eid [] d d' \<longleftrightarrow> d' = d"
  by (auto simp: fanned_out_def)

lemma apply_decision_Inr:
  assumes a: "apply_decision s eid dec w = (Inr u, w')"
    and e: "db_events (w_db w) = es @ [e]" "ev_id e = eid" "eid \<notin> ev_id ` set es"
  shows "dc_Action dec = ActionDrop \<Longrightarrow>
      w_db w' = (w_db w)\<lparr>db_events := es @ [e\<lparr>ev_dropped_reason := Some (dc_RuleName dec)\<rparr>]\<rparr>"
    and "dc_Action dec \<noteq> ActionDrop \<Longrightarrow> dc_Action dec = ActionRoute \<Longrightarrow>
      fanned_out (src_tenant s) eid (targets_by_ids (w_db w) (dc_RouteDestinationIDs dec) (src_tenant s)) (w_db w) (w_db w')"
    and "dc_Action dec \<noteq> ActionDrop \<Longrightarrow> dc_Action dec \<noteq> ActionRoute \<Longrightarrow>
      fanned_out (src_tenant s) eid (enabled_targets (w_db w) (src_id s)) (w_db w) (w_db w')"
proof -
  assume "dc_Action dec = ActionDrop"
  then show "w_db w' = (w_db w)\<lparr>db_events := es @ [e\<lparr>ev_dropped_reason := Some (dc_RuleName dec)\<rparr>]\<rparr>"
    using a MarkEventDropped_Inr [OF _ e] by (simp add: apply_decision_def)
next
  assume "dc_Action dec \<noteq> ActionDrop" "dc_Action dec = ActionRoute"
  then obtain n w1 where "EnqueueDeliveriesTo (src_tenant s) eid
      (targets_by_ids (w_db w) (dc_RouteDestinationIDs dec) (src_tenant s)) w1 = (Inr n, w')" "w_db w1 = w_db w"
    using a by (auto simp: apply_decision_def bind_Inr ListDeliveryTargetsByDestinationIDs_def query_Inr ret_def)
  then show "fanned_out (src_tenant s) eid
      (targets_by_ids (w_db w) (dc_RouteDestinationIDs dec) (src_tenant s)) (w_db w) (w_db w')"
    using EnqueueDeliveriesTo_Inr by fastforce
next
  assume "dc_Action dec \<noteq> ActionDrop" "dc_Action dec \<noteq> ActionRoute"
  then show "fanned_out (src_tenant s) eid (enabled_targets (w_db w) (src_id s)) (w_db w) (w_db w')"
    using a EnqueueDeliveries_Inr by (auto simp: apply_decision_def bind_Inr ret_def)
qed

text \<open>A successful run, taken apart into its statements.\<close>

lemma ProcessEvent_steps:
  assumes "ProcessEvent h s body headers w = (Inr (row, v), w')"
  defines "p \<equiv> event_params h (w_now w) s body headers"
  obtains w1 dup w2 where "InsertEvent p (tick w) = (Inr row, w1)"
    "claim_key s (ier_id row) (ie_dedupe_key p) w1 = (Inr dup, w2)" "v = ie_verified p"
    "dup \<Longrightarrow> w_db w' = w_db w2"
    "\<not> dup \<Longrightarrow> \<exists>w3 w4. w_db w3 = w_db w2 \<and> w_db w' = w_db w4 \<and>
        apply_decision s (ier_id row) (Evaluate (h_cel h) (enabled_rules (w_db w2) (src_id s))
          (ruleInput (ie_parsed_body p) (ie_raw_headers p) s)) w3 = (Inr (), w4)"
proof -
  obtain w5 row' w1 where 1: "InsertEvent p (tick w) = (Inr row', w1)" "w' = tick w5"
    and rest: "bind (claim_key s (ier_id row') (ie_dedupe_key p)) (\<lambda>duplicate.
         if duplicate then ret (row', ie_verified p)
         else bind (ListEnabledRulesForSource (src_id s)) (\<lambda>rules.
           bind (apply_decision s (ier_id row')
                  (Evaluate (h_cel h) rules (ruleInput (ie_parsed_body p) (ie_raw_headers p) s))) (\<lambda>_.
             ret (row', ie_verified p)))) w1 = (Inr (row, v), w5)"
    using assms(1) unfolding ProcessEvent_def process_tx_def p_def inTx_Inr bind_Inr [of "InsertEvent _"] by blast
  obtain dup w2 where 2: "claim_key s (ier_id row') (ie_dedupe_key p) w1 = (Inr dup, w2)"
    and rest2: "(if dup then ret (row', ie_verified p)
         else bind (ListEnabledRulesForSource (src_id s)) (\<lambda>rules.
           bind (apply_decision s (ier_id row')
                  (Evaluate (h_cel h) rules (ruleInput (ie_parsed_body p) (ie_raw_headers p) s))) (\<lambda>_.
             ret (row', ie_verified p)))) w2 = (Inr (row, v), w5)"
    using rest unfolding bind_Inr [of "claim_key _ _ _"] by blast
  show thesis
  proof (cases dup)
    case True
    with rest2 have "row' = row" "v = ie_verified p" "w5 = w2" by (simp_all add: ret_def)
    with 1 2 True show ?thesis by (intro that [of w1 dup w2]) simp_all
  next
    case False
    then obtain w3 w4 where "apply_decision s (ier_id row') (Evaluate (h_cel h) (enabled_rules (w_db w2) (src_id s))
          (ruleInput (ie_parsed_body p) (ie_raw_headers p) s)) w3 = (Inr (), w4)" "w_db w3 = w_db w2"
       "row' = row" "v = ie_verified p" "w5 = w4"
      using rest2 by (auto simp: bind_Inr ListEnabledRulesForSource_def query_Inr ret_def)
    with 1 2 False show ?thesis by (intro that [of w1 dup w2]) auto
  qed
qed

lemma ProcessEvent_processed:
  assumes run: "ProcessEvent h s body headers w = (Inr (row, v), w')" and pk: "dedup_pk (w_db w)"
  shows "\<exists>e. processed (w_pg w) h (w_now w) s body headers (w_db w) e (w_db w') \<and>
    ev_id e = ier_id row \<and> v = ev_verified e"
proof -
  let ?p = "event_params h (w_now w) s body headers"
  let ?d = "w_db w" and ?now = "w_now w" and ?dec = "rule_decision h (w_db w) s body headers"
  have p: "ie_dedupe_key ?p = dedupeKey s body (parsed body)" "ie_parsed_body ?p = parsed body"
    "ie_raw_headers ?p = marshal_header headers" "ie_verified ?p = verify h ?now s body headers"
    by (simp_all add: event_params_def Let_def parsed_def)
  obtain w1 dup w2 where 1: "InsertEvent (event_params h (w_now (tick w)) s body headers) (tick w) = (Inr row, w1)"
    and 2: "claim_key s (ier_id row) (ie_dedupe_key ?p) w1 = (Inr dup, w2)"
    and v: "v = ie_verified ?p" and d3: "dup \<Longrightarrow> w_db w' = w_db w2"
    and n3: "\<not> dup \<Longrightarrow> \<exists>w3 w4. w_db w3 = w_db w2 \<and> w_db w' = w_db w4 \<and>
        apply_decision s (ier_id row) (Evaluate (h_cel h) (enabled_rules (w_db w2) (src_id s))
          (ruleInput (ie_parsed_body ?p) (ie_raw_headers ?p) s)) w3 = (Inr (), w4)"
    using ProcessEvent_steps [OF run] unfolding tick_simps by metis
  obtain e where e: "stored_as (w_pg w) h ?now s body headers e" "ev_dropped_reason e = None"
    "ev_id e = ier_id row" "ev_id e \<notin> ev_id ` set (db_events ?d)"
    "w_db w1 = ?d\<lparr>db_events := db_events ?d @ [e]\<rparr>" "w_now w1 = ?now"
    using InsertEvent_Inr [OF 1] by auto
  have new: "db_events (w_db w1) = db_events ?d @ [e]" "ev_id e = ier_id row" "ier_id row \<notin> ev_id ` set (db_events ?d)"
    using e by simp_all
  have pk1: "dedup_pk (w_db w1)" using pk e(5) by (simp add: dedup_pk_def)
  note c = claim_key_Inr [OF 2 pk1 new]
  have dup: "dup \<longleftrightarrow> is_duplicate ?d ?now s body"
    unfolding c(1) p(1) by (auto simp: is_duplicate_def live_key_def e(5,6) split: option.splits)
  have stored: "stored_as (w_pg w) h ?now s body headers (e\<lparr>ev_dropped_reason := r\<rparr>)" for r
    using e(1) by (simp add: stored_as_def)
  have vv: "v = ev_verified e" using e(1) v p(4) by (simp add: stored_as_def)
  show ?thesis
  proof (cases dup)
    case True
    let ?e = "e\<lparr>ev_dropped_reason := Some ''duplicate''\<rparr>"
    have "w_db w' = ?d\<lparr>db_events := db_events ?d @ [?e], db_dedup := db_dedup ?d\<rparr>"
      using d3 True c(2) e(5) by simp
    then have "processed (w_pg w) h ?now s body headers ?d ?e (w_db w')"
      using True dup stored e(4) unfolding processed_def
      by (intro conjI exI [of _ "db_dedup ?d"]) (auto simp: webhook_verdict_def Let_def fanned_out_nil)
    then show ?thesis using e(3) vv by (intro exI [of _ ?e]) simp
  next
    case False
    obtain rows where w2: "w_db w2 = ?d\<lparr>db_events := db_events ?d @ [e], db_dedup := rows\<rparr>"
      using c(3) [OF False] e(5) by auto
    obtain w3 w4 where a: "w_db w3 = w_db w2" "w_db w' = w_db w4" "apply_decision s (ier_id row) ?dec w3 = (Inr (), w4)"
      using n3 [OF False] by (auto simp: rule_decision_def enabled_rules_def p w2)
    have new3: "db_events (w_db w3) = db_events ?d @ [e]" using a(1) w2 by simp
    note ad = apply_decision_Inr [OF a(3) new3 new(2,3)]
    have tabs: "targets_by_ids (w_db w3) ids t = targets_by_ids ?d ids t" "enabled_targets (w_db w3) sid = enabled_targets ?d sid"
      for ids t sid by (simp_all add: a(1) w2 targets_by_ids_def enabled_targets_def)
    let ?r = "if dc_Action ?dec = ActionDrop then Some (dc_RuleName ?dec) else None"
    have "processed (w_pg w) h ?now s body headers ?d (e\<lparr>ev_dropped_reason := ?r\<rparr>) (w_db w')"
    proof (cases "dc_Action ?dec = ActionDrop")
      case True
      then show ?thesis using False dup stored e(4) ad(1) a(1,2) w2 unfolding processed_def
        by (intro conjI exI [of _ rows]) (simp_all add: webhook_verdict_def Let_def fanned_out_nil)
    next
      case nodrop: False
      then have r: "?r = None" by simp
      have same: "e\<lparr>ev_dropped_reason := None\<rparr> = e" using e(2) by simp
      show ?thesis unfolding r same processed_def
        using nodrop False dup e(1-4) ad(2,3) a(1,2) w2 tabs
        by (intro conjI exI [of _ rows]; cases "dc_Action ?dec = ActionRoute")
          (simp_all add: webhook_verdict_def Let_def)
    qed
    then show ?thesis using e(3) vv by (intro exI [of _ "e\<lparr>ev_dropped_reason := ?r\<rparr>"]) simp
  qed
qed

subsection \<open>What the sender's answer means\<close>

lemma processed_limiter:
  "processed pg (h\<lparr>h_limiter := l\<rparr>) now s body headers d e d' = processed pg h now s body headers d e d'"
proof -
  have "verify (h\<lparr>h_limiter := l\<rparr>) now s body headers = verify h now s body headers"
    unfolding verify_def Handler.select_convs Handler.update_convs
    by (cases "h_catalog h (src_provider_type s)"; cases "src_signing_secret s") simp_all
  then have "stored_as pg (h\<lparr>h_limiter := l\<rparr>) now s body headers e = stored_as pg h now s body headers e"
    unfolding stored_as_def by (simp only:)
  moreover have "webhook_verdict (h\<lparr>h_limiter := l\<rparr>) d now s body headers = webhook_verdict h d now s body headers"
    unfolding webhook_verdict_def rule_decision_def by simp
  ultimately show ?thesis unfolding processed_def by (simp only:)
qed

text \<open>The answers, one case per return of the handler.\<close>

lemma ingest_cases:
  assumes "ingest h r w = (resp, h', w')"
  obtains (lookup) "rs_status resp \<in> {404, 500}" "w_db w' = w_db w"
  | (limited) "rs_status resp \<in> {429, 413, 400}" "w_db w' = w_db w"
  | (failed) "rs_status resp = 500" "w_db w' = w_db w"
  | (stored) s w1 l row v where "resp = received" "s \<in> set (db_sources (w_db w))" "src_endpoint_path s = rq_path r"
      "int (length (rq_body r)) \<le> max 0 (h_maxBodyBytes h)" "\<not> rq_broken r" "w_db w1 = w_db w" "w_now w1 = w_now w"
      "w_pg w1 = w_pg w" "w_step w1 = Suc (w_step w)"
      "ProcessEvent (h\<lparr>h_limiter := l\<rparr>) s (rq_body r) (rq_header r) w1 = (Inr (row, v), w')"
proof -
  obtain rs w1 where g: "GetSourceByEndpointPath (rq_path r) w = (rs, w1)" by fastforce
  have db1: "w_db w1 = w_db w" using g by (auto simp: GetSourceByEndpointPath_def dest: text_query_db)
  have st: "w_pg w1 = w_pg w \<and> w_now w1 = w_now w"
    using g steadyD steady_text_query unfolding GetSourceByEndpointPath_def by blast
  show thesis
  proof (cases rs)
    case (Inl e)
    with assms g db1 show ?thesis
      by (intro lookup) (auto simp: ingest_def refuse_def split: db_error.splits)
  next
    case (Inr s)
    then have q: "\<not> pg_fault (w_pg w) (w_step w)" "w1 = tick w"
      "one_row (filter (\<lambda>s. src_endpoint_path s = rq_path r) (db_sources (w_db w))) = Inr s"
      using g by (auto simp: GetSourceByEndpointPath_def text_query_Inr)
    then have s: "s \<in> set (db_sources (w_db w))" "src_endpoint_path s = rq_path r" "w_step w1 = Suc (w_step w)"
      using one_row_Inr by fastforce+
    obtain ok l where a: "rateLimiter_allow (src_endpoint_path s) (w_now w1) (w_now w1) (h_limiter h) = (ok, l)"
      by fastforce
    have run: "(resp, h', w') = (if \<not> ok then (refuse 429 ''rate limit exceeded'', h\<lparr>h_limiter := l\<rparr>, w1)
              else (case readBody r (h_maxBodyBytes h) of
                      TooLarge \<Rightarrow> (refuse 413 ''request body too large'', h\<lparr>h_limiter := l\<rparr>, w1)
                    | ReadFailed \<Rightarrow> (refuse 400 ''failed to read request body'', h\<lparr>h_limiter := l\<rparr>, w1)
                    | Body body \<Rightarrow>
                        (case ProcessEvent (h\<lparr>h_limiter := l\<rparr>) s body (rq_header r) w1 of
                           (Inl e, w2) \<Rightarrow> (refuse 500 ''internal error'', h\<lparr>h_limiter := l\<rparr>, w2)
                         | (Inr _, w2) \<Rightarrow> (received, h\<lparr>h_limiter := l\<rparr>, w2))))"
      using assms g Inr a by (simp add: ingest_def Let_def)
    show ?thesis
    proof (cases "ok \<and> (\<exists>b. readBody r (h_maxBodyBytes h) = Body b)")
      case False
      with run db1 show ?thesis by (intro limited) (auto simp: refuse_def split: if_splits read_result.splits)
    next
      case True
      then have b: "readBody r (h_maxBodyBytes h) = Body (rq_body r)"
        and len: "int (length (rq_body r)) \<le> max 0 (h_maxBodyBytes h)" "\<not> rq_broken r"
        by (auto simp: readBody_def split: if_splits)
      obtain res w2 where p: "ProcessEvent (h\<lparr>h_limiter := l\<rparr>) s (rq_body r) (rq_header r) w1 = (res, w2)" by fastforce
      show ?thesis
      proof (cases res)
        case (Inl e)
        have "w_db w2 = w_db w1" using p Inl inTx_Inl_db unfolding ProcessEvent_def by blast
        with run True b p Inl db1 show ?thesis by (intro failed) (auto simp: refuse_def)
      next
        case (Inr rv)
        with run True b p s db1 st len show ?thesis
          by (intro stored [of s w1 l "fst rv" "snd rv"]) auto
      qed
    qed
  qed
qed

text \<open>
  C1. The answer 200 is a promise kept: when the endpoint acknowledges a webhook, the whole body was read
  within the size cap from a source registered under that path, and the committed database holds one new
  event with the body verbatim, its headers, and the outcome of the signature check. Exactly the
  deliveries the verdict asks for are queued: none when the event is a duplicate or a rule drops it (the
  event then records why), otherwise one pending delivery with its own job for each target.
\<close>

theorem ingest_ack_durable:
  assumes "ingest h r w = (resp, h', w')" and "rs_status resp = 200" and "dedup_pk (w_db w)"
  shows "\<exists>s e. s \<in> set (db_sources (w_db w)) \<and> src_endpoint_path s = rq_path r \<and> \<not> rq_broken r \<and>
    int (length (rq_body r)) \<le> max 0 (h_maxBodyBytes h) \<and>
    processed (w_pg w) h (w_now w) s (rq_body r) (rq_header r) (w_db w) e (w_db w')"
  using assms(1)
proof (cases rule: ingest_cases)
  case (stored s w1 l row v)
  then have "\<exists>e. processed (w_pg w1) (h\<lparr>h_limiter := l\<rparr>) (w_now w1) s (rq_body r) (rq_header r) (w_db w1) e (w_db w')"
    using ProcessEvent_processed assms(3) by fastforce
  with stored show ?thesis by (auto simp: processed_limiter)
qed (use assms(2) in auto)

text \<open>
  C2. An answer other than 200 leaves no trace: an unknown path, the rate limit, an oversized or broken
  body, and every error of the store, at any statement or at the commit, leave the database exactly as it
  was, so a provider that retries cannot cause a half-stored event.
\<close>

theorem ingest_refused_unchanged:
  assumes "ingest h r w = (resp, h', w')" and "rs_status resp \<noteq> 200"
  shows "w_db w' = w_db w"
  using assms(1)
proof (cases rule: ingest_cases)
  case (stored s w1 l row v)
  with assms(2) show ?thesis by (simp add: received_def)
qed auto

subsection \<open>A healthy store accepts\<close>

text \<open>
  Up to statement \<open>N\<close> nothing fails, the texts of the set \<open>T\<close> are accepted (no NUL, valid UTF-8) and the
  generated ids are new: what a running PostgreSQL gives. Statements then succeed and keep the store healthy. The bound is there because
  ids are finite; it only has to exceed the number of statements a request needs.
\<close>

definition healthy :: "string set \<Rightarrow> nat \<Rightarrow> world \<Rightarrow> bool" where
  "healthy T N w \<longleftrightarrow>
     (\<forall>n. w_step w \<le> n \<longrightarrow> n < N \<longrightarrow> \<not> pg_fault (w_pg w) n) \<and> (\<forall>t \<in> T. pg_text (w_pg w) t) \<and>
     inj_on (pg_uuid (w_pg w)) {w_step w..<N} \<and> inj_on (pg_job_id (w_pg w)) {w_step w..<N} \<and>
     (\<forall>n. w_step w \<le> n \<longrightarrow> n < N \<longrightarrow>
        pg_uuid (w_pg w) n \<notin> ev_id ` set (db_events (w_db w)) \<union> dl_id ` set (db_deliveries (w_db w)) \<and>
        pg_job_id (w_pg w) n \<notin> jb_id ` set (db_jobs (w_db w)))"

text \<open>A step that only adds rows under ids of the current step keeps the store healthy.\<close>

lemma healthy_step:
  assumes h: "healthy T N w" and w': "w_pg w' = w_pg w" "w_step w' = Suc (w_step w)"
    and ev: "ev_id ` set (db_events (w_db w')) \<subseteq> insert (pg_uuid (w_pg w) (w_step w)) (ev_id ` set (db_events (w_db w)))"
    and dl: "dl_id ` set (db_deliveries (w_db w')) \<subseteq> insert (pg_uuid (w_pg w) (w_step w)) (dl_id ` set (db_deliveries (w_db w)))"
    and jb: "jb_id ` set (db_jobs (w_db w')) \<subseteq> insert (pg_job_id (w_pg w) (w_step w)) (jb_id ` set (db_jobs (w_db w)))"
  shows "healthy T N w'"
proof -
  have inj: "inj_on (pg_uuid (w_pg w)) {w_step w..<N}" "inj_on (pg_job_id (w_pg w)) {w_step w..<N}"
    using h by (simp_all add: healthy_def)
  have sub: "{Suc (w_step w)..<N} \<subseteq> {w_step w..<N}" by auto
  have "pg_uuid (w_pg w) n \<notin> ev_id ` set (db_events (w_db w')) \<union> dl_id ` set (db_deliveries (w_db w')) \<and>
      pg_job_id (w_pg w) n \<notin> jb_id ` set (db_jobs (w_db w'))" if n: "Suc (w_step w) \<le> n" "n < N" for n
  proof -
    have "pg_uuid (w_pg w) n \<noteq> pg_uuid (w_pg w) (w_step w)" "pg_job_id (w_pg w) n \<noteq> pg_job_id (w_pg w) (w_step w)"
      using n inj_onD [OF inj(1), of n "w_step w"] inj_onD [OF inj(2), of n "w_step w"] by auto
    moreover have "pg_uuid (w_pg w) n \<notin> ev_id ` set (db_events (w_db w)) \<union> dl_id ` set (db_deliveries (w_db w))"
      "pg_job_id (w_pg w) n \<notin> jb_id ` set (db_jobs (w_db w))"
      using h n by (auto simp: healthy_def dest: Suc_leD)
    ultimately show ?thesis using ev dl jb by blast
  qed
  moreover have "\<forall>n. Suc (w_step w) \<le> n \<longrightarrow> n < N \<longrightarrow> \<not> pg_fault (w_pg w) n" "\<forall>t \<in> T. pg_text (w_pg w) t"
    using h by (auto simp: healthy_def dest: Suc_leD)
  ultimately show ?thesis
    unfolding healthy_def w' using inj_on_subset [OF inj(1) sub] inj_on_subset [OF inj(2) sub] by blast
qed

lemma healthy_tick: "healthy T N w \<Longrightarrow> healthy T N (tick w)"
  by (rule healthy_step) auto

lemma healthy_no_fault: "healthy T N w \<Longrightarrow> w_step w < N \<Longrightarrow> \<not> pg_fault (w_pg w) (w_step w)"
  by (simp add: healthy_def)

lemma healthy_query: "healthy T N w \<Longrightarrow> w_step w < N \<Longrightarrow> f (w_db w) = Inr x \<Longrightarrow> query f w = (Inr x, tick w)"
  by (simp add: query_Inr healthy_def)

lemma healthy_InsertEvent:
  assumes "healthy T N w" "w_step w < N" "ie_source p \<in> src_id ` set (db_sources (w_db w))"
    and "pg_jsonb (w_pg w) (ie_raw_headers p) \<noteq> None" "jsonb_opt (w_pg w) (ie_parsed_body p) \<noteq> None"
    and texts: "set_option (ie_content_type p) \<subseteq> T" "set_option (ie_dedupe_key p) \<subseteq> T"
  shows "\<exists>row e w'. InsertEvent p w = (Inr row, w') \<and> healthy T N w' \<and> w_step w' = Suc (w_step w) \<and>
    ev_id e = ier_id row \<and> w_db w' = (w_db w)\<lparr>db_events := db_events (w_db w) @ [e]\<rparr>"
proof -
  obtain hs pb where j: "pg_jsonb (w_pg w) (ie_raw_headers p) = Some hs" "jsonb_opt (w_pg w) (ie_parsed_body p) = Some pb"
    using assms(4,5) by auto
  let ?u = "pg_uuid (w_pg w) (w_step w)"
  have ok: "\<not> pg_fault (w_pg w) (w_step w)" "?u \<notin> ev_id ` set (db_events (w_db w))"
    "text_opt (w_pg w) (ie_content_type p)" "text_opt (w_pg w) (ie_dedupe_key p)"
    using assms(1,2) texts by (auto simp: healthy_def text_opt_def split: option.splits)
  define e where "e = \<lparr>ev_id = ?u, ev_tenant = ie_tenant p, ev_source = ie_source p, ev_raw_headers = hs,
          ev_raw_body = ie_raw_body p, ev_content_type = ie_content_type p, ev_parsed_body = pb,
          ev_dedupe_key = ie_dedupe_key p, ev_verified = ie_verified p, ev_received_at = w_now w,
          ev_dropped_reason = None\<rparr>"
  define w' where "w' = (tick w)\<lparr>w_db := (w_db w)\<lparr>db_events := db_events (w_db w) @ [e]\<rparr>\<rparr>"
  have "InsertEvent p w = (Inr \<lparr>ier_id = ?u, ier_received_at = w_now w\<rparr>, w')"
    using assms(3) j ok by (simp add: InsertEvent_def exec_def Let_def w'_def e_def)
  moreover have "healthy T N w'" by (rule healthy_step [OF assms(1)]) (auto simp: w'_def e_def)
  moreover have "w_step w' = Suc (w_step w)" "ev_id e = ?u" by (simp_all add: w'_def e_def)
  ultimately show ?thesis by (force simp: w'_def)
qed

lemma healthy_MarkEventDropped:
  assumes "healthy T N w" "w_step w < N" "reason \<in> T"
  shows "\<exists>w'. MarkEventDropped eid reason w = (Inr (), w') \<and> healthy T N w' \<and> w_step w' = Suc (w_step w)"
proof -
  define w' where "w' = (tick w)\<lparr>w_db := (w_db w)\<lparr>db_events := update_where (\<lambda>e. ev_id e = eid)
                                   (\<lambda>e. e\<lparr>ev_dropped_reason := Some reason\<rparr>) (db_events (w_db w))\<rparr>\<rparr>"
  have "MarkEventDropped eid reason w = (Inr (), w')"
    using assms by (simp add: MarkEventDropped_def exec_def healthy_def w'_def)
  moreover have "healthy T N w'" by (rule healthy_step [OF assms(1)]) (auto simp: w'_def set_update_where)
  ultimately show ?thesis by (simp add: w'_def)
qed

lemma healthy_claim:
  assumes "healthy T N w" "w_step w < N" "sid \<in> src_id ` set (db_sources (w_db w))" "eid \<in> ev_id ` set (db_events (w_db w))"
    "k \<in> T"
  shows "\<exists>r w'. ClaimDedupeKey sid k eid window w = (r, w') \<and> healthy T N w' \<and> (r = Inl NoRows \<or> (\<exists>x. r = Inr x)) \<and>
    w_step w' = Suc (w_step w) \<and> (\<exists>rows. w_db w' = (w_db w)\<lparr>db_dedup := rows\<rparr>)"
proof -
  obtain r w' where c: "ClaimDedupeKey sid k eid window w = (r, w')" by fastforce
  obtain rows where rows: "w_db w' = (w_db w)\<lparr>db_dedup := rows\<rparr>" using claim_db [OF c] by blast
  have r: "r = Inl NoRows \<or> (\<exists>x. r = Inr x)"
    using c assms by (auto simp: ClaimDedupeKey_def exec_def Let_def healthy_def split: if_splits list.splits)
  have w': "w_step w' = Suc (w_step w)" "w_pg w' = w_pg w"
    using c by (auto simp: ClaimDedupeKey_def exec_def split: if_splits sum.splits prod.splits)
  then have "healthy T N w'" by (intro healthy_step [OF assms(1)]) (simp_all add: rows subset_insertI)
  with c r rows w' show ?thesis by blast
qed

lemma healthy_enqueue_target:
  assumes "healthy T N w" "w_step w + 3 \<le> N"
    and "eid \<in> ev_id ` set (db_events (w_db w))" "tg_destination t \<in> dst_id ` set (db_destinations (w_db w))"
  shows "\<exists>w'. enqueue_target tenant eid t w = (Inr (), w') \<and> healthy T N w' \<and> w_step w' = w_step w + 3 \<and>
    (\<exists>xs js. w_db w' = (w_db w)\<lparr>db_deliveries := xs, db_jobs := js\<rparr>)"
proof -
  let ?u = "pg_uuid (w_pg w) (w_step w)"
  have ok: "\<not> pg_fault (w_pg w) (w_step w)" "?u \<notin> dl_id ` set (db_deliveries (w_db w))"
    using assms(1,2) by (auto simp: healthy_def)
  define x where "x = \<lparr>dl_id = ?u, dl_tenant = tenant, dl_event = eid, dl_destination = tg_destination t,
      dl_river_job = None, dl_status = ''pending'', dl_attempt_count = 0, dl_next_attempt_at = None,
      dl_last_attempted_at = None, dl_dead_lettered_at = None, dl_created_at = w_now w, dl_updated_at = w_now w\<rparr>"
  define w1 where "w1 = (tick w)\<lparr>w_db := (w_db w)\<lparr>db_deliveries := db_deliveries (w_db w) @ [x]\<rparr>\<rparr>"
  have 1: "InsertDelivery tenant eid (tg_destination t) w = (Inr ?u, w1)"
    using ok assms(3,4) by (simp add: InsertDelivery_def exec_def Let_def w1_def x_def)
  have h1: "healthy T N w1" by (rule healthy_step [OF assms(1)]) (auto simp: w1_def x_def)
  have s1: "w_step w1 = Suc (w_step w)" by (simp add: w1_def)
  let ?j = "pg_job_id (w_pg w1) (w_step w1)"
  let ?a = "\<lparr>da_delivery_id = uuidString ?u, da_backoff_base = tg_backoff_base t, da_backoff_max = tg_backoff_max t\<rparr>"
  define j where "j = \<lparr>jb_id = ?j, jb_args = DeliveryArgs ?a,
     jb_max_attempts = (if tg_max_attempts t < 1 then 1 else tg_max_attempts t)\<rparr>"
  define w2 where "w2 = (tick w1)\<lparr>w_db := (w_db w1)\<lparr>db_jobs := db_jobs (w_db w1) @ [j]\<rparr>\<rparr>"
  have 2: "InsertDeliveryJob ?a (tg_max_attempts t) w1 = (Inr ?j, w2)"
    using h1 s1 assms(2) by (simp add: InsertDeliveryJob_def river_InsertTx_def exec_def Let_def healthy_def w2_def j_def)
  have h2: "healthy T N w2" by (rule healthy_step [OF h1]) (auto simp: w2_def j_def)
  have s2: "w_step w2 = Suc (Suc (w_step w))" by (simp add: w2_def s1)
  define w3 where "w3 = (tick w2)\<lparr>w_db := (w_db w2)\<lparr>db_deliveries := update_where (\<lambda>x. dl_id x = ?u)
        (\<lambda>x. x\<lparr>dl_river_job := Some ?j\<rparr>) (db_deliveries (w_db w2))\<rparr>\<rparr>"
  have 3: "SetDeliveryRiverJobID ?u ?j w2 = (Inr (), w3)"
    using h2 s2 assms(2) by (simp add: SetDeliveryRiverJobID_def exec_def healthy_def w3_def)
  have "dl_id ` set (db_deliveries (w_db w3)) = dl_id ` set (db_deliveries (w_db w2))"
    unfolding w3_def by (simp, intro map_eq_set map_update_where) simp
  then have h3: "healthy T N w3" by (intro healthy_step [OF h2]) (simp_all add: w3_def subset_insertI)
  have "enqueue_target tenant eid t w = (Inr (), w3)"
    by (simp add: enqueue_target_def bind_def 1 2 3)
  moreover have "\<exists>xs js. w_db w3 = (w_db w)\<lparr>db_deliveries := xs, db_jobs := js\<rparr>"
    by (rule exI [of _ "db_deliveries (w_db w3)"], rule exI [of _ "db_jobs (w_db w3)"]) (simp add: w1_def w2_def w3_def)
  moreover have "w_step w3 = w_step w + 3" by (simp add: w3_def s2)
  ultimately show ?thesis using h3 by blast
qed

lemma healthy_EnqueueDeliveriesTo:
  assumes "healthy T N w" "w_step w + 3 * length ts \<le> N" "eid \<in> ev_id ` set (db_events (w_db w))"
    "\<forall>t \<in> set ts. tg_destination t \<in> dst_id ` set (db_destinations (w_db w))"
  shows "\<exists>w'. EnqueueDeliveriesTo tenant eid ts w = (Inr (length ts), w') \<and> healthy T N w' \<and>
    w_step w' = w_step w + 3 * length ts"
proof -
  have "\<exists>w'. for_each (enqueue_target tenant eid) ts w = (Inr (), w') \<and> healthy T N w' \<and> w_step w' = w_step w + 3 * length ts"
    using assms
  proof (induction ts arbitrary: w)
    case (Cons t ts)
    obtain w1 where 1: "enqueue_target tenant eid t w = (Inr (), w1)" "healthy T N w1" "w_step w1 = w_step w + 3"
      "\<exists>xs js. w_db w1 = (w_db w)\<lparr>db_deliveries := xs, db_jobs := js\<rparr>"
      using healthy_enqueue_target [OF Cons.prems(1), of eid t tenant] Cons.prems(2-) by auto
    then obtain w2 where "for_each (enqueue_target tenant eid) ts w1 = (Inr (), w2)" "healthy T N w2"
      "w_step w2 = w_step w1 + 3 * length ts"
      using Cons.IH [of w1] Cons.prems by auto
    with 1 show ?case by (simp add: bind_def)
  qed (simp add: ret_def)
  then show ?thesis by (auto simp: EnqueueDeliveriesTo_def bind_def ret_def)
qed

text \<open>Targets are destinations that exist, and there are not more of them than routes and destinations allow.\<close>

lemma target_destinations:
  "t \<in> set (enabled_targets d sid) \<Longrightarrow> tg_destination t \<in> dst_id ` set (db_destinations d)"
  "t \<in> set (targets_by_ids d ids tenant) \<Longrightarrow> tg_destination t \<in> dst_id ` set (db_destinations d)"
  by (force simp: enabled_targets_def targets_by_ids_def target_of_def)+

definition max_targets :: "database \<Rightarrow> nat" where
  "max_targets d = length (db_routes d) * length (db_destinations d) + length (db_destinations d)"

lemma length_concat_le: "(\<And>x. x \<in> set xs \<Longrightarrow> length (f x) \<le> m) \<Longrightarrow> length (concat (map f xs)) \<le> length xs * m"
proof (induction xs)
  case (Cons x xs)
  then have "length (f x) \<le> m" "length (concat (map f xs)) \<le> length xs * m" by simp_all
  then show ?case by simp
qed simp

lemma length_targets:
  "length (enabled_targets d sid) \<le> max_targets d" "length (targets_by_ids d ids tenant) \<le> max_targets d"
proof -
  have inner: "length (concat (map (\<lambda>x. if P x then [g x] else []) ys)) \<le> length ys" for P g and ys :: "destination list"
    by (induction ys) auto
  have "length (enabled_targets d sid) \<le> length (db_routes d) * length (db_destinations d)"
    unfolding enabled_targets_def by (rule length_concat_le) (rule inner)
  then show "length (enabled_targets d sid) \<le> max_targets d" by (simp add: max_targets_def)
  show "length (targets_by_ids d ids tenant) \<le> max_targets d"
    using length_filter_le [of _ "db_destinations d"] by (simp add: targets_by_ids_def max_targets_def trans_le_add2)
qed

lemma healthy_apply_decision:
  assumes "healthy T N w" "w_step w + 1 + 3 * max_targets (w_db w) \<le> N" "eid \<in> ev_id ` set (db_events (w_db w))"
    "dc_Action dec = ActionDrop \<Longrightarrow> dc_RuleName dec \<in> T"
  shows "\<exists>w'. apply_decision s eid dec w = (Inr (), w') \<and> healthy T N w' \<and>
    w_step w' \<le> w_step w + 1 + 3 * max_targets (w_db w)"
proof -
  have lt: "w_step w < N" using assms(2) by simp
  have enq: "\<exists>w'. EnqueueDeliveriesTo (src_tenant s) eid ts (tick w) = (Inr (length ts), w') \<and> healthy T N w' \<and>
      w_step w' \<le> w_step w + 1 + 3 * max_targets (w_db w)"
    if "\<forall>t \<in> set ts. tg_destination t \<in> dst_id ` set (db_destinations (w_db w))" "length ts \<le> max_targets (w_db w)" for ts
    using healthy_EnqueueDeliveriesTo [OF healthy_tick [OF assms(1)], of ts eid "src_tenant s"] that assms(2,3)
    by fastforce
  consider "dc_Action dec = ActionDrop" | "dc_Action dec \<noteq> ActionDrop" "dc_Action dec = ActionRoute"
    | "dc_Action dec \<noteq> ActionDrop" "dc_Action dec \<noteq> ActionRoute" by blast
  then show ?thesis
  proof cases
    case 1
    then show ?thesis using healthy_MarkEventDropped [OF assms(1) lt assms(4)] by (fastforce simp: apply_decision_def)
  next
    case 2
    let ?ts = "targets_by_ids (w_db w) (dc_RouteDestinationIDs dec) (src_tenant s)"
    obtain w' where "EnqueueDeliveriesTo (src_tenant s) eid ?ts (tick w) = (Inr (length ?ts), w')" "healthy T N w'"
      "w_step w' \<le> w_step w + 1 + 3 * max_targets (w_db w)"
      using enq [of ?ts] target_destinations(2) length_targets(2) by blast
    with 2 show ?thesis
      by (simp add: apply_decision_def ListDeliveryTargetsByDestinationIDs_def bind_def ret_def healthy_query [OF assms(1) lt])
  next
    case 3
    let ?ts = "enabled_targets (w_db w) (src_id s)"
    obtain w' where "EnqueueDeliveriesTo (src_tenant s) eid ?ts (tick w) = (Inr (length ?ts), w')" "healthy T N w'"
      "w_step w' \<le> w_step w + 1 + 3 * max_targets (w_db w)"
      using enq [of ?ts] target_destinations(1) length_targets(1) by blast
    with 3 show ?thesis
      by (simp add: apply_decision_def EnqueueDeliveries_def ListEnabledDeliveryTargetsForSource_def bind_def ret_def
          healthy_query [OF assms(1) lt])
  qed
qed

lemma healthy_claim_key:
  assumes "healthy T N w" "w_step w + 2 \<le> N" "src_id s \<in> src_id ` set (db_sources (w_db w))"
    "eid \<in> ev_id ` set (db_events (w_db w))" "set_option key \<subseteq> T" "droppedReasonDuplicate \<in> T"
  shows "\<exists>dup w'. claim_key s eid key w = (Inr dup, w') \<and> healthy T N w' \<and> w_step w' \<le> w_step w + 2 \<and>
    (dup \<or> (\<exists>rows. w_db w' = (w_db w)\<lparr>db_dedup := rows\<rparr>))"
proof (cases key)
  case None
  then have "claim_key s eid key w = (Inr False, w)" by (simp add: claim_key_def ret_def)
  moreover have "w_db w = (w_db w)\<lparr>db_dedup := db_dedup (w_db w)\<rparr>" by simp
  ultimately show ?thesis using assms(1) by (metis le_add1)
next
  case (Some k)
  obtain r w1 where c: "ClaimDedupeKey (src_id s) k eid (dedupe_window s) w = (r, w1)" "healthy T N w1"
    "r = Inl NoRows \<or> (\<exists>x. r = Inr x)" "w_step w1 = Suc (w_step w)" "\<exists>rows. w_db w1 = (w_db w)\<lparr>db_dedup := rows\<rparr>"
    using healthy_claim [OF assms(1) _ assms(3,4), of k] assms(2,5) Some by fastforce
  obtain w2 where m: "MarkEventDropped eid droppedReasonDuplicate w1 = (Inr (), w2)" "healthy T N w2" "w_step w2 = w_step w + 2"
    using healthy_MarkEventDropped [OF c(2) _ assms(6)] c(4) assms(2) by fastforce
  from c(3) show ?thesis
  proof
    assume "r = Inl NoRows"
    with Some c(1) m(1) have "claim_key s eid key w = (Inr True, w2)" by (simp add: claim_key_def bind_def ret_def)
    with m show ?thesis by (metis order_refl)
  next
    assume "\<exists>x. r = Inr x"
    with Some c(1) have "claim_key s eid key w = (Inr False, w1)" by (auto simp: claim_key_def)
    with c(2,4,5) show ?thesis by (metis add_2_eq_Suc' le_SucI order_refl)
  qed
qed

lemma Evaluate_drop_name:
  assumes "dc_Action (Evaluate c rs i) = ActionDrop"
  shows "dc_RuleName (Evaluate c rs i) \<in> ru_name ` set rs"
proof (cases "find (\<lambda>r. rule_value c i r = Some True) rs")
  case None
  with assms show ?thesis by (simp add: Evaluate_find no_decision_def ActionDrop_def)
next
  case (Some r)
  then have "r \<in> set rs" by (auto simp: find_Some_iff)
  with Some show ?thesis by (simp add: Evaluate_find decision_of_def)
qed

lemma healthy_process_tx:
  assumes h: "healthy T N w" and N: "w_step w + 5 + 3 * max_targets (w_db w) \<le> N"
    and s: "ie_source p \<in> src_id ` set (db_sources (w_db w))" "ie_source p = src_id s"
    and json: "pg_jsonb (w_pg w) (ie_raw_headers p) \<noteq> None" "jsonb_opt (w_pg w) (ie_parsed_body p) \<noteq> None"
    and texts: "set_option (ie_content_type p) \<subseteq> T" "set_option (ie_dedupe_key p) \<subseteq> T" "droppedReasonDuplicate \<in> T"
      "ru_name ` set (db_rules (w_db w)) \<subseteq> T"
  shows "\<exists>rv w'. process_tx h' s p w = (Inr rv, w') \<and> healthy T N w' \<and> w_step w' \<le> w_step w + 5 + 3 * max_targets (w_db w)"
proof -
  obtain row e w1 where 1: "InsertEvent p w = (Inr row, w1)" "healthy T N w1" "w_step w1 = Suc (w_step w)"
    "ev_id e = ier_id row" "w_db w1 = (w_db w)\<lparr>db_events := db_events (w_db w) @ [e]\<rparr>"
    using healthy_InsertEvent [OF h _ s(1) json texts(1,2)] N by fastforce
  have ev: "ier_id row \<in> ev_id ` set (db_events (w_db w1))" using 1(4,5) by simp
  have src: "src_id s \<in> src_id ` set (db_sources (w_db w1))" using 1(5) s by simp
  have "w_step w1 + 2 \<le> N" using 1(3) N by simp
  then obtain dup w2 where 2: "claim_key s (ier_id row) (ie_dedupe_key p) w1 = (Inr dup, w2)" "healthy T N w2"
    "w_step w2 \<le> w_step w + 3" "dup \<or> (\<exists>rows. w_db w2 = (w_db w1)\<lparr>db_dedup := rows\<rparr>)"
    using healthy_claim_key [OF 1(2) _ src ev texts(2,3)] 1(3) by fastforce
  show ?thesis
  proof (cases dup)
    case True
    with 1(1) 2(1) have "process_tx h' s p w = (Inr (row, ie_verified p), w2)"
      by (simp add: process_tx_def bind_def ret_def)
    with 2(2,3) show ?thesis by fastforce
  next
    case False
    let ?dec = "Evaluate (h_cel h') (enabled_rules (w_db w2) (src_id s)) (ruleInput (ie_parsed_body p) (ie_raw_headers p) s)"
    have d2: "max_targets (w_db (tick w2)) = max_targets (w_db w)" "ier_id row \<in> ev_id ` set (db_events (w_db (tick w2)))"
      using False 2(4) ev 1(5) by (auto simp: max_targets_def)
    have name: "dc_RuleName ?dec \<in> T" if "dc_Action ?dec = ActionDrop"
    proof -
      have "dc_RuleName ?dec \<in> ru_name ` set (enabled_rules (w_db w2) (src_id s))" by (rule Evaluate_drop_name [OF that])
      moreover have "db_rules (w_db w2) = db_rules (w_db w)" using False 2(4) 1(5) by auto
      ultimately show ?thesis using texts(4) by (auto simp: enabled_rules_def)
    qed
    from d2 obtain w3 where 3: "apply_decision s (ier_id row) ?dec (tick w2) = (Inr (), w3)" "healthy T N w3"
      "w_step w3 \<le> w_step w2 + 2 + 3 * max_targets (w_db w)"
      using healthy_apply_decision [OF healthy_tick [OF 2(2)] _ d2(2) name, of s] 2(3) N by fastforce
    have "w_step w2 < N" using 2(3) N by simp
    then have "ListEnabledRulesForSource (src_id s) w2 = (Inr (enabled_rules (w_db w2) (src_id s)), tick w2)"
      unfolding ListEnabledRulesForSource_def by (intro healthy_query [OF 2(2)]) simp_all
    with False 1(1) 2(1) 3(1) have "process_tx h' s p w = (Inr (row, ie_verified p), w3)"
      by (simp add: process_tx_def bind_def ret_def)
    with 3(2,3) 2(3) show ?thesis by fastforce
  qed
qed

lemma healthy_ProcessEvent:
  assumes h: "healthy T N w" and N: "w_step w + 7 + 3 * max_targets (w_db w) \<le> N"
    and s: "src_id s \<in> src_id ` set (db_sources (w_db w))"
    and json: "pg_jsonb (w_pg w) (marshal_header headers) \<noteq> None" "json_Valid body \<Longrightarrow> pg_jsonb (w_pg w) body \<noteq> None"
    and texts: "header_Get headers ''Content-Type'' \<in> T" "droppedReasonDuplicate \<in> T" "ru_name ` set (db_rules (w_db w)) \<subseteq> T"
      "set_option (dedupeKey s body (if json_Valid body then Some body else None)) \<subseteq> T"
  shows "\<exists>rv w'. ProcessEvent h' s body headers w = (Inr rv, w')"
proof -
  let ?p = "event_params h' (w_now w) s body headers"
  have p: "ie_source ?p = src_id s" "ie_raw_headers ?p = marshal_header headers"
    "jsonb_opt (w_pg w) (ie_parsed_body ?p) \<noteq> None"
    using json(2) by (simp_all add: event_params_def Let_def jsonb_opt_def)
  have t: "set_option (ie_content_type ?p) \<subseteq> T" "set_option (ie_dedupe_key ?p) \<subseteq> T"
    using texts by (simp_all add: event_params_def Let_def)
  obtain rv w1 where w1: "process_tx h' s ?p (tick w) = (Inr rv, w1)" "healthy T N w1" "w_step w1 < N"
  proof -
    have "\<exists>rv w1. process_tx h' s ?p (tick w) = (Inr rv, w1) \<and> healthy T N w1 \<and>
        w_step w1 \<le> w_step (tick w) + 5 + 3 * max_targets (w_db (tick w))"
      by (rule healthy_process_tx [OF healthy_tick [OF h]]) (use p s json(1) N t texts(2,3) in simp_all)
    then show ?thesis using that N by auto
  qed
  have "\<not> pg_fault (w_pg w) (w_step w)" "\<not> pg_fault (w_pg w1) (w_step w1)"
    using healthy_no_fault h w1(2,3) N by force+
  with w1(1) show ?thesis by (simp add: ProcessEvent_def inTx_def)
qed

text \<open>
  Everything the endpoint needs of a request and of the store to accept it. The lookup, the begin and
  the commit, five statements of the event and three for each target are all it runs.
\<close>

definition request_texts :: "http_request \<Rightarrow> database \<Rightarrow> string set" where
  "request_texts r d =
     {rq_path r, header_Get (rq_header r) ''Content-Type'', droppedReasonDuplicate} \<union> ru_name ` set (db_rules d) \<union>
     (\<Union>s \<in> set (db_sources d). set_option (dedupeKey s (rq_body r) (if json_Valid (rq_body r) then Some (rq_body r) else None)))"

definition acceptable :: "Handler \<Rightarrow> http_request \<Rightarrow> world \<Rightarrow> bool" where
  "acceptable h r w \<longleftrightarrow> healthy (request_texts r (w_db w)) (w_step w + 8 + 3 * max_targets (w_db w)) w \<and>
     list_ex (\<lambda>s. src_endpoint_path s = rq_path r) (db_sources (w_db w)) \<and>
     fst (rateLimiter_allow (rq_path r) (w_now w) (w_now w) (h_limiter h)) \<and>
     int (length (rq_body r)) \<le> h_maxBodyBytes h \<and> \<not> rq_broken r \<and>
     pg_jsonb (w_pg w) (marshal_header (rq_header r)) \<noteq> None \<and>
     (\<not> json_Valid (rq_body r) \<or> pg_jsonb (w_pg w) (rq_body r) \<noteq> None)"

lemma acceptable_received:
  assumes "acceptable h r w"
  shows "fst (ingest h r w) = received"
proof -
  let ?N = "w_step w + 8 + 3 * max_targets (w_db w)" and ?T = "request_texts r (w_db w)"
  have h: "healthy ?T ?N w" using assms by (simp add: acceptable_def)
  have "filter (\<lambda>s. src_endpoint_path s = rq_path r) (db_sources (w_db w)) \<noteq> []"
    using assms by (auto simp: acceptable_def list_ex_iff filter_empty_conv)
  then obtain s where one: "one_row (filter (\<lambda>s. src_endpoint_path s = rq_path r) (db_sources (w_db w))) = Inr s"
    by (cases "filter (\<lambda>s. src_endpoint_path s = rq_path r) (db_sources (w_db w))") auto
  then have s: "s \<in> set (db_sources (w_db w))" "src_endpoint_path s = rq_path r"
    using one_row_Inr [of "\<lambda>s. src_endpoint_path s = rq_path r"] by blast+
  have g: "GetSourceByEndpointPath (rq_path r) w = (Inr s, tick w)"
    using h one by (simp add: GetSourceByEndpointPath_def text_query_Inr healthy_def request_texts_def)
  obtain l where l: "rateLimiter_allow (rq_path r) (w_now w) (w_now w) (h_limiter h) = (True, l)"
    using assms by (cases "rateLimiter_allow (rq_path r) (w_now w) (w_now w) (h_limiter h)") (simp add: acceptable_def)
  have b: "readBody r (h_maxBodyBytes h) = Body (rq_body r)"
    using assms by (auto simp: acceptable_def readBody_def)
  have "\<exists>rv w'. ProcessEvent (h\<lparr>h_limiter := l\<rparr>) s (rq_body r) (rq_header r) (tick w) = (Inr rv, w')"
    by (rule healthy_ProcessEvent [OF healthy_tick [OF h]]) (use assms s(1) in \<open>auto simp: acceptable_def request_texts_def\<close>)
  then show ?thesis using g l b s(2) by (auto simp: ingest_def Let_def)
qed

text \<open>
  C3. A well-formed webhook is accepted: with a healthy store, a registered path, a token left in the
  source's bucket, a body within the cap, texts (content type, dedupe key) that PostgreSQL takes as text, and
  headers and JSON body that it takes as JSONB, the
  endpoint answers 200, whatever the rules, the dedupe state and the routes are.
\<close>

theorem ingest_accepts:
  assumes "acceptable h r w"
  shows "fst (ingest h r w) = \<lparr>rs_status = 200, rs_error = None\<rparr>"
  using acceptable_received [OF assms] by (simp add: received_def)

subsection \<open>The endpoint on the example database\<close>

definition handler_example :: Handler where
  "handler_example = \<lparr>h_enc = \<lparr>enc_key = replicate 32 CHR ''k'', enc_version = 1\<rparr>, h_catalog = Map.empty,
     h_cel = cel_example, h_maxBodyBytes = 1000, h_limiter = newRateLimiter 5\<rparr>"

definition request_example :: http_request where
  "request_example = \<lparr>rq_path = ''p'', rq_header = [], rq_body = ''x'', rq_broken = False\<rparr>"

lemma healthy_example: "healthy T 14 world_example"
proof -
  have e: "w_pg world_example = pg_example" "w_step world_example = 0" "db_deliveries (w_db world_example) = []"
    "db_jobs (w_db world_example) = []" "ev_id ` set (db_events (w_db world_example)) = {3}"
    by (simp_all add: world_example_def db_example_def empty_db_def event_example_def)
  have u: "unat (of_nat (100 + n) :: uuid) = 100 + n" if "n < 14" for n
    using that by (simp only: unsigned_of_nat) (simp add: take_bit_nat_eq_self)
  have "inj_on (\<lambda>n. of_nat (100 + n) :: uuid) {0..<14}"
  proof (rule inj_onI)
    fix m n assume "m \<in> {0..<14}" "n \<in> {0..<14}" "(of_nat (100 + m) :: uuid) = of_nat (100 + n)"
    then show "m = n" using u [of m] u [of n] by (metis add_left_cancel atLeastLessThan_iff)
  qed
  moreover have "(of_nat (100 + n) :: uuid) \<noteq> 3" if "n < 14" for n
  proof
    assume "(of_nat (100 + n) :: uuid) = 3"
    then have "unat (of_nat (100 + n) :: uuid) = unat (3 :: uuid)" by (rule arg_cong)
    moreover have "unat (3 :: uuid) = 3" by simp
    ultimately show False using u [OF that] by linarith
  qed
  ultimately show ?thesis unfolding healthy_def e by (auto simp: pg_example_def)
qed

lemma acceptable_example: "acceptable handler_example request_example world_example"
proof -
  have a: "fst (rateLimiter_allow ''p'' 0 0 (newRateLimiter 5))"
    using refilled_now [of 5 5] f64.fl_int [of 5]
    by (simp add: rateLimiter_allow_def newRateLimiter_def newBucket_def tokenBucket_allow_def Let_def)
  have "w_step world_example + 8 + 3 * max_targets (w_db world_example) = 14"
    by (simp add: max_targets_def example_defs)
  then show ?thesis unfolding acceptable_def using healthy_example a
    by (simp add: handler_example_def request_example_def) (simp add: example_defs)
qed

theorem ingest_accepts_witness:
  "fst (ingest handler_example request_example world_example) = \<lparr>rs_status = 200, rs_error = None\<rparr>"
  by (rule ingest_accepts) (rule acceptable_example)

theorem ingest_ack_durable_witness:
  "\<exists>resp h' w' s e. ingest handler_example request_example world_example = (resp, h', w') \<and> rs_status resp = 200 \<and>
     s \<in> set (db_sources (w_db world_example)) \<and> src_endpoint_path s = ''p'' \<and>
     processed pg_example handler_example 0 s ''x'' [] (w_db world_example) e (w_db w')"
proof -
  obtain resp h' w' where i: "ingest handler_example request_example world_example = (resp, h', w')"
    by (metis prod_cases3)
  have 200: "rs_status resp = 200"
    using acceptable_received [OF acceptable_example] i by (simp add: received_def)
  have "dedup_pk (w_db world_example)" by (simp add: dedup_pk_def example_defs)
  from ingest_ack_durable [OF i 200 this] show ?thesis
    using i 200 by (auto simp: request_example_def world_example_def)
qed

theorem ingest_refused_unchanged_witness:
  "\<exists>h' w'. ingest handler_example (request_example\<lparr>rq_path := ''q''\<rparr>) world_example =
     (refuse 404 ''unknown source'', h', w') \<and> w_db w' = w_db world_example"
proof -
  have i: "ingest handler_example (request_example\<lparr>rq_path := ''q''\<rparr>) world_example =
     (refuse 404 ''unknown source'', handler_example, tick world_example)"
    by (simp add: ingest_def GetSourceByEndpointPath_def text_query_def exec_def example_defs request_example_def)
  have "w_db (tick world_example) = w_db world_example"
    by (rule ingest_refused_unchanged [OF i]) (simp add: refuse_def)
  with i show ?thesis by blast
qed

text \<open>
  A route to ids none of which is a destination of the tenant is taken without a trace: the event gets no delivery and no
  reason for being dropped.
\<close>

lemma route_to_unknown_ids:
  assumes "dc_Action dec = ActionRoute" "targets_by_ids (w_db w) (dc_RouteDestinationIDs dec) (src_tenant s) = []"
    and "\<not> pg_fault (w_pg w) (w_step w)"
  shows "apply_decision s eid dec w = (Inr (), tick w)"
  using assms
  by (simp add: apply_decision_def ActionRoute_def ActionDrop_def ListDeliveryTargetsByDestinationIDs_def bind_def query_def exec_def
      EnqueueDeliveriesTo_def ret_def)

end
