(* ===== verification/Sources_Api.thy ===== *)
theory Sources_Api
  imports Api_Base Ingest
begin

text \<open>
  The management of sources (\<^verbatim>\<open>internal/api/sources.go\<close>) and the list of providers
  (\<^verbatim>\<open>internal/api/providers.go\<close>): creating a source with its encrypted secret, listing, and the test event
  that signs the provider's sample and sends it through the ingest path.
\<close>

subsection \<open>The operations\<close>

text \<open>The handler's dependencies; \<open>sh_Quote\<close> is \<^verbatim>\<open>%q\<close> of the fmt package, used in two messages.\<close>

record sourcesHandler =
  sh_enc :: Encryptor
  sh_catalog :: catalog
  sh_ingester :: Handler
  sh_Quote :: "string \<Rightarrow> string"

record createSourceRequest =
  cs_Name :: string
  cs_ProviderType :: string
  cs_SigningSecret :: string
  cs_DedupeEnabled :: bool
  cs_DedupeStrategy :: string
  cs_DedupeFieldPath :: string
  cs_DedupeWindowSeconds :: int

definition source_fields :: "(string \<times> createSourceRequest field) list" where
  "source_fields = [(''name'', string_field cs_Name_update), (''provider_type'', string_field cs_ProviderType_update),
     (''signing_secret'', string_field cs_SigningSecret_update), (''dedupe_enabled'', bool_field cs_DedupeEnabled_update),
     (''dedupe_strategy'', string_field cs_DedupeStrategy_update), (''dedupe_field_path'', string_field cs_DedupeFieldPath_update),
     (''dedupe_window_seconds'', int32_field cs_DedupeWindowSeconds_update)]"

definition no_source :: createSourceRequest where
  "no_source = \<lparr>cs_Name = '''', cs_ProviderType = '''', cs_SigningSecret = '''', cs_DedupeEnabled = False,
     cs_DedupeStrategy = '''', cs_DedupeFieldPath = '''', cs_DedupeWindowSeconds = 0\<rparr>"

text \<open>\<open>Some msg\<close> is a refusal.\<close>

definition validateDedupe :: "createSourceRequest \<Rightarrow> string option" where
  "validateDedupe req =
     (if \<not> cs_DedupeEnabled req then None
      else if cs_DedupeStrategy req \<noteq> ''exact'' \<and> cs_DedupeStrategy req \<noteq> ''field''
      then Some ''dedupe_strategy must be \"exact\" or \"field\" when dedupe_enabled is true''
      else if cs_DedupeStrategy req = ''field'' \<and> cs_DedupeFieldPath req = ''''
      then Some ''dedupe_field_path is required when dedupe_strategy is \"field\"''
      else if cs_DedupeWindowSeconds req < 0 then Some ''dedupe_window_seconds must be positive''
      else None)"

text \<open>From the 16 random bytes.\<close>

definition generateEndpointPath :: "bytes \<Rightarrow> string" where
  "generateEndpointPath b = ''src_'' @ hex_Encode b"

record sourceResponse =
  sr_ID :: string
  sr_Name :: string
  sr_ProviderType :: string
  sr_EndpointPath :: string
  sr_CreatedAt :: time
  sr_DedupeEnabled :: bool
  sr_DedupeStrategy :: string
  sr_DedupeFieldPath :: string
  sr_DedupeWindowSeconds :: int

definition toSourceResponse :: "source \<Rightarrow> sourceResponse" where
  "toSourceResponse s = \<lparr>sr_ID = uuidString (src_id s), sr_Name = src_name s, sr_ProviderType = src_provider_type s,
     sr_EndpointPath = src_endpoint_path s, sr_CreatedAt = src_created_at s, sr_DedupeEnabled = src_dedupe_enabled s,
     sr_DedupeStrategy = text_String (src_dedupe_strategy s), sr_DedupeFieldPath = text_String (src_dedupe_field_path s),
     sr_DedupeWindowSeconds = (if src_dedupe_enabled s then src_dedupe_window s else 0)\<rparr>"

text \<open>The checks before anything is generated: a message, or none.\<close>

definition refuse_source :: "sourcesHandler \<Rightarrow> createSourceRequest \<Rightarrow> string option" where
  "refuse_source h req =
     (if cs_Name req = '''' \<or> cs_ProviderType req = '''' then Some ''name and provider_type are required''
      else case sh_catalog h (cs_ProviderType req) of
             None \<Rightarrow> if cs_ProviderType req \<noteq> ''none'' then Some (''unknown provider_type '' @ sh_Quote h (cs_ProviderType req))
                     else validateDedupe req
           | Some def \<Rightarrow> if vf_Type (df_Verification def) \<noteq> ''none'' \<and> cs_SigningSecret req = ''''
                         then Some ''signing_secret is required for this provider_type''
                         else validateDedupe req)"

text \<open>The columns of the new row.\<close>

definition source_row_params :: "createSourceRequest \<Rightarrow> string \<Rightarrow> (bytes \<times> int) option \<Rightarrow> source_params" where
  "source_row_params req path secret =
     \<lparr>sp_name = cs_Name req, sp_provider_type = cs_ProviderType req, sp_endpoint_path = path,
      sp_signing_secret = map_option fst secret, sp_key_version = map_option (int32_of \<circ> snd) secret,
      sp_verification_config = ''{}'', sp_dedupe_enabled = cs_DedupeEnabled req,
      sp_dedupe_strategy = (if cs_DedupeEnabled req then Some (cs_DedupeStrategy req) else None),
      sp_dedupe_field_path = (if cs_DedupeEnabled req \<and> cs_DedupeFieldPath req \<noteq> '''' then Some (cs_DedupeFieldPath req) else None),
      sp_dedupe_window = (if cs_DedupeWindowSeconds req = 0 then defaultDedupeWindowSeconds else cs_DedupeWindowSeconds req)\<rparr>"

text \<open>\<open>random\<close> and \<open>nonce\<close> are what \<^verbatim>\<open>rand.Read\<close> gives for the path and in \<^verbatim>\<open>Encrypt\<close>; \<open>None\<close> is its error.\<close>

definition create_source :: "sourcesHandler \<Rightarrow> bytes option \<Rightarrow> bytes option \<Rightarrow> bytes \<Rightarrow> world \<Rightarrow> sourceResponse reply \<times> world" where
  "create_source h random nonce body w =
     (case Decode_struct source_fields no_source body of
        None \<Rightarrow> (Problem 400 ''invalid JSON body'', w)
      | Some req \<Rightarrow>
          (case refuse_source h req of
             Some msg \<Rightarrow> (Problem 400 msg, w)
           | None \<Rightarrow>
               (case random of
                  None \<Rightarrow> (internal_error, w)
                | Some b \<Rightarrow>
                    (case (if cs_SigningSecret req \<noteq> '''' then map_option Some (Encrypt (sh_enc h) nonce (cs_SigningSecret req))
                           else Some None) of
                       None \<Rightarrow> (internal_error, w)
                     | Some secret \<Rightarrow>
                         or_500 (InsertSource DefaultTenantID (source_row_params req (generateEndpointPath b) secret) w) (\<lambda>src.
                           Reply 201 (toSourceResponse src))))))"

definition list_sources :: "world \<Rightarrow> sourceResponse list reply \<times> world" where
  "list_sources w = or_500 (ListSources DefaultTenantID w) (\<lambda>sources. Reply 200 (map toSourceResponse sources))"

record testEventResponse =
  te_EventID :: string
  te_Verified :: bool

definition testEvent :: "sourcesHandler \<Rightarrow> api_env \<Rightarrow> string \<Rightarrow> world \<Rightarrow> testEventResponse reply \<times> world" where
  "testEvent h env pathID w =
     (case parseUUID env pathID of
        None \<Rightarrow> (Problem 400 ''invalid source id'', w)
      | Some sid \<Rightarrow>
          (case GetSource sid DefaultTenantID w of
             (Inl NoRows, w1) \<Rightarrow> (Problem 404 ''source not found'', w1)
           | (Inl e, w1) \<Rightarrow> (internal_error, w1)
           | (Inr source, w1) \<Rightarrow>
               (case sh_catalog h (src_provider_type source) of
                  None \<Rightarrow> (Problem 400 (''provider_type '' @ sh_Quote h (src_provider_type source) @ '' has no test-event sample configured''), w1)
                | Some def \<Rightarrow>
                    if df_SamplePayload def = ''''
                    then (Problem 400 (''provider_type '' @ sh_Quote h (src_provider_type source) @ '' has no test-event sample configured''), w1)
                    else (case (case src_signing_secret source of
                                  None \<Rightarrow> Some [] | Some c \<Rightarrow> if c = [] then Some [] else Decrypt (sh_enc h) c) of
                            None \<Rightarrow> (internal_error, w1)
                          | Some secret \<Rightarrow>
                              (case Sign (w_now w1) def (df_SamplePayload def) secret of
                                 None \<Rightarrow> (internal_error, w1)
                               | Some headers \<Rightarrow>
                                   or_500 (ProcessEvent (sh_ingester h) source (df_SamplePayload def) headers w1) (\<lambda>(event, verified).
                                     Reply 200 \<lparr>te_EventID = uuidString (ier_id event), te_Verified = verified\<rparr>))))))"

subsection \<open>The providers\<close>

record providerResponse =
  pr_Slug :: string
  pr_Name :: string
  pr_Description :: string
  pr_VerificationType :: string
  pr_RequiresSecret :: bool

definition provider_of :: "Definition \<Rightarrow> providerResponse" where
  "provider_of def = \<lparr>pr_Slug = df_Slug def, pr_Name = df_Name def, pr_Description = df_Description def,
     pr_VerificationType = vf_Type (df_Verification def), pr_RequiresSecret = (vf_Type (df_Verification def) \<noteq> ''none'')\<rparr>"

text \<open>\<open>defs\<close> is the catalog in the order of the iteration; \<^verbatim>\<open>strings.Compare\<close> orders the bytes.\<close>

definition list_providers :: "Definition list \<Rightarrow> providerResponse list reply" where
  "list_providers defs = Reply 200 (sort_key pr_Name (map provider_of defs) @
     [\<lparr>pr_Slug = ''none'', pr_Name = ''None'', pr_Description = ''No signature verification. Events are stored unverified.'',
       pr_VerificationType = ''none'', pr_RequiresSecret = False\<rparr>])"

subsection \<open>What is created\<close>

text \<open>
  A source whose dedupe columns make sense: with dedupe on, a known strategy, a path where the strategy needs
  one, and a positive window; with dedupe off, no strategy and no path (the window is then not read, and the
  API does not check it).
\<close>

definition dedupe_ok :: "source \<Rightarrow> bool" where
  "dedupe_ok s \<longleftrightarrow>
     (if src_dedupe_enabled s
      then 0 < src_dedupe_window s \<and>
           (src_dedupe_strategy s = Some ''exact'' \<or>
            (src_dedupe_strategy s = Some ''field'' \<and> (case src_dedupe_field_path s of None \<Rightarrow> False | Some path \<Rightarrow> path \<noteq> '''')))
      else src_dedupe_strategy s = None \<and> src_dedupe_field_path s = None)"

text \<open>A source that verifies has a secret that opens, and it is not empty.\<close>

definition secret_ok :: "sourcesHandler \<Rightarrow> source \<Rightarrow> bool" where
  "secret_ok h s \<longleftrightarrow>
     (case sh_catalog h (src_provider_type s) of None \<Rightarrow> True
      | Some def \<Rightarrow> vf_Type (df_Verification def) = ''none'' \<or>
          (case src_signing_secret s of None \<Rightarrow> False
           | Some c \<Rightarrow> (case Decrypt (sh_enc h) c of None \<Rightarrow> False | Some secret \<Rightarrow> secret \<noteq> [])))"

definition source_ok :: "sourcesHandler \<Rightarrow> source \<Rightarrow> bool" where
  "source_ok h s \<longleftrightarrow> dedupe_ok s \<and> secret_ok h s"

lemma refuse_source_None:
  "refuse_source h req = None \<Longrightarrow> validateDedupe req = None \<and> cs_Name req \<noteq> '''' \<and>
     (case sh_catalog h (cs_ProviderType req) of None \<Rightarrow> cs_ProviderType req = ''none''
      | Some def \<Rightarrow> vf_Type (df_Verification def) = ''none'' \<or> cs_SigningSecret req \<noteq> '''')"
  by (auto simp: refuse_source_def split: if_splits option.splits)

text \<open>What the API lets through, the table's check constraints accept.\<close>

lemma validated_checks: "validateDedupe req = None \<Longrightarrow> dedupe_checks_ok (source_row_params req path secret)"
  by (auto simp: validateDedupe_def dedupe_checks_ok_def source_row_params_def split: if_splits)

lemma create_source_cases:
  assumes "create_source h random nonce body w = (r, w')"
  obtains (refused) status msg where "r = Problem status msg" "w_db w' = w_db w"
  | (created) req b secret src where "Decode_struct source_fields no_source body = Some req" "refuse_source h req = None"
      "random = Some b"
      "(if cs_SigningSecret req \<noteq> '''' then map_option Some (Encrypt (sh_enc h) nonce (cs_SigningSecret req)) else Some None) = Some secret"
      "InsertSource DefaultTenantID (source_row_params req (generateEndpointPath b) secret) w = (Inr src, w')"
      "r = Reply 201 (toSourceResponse src)"
proof (cases "Decode_struct source_fields no_source body")
  case None
  then have "r = Problem 400 ''invalid JSON body'' \<and> w' = w" using assms unfolding create_source_def by simp
  then show ?thesis using refused by simp
next
  case (Some req)
  show ?thesis
  proof (cases "refuse_source h req")
    case (Some msg)
    then have "r = Problem 400 msg \<and> w' = w"
      using assms \<open>Decode_struct source_fields no_source body = Some req\<close> unfolding create_source_def by simp
    then show ?thesis using refused by simp
  next
    case None
    let ?secret = "if cs_SigningSecret req \<noteq> '''' then map_option Some (Encrypt (sh_enc h) nonce (cs_SigningSecret req)) else Some None"
    note dec = \<open>Decode_struct source_fields no_source body = Some req\<close>
    show ?thesis
    proof (cases "random = None \<or> ?secret = None")
      case True
      then have "r = internal_error \<and> w' = w"
        using assms dec None unfolding create_source_def by (cases random; cases ?secret) simp_all
      then show ?thesis using refused by (simp add: internal_error_def)
    next
      case False
      then obtain b secret where b: "random = Some b" "?secret = Some secret" by auto
      obtain q w1 where ins: "InsertSource DefaultTenantID (source_row_params req (generateEndpointPath b) secret) w = (q, w1)"
        by (rule prod.exhaust)
      have run: "create_source h random nonce body w = or_500 (q, w1) (\<lambda>src. Reply 201 (toSourceResponse src))"
        unfolding create_source_def dec None b(1) b(2) option.case ins by (rule refl)
      show ?thesis
      proof (cases q)
        case (Inl e)
        then have "w_db w1 = w_db w" using ins by (auto simp: InsertSource_def dest: exec_Inl_db)
        then show ?thesis using run assms refused by (simp add: or_500_def Inl internal_error_def)
      next
        case (Inr src)
        then show ?thesis using run assms created [OF dec None b] ins by (simp add: or_500_def)
      qed
    qed
  qed
qed

lemma InsertSource_Inr:
  assumes "InsertSource tenant p w = (Inr s, w')"
  shows "src_name s = sp_name p \<and> src_provider_type s = sp_provider_type p \<and> src_endpoint_path s = sp_endpoint_path p \<and>
    src_signing_secret s = sp_signing_secret p \<and> src_dedupe_enabled s = sp_dedupe_enabled p \<and>
    src_dedupe_strategy s = sp_dedupe_strategy p \<and> src_dedupe_field_path s = sp_dedupe_field_path p \<and>
    src_dedupe_window s = sp_dedupe_window p \<and> src_tenant s = tenant \<and>
    src_endpoint_path s \<notin> src_endpoint_path ` set (db_sources (w_db w)) \<and>
    w_db w' = (w_db w)\<lparr>db_sources := db_sources (w_db w) @ [s]\<rparr>"
  using assms by (auto simp: InsertSource_def exec_Inr Let_def split: option.splits if_splits)

lemma Decrypt_Encrypt:
  assumes "length (enc_key e) = 32" "length n = nonce_size" "Encrypt e (Some n) p = Some (c, v)"
  shows "Decrypt e c = Some p"
  using assms gcm_Open_Seal [OF assms(1), of n p] by (auto simp: Encrypt_def Decrypt_def)

lemma created_ok:
  assumes req: "refuse_source h req = None"
    and secret: "(if cs_SigningSecret req \<noteq> '''' then map_option Some (Encrypt (sh_enc h) nonce (cs_SigningSecret req)) else Some None) = Some secret"
    and ins: "InsertSource DefaultTenantID (source_row_params req path secret) w = (Inr src, w')"
    and enc: "length (enc_key (sh_enc h)) = 32" "\<And>n. nonce = Some n \<Longrightarrow> length n = nonce_size"
  shows "source_ok h src"
proof -
  note r = refuse_source_None [OF req] and i = InsertSource_Inr [OF ins]
  have "dedupe_ok src" using r i
    by (auto simp: dedupe_ok_def source_row_params_def validateDedupe_def defaultDedupeWindowSeconds_def split: if_splits)
  moreover have "secret_ok h src"
  proof (cases "cs_SigningSecret req = ''''")
    case True
    with r i show ?thesis by (auto simp: secret_ok_def source_row_params_def split: option.splits)
  next
    case False
    then obtain n c v where n: "nonce = Some n" "Encrypt (sh_enc h) (Some n) (cs_SigningSecret req) = Some (c, v)"
      "secret = Some (c, v)"
      using secret by (cases nonce) (auto simp: Encrypt_def)
    have "Decrypt (sh_enc h) c = Some (cs_SigningSecret req)"
      by (rule Decrypt_Encrypt [OF enc(1) enc(2) [OF n(1)] n(2)])
    with n(3) False i show ?thesis by (auto simp: secret_ok_def source_row_params_def split: option.splits)
  qed
  ultimately show ?thesis by (simp add: source_ok_def)
qed

text \<open>
  C35. Stored sources are usable. If every stored source has a sensible dedupe configuration (with dedupe
  on, a known strategy, a field path where it is needed and a positive window; with dedupe off, no
  strategy) and, unless its provider does not verify, a secret that the gateway's key opens and that is not
  empty, then so has every source after a creation request with any body, whatever is answered. And a
  configuration the API lets through is never turned down by the table's CHECK constraints, so a bad one
  is answered with a 400 and not a 500. (The random source gives nonces of the length asked for.)
\<close>

theorem create_source_wf:
  assumes "list_all (source_ok h) (db_sources (w_db w))" and "create_source h random nonce body w = (r, w')"
    and "NewEncryptor key = Inr (sh_enc h)" and "\<And>n. nonce = Some n \<Longrightarrow> length n = nonce_size"
  shows "list_all (source_ok h) (db_sources (w_db w')) \<and>
    (\<forall>req path secret. refuse_source h req = None \<longrightarrow> dedupe_checks_ok (source_row_params req path secret))"
proof -
  have checks: "\<forall>req path secret. refuse_source h req = None \<longrightarrow> dedupe_checks_ok (source_row_params req path secret)"
    using refuse_source_None validated_checks by blast
  from assms(2) have "list_all (source_ok h) (db_sources (w_db w'))"
  proof (cases rule: create_source_cases)
    case refused
    then show ?thesis using assms(1) by simp
  next
    case (created req b secret src)
    have "source_ok h src"
      by (rule created_ok [OF created(2,4,5) NewEncryptor_key [OF assms(3)] assms(4)])
    then show ?thesis using assms(1) InsertSource_Inr [OF created(5)] by simp
  qed
  with checks show ?thesis by blast
qed

subsection \<open>The test event\<close>

text \<open>The definitions whose timestamp fields fit the header's syntax.\<close>

definition signable :: "Definition \<Rightarrow> bool" where
  "signable d \<longleftrightarrow> validate d = None \<and>
     (case vf_Timestamp (df_Verification d) of None \<Rightarrow> True
      | Some t \<Rightarrow> plain_field (tss_TimestampField t) \<and> plain_field (tss_SignatureField t) \<and>
          tss_TimestampField t \<noteq> tss_SignatureField t \<and> 0 \<le> tss_ToleranceSeconds t)"

lemma GetSource_Inr:
  "GetSource sid tenant w = (Inr s, w') \<Longrightarrow> s \<in> set (db_sources (w_db w)) \<and> src_id s = sid \<and> src_tenant s = tenant \<and> w' = tick w"
  unfolding GetSource_def query_Inr by (auto dest!: one_row_Inr)

lemma testEvent_cases:
  assumes "testEvent h env pathID w = (Reply status x, w')"
  obtains sid s def secret headers row v where
    "parseUUID env pathID = Some sid" "GetSource sid DefaultTenantID w = (Inr s, tick w)"
    "sh_catalog h (src_provider_type s) = Some def" "df_SamplePayload def \<noteq> ''''"
    "(case src_signing_secret s of None \<Rightarrow> Some [] | Some c \<Rightarrow> if c = [] then Some [] else Decrypt (sh_enc h) c) = Some secret"
    "Sign (w_now w) def (df_SamplePayload def) secret = Some headers"
    "ProcessEvent (sh_ingester h) s (df_SamplePayload def) headers (tick w) = (Inr (row, v), w')"
    "x = \<lparr>te_EventID = uuidString (ier_id row), te_Verified = v\<rparr>"
proof -
  obtain sid where sid: "parseUUID env pathID = Some sid"
    using assms by (cases "parseUUID env pathID") (auto simp: testEvent_def)
  obtain s where s: "GetSource sid DefaultTenantID w = (Inr s, tick w)"
    using assms sid by (auto simp: testEvent_def internal_error_def split: prod.splits sum.splits db_error.splits dest: GetSource_Inr)
  obtain def where def: "sh_catalog h (src_provider_type s) = Some def" "df_SamplePayload def \<noteq> ''''"
    using assms sid s by (cases "sh_catalog h (src_provider_type s)") (auto simp: testEvent_def split: if_splits)
  let ?sec = "case src_signing_secret s of None \<Rightarrow> Some [] | Some c \<Rightarrow> if c = [] then Some [] else Decrypt (sh_enc h) c"
  obtain secret where sec: "?sec = Some secret"
    using assms sid s def by (cases ?sec) (simp_all add: testEvent_def internal_error_def)
  obtain headers where hd: "Sign (w_now w) def (df_SamplePayload def) secret = Some headers"
    using assms sid s def sec by (cases "Sign (w_now w) def (df_SamplePayload def) secret") (simp_all add: testEvent_def internal_error_def)
  obtain q w1 where q: "ProcessEvent (sh_ingester h) s (df_SamplePayload def) headers (tick w) = (q, w1)" by (rule prod.exhaust)
  with assms sid s def sec hd obtain row v where "q = Inr (row, v)" "w1 = w'"
    "x = \<lparr>te_EventID = uuidString (ier_id row), te_Verified = v\<rparr>"
    by (cases q) (auto simp: testEvent_def or_500_def internal_error_def)
  with sid s def sec hd q show thesis using that by simp
qed

lemma signed_sample_verifies:
  assumes d: "signable d" and now: "0 \<le> Unix now" "Unix now < 2 ^ 62"
    and key: "vf_Type (df_Verification d) = ''none'' \<or> secret \<noteq> []" and sgn: "Sign now d body secret = Some headers"
  shows "Verify now d body headers secret = Some True"
proof -
  have "\<exists>hd. Sign now d body secret = Some hd \<and> Verify now d body hd secret = Some True"
    by (rule Sign_Verify) (use d now key in \<open>auto simp: signable_def\<close>)
  with sgn show ?thesis by auto
qed

text \<open>
  A test event always verifies: when the test-event endpoint answers, the provider's sample payload was
  signed with the source's own secret, went through the ingest path like a webhook (one new event with the
  sample verbatim, and exactly the deliveries its verdict asks for), and its signature was accepted, for every
  scheme of the catalog, for every source with a usable secret. (The handler and the ingest path share the
  encryptor and the catalog; the clock is between 1970 and 2^62 seconds after, and does not leave the
  second in which the sample is signed.)
\<close>

theorem test_event_verified:
  assumes run: "testEvent h env pathID w = (Reply status x, w')"
    and ok: "list_all (source_ok h) (db_sources (w_db w))" and pk: "dedup_pk (w_db w)"
    and shared: "sh_enc h = h_enc (sh_ingester h)" "sh_catalog h = h_catalog (sh_ingester h)"
    and cat: "\<And>slug d. sh_catalog h slug = Some d \<Longrightarrow> signable d"
    and now: "0 \<le> Unix (w_now w)" "Unix (w_now w) < 2 ^ 62"
  shows "te_Verified x \<and>
    (\<exists>s def headers e. s \<in> set (db_sources (w_db w)) \<and> parseUUID env pathID = Some (src_id s) \<and>
       sh_catalog h (src_provider_type s) = Some def \<and> te_EventID x = uuidString (ev_id e) \<and>
       processed (w_pg w) (sh_ingester h) (w_now w) s (df_SamplePayload def) headers (w_db w) e (w_db w'))"
  using run
proof (cases rule: testEvent_cases)
  case (1 sid s def secret headers row v)
  note s = GetSource_Inr [OF 1(2)]
  have "secret_ok h s" using ok s by (simp add: list_all_iff source_ok_def)
  moreover have "Decrypt (sh_enc h) [] = None" by (simp add: Decrypt_def nonce_size_def)
  ultimately have key: "vf_Type (df_Verification def) = ''none'' \<or> secret \<noteq> []"
    using 1(3,5) by (auto simp: secret_ok_def split: option.splits if_splits)
  have ver: "verify (sh_ingester h) (w_now w) s (df_SamplePayload def) headers"
    using signed_sample_verifies [OF cat [OF 1(3)] now key 1(6)] 1(3) 1(5) [unfolded shared(1)]
    by (simp add: verify_def shared)
  have "dedup_pk (w_db (tick w))" using pk by simp
  then obtain e where e: "processed (w_pg w) (sh_ingester h) (w_now w) s (df_SamplePayload def) headers (w_db w) e (w_db w')"
    "ev_id e = ier_id row" "v = ev_verified e"
    using ProcessEvent_processed [OF 1(7)] by auto
  have "v" using e ver by (simp add: processed_def stored_as_def)
  moreover have "\<exists>e. te_EventID x = uuidString (ev_id e) \<and>
      processed (w_pg w) (sh_ingester h) (w_now w) s (df_SamplePayload def) headers (w_db w) e (w_db w')"
    using e 1(8) by (intro exI [of _ e]) simp
  moreover have "s \<in> set (db_sources (w_db w))" "parseUUID env pathID = Some (src_id s)" "te_Verified x = v"
    using s 1(1,8) by simp_all
  ultimately show ?thesis using 1(3) by blast
qed

subsection \<open>A source on the example database\<close>

definition stripe_body :: bytes where
  "stripe_body = marshal_object [(''name'', marshal_string ''pay''), (''provider_type'', marshal_string ''stripe''),
     (''signing_secret'', marshal_string ''whsec'')]"

definition stripe_request :: createSourceRequest where
  "stripe_request = no_source\<lparr>cs_Name := ''pay'', cs_ProviderType := ''stripe'', cs_SigningSecret := ''whsec''\<rparr>"

definition sources_example :: sourcesHandler where
  "sources_example = \<lparr>sh_enc = h_enc handler_example, sh_catalog = [''stripe'' \<mapsto> stripe_example],
     sh_ingester = handler_example\<lparr>h_catalog := [''stripe'' \<mapsto> stripe_example]\<rparr>, sh_Quote = (\<lambda>s. s)\<rparr>"

definition empty_world :: world where
  "empty_world = world_example\<lparr>w_db := empty_db\<rparr>"

definition stripe_source :: source where
  "stripe_source = \<lparr>src_id = 100, src_tenant = DefaultTenantID, src_name = ''pay'', src_provider_type = ''stripe'',
     src_endpoint_path = generateEndpointPath (replicate 16 CHR ''p''),
     src_signing_secret = Some (replicate 12 CHR ''n'' @ gcm_Seal (replicate 32 CHR ''k'') (replicate 12 CHR ''n'') ''whsec''),
     src_key_version = Some 1, src_verification_config = ''{}'', src_dedupe_enabled = False, src_dedupe_strategy = None,
     src_dedupe_field_path = None, src_dedupe_window = 300, src_paused_at = None, src_created_at = 0, src_updated_at = 0\<rparr>"

definition stripe_world :: world where
  "stripe_world = (tick empty_world)\<lparr>w_db := empty_db\<lparr>db_sources := [stripe_source]\<rparr>\<rparr>"

lemma stripe_body_decoded: "Decode_struct source_fields no_source stripe_body = Some stripe_request"
proof -
  let ?kvs = "[(''name'', ''pay''), (''provider_type'', ''stripe''), (''signing_secret'', ''whsec'')]"
  have b: "stripe_body = marshal_object (map (\<lambda>(k, v). (k, marshal_string v)) ?kvs)" by (simp add: stripe_body_def)
  show ?thesis unfolding b
    by (subst Decode_texts) (simp_all add: ascii_text_def set_text_def source_fields_def string_field_def no_source_def stripe_request_def)
qed

lemma stripe_created: "create_source sources_example (Some (replicate 16 CHR ''p'')) (Some (replicate 12 CHR ''n'')) stripe_body empty_world =
    (Reply 201 (toSourceResponse stripe_source), stripe_world)"
proof -
  have ok: "refuse_source sources_example stripe_request = None"
    by (simp add: refuse_source_def stripe_request_def no_source_def sources_example_def stripe_example_def validateDedupe_def)
  let ?c = "replicate 12 CHR ''n'' @ gcm_Seal (replicate 32 CHR ''k'') (replicate 12 CHR ''n'') ''whsec''"
  have e: "Encrypt (sh_enc sources_example) (Some (replicate 12 CHR ''n'')) (cs_SigningSecret stripe_request) = Some (?c, 1)"
    by (simp add: Encrypt_def sources_example_def handler_example_def stripe_request_def)
  have "InsertSource DefaultTenantID (source_row_params stripe_request (generateEndpointPath (replicate 16 CHR ''p'')) (Some (?c, 1))) empty_world =
      (Inr stripe_source, stripe_world)"
    by (simp add: InsertSource_def exec_def source_row_params_def stripe_request_def no_source_def dedupe_checks_ok_def
        stripe_source_def stripe_world_def empty_world_def world_example_def pg_example_def empty_db_def Let_def
        defaultDedupeWindowSeconds_def text_opt_def int32_of_def)
  then show ?thesis unfolding create_source_def stripe_body_decoded
    by (simp add: ok e or_500_def) (simp add: stripe_request_def)
qed

lemma stripe_key: "NewEncryptor (b64_std_Encode (replicate 32 CHR ''k'')) = Inr (sh_enc sources_example)"
  by (simp add: NewEncryptor_def b64_std_Decode_Encode sources_example_def handler_example_def CurrentKeyVersion_def)

theorem create_source_wf_witness: "list_all (source_ok sources_example) (db_sources (w_db stripe_world))"
proof -
  have none: "list_all (source_ok sources_example) (db_sources (w_db empty_world))" by (simp add: empty_world_def empty_db_def)
  have n: "length n = nonce_size" if "Some (replicate 12 CHR ''n'') = Some n" for n
    using that by (auto simp: nonce_size_def)
  show ?thesis using create_source_wf [OF none stripe_created stripe_key n] by (rule conjunct1)
qed

lemma stripe_signable: "sh_catalog sources_example slug = Some d \<Longrightarrow> signable d"
  by (auto simp: sources_example_def signable_def stripe_example_valid split: if_splits)
    (auto simp: stripe_example_def plain_field_def graphic_def)

definition sources_env :: api_env where
  "sources_env = \<lparr>e_Scan = scan_uuid, e_ParseTime = (\<lambda>_. None), e_UnmarshalTime = (\<lambda>_. None),
     e_MarshalTime = (\<lambda>_. None), e_ParseURL = (\<lambda>_. None)\<rparr>"

lemma healthy_stripe: "healthy T 14 (tick stripe_world)"
proof -
  have "healthy T 14 world_example" by (rule healthy_example)
  then show ?thesis by (simp add: healthy_def stripe_world_def empty_world_def empty_db_def tick_def world_example_def inj_on_def)
qed

theorem test_event_verified_witness:
  "\<exists>x w'. testEvent sources_example sources_env (uuidString 100) stripe_world = (Reply 200 x, w') \<and> te_Verified x"
proof -
  let ?s = stripe_source and ?h = sources_example and ?i = "sh_ingester sources_example"
  have dec: "Decrypt (sh_enc ?h) (replicate 12 CHR ''n'' @ gcm_Seal (replicate 32 CHR ''k'') (replicate 12 CHR ''n'') ''whsec'') = Some ''whsec''"
    by (rule Decrypt_Encrypt [of _ "replicate 12 CHR ''n''" _ _ 1])
      (simp_all add: sources_example_def handler_example_def nonce_size_def Encrypt_def)
  have "source_ok ?h ?s"
    using dec by (simp add: source_ok_def dedupe_ok_def secret_ok_def stripe_source_def sources_example_def)
  then have ok: "list_all (source_ok ?h) (db_sources (w_db stripe_world))" by (simp add: stripe_world_def)
  have now: "w_now stripe_world = 0" by (simp add: stripe_world_def empty_world_def world_example_def)
  have unix: "Unix 0 = 0" by (simp add: Unix_def second_def)
  have cat: "sh_catalog ?h (src_provider_type ?s) = Some stripe_example"
    by (simp add: sources_example_def stripe_source_def)
  obtain headers where hd: "Sign 0 stripe_example ''{}'' ''whsec'' = Some headers"
    by (auto simp: Sign_def signHMAC_def stripe_example_def Let_def encodeSignature_def)
  have get: "GetSource 100 DefaultTenantID stripe_world = (Inr ?s, tick stripe_world)"
    by (simp add: GetSource_def query_Inr stripe_world_def empty_world_def world_example_def pg_example_def stripe_source_def)
  have d: "w_db (tick stripe_world) = empty_db\<lparr>db_sources := [?s]\<rparr>" "w_pg (tick stripe_world) = pg_example"
    "w_step (tick stripe_world) = 2"
    by (simp_all add: stripe_world_def empty_world_def world_example_def tick_def)
  have "\<exists>rv w'. ProcessEvent ?i ?s ''{}'' headers (tick stripe_world) = (Inr rv, w')"
    by (rule healthy_ProcessEvent [OF healthy_stripe [of UNIV]])
      (simp_all only: d, simp_all add: max_targets_def empty_db_def pg_example_def)
  then obtain row v w' where pe: "ProcessEvent ?i ?s ''{}'' headers (tick stripe_world) = (Inr (row, v), w')" by auto
  have sample: "df_SamplePayload stripe_example = ''{}''" by (simp add: stripe_example_def)
  have sec: "src_signing_secret ?s = Some (replicate 12 CHR ''n'' @ gcm_Seal (replicate 32 CHR ''k'') (replicate 12 CHR ''n'') ''whsec'')"
    by (simp add: stripe_source_def)
  have run: "testEvent ?h sources_env (uuidString 100) stripe_world =
      (Reply 200 \<lparr>te_EventID = uuidString (ier_id row), te_Verified = v\<rparr>, w')"
    using get cat sample dec hd pe now
    by (simp add: testEvent_def parseUUID_def sources_env_def scan_uuidString sec or_500_def)
  have pk: "dedup_pk (w_db stripe_world)" by (simp add: stripe_world_def empty_db_def dedup_pk_def)
  have sh: "sh_enc ?h = h_enc ?i" "sh_catalog ?h = h_catalog ?i" by (simp_all add: sources_example_def handler_example_def)
  have t: "0 \<le> Unix (w_now stripe_world)" "Unix (w_now stripe_world) < 2 ^ 62" by (simp_all add: now unix)
  have "te_Verified \<lparr>te_EventID = uuidString (ier_id row), te_Verified = v\<rparr>"
    using test_event_verified [OF run ok pk sh stripe_signable t] by (rule conjunct1)
  with run show ?thesis by blast
qed

end
