(* ===== verification/Routing_Api.thy ===== *)
theory Routing_Api
  imports Api_Base Rules Delivery
begin

text \<open>
  The management of what goes where: destinations (\<^verbatim>\<open>internal/api/destinations.go\<close>), routes
  (\<^verbatim>\<open>internal/api/routes.go\<close>) and rules (\<^verbatim>\<open>internal/api/rules.go\<close>). The handlers as functions of the request,
  the environment and the store; then what they keep true of the stored rows, what a pause means for the
  delivery worker, and the routing table they implement.
\<close>

subsection \<open>Destinations\<close>

definition defaultTimeoutMs :: int where "defaultTimeoutMs = 10000"
definition defaultMaxAttempts :: int where "defaultMaxAttempts = 16"
definition defaultBackoffBaseSeconds :: int where "defaultBackoffBaseSeconds = 30"
definition defaultBackoffMaxSeconds :: int where "defaultBackoffMaxSeconds = 43200"

record destinationRequest =
  dq_Name :: string
  dq_URL :: string
  dq_AuthConfig :: "bytes option"
  dq_TimeoutMs :: int
  dq_RateLimitPerSecond :: "int option"
  dq_MaxAttempts :: int
  dq_BackoffBaseSeconds :: int
  dq_BackoffMaxSeconds :: int

definition destination_fields :: "(string \<times> destinationRequest field) list" where
  "destination_fields = [(''name'', string_field dq_Name_update), (''url'', string_field dq_URL_update),
     (''auth_config'', raw_field dq_AuthConfig_update), (''timeout_ms'', int32_field dq_TimeoutMs_update),
     (''rate_limit_per_second'', int32_ptr dq_RateLimitPerSecond_update), (''max_attempts'', int32_field dq_MaxAttempts_update),
     (''backoff_base_seconds'', int32_field dq_BackoffBaseSeconds_update),
     (''backoff_max_seconds'', int32_field dq_BackoffMaxSeconds_update)]"

definition no_destination :: destinationRequest where
  "no_destination = \<lparr>dq_Name = '''', dq_URL = '''', dq_AuthConfig = None, dq_TimeoutMs = 0, dq_RateLimitPerSecond = None,
     dq_MaxAttempts = 0, dq_BackoffBaseSeconds = 0, dq_BackoffMaxSeconds = 0\<rparr>"

record destinationResponse =
  dsr_ID :: string
  dsr_Name :: string
  dsr_URL :: string
  dsr_AuthConfig :: bytes
  dsr_TimeoutMs :: int
  dsr_RateLimitPerSecond :: "int option"
  dsr_MaxAttempts :: int
  dsr_BackoffBaseSeconds :: int
  dsr_BackoffMaxSeconds :: int
  dsr_Paused :: bool
  dsr_CreatedAt :: time
  dsr_UpdatedAt :: time

definition toDestinationResponse :: "destination \<Rightarrow> destinationResponse" where
  "toDestinationResponse d = \<lparr>dsr_ID = uuidString (dst_id d), dsr_Name = dst_name d, dsr_URL = dst_url d,
     dsr_AuthConfig = dst_auth_config d, dsr_TimeoutMs = dst_timeout_ms d, dsr_RateLimitPerSecond = dst_rate_limit d,
     dsr_MaxAttempts = dst_max_attempts d, dsr_BackoffBaseSeconds = dst_backoff_base d,
     dsr_BackoffMaxSeconds = dst_backoff_max d, dsr_Paused = (dst_paused_at d \<noteq> None), dsr_CreatedAt = dst_created_at d,
     dsr_UpdatedAt = dst_updated_at d\<rparr>"

text \<open>\<open>Inl msg\<close> is a refusal; a valid request is given as the columns it sets.\<close>

definition zero_default :: "int \<Rightarrow> int \<Rightarrow> int" where
  "zero_default n d = (if n = 0 then d else n)"

definition decodeDestinationRequest :: "api_env \<Rightarrow> bytes \<Rightarrow> string + destination_params" where
  "decodeDestinationRequest env body =
     (case Decode_struct destination_fields no_destination body of
        None \<Rightarrow> Inl ''invalid JSON body''
      | Some req \<Rightarrow>
          if dq_Name req = '''' then Inl ''name is required''
          else (case e_ParseURL env (dq_URL req) of
                  None \<Rightarrow> Inl ''url must be a valid http(s) URL''
                | Some (scheme, host) \<Rightarrow>
                    if scheme \<noteq> ''http'' \<and> scheme \<noteq> ''https'' \<or> host = '''' then Inl ''url must be a valid http(s) URL''
                    else if (case dq_RateLimitPerSecond req of None \<Rightarrow> False | Some r \<Rightarrow> r \<le> 0)
                    then Inl ''rate_limit_per_second must be positive if set''
                    else Inr \<lparr>dp_name = dq_Name req, dp_url = dq_URL req,
                           dp_auth_config = (case dq_AuthConfig req of None \<Rightarrow> ''{}'' | Some c \<Rightarrow> c),
                           dp_timeout_ms = zero_default (dq_TimeoutMs req) defaultTimeoutMs,
                           dp_rate_limit = dq_RateLimitPerSecond req,
                           dp_max_attempts = zero_default (dq_MaxAttempts req) defaultMaxAttempts,
                           dp_backoff_base = zero_default (dq_BackoffBaseSeconds req) defaultBackoffBaseSeconds,
                           dp_backoff_max = zero_default (dq_BackoffMaxSeconds req) defaultBackoffMaxSeconds\<rparr>))"

definition create_destination :: "api_env \<Rightarrow> bytes \<Rightarrow> world \<Rightarrow> destinationResponse reply \<times> world" where
  "create_destination env body w =
     (case decodeDestinationRequest env body of
        Inl msg \<Rightarrow> (Problem 400 msg, w)
      | Inr p \<Rightarrow> or_500 (InsertDestination DefaultTenantID p w) (\<lambda>dest. Reply 201 (toDestinationResponse dest)))"

definition list_destinations :: "world \<Rightarrow> destinationResponse list reply \<times> world" where
  "list_destinations w = or_500 (ListDestinations DefaultTenantID w) (\<lambda>dests. Reply 200 (map toDestinationResponse dests))"

text \<open>The handlers that take the id of a destination from the path.\<close>

definition with_id :: "api_env \<Rightarrow> string \<Rightarrow> string \<Rightarrow> (uuid \<Rightarrow> world \<Rightarrow> 'a reply \<times> world) \<Rightarrow> world \<Rightarrow> 'a reply \<times> world" where
  "with_id env pathID msg k w = (case parseUUID env pathID of None \<Rightarrow> (Problem 400 msg, w) | Some x \<Rightarrow> k x w)"

definition get_destination :: "api_env \<Rightarrow> string \<Rightarrow> world \<Rightarrow> destinationResponse reply \<times> world" where
  "get_destination env pathID = with_id env pathID ''invalid destination id'' (\<lambda>did w.
     or_404 ''destination not found'' (GetDestination did DefaultTenantID w) (\<lambda>dest. Reply 200 (toDestinationResponse dest)))"

definition update_destination_api :: "api_env \<Rightarrow> string \<Rightarrow> bytes \<Rightarrow> world \<Rightarrow> destinationResponse reply \<times> world" where
  "update_destination_api env pathID body = with_id env pathID ''invalid destination id'' (\<lambda>did w.
     case decodeDestinationRequest env body of
       Inl msg \<Rightarrow> (Problem 400 msg, w)
     | Inr p \<Rightarrow> or_404 ''destination not found'' (UpdateDestination did DefaultTenantID p w) (\<lambda>dest.
         Reply 200 (toDestinationResponse dest)))"

definition delete_destination :: "api_env \<Rightarrow> string \<Rightarrow> world \<Rightarrow> unit reply \<times> world" where
  "delete_destination env pathID = with_id env pathID ''invalid destination id'' (\<lambda>did w.
     or_500 (DeleteDestination did DefaultTenantID w) (\<lambda>n.
       if n = 0 then Problem 404 ''destination not found'' else NoContent))"

definition pause :: "api_env \<Rightarrow> string \<Rightarrow> world \<Rightarrow> destinationResponse reply \<times> world" where
  "pause env pathID = with_id env pathID ''invalid destination id'' (\<lambda>did w.
     or_404 ''destination not found'' (PauseDestination did DefaultTenantID w) (\<lambda>dest. Reply 200 (toDestinationResponse dest)))"

definition resume :: "api_env \<Rightarrow> string \<Rightarrow> world \<Rightarrow> destinationResponse reply \<times> world" where
  "resume env pathID = with_id env pathID ''invalid destination id'' (\<lambda>did w.
     or_404 ''destination not found'' (ResumeDestination did DefaultTenantID w) (\<lambda>dest. Reply 200 (toDestinationResponse dest)))"

subsection \<open>Routes\<close>

record createRouteRequest =
  cr_SourceID :: string
  cr_DestinationID :: string
  cr_Enabled :: "bool option"

definition route_fields :: "(string \<times> createRouteRequest field) list" where
  "route_fields = [(''source_id'', string_field cr_SourceID_update), (''destination_id'', string_field cr_DestinationID_update),
     (''enabled'', bool_ptr cr_Enabled_update)]"

record updateRouteRequest =
  urr_Enabled :: bool

record routeResponse =
  rr_ID :: string
  rr_SourceID :: string
  rr_DestinationID :: string
  rr_Enabled :: bool
  rr_CreatedAt :: time

definition toRouteResponse :: "route \<Rightarrow> routeResponse" where
  "toRouteResponse r = \<lparr>rr_ID = uuidString (rt_id r), rr_SourceID = uuidString (rt_source r),
     rr_DestinationID = uuidString (rt_destination r), rr_Enabled = rt_enabled r, rr_CreatedAt = rt_created_at r\<rparr>"

definition create_route :: "api_env \<Rightarrow> bytes \<Rightarrow> world \<Rightarrow> routeResponse reply \<times> world" where
  "create_route env body w =
     (case Decode_struct route_fields \<lparr>cr_SourceID = '''', cr_DestinationID = '''', cr_Enabled = None\<rparr> body of
        None \<Rightarrow> (Problem 400 ''invalid JSON body'', w)
      | Some req \<Rightarrow>
          (case parseUUID env (cr_SourceID req) of
             None \<Rightarrow> (Problem 400 ''source_id must be a valid UUID'', w)
           | Some sid \<Rightarrow>
               (case parseUUID env (cr_DestinationID req) of
                  None \<Rightarrow> (Problem 400 ''destination_id must be a valid UUID'', w)
                | Some did \<Rightarrow>
                    (let enabled = (case cr_Enabled req of None \<Rightarrow> True | Some b \<Rightarrow> b) in
                     case InsertRoute DefaultTenantID sid did enabled w of
                       (Inl UniqueViolation, w1) \<Rightarrow> (Problem 409 ''route already exists for this source/destination pair'', w1)
                     | (Inl ForeignKeyViolation, w1) \<Rightarrow> (Problem 400 ''source_id or destination_id does not exist'', w1)
                     | (Inl e, w1) \<Rightarrow> (internal_error, w1)
                     | (Inr route, w1) \<Rightarrow> (Reply 201 (toRouteResponse route), w1)))))"

definition list_routes :: "api_env \<Rightarrow> url_values \<Rightarrow> world \<Rightarrow> routeResponse list reply \<times> world" where
  "list_routes env q w =
     (case param q ''source_id'' (parseUUID env) ''source_id must be a valid UUID'' of
        Inl msg \<Rightarrow> (Problem 400 msg, w)
      | Inr sid \<Rightarrow>
          (case param q ''destination_id'' (parseUUID env) ''destination_id must be a valid UUID'' of
             Inl msg \<Rightarrow> (Problem 400 msg, w)
           | Inr did \<Rightarrow> or_500 (ListRoutes DefaultTenantID sid did w) (\<lambda>routes. Reply 200 (map toRouteResponse routes))))"

definition update_route :: "api_env \<Rightarrow> string \<Rightarrow> bytes \<Rightarrow> world \<Rightarrow> routeResponse reply \<times> world" where
  "update_route env pathID body = with_id env pathID ''invalid route id'' (\<lambda>rid w.
     case Decode_struct [(''enabled'', bool_field urr_Enabled_update)] \<lparr>urr_Enabled = False\<rparr> body of
       None \<Rightarrow> (Problem 400 ''invalid JSON body'', w)
     | Some req \<Rightarrow> or_404 ''route not found'' (UpdateRouteEnabled rid DefaultTenantID (urr_Enabled req) w) (\<lambda>route.
         Reply 200 (toRouteResponse route)))"

definition delete_route :: "api_env \<Rightarrow> string \<Rightarrow> world \<Rightarrow> unit reply \<times> world" where
  "delete_route env pathID = with_id env pathID ''invalid route id'' (\<lambda>rid w.
     or_500 (DeleteRoute rid DefaultTenantID w) (\<lambda>n. if n = 0 then Problem 404 ''route not found'' else NoContent))"

subsection \<open>Rules\<close>

text \<open>cel-go, and the text of the error it gives for an expression that does not compile.\<close>

record rulesHandler =
  rh_cel :: cel
  rh_CompileError :: "string \<Rightarrow> string"

record ruleRequest =
  rlq_SourceID :: string
  rlq_Name :: string
  rlq_Expression :: string
  rlq_Action :: string
  rlq_RouteDestinationIDs :: "string list"
  rlq_Priority :: "int option"
  rlq_Enabled :: "bool option"

definition rule_fields :: "(string \<times> ruleRequest field) list" where
  "rule_fields = [(''source_id'', string_field rlq_SourceID_update), (''name'', string_field rlq_Name_update),
     (''expression'', string_field rlq_Expression_update), (''action'', string_field rlq_Action_update),
     (''route_destination_ids'', strings_field rlq_RouteDestinationIDs rlq_RouteDestinationIDs_update),
     (''priority'', int32_ptr rlq_Priority_update), (''enabled'', bool_ptr rlq_Enabled_update)]"

definition no_rule :: ruleRequest where
  "no_rule = \<lparr>rlq_SourceID = '''', rlq_Name = '''', rlq_Expression = '''', rlq_Action = '''', rlq_RouteDestinationIDs = [],
     rlq_Priority = None, rlq_Enabled = None\<rparr>"

record ruleResponse =
  rlr_ID :: string
  rlr_SourceID :: string
  rlr_Name :: string
  rlr_Expression :: string
  rlr_Action :: string
  rlr_RouteDestinationIDs :: "string list"
  rlr_Priority :: int
  rlr_Enabled :: bool
  rlr_CreatedAt :: time
  rlr_UpdatedAt :: time

definition toRuleResponse :: "rule \<Rightarrow> ruleResponse" where
  "toRuleResponse r = \<lparr>rlr_ID = uuidString (ru_id r), rlr_SourceID = uuidString (ru_source r), rlr_Name = ru_name r,
     rlr_Expression = ru_expression r, rlr_Action = ru_action r, rlr_RouteDestinationIDs = map uuidString (ru_route_dests r),
     rlr_Priority = ru_priority r, rlr_Enabled = ru_enabled r, rlr_CreatedAt = ru_created_at r, rlr_UpdatedAt = ru_updated_at r\<rparr>"

text \<open>\<open>Inl\<close> is the problem; otherwise the columns to store.\<close>

definition validate_rule :: "rulesHandler \<Rightarrow> api_env \<Rightarrow> ruleRequest \<Rightarrow> string + rule_params" where
  "validate_rule h env req =
     (if rlq_Name req = '''' then Inl ''name is required''
      else if rlq_Expression req = '''' then Inl ''expression is required''
      else if \<not> Validate (rh_cel h) (rlq_Expression req)
      then Inl (''expression does not compile: '' @ rh_CompileError h (rlq_Expression req))
      else if rlq_Action req \<noteq> ActionDrop \<and> rlq_Action req \<noteq> ActionRoute then Inl ''action must be \"drop\" or \"route\"''
      else (case those (map (parseUUID env) (rlq_RouteDestinationIDs req)) of
              None \<Rightarrow> Inl ''route_destination_ids must all be valid UUIDs''
            | Some dests \<Rightarrow>
                if rlq_Action req = ActionRoute \<and> dests = []
                then Inl ''route_destination_ids is required when action is route''
                else Inr \<lparr>rq_name = rlq_Name req, rq_expression = rlq_Expression req, rq_action = rlq_Action req,
                       rq_dests = (if rlq_Action req = ActionDrop then [] else dests),
                       rq_priority = (case rlq_Priority req of None \<Rightarrow> 100 | Some p \<Rightarrow> p),
                       rq_enabled = (case rlq_Enabled req of None \<Rightarrow> True | Some b \<Rightarrow> b)\<rparr>))"

definition create_rule :: "rulesHandler \<Rightarrow> api_env \<Rightarrow> bytes \<Rightarrow> world \<Rightarrow> ruleResponse reply \<times> world" where
  "create_rule h env body w =
     (case Decode_struct rule_fields no_rule body of
        None \<Rightarrow> (Problem 400 ''invalid JSON body'', w)
      | Some req \<Rightarrow>
          (case parseUUID env (rlq_SourceID req) of
             None \<Rightarrow> (Problem 400 ''source_id must be a valid UUID'', w)
           | Some sid \<Rightarrow>
               (case validate_rule h env req of
                  Inl problem \<Rightarrow> (Problem 400 problem, w)
                | Inr p \<Rightarrow>
                    (case InsertRule DefaultTenantID sid p w of
                       (Inl ForeignKeyViolation, w1) \<Rightarrow> (Problem 400 ''source_id does not exist'', w1)
                     | (Inl e, w1) \<Rightarrow> (internal_error, w1)
                     | (Inr rule, w1) \<Rightarrow> (Reply 201 (toRuleResponse rule), w1)))))"

definition list_rules :: "world \<Rightarrow> ruleResponse list reply \<times> world" where
  "list_rules w = or_500 (ListRules DefaultTenantID w) (\<lambda>rules. Reply 200 (map toRuleResponse rules))"

definition get_rule :: "api_env \<Rightarrow> string \<Rightarrow> world \<Rightarrow> ruleResponse reply \<times> world" where
  "get_rule env pathID = with_id env pathID ''invalid rule id'' (\<lambda>rid w.
     or_404 ''rule not found'' (GetRule rid DefaultTenantID w) (\<lambda>rule. Reply 200 (toRuleResponse rule)))"

definition update_rule :: "rulesHandler \<Rightarrow> api_env \<Rightarrow> string \<Rightarrow> bytes \<Rightarrow> world \<Rightarrow> ruleResponse reply \<times> world" where
  "update_rule h env pathID body = with_id env pathID ''invalid rule id'' (\<lambda>rid w.
     case Decode_struct rule_fields no_rule body of
       None \<Rightarrow> (Problem 400 ''invalid JSON body'', w)
     | Some req \<Rightarrow>
         (case validate_rule h env req of
            Inl problem \<Rightarrow> (Problem 400 problem, w)
          | Inr p \<Rightarrow> or_404 ''rule not found'' (UpdateRule rid DefaultTenantID p w) (\<lambda>rule. Reply 200 (toRuleResponse rule))))"

definition delete_rule :: "api_env \<Rightarrow> string \<Rightarrow> world \<Rightarrow> unit reply \<times> world" where
  "delete_rule env pathID = with_id env pathID ''invalid rule id'' (\<lambda>rid w.
     or_500 (DeleteRule rid DefaultTenantID w) (\<lambda>n. if n = 0 then Problem 404 ''rule not found'' else NoContent))"

subsection \<open>Stored rules are sound\<close>

text \<open>
  A rule that can decide: named, with an expression that compiles, and a destination to go to where its action
  is to route.
\<close>

definition rule_sound :: "cel \<Rightarrow> rule \<Rightarrow> bool" where
  "rule_sound c r \<longleftrightarrow> ru_name r \<noteq> '''' \<and> ru_expression r \<noteq> '''' \<and> Validate c (ru_expression r) \<and> rule_ok (ru_action r) (ru_route_dests r)"

lemma with_id_cases:
  assumes "with_id env pathID msg k w = (r, w')"
  obtains (bad) "r = Problem 400 msg" "w' = w" | (id) x where "parseUUID env pathID = Some x" "k x w = (r, w')"
  using assms unfolding with_id_def by (cases "parseUUID env pathID") auto

lemma or_500_db:
  "or_500 (q, w1) k = (r, w') \<Longrightarrow> w' = w1"
  by (auto simp: or_500_def split: sum.splits)

lemma or_404_db:
  "or_404 msg (q, w1) k = (r, w') \<Longrightarrow> w' = w1"
  by (auto simp: or_404_def split: sum.splits db_error.splits)

lemma validate_rule_Inr:
  "validate_rule h env req = Inr p \<Longrightarrow> rq_name p \<noteq> '''' \<and> rq_expression p \<noteq> '''' \<and> Validate (rh_cel h) (rq_expression p) \<and>
     rule_ok (rq_action p) (rq_dests p)"
  by (auto simp: validate_rule_def rule_ok_def ActionDrop_def ActionRoute_def split: if_splits option.splits)

lemma InsertRule_db:
  assumes "InsertRule tenant sid p w = (q, w')" "list_all P (db_rules (w_db w))"
    and "\<And>i t. P \<lparr>ru_id = i, ru_tenant = tenant, ru_source = sid, ru_name = rq_name p, ru_expression = rq_expression p,
      ru_action = rq_action p, ru_route_dests = rq_dests p, ru_priority = rq_priority p, ru_enabled = rq_enabled p,
      ru_created_at = t, ru_updated_at = t\<rparr>"
  shows "list_all P (db_rules (w_db w'))"
  using assms by (auto simp: InsertRule_def exec_def Let_def split: if_splits)

lemma key_unique: "distinct (map f xs) \<Longrightarrow> x \<in> set xs \<Longrightarrow> y \<in> set xs \<Longrightarrow> f x = f y \<Longrightarrow> x = y"
  by (auto simp: distinct_map dest: inj_onD)

lemma in_update_where: "y \<in> set (update_where P f xs) \<Longrightarrow> \<exists>x \<in> set xs. y = (if P x then f x else x)"
  by (auto simp: update_where_def)

lemma dst_id_paused: "dst_id (if b then x\<lparr>dst_paused_at := t\<rparr> else x) = dst_id x"
  by simp

lemma list_all_update_where:
  "list_all P xs \<Longrightarrow> (\<And>x. P x \<Longrightarrow> Q x \<Longrightarrow> P (f x)) \<Longrightarrow> list_all P (update_where Q f xs)"
  by (induction xs) (auto simp: update_where_def)

lemma UpdateRule_db:
  assumes "UpdateRule rid tenant p w = (q, w')" "list_all P (db_rules (w_db w))"
    and "\<And>r t. P r \<Longrightarrow> P (r\<lparr>ru_name := rq_name p, ru_expression := rq_expression p, ru_action := rq_action p,
      ru_route_dests := rq_dests p, ru_priority := rq_priority p, ru_enabled := rq_enabled p, ru_updated_at := t\<rparr>)"
  shows "list_all P (db_rules (w_db w'))"
  using assms by (auto simp: UpdateRule_def exec_def returning_def intro!: list_all_update_where split: if_splits list.splits)

lemma create_rule_sound:
  assumes "create_rule h env body w = (r, w')" "list_all (rule_sound (rh_cel h)) (db_rules (w_db w))"
  shows "list_all (rule_sound (rh_cel h)) (db_rules (w_db w'))"
proof (cases "w' = w")
  case False
  then obtain sid p q req where p: "validate_rule h env req = Inr p" "InsertRule DefaultTenantID sid p w = (q, w')"
    using assms(1) unfolding create_rule_def
    by (auto split: option.splits sum.splits prod.splits db_error.splits)
  show ?thesis
    by (rule InsertRule_db [OF p(2) assms(2)]) (use validate_rule_Inr [OF p(1)] in \<open>simp add: rule_sound_def\<close>)
qed (use assms(2) in simp)

lemma update_rule_sound:
  assumes "update_rule h env pathID body w = (r, w')" "list_all (rule_sound (rh_cel h)) (db_rules (w_db w))"
  shows "list_all (rule_sound (rh_cel h)) (db_rules (w_db w'))"
proof (cases "w' = w")
  case False
  obtain rid p q req w1 where p: "validate_rule h env req = Inr p" "UpdateRule rid DefaultTenantID p w = (q, w1)"
    "or_404 ''rule not found'' (q, w1) (\<lambda>rule. Reply 200 (toRuleResponse rule)) = (r, w')"
    using assms(1) False unfolding update_rule_def
    by (elim with_id_cases) (auto split: option.splits sum.splits, metis prod.exhaust)
  then have "UpdateRule rid DefaultTenantID p w = (q, w')" using or_404_db by blast
  then show ?thesis
    by (rule UpdateRule_db [OF _ assms(2)]) (use validate_rule_Inr [OF p(1)] in \<open>simp add: rule_sound_def\<close>)
qed (use assms(2) in simp)

lemma delete_rule_sound:
  assumes "delete_rule env pathID w = (r, w')" "list_all P (db_rules (w_db w))"
  shows "list_all P (db_rules (w_db w'))"
  using assms unfolding delete_rule_def
  by (elim with_id_cases) (auto simp: DeleteRule_def exec_def or_500_def list_all_iff Let_def split: prod.splits sum.splits if_splits)

text \<open>A sequence of requests to the rules API, in the order in which they are served.\<close>

datatype rule_request = CreateRule bytes | PatchRule string bytes | RemoveRule string

fun rule_call :: "rulesHandler \<Rightarrow> api_env \<Rightarrow> rule_request \<Rightarrow> world \<Rightarrow> world" where
  "rule_call h env (CreateRule body) w = snd (create_rule h env body w)"
| "rule_call h env (PatchRule pathID body) w = snd (update_rule h env pathID body w)"
| "rule_call h env (RemoveRule pathID) w = snd (delete_rule env pathID w)"

lemma rule_call_sound:
  assumes "list_all (rule_sound (rh_cel h)) (db_rules (w_db w))"
  shows "list_all (rule_sound (rh_cel h)) (db_rules (w_db (rule_call h env c w)))"
proof (cases c)
  case (CreateRule body)
  then show ?thesis using create_rule_sound [OF _ assms, of env body] by (metis rule_call.simps(1) surjective_pairing)
next
  case (PatchRule pathID body)
  then show ?thesis using update_rule_sound [OF _ assms, of env pathID body] by (metis rule_call.simps(2) surjective_pairing)
next
  case (RemoveRule pathID)
  then show ?thesis using delete_rule_sound [OF _ assms, of env pathID] by (metis rule_call.simps(3) surjective_pairing)
qed

lemma rule_calls_sound:
  "list_all (rule_sound (rh_cel h)) (db_rules (w_db w)) \<Longrightarrow>
     list_all (rule_sound (rh_cel h)) (db_rules (w_db (fold (rule_call h env) calls w)))"
  by (induction calls arbitrary: w) (auto intro: rule_call_sound)

lemma Evaluate_sound:
  assumes "list_all (rule_sound c) rs" and "dec = Evaluate c rs i"
  shows "dec = no_decision \<or> (dc_Action dec = ActionDrop \<and> dc_RuleName dec \<noteq> '''') \<or>
    (dc_Action dec = ActionRoute \<and> dc_RouteDestinationIDs dec \<noteq> [])"
proof (cases "find (\<lambda>r. rule_value c i r = Some True) rs")
  case None
  then show ?thesis using assms(2) by (simp add: Evaluate_find)
next
  case (Some r)
  then have "r \<in> set rs" by (auto simp: find_Some_iff)
  with assms(1) have "rule_sound c r" by (simp add: list_all_iff)
  with Some assms(2) show ?thesis
    by (auto simp: Evaluate_find decision_of_def rule_sound_def rule_ok_def ActionDrop_def ActionRoute_def)
qed

lemma enabled_rules_all: "list_all P (db_rules d) \<Longrightarrow> list_all P (enabled_rules d sid)"
  by (auto simp: list_all_iff enabled_rules_def)

text \<open>
  C38. The rules the API stores are well-formed. Whatever requests are sent to create, change and
  delete rules, in any order and with any bodies, every stored rule keeps a name, an expression that compiles,
  an action of drop or route, and at least one destination id where it routes. What the ingest path then
  evaluates for any source and any event is therefore no decision at all, a drop under a non-empty rule name, or
  a route to a non-empty list of ids. (Neither the code nor this theorem promises that an expression gives a boolean or that the ids
  name destinations.)
\<close>

theorem rules_api_sound:
  assumes "list_all (rule_sound (rh_cel h)) (db_rules (w_db w))"
    and "w' = fold (rule_call h env) calls w"
    and "dec = Evaluate (rh_cel h) (enabled_rules (w_db w') sid) input"
  shows "list_all (rule_sound (rh_cel h)) (db_rules (w_db w')) \<and>
    (dec = no_decision \<or> (dc_Action dec = ActionDrop \<and> dc_RuleName dec \<noteq> '''') \<or>
     (dc_Action dec = ActionRoute \<and> dc_RouteDestinationIDs dec \<noteq> []))"
  using rule_calls_sound [OF assms(1), of env calls] Evaluate_sound [OF enabled_rules_all assms(3)] assms(2) by simp

subsection \<open>A pause holds deliveries back\<close>

definition held :: "database \<Rightarrow> uuid \<Rightarrow> bool" where
  "held d did \<longleftrightarrow> (\<forall>x \<in> set (db_destinations d). dst_id x = did \<longrightarrow> dst_paused_at x \<noteq> None)"

definition waiting :: "database \<Rightarrow> uuid \<Rightarrow> delivery list" where
  "waiting d did = filter (\<lambda>x. dl_destination x = did) (db_deliveries d)"

lemma filter_update_where_other:
  assumes "\<And>x. x \<in> set xs \<Longrightarrow> Q x \<Longrightarrow> \<not> P x \<and> \<not> P (f x)"
  shows "filter P (update_where Q f xs) = filter P xs"
  using assms by (induction xs) (auto simp: update_where_def)

lemma recorded_waiting:
  assumes r: "recorded (dl_id x) status res now d d'" and x: "x \<in> set (db_deliveries d)" "dl_destination x \<noteq> did"
    and dist: "distinct (map dl_id (db_deliveries d))"
  shows "waiting d' did = waiting d did" "db_destinations d' = db_destinations d"
    "map dl_id (db_deliveries d') = map dl_id (db_deliveries d)"
proof -
  have same: "y = x" if "y \<in> set (db_deliveries d)" "dl_id y = dl_id x" for y
    by (rule key_unique [OF dist that(1) x(1) that(2)])
  have "dl_destination y \<noteq> did \<and> dl_destination (outcome status now y) \<noteq> did"
    if "y \<in> set (db_deliveries d)" "dl_id y = dl_id x" for y
    using same [OF that] x(2) by (simp add: outcome_def)
  then have "filter (\<lambda>y. dl_destination y = did) (update_where (\<lambda>y. dl_id y = dl_id x) (outcome status now) (db_deliveries d)) =
      filter (\<lambda>y. dl_destination y = did) (db_deliveries d)"
    by (intro filter_update_where_other) blast
  then show "waiting d' did = waiting d did" using r by (auto simp: recorded_def waiting_def)
  show "db_destinations d' = db_destinations d" using r by (auto simp: recorded_def)
  show "map dl_id (db_deliveries d') = map dl_id (db_deliveries d)"
    using r by (auto simp: recorded_def update_where_def outcome_def)
qed

lemma Work_held:
  assumes run: "Work env tunnels job s = (r, s')" and h: "held (w_db (ws_world s)) did"
    and dist: "distinct (map dl_id (db_deliveries (w_db (ws_world s))))"
  shows "db_destinations (w_db (ws_world s')) = db_destinations (w_db (ws_world s)) \<and>
    waiting (w_db (ws_world s')) did = waiting (w_db (ws_world s)) did \<and>
    map dl_id (db_deliveries (w_db (ws_world s'))) = map dl_id (db_deliveries (w_db (ws_world s))) \<and>
    (\<exists>out. ws_sent s' = ws_sent s @ out \<and>
      (\<forall>m \<in> set out. \<exists>dest e t. dest \<in> set (db_destinations (w_db (ws_world s))) \<and> dst_id dest \<noteq> did \<and> carries m dest e t))"
  using run
proof (cases rule: Work_cases)
  case idle
  then show ?thesis by (simp add: same_store_def)
next
  case (tried x dest out w p)
  have w: "w_db w = w_db (ws_world s)" using tried(4) by (simp add: same_store_def)
  have x: "x \<in> set (db_deliveries (w_db (ws_world s)))" "dl_destination x \<noteq> did" "dst_id dest \<noteq> did"
    "dest \<in> set (db_destinations (w_db (ws_world s)))"
    using tried(2) h unfolding w due_def held_def by auto
  have sent: "ws_sent s' = ws_sent s @ snd out" using finish_attempt_cases(1) [OF tried(5)] by simp
  have "\<forall>m \<in> set (snd out). \<exists>dest e t. dest \<in> set (db_destinations (w_db (ws_world s))) \<and> dst_id dest \<noteq> did \<and> carries m dest e t"
    using tried(3) x(3,4) unfolding sends_def by (metis empty_iff list.set(1) list.set_cases list.distinct(1) list.inject)
  then have o: "\<exists>out. ws_sent s' = ws_sent s @ out \<and>
      (\<forall>m \<in> set out. \<exists>dest e t. dest \<in> set (db_destinations (w_db (ws_world s))) \<and> dst_id dest \<noteq> did \<and> carries m dest e t)"
    using sent by blast
  from finish_attempt_cases(2) [OF tried(5)] show ?thesis
  proof
    assume "w_db (ws_world s') = w_db (ws_world (s\<lparr>ws_pacer := p, ws_world := w\<rparr>)) \<and> (\<exists>e. r = Errored (RecordAttempt e))"
    then show ?thesis using w o by simp
  next
    assume "recorded (dl_id x) (deliveryStatus (fst out) (dj_attempt job) (dj_max_attempts job)) (fst out)
         (w_now (ws_world (s\<lparr>ws_pacer := p, ws_world := w\<rparr>))) (w_db (ws_world (s\<lparr>ws_pacer := p, ws_world := w\<rparr>))) (w_db (ws_world s')) \<and>
       r = work_verdict (da_delivery_id (dj_args job)) (dst_url dest) (fst out)"
    then have "recorded (dl_id x) (deliveryStatus (fst out) (dj_attempt job) (dj_max_attempts job)) (fst out)
         (w_now w) (w_db (ws_world s)) (w_db (ws_world s'))" using w by simp
    from recorded_waiting [OF this x(1,2) dist] o show ?thesis by simp
  qed
qed

lemma held_destinations: "db_destinations d' = db_destinations d \<Longrightarrow> held d' did \<longleftrightarrow> held d did"
  by (simp add: held_def)

lemma run_jobs_held:
  assumes "held (w_db (ws_world s)) did" "distinct (map dl_id (db_deliveries (w_db (ws_world s))))"
  shows "db_destinations (w_db (ws_world (run_jobs jobs s))) = db_destinations (w_db (ws_world s)) \<and>
    waiting (w_db (ws_world (run_jobs jobs s))) did = waiting (w_db (ws_world s)) did \<and>
    (\<exists>out. ws_sent (run_jobs jobs s) = ws_sent s @ out \<and>
      (\<forall>m \<in> set out. \<exists>dest e t. dest \<in> set (db_destinations (w_db (ws_world s))) \<and> dst_id dest \<noteq> did \<and> carries m dest e t))"
  using assms
proof (induction jobs arbitrary: s)
  case (Cons j js)
  obtain env tunnels job where j: "j = (env, tunnels, job)" by (metis prod_cases3)
  obtain r s' where run: "Work env tunnels job s = (r, s')" by (rule prod.exhaust)
  note one = Work_held [OF run Cons.prems]
  obtain out where out: "ws_sent s' = ws_sent s @ out"
    "\<forall>m \<in> set out. \<exists>dest e t. dest \<in> set (db_destinations (w_db (ws_world s))) \<and> dst_id dest \<noteq> did \<and> carries m dest e t"
    using one by blast
  have "held (w_db (ws_world s')) did" "distinct (map dl_id (db_deliveries (w_db (ws_world s'))))"
    using one Cons.prems by (simp_all add: held_def)
  from Cons.IH [OF this] obtain out' where rest:
    "db_destinations (w_db (ws_world (run_jobs js s'))) = db_destinations (w_db (ws_world s))"
    "waiting (w_db (ws_world (run_jobs js s'))) did = waiting (w_db (ws_world s)) did"
    "ws_sent (run_jobs js s') = ws_sent s' @ out'"
    "\<forall>m \<in> set out'. \<exists>dest e t. dest \<in> set (db_destinations (w_db (ws_world s))) \<and> dst_id dest \<noteq> did \<and> carries m dest e t"
    using one by auto
  have "\<exists>out. ws_sent (run_jobs js s') = ws_sent s @ out \<and>
      (\<forall>m \<in> set out. \<exists>dest e t. dest \<in> set (db_destinations (w_db (ws_world s))) \<and> dst_id dest \<noteq> did \<and> carries m dest e t)"
    using out rest(3,4) by (intro exI [of _ "out @ out'"]) (simp add: ball_Un)
  with rest(1,2) show ?case by (simp add: j run)
qed simp

lemma update_destination_Inr:
  assumes "update_destination did tenant f w = (Inr dest, w')"
  shows "w_db w' = (w_db w)\<lparr>db_destinations := update_where (\<lambda>x. dst_id x = did \<and> dst_tenant x = tenant) (f (w_now w)) (db_destinations (w_db w))\<rparr>"
    "w_now w' = w_now w" "\<exists>x \<in> set (db_destinations (w_db w)). dst_id x = did \<and> dst_tenant x = tenant"
proof -
  obtain y ys where y: "filter (\<lambda>x. dst_id x = did \<and> dst_tenant x = tenant) (db_destinations (w_db w)) = y # ys"
    using assms by (auto simp: update_destination_def exec_Inr returning_def split: list.splits)
  show "\<exists>x \<in> set (db_destinations (w_db w)). dst_id x = did \<and> dst_tenant x = tenant" using filter_Cons_in [OF y] by blast
  show "w_db w' = (w_db w)\<lparr>db_destinations := update_where (\<lambda>x. dst_id x = did \<and> dst_tenant x = tenant) (f (w_now w)) (db_destinations (w_db w))\<rparr>"
    "w_now w' = w_now w"
    using assms y by (auto simp: update_destination_def exec_Inr returning_def)
qed

lemma or_404_Reply: "or_404 msg (q, w1) k = (Reply 200 x, w') \<Longrightarrow> \<exists>y. q = Inr y \<and> k y = Reply 200 x \<and> w' = w1"
  by (auto simp: or_404_def internal_error_def split: sum.splits db_error.splits)

lemma pause_200:
  assumes "pause env pathID w = (Reply 200 r, w')" "parseUUID env pathID = Some did"
    and "distinct (map dst_id (db_destinations (w_db w)))"
  shows "held (w_db w') did" "db_deliveries (w_db w') = db_deliveries (w_db w)"
proof -
  obtain q w1 where q: "PauseDestination did DefaultTenantID w = (q, w1)" by (rule prod.exhaust)
  have "or_404 ''destination not found'' (q, w1) (\<lambda>dest. Reply 200 (toDestinationResponse dest)) = (Reply 200 r, w')"
    using assms(1,2) q by (simp add: pause_def with_id_def)
  from or_404_Reply [OF this] obtain dest where "q = Inr dest" "w' = w1" by blast
  with q have p: "update_destination did DefaultTenantID (\<lambda>now x. x\<lparr>dst_paused_at := Some now\<rparr>) w = (Inr dest, w')"
    by (simp add: PauseDestination_def)
  obtain y where y: "y \<in> set (db_destinations (w_db w))" "dst_id y = did" "dst_tenant y = DefaultTenantID"
    using update_destination_Inr(3) [OF p] by blast
  have one: "x = y" if "x \<in> set (db_destinations (w_db w))" "dst_id x = did" for x
    by (rule key_unique [OF assms(3)]) (use that y in simp_all)
  show "held (w_db w') did"
    unfolding held_def
  proof (intro ballI impI)
    fix x assume x: "x \<in> set (db_destinations (w_db w'))" "dst_id x = did"
    have "x \<in> set (update_where (\<lambda>x. dst_id x = did \<and> dst_tenant x = DefaultTenantID) (\<lambda>x. x\<lparr>dst_paused_at := Some (w_now w)\<rparr>)
        (db_destinations (w_db w)))"
      using x(1) by (simp add: update_destination_Inr(1) [OF p])
    from in_update_where [OF this] obtain z where z: "z \<in> set (db_destinations (w_db w))"
      "x = (if dst_id z = did \<and> dst_tenant z = DefaultTenantID then z\<lparr>dst_paused_at := Some (w_now w)\<rparr> else z)"
      by blast
    have "dst_id z = did" using z(2) x(2) by (metis dst_id_paused)
    then have "z = y" by (rule one [OF z(1)])
    then show "dst_paused_at x \<noteq> None" using z(2) y by simp
  qed
  show "db_deliveries (w_db w') = db_deliveries (w_db w)" by (simp add: update_destination_Inr(1) [OF p])
qed

lemma resume_200:
  assumes "resume env pathID w = (Reply 200 r, w')" "parseUUID env pathID = Some did"
    and x: "x \<in> set (waiting (w_db w) did)" "dl_status x \<noteq> ''succeeded''" "dl_tenant x = DefaultTenantID"
  shows "\<exists>dest. due (w_db w') x dest"
proof -
  obtain q w1 where q: "ResumeDestination did DefaultTenantID w = (q, w1)" by (rule prod.exhaust)
  have "or_404 ''destination not found'' (q, w1) (\<lambda>dest. Reply 200 (toDestinationResponse dest)) = (Reply 200 r, w')"
    using assms(1,2) q by (simp add: resume_def with_id_def)
  from or_404_Reply [OF this] obtain dest where "q = Inr dest" "w' = w1" by blast
  with q have p: "update_destination did DefaultTenantID (\<lambda>now x. x\<lparr>dst_paused_at := None\<rparr>) w = (Inr dest, w')"
    by (simp add: ResumeDestination_def)
  obtain y where y: "y \<in> set (db_destinations (w_db w))" "dst_id y = did" "dst_tenant y = DefaultTenantID"
    using update_destination_Inr(3) [OF p] by blast
  have "y\<lparr>dst_paused_at := None\<rparr> \<in> set (db_destinations (w_db w'))"
    unfolding update_destination_Inr(1) [OF p] using y by (simp add: set_update_where)
  moreover have "db_deliveries (w_db w') = db_deliveries (w_db w)" by (simp add: update_destination_Inr(1) [OF p])
  ultimately have "due (w_db w') x (y\<lparr>dst_paused_at := None\<rparr>)"
    using x y(2,3) by (simp add: due_def waiting_def)
  then show ?thesis by blast
qed

text \<open>
  C37. A pause defers and loses nothing. Once pausing a destination has been answered with 200, no run of any
  number of delivery jobs sends anything to it: every message goes to another destination. Meanwhile the
  deliveries waiting for it stay exactly as they were, status and attempt count included, so that when
  resuming it is answered with 200 every one of them that had not succeeded is due again.
\<close>

theorem paused_gets_nothing:
  assumes "pause env pathID w = (Reply 200 r, w')" and "parseUUID env pathID = Some did"
    and "distinct (map dst_id (db_destinations (w_db w)))" and "distinct (map dl_id (db_deliveries (w_db w)))"
    and "ws_world s = w'" and "s' = run_jobs jobs s"
  shows "(\<exists>out. ws_sent s' = ws_sent s @ out \<and>
      (\<forall>m \<in> set out. \<exists>dest e t. dest \<in> set (db_destinations (w_db w')) \<and> dst_id dest \<noteq> did \<and> carries m dest e t)) \<and>
    waiting (w_db (ws_world s')) did = waiting (w_db w) did \<and>
    (\<forall>r2 w2. resume env pathID (ws_world s') = (Reply 200 r2, w2) \<longrightarrow>
       (\<forall>x \<in> set (waiting (w_db w) did). dl_status x \<noteq> ''succeeded'' \<and> dl_tenant x = DefaultTenantID \<longrightarrow>
          (\<exists>dest. due (w_db w2) x dest)))"
proof -
  note p = pause_200 [OF assms(1-3)]
  have h: "held (w_db (ws_world s)) did" "distinct (map dl_id (db_deliveries (w_db (ws_world s))))"
    using p assms(4,5) by simp_all
  note run = run_jobs_held [OF h, of jobs, folded assms(6)]
  have same: "waiting (w_db (ws_world s')) did = waiting (w_db w) did"
    using run p(2) assms(5) by (simp add: waiting_def)
  moreover have "\<forall>r2 w2. resume env pathID (ws_world s') = (Reply 200 r2, w2) \<longrightarrow>
       (\<forall>x \<in> set (waiting (w_db w) did). dl_status x \<noteq> ''succeeded'' \<and> dl_tenant x = DefaultTenantID \<longrightarrow>
          (\<exists>dest. due (w_db w2) x dest))"
    using resume_200 [OF _ assms(2)] same by metis
  ultimately show ?thesis using run assms(5) by blast
qed

subsection \<open>The routing table\<close>

text \<open>
  What the routes API promises, without rows, tenants or statements: a table from the ids of routes to a source, a
  destination and a switch, with at most one route for a pair. An operation that is not possible is \<open>None\<close>.
\<close>

type_synonym routing = "uuid \<rightharpoonup> uuid \<times> uuid \<times> bool"

datatype route_op = Add uuid uuid uuid bool | Switch uuid bool | Remove uuid | RemoveTarget uuid

definition linked :: "routing \<Rightarrow> uuid \<Rightarrow> uuid \<Rightarrow> bool" where
  "linked m s t \<longleftrightarrow> (\<exists>i b. m i = Some (s, t, b))"

fun apply_op :: "route_op \<Rightarrow> routing \<Rightarrow> routing option" where
  "apply_op (Add i s t b) m = (if m i \<noteq> None \<or> linked m s t then None else Some (m(i \<mapsto> (s, t, b))))"
| "apply_op (Switch i b) m = (case m i of None \<Rightarrow> None | Some (s, t, c) \<Rightarrow> Some (m(i \<mapsto> (s, t, b))))"
| "apply_op (Remove i) m = (if m i = None then None else Some (m(i := None)))"
| "apply_op (RemoveTarget t) m =
     Some (\<lambda>i. case m i of None \<Rightarrow> None | Some (s, t', b) \<Rightarrow> if t' = t then None else Some (s, t', b))"

definition fan_out :: "routing \<Rightarrow> uuid \<Rightarrow> uuid set" where
  "fan_out m s = {t. \<exists>i. m i = Some (s, t, True)}"

text \<open>The abstraction: the table that the rows of the store stand for.\<close>

definition route_entry :: "route \<Rightarrow> uuid \<times> uuid \<times> bool" where
  "route_entry r = (rt_source r, rt_destination r, rt_enabled r)"

definition routing :: "database \<Rightarrow> routing" where
  "routing d = map_of (map (\<lambda>r. (rt_id r, route_entry r)) (db_routes d))"

definition routes_ok :: "database \<Rightarrow> bool" where
  "routes_ok d \<longleftrightarrow> distinct (map rt_id (db_routes d)) \<and> distinct (map (\<lambda>r. (rt_source r, rt_destination r)) (db_routes d)) \<and>
     (\<forall>r \<in> set (db_routes d). rt_tenant r = DefaultTenantID \<and> rt_destination r \<in> dst_id ` set (db_destinations d)) \<and>
     distinct (map dst_id (db_destinations d))"

text \<open>The requests that change the table, whether they succeed, and the operation each of them asks for.\<close>

datatype route_request = CreateRoute bytes | PatchRoute string bytes | RemoveRoute string | RemoveDestination string

definition answer :: "'a reply \<times> world \<Rightarrow> bool \<times> world" where
  "answer q = (is_success (fst q), snd q)"

fun route_call :: "api_env \<Rightarrow> route_request \<Rightarrow> world \<Rightarrow> bool \<times> world" where
  "route_call env (CreateRoute body) w = answer (create_route env body w)"
| "route_call env (PatchRoute pathID body) w = answer (update_route env pathID body w)"
| "route_call env (RemoveRoute pathID) w = answer (delete_route env pathID w)"
| "route_call env (RemoveDestination pathID) w = answer (delete_destination env pathID w)"

fun asked :: "api_env \<Rightarrow> route_request \<Rightarrow> uuid \<Rightarrow> route_op option" where
  "asked env (CreateRoute body) new =
     (case Decode_struct route_fields \<lparr>cr_SourceID = '''', cr_DestinationID = '''', cr_Enabled = None\<rparr> body of
        None \<Rightarrow> None
      | Some req \<Rightarrow> (case (e_Scan env (cr_SourceID req), e_Scan env (cr_DestinationID req)) of
          (Some s, Some t) \<Rightarrow> Some (Add new s t (cr_Enabled req \<noteq> Some False)) | _ \<Rightarrow> None))"
| "asked env (PatchRoute pathID body) new =
     (case (e_Scan env pathID, Decode_struct [(''enabled'', bool_field urr_Enabled_update)] \<lparr>urr_Enabled = False\<rparr> body) of
        (Some i, Some req) \<Rightarrow> Some (Switch i (urr_Enabled req)) | _ \<Rightarrow> None)"
| "asked env (RemoveRoute pathID) new = map_option Remove (e_Scan env pathID)"
| "asked env (RemoveDestination pathID) new = map_option RemoveTarget (e_Scan env pathID)"

lemma routing_Some:
  assumes "routes_ok d"
  shows "routing d i = Some e \<longleftrightarrow> (\<exists>r \<in> set (db_routes d). rt_id r = i \<and> route_entry r = e)"
proof -
  have "distinct (map fst (map (\<lambda>r. (rt_id r, route_entry r)) (db_routes d)))"
    using assms by (simp add: routes_ok_def comp_def)
  then show ?thesis unfolding routing_def by (auto simp: map_of_eq_Some_iff)
qed

lemma routing_append:
  "routing (d\<lparr>db_routes := db_routes d @ [r]\<rparr>) = (if routing d (rt_id r) = None then (routing d)(rt_id r \<mapsto> route_entry r) else routing d)"
proof (cases "routing d (rt_id r)")
  case None
  then show ?thesis by (auto simp: routing_def fun_eq_iff map_add_Some_iff map_add_def split: option.splits)
next
  case (Some e)
  then show ?thesis by (auto simp: routing_def fun_eq_iff map_add_def split: option.splits)
qed

lemma create_route_cases:
  assumes "create_route env body w = (r, w')"
  obtains (refused) "\<not> is_success r" "w_db w' = w_db w"
  | (created) req s t route where
      "Decode_struct route_fields \<lparr>cr_SourceID = '''', cr_DestinationID = '''', cr_Enabled = None\<rparr> body = Some req"
      "e_Scan env (cr_SourceID req) = Some s" "e_Scan env (cr_DestinationID req) = Some t"
      "InsertRoute DefaultTenantID s t (cr_Enabled req \<noteq> Some False) w = (Inr route, w')" "is_success r"
proof -
  let ?z = "\<lparr>cr_SourceID = '''', cr_DestinationID = '''', cr_Enabled = None\<rparr>"
  show thesis
  proof (cases "\<exists>req s t. Decode_struct route_fields ?z body = Some req \<and> e_Scan env (cr_SourceID req) = Some s \<and>
      e_Scan env (cr_DestinationID req) = Some t")
    case False
    then have "\<not> is_success r \<and> w' = w"
      using assms by (auto simp: create_route_def parseUUID_def is_success_def split: option.splits)
    then show thesis using refused by simp
  next
    case True
    then obtain req s t where q: "Decode_struct route_fields ?z body = Some req" "e_Scan env (cr_SourceID req) = Some s"
      "e_Scan env (cr_DestinationID req) = Some t" by blast
    have en: "(case cr_Enabled req of None \<Rightarrow> True | Some b \<Rightarrow> b) = (cr_Enabled req \<noteq> Some False)"
      by (auto split: option.splits)
    obtain q1 w1 where i: "InsertRoute DefaultTenantID s t (cr_Enabled req \<noteq> Some False) w = (q1, w1)" by (rule prod.exhaust)
    show thesis
    proof (cases q1)
      case (Inl e)
      then have "w_db w1 = w_db w" using i by (auto simp: InsertRoute_def dest: exec_Inl_db)
      moreover have "\<not> is_success r \<and> w' = w1"
        using assms q i Inl en by (cases e) (auto simp: create_route_def parseUUID_def is_success_def internal_error_def)
      ultimately show thesis using refused by simp
    next
      case (Inr route)
      then have "is_success r \<and> w' = w1"
        using assms q i en by (auto simp: create_route_def parseUUID_def is_success_def)
      then show thesis using created q i Inr by blast
    qed
  qed
qed

lemma routing_None: "routes_ok d \<Longrightarrow> routing d i = None \<longleftrightarrow> i \<notin> rt_id ` set (db_routes d)"
  by (auto simp: routing_def map_of_eq_None_iff image_image)

lemma linked_routing:
  "routes_ok d \<Longrightarrow> linked (routing d) s t \<longleftrightarrow> list_ex (\<lambda>x. rt_source x = s \<and> rt_destination x = t) (db_routes d)"
  unfolding linked_def by (auto simp: routing_Some route_entry_def list_ex_iff)

lemma routing_eqI:
  assumes "routes_ok d" "\<And>i e. m i = Some e \<longleftrightarrow> (\<exists>r \<in> set (db_routes d). rt_id r = i \<and> route_entry r = e)"
  shows "routing d = m"
proof (rule ext)
  fix i show "routing d i = m i" using assms(2) [of i] routing_Some [OF assms(1), of i] by (metis not_Some_eq)
qed

text \<open>What the ingest path reads is the table's fan-out, one target for each destination.\<close>

lemma targets_of_routes:
  assumes "distinct (map dst_id ds)" "\<forall>r \<in> set rs. rt_destination r \<in> dst_id ` set ds"
  shows "map tg_destination [target_of x. r \<leftarrow> rs, x \<leftarrow> ds, dst_id x = rt_destination r \<and> rt_source r = sid \<and> rt_enabled r] =
    map rt_destination (filter (\<lambda>r. rt_source r = sid \<and> rt_enabled r) rs)"
  using assms(2)
proof (induction rs)
  case (Cons r rs)
  have one: "map tg_destination [target_of x. x \<leftarrow> ds, dst_id x = t] = [t]" if "t \<in> dst_id ` set ds" for t
    using assms(1) that
  proof (induction ds)
    case (Cons y ds)
    have "[target_of x. x \<leftarrow> ds, dst_id x = t] = []" if "t \<notin> dst_id ` set ds" for t
      using that by auto
    with Cons show ?case by (cases "dst_id y = t") (auto simp: target_of_def)
  qed simp
  show ?case
  proof (cases "rt_source r = sid \<and> rt_enabled r")
    case True
    then show ?thesis using Cons one [of "rt_destination r"] by simp
  next
    case False
    then show ?thesis using Cons by auto
  qed
qed simp

lemma fan_out_targets:
  assumes "routes_ok d"
  shows "set (map tg_destination (enabled_targets d sid)) = fan_out (routing d) sid \<and> distinct (map tg_destination (enabled_targets d sid))"
proof -
  let ?rs = "filter (\<lambda>r. rt_source r = sid \<and> rt_enabled r) (db_routes d)"
  have eq: "map tg_destination (enabled_targets d sid) = map rt_destination ?rs"
    unfolding enabled_targets_def by (rule targets_of_routes) (use assms in \<open>auto simp: routes_ok_def\<close>)
  have "inj_on (\<lambda>r. (rt_source r, rt_destination r)) (set (db_routes d))" "distinct (db_routes d)"
    using assms by (auto simp: routes_ok_def distinct_map)
  then have "distinct (map rt_destination ?rs)" by (auto simp: distinct_map inj_on_def)
  moreover have "set (map rt_destination ?rs) = fan_out (routing d) sid"
    by (auto simp: fan_out_def routing_Some [OF assms] route_entry_def)
  ultimately show ?thesis by (simp only: eq)
qed

lemma create_route_refines:
  assumes ok: "routes_ok (w_db w)" and ins: "InsertRoute DefaultTenantID s t b w = (Inr route, w')"
  shows "routes_ok (w_db w') \<and> apply_op (Add (rt_id route) s t b) (routing (w_db w)) = Some (routing (w_db w'))"
proof -
  let ?d = "w_db w"
  have r: "rt_id route \<notin> rt_id ` set (db_routes ?d)" "\<not> list_ex (\<lambda>x. rt_source x = s \<and> rt_destination x = t) (db_routes ?d)"
    "t \<in> dst_id ` set (db_destinations ?d)" "rt_tenant route = DefaultTenantID" "route_entry route = (s, t, b)"
    "w_db w' = ?d\<lparr>db_routes := db_routes ?d @ [route]\<rparr>"
    using ins by (auto simp: InsertRoute_def exec_Inr Let_def route_entry_def split: if_splits)
  have "rt_source route = s" "rt_destination route = t" using r(5) by (simp_all add: route_entry_def)
  then have "routes_ok (w_db w')" using ok r by (auto simp: routes_ok_def list_ex_iff)
  moreover have "routing ?d (rt_id route) = None" using routing_None [OF ok] r(1) by blast
  moreover have "\<not> linked (routing ?d) s t" using linked_routing [OF ok] r(2) by blast
  ultimately show ?thesis using r(5,6) by (simp add: routing_append)
qed

lemma update_route_refines:
  assumes ok: "routes_ok (w_db w)" and u: "UpdateRouteEnabled i DefaultTenantID b w = (Inr route, w')"
  shows "routes_ok (w_db w') \<and> apply_op (Switch i b) (routing (w_db w)) = Some (routing (w_db w'))"
proof -
  let ?d = "w_db w" and ?P = "\<lambda>r. rt_id r = i \<and> rt_tenant r = DefaultTenantID"
  obtain y ys where y: "filter ?P (db_routes ?d) = y # ys"
    using u by (auto simp: UpdateRouteEnabled_def exec_Inr returning_def split: list.splits)
  then have yin: "y \<in> set (db_routes ?d)" "rt_id y = i" using filter_Cons_in [OF y] by simp_all
  have d: "w_db w' = ?d\<lparr>db_routes := update_where ?P (\<lambda>r. r\<lparr>rt_enabled := b\<rparr>) (db_routes ?d)\<rparr>"
    using u y by (auto simp: UpdateRouteEnabled_def exec_Inr returning_def)
  have cols: "map rt_id (db_routes (w_db w')) = map rt_id (db_routes ?d)"
    "map (\<lambda>r. (rt_source r, rt_destination r)) (db_routes (w_db w')) = map (\<lambda>r. (rt_source r, rt_destination r)) (db_routes ?d)"
    by (simp_all add: d update_where_def)
  have rows: "\<exists>x \<in> set (db_routes ?d). rt_tenant r = rt_tenant x \<and> rt_destination r = rt_destination x"
    if "r \<in> set (db_routes (w_db w'))" for r
  proof -
    have "r \<in> set (update_where ?P (\<lambda>r. r\<lparr>rt_enabled := b\<rparr>) (db_routes ?d))" using that by (simp add: d)
    from in_update_where [OF this] obtain x where "x \<in> set (db_routes ?d)" "r = (if ?P x then x\<lparr>rt_enabled := b\<rparr> else x)" by blast
    then show ?thesis by (intro bexI [of _ x]) simp_all
  qed
  have ok': "routes_ok (w_db w')"
    unfolding routes_ok_def cols
  proof (intro conjI ballI)
    fix r assume "r \<in> set (db_routes (w_db w'))"
    from rows [OF this] obtain x where "x \<in> set (db_routes ?d)" "rt_tenant r = rt_tenant x" "rt_destination r = rt_destination x" by blast
    then show "rt_tenant r = DefaultTenantID" "rt_destination r \<in> dst_id ` set (db_destinations (w_db w'))"
      using ok by (simp_all add: routes_ok_def d)
  qed (use ok in \<open>simp_all add: routes_ok_def d\<close>)
  have yS: "routing ?d i = Some (route_entry y)" using yin by (auto simp: routing_Some [OF ok])
  have one: "x = y" if "x \<in> set (db_routes ?d)" "rt_id x = i" for x
    by (rule key_unique [of rt_id "db_routes ?d"]) (use that yin ok in \<open>simp_all add: routes_ok_def\<close>)
  have ten: "rt_tenant x = DefaultTenantID" if "x \<in> set (db_routes ?d)" for x using that ok by (simp add: routes_ok_def)
  have "routing (w_db w') = (routing ?d)(i \<mapsto> (rt_source y, rt_destination y, b))"
  proof (rule routing_eqI [OF ok'])
    fix j e
    have set': "set (db_routes (w_db w')) = (\<lambda>r. r\<lparr>rt_enabled := b\<rparr>) ` {x \<in> set (db_routes ?d). ?P x} \<union> {x \<in> set (db_routes ?d). \<not> ?P x}"
      by (simp add: d set_update_where)
    have hit: "{x \<in> set (db_routes ?d). ?P x} = {y}" using one yin ten by blast
    have miss: "{x \<in> set (db_routes ?d). \<not> ?P x} = {x \<in> set (db_routes ?d). rt_id x \<noteq> i}" using ten by blast
    show "((routing ?d)(i \<mapsto> (rt_source y, rt_destination y, b))) j = Some e \<longleftrightarrow>
        (\<exists>r \<in> set (db_routes (w_db w')). rt_id r = j \<and> route_entry r = e)"
      unfolding set' hit miss using yin by (auto simp: routing_Some [OF ok] route_entry_def)
  qed
  with yS ok' show ?thesis by (simp add: route_entry_def)
qed

lemma delete_route_refines:
  assumes ok: "routes_ok (w_db w)" and u: "DeleteRoute i DefaultTenantID w = (Inr n, w')"
  shows "routes_ok (w_db w') \<and> (if n = 0 then w_db w' = w_db w else apply_op (Remove i) (routing (w_db w)) = Some (routing (w_db w')))"
proof -
  let ?d = "w_db w" and ?P = "\<lambda>r. rt_id r = i \<and> rt_tenant r = DefaultTenantID"
  have d: "n = length (filter ?P (db_routes ?d))" "w_db w' = ?d\<lparr>db_routes := filter (\<lambda>r. \<not> ?P r) (db_routes ?d)\<rparr>"
    using u by (auto simp: DeleteRoute_def exec_Inr Let_def)
  have ok': "routes_ok (w_db w')" using ok unfolding d(2) routes_ok_def by (auto simp: distinct_map_filter)
  have ten: "rt_tenant x = DefaultTenantID" if "x \<in> set (db_routes ?d)" for x using that ok by (simp add: routes_ok_def)
  show ?thesis
  proof (cases "n = 0")
    case True
    then have "filter (\<lambda>r. \<not> ?P r) (db_routes ?d) = db_routes ?d" using d(1) by (simp add: filter_empty_conv filter_id_conv)
    then have "w_db w' = ?d" using d(2) by simp
    with True ok show ?thesis by simp
  next
    case False
    then have "filter ?P (db_routes ?d) \<noteq> []" using d(1) by auto
    then have "i \<in> rt_id ` set (db_routes ?d)" by (auto simp: filter_empty_conv)
    then have "routing ?d i \<noteq> None" using routing_None [OF ok] by blast
    moreover have "routing (w_db w') = (routing ?d)(i := None)"
      by (rule routing_eqI [OF ok']) (use ten in \<open>auto simp: d(2) routing_Some [OF ok]\<close>)
    ultimately show ?thesis using False ok' by simp
  qed
qed

lemma delete_destination_refines:
  assumes ok: "routes_ok (w_db w)" and u: "DeleteDestination t DefaultTenantID w = (Inr n, w')"
  shows "routes_ok (w_db w') \<and> (if n = 0 then w_db w' = w_db w else apply_op (RemoveTarget t) (routing (w_db w)) = Some (routing (w_db w')))"
proof -
  let ?d = "w_db w" and ?P = "\<lambda>x. dst_id x = t \<and> dst_tenant x = DefaultTenantID"
  have d: "n = length (filter ?P (db_destinations ?d))" "w_db w' = delete_destinations ?P ?d"
    using u by (auto simp: DeleteDestination_def exec_Inr Let_def)
  show ?thesis
  proof (cases "n = 0")
    case True
    then have "{x \<in> set (db_destinations ?d). ?P x} = {}" using d(1) by (auto simp: filter_empty_conv)
    moreover from this have "filter (\<lambda>x. \<not> ?P x) (db_destinations ?d) = db_destinations ?d" by (intro filter_True) blast
    ultimately have "w_db w' = ?d" unfolding d(2) delete_destinations_def Let_def by (simp only: image_empty) simp
    with True ok show ?thesis by simp
  next
    case False
    then obtain y where y: "y \<in> set (db_destinations ?d)" "?P y" using d(1) by (auto simp: filter_empty_conv)
    have gone: "dst_id ` {x \<in> set (db_destinations ?d). ?P x} = {t}" using y by auto
    have one: "x = y" if "x \<in> set (db_destinations ?d)" "dst_id x = t" for x
      by (rule key_unique [of dst_id "db_destinations ?d"]) (use that y ok in \<open>simp_all add: routes_ok_def\<close>)
    have dests: "db_destinations (w_db w') = filter (\<lambda>x. dst_id x \<noteq> t) (db_destinations ?d)"
      unfolding d(2) delete_destinations_def Let_def using one y by (auto intro!: filter_cong)
    have routes: "db_routes (w_db w') = filter (\<lambda>r. rt_destination r \<noteq> t) (db_routes ?d)"
      unfolding d(2) delete_destinations_def Let_def gone by simp
    have ok': "routes_ok (w_db w')"
      unfolding routes_ok_def dests routes using ok by (auto simp: routes_ok_def distinct_map_filter)
    have "routing (w_db w') = (\<lambda>i. case routing ?d i of None \<Rightarrow> None | Some (s, t', b) \<Rightarrow> if t' = t then None else Some (s, t', b))"
    proof (rule routing_eqI [OF ok'])
      fix i e
      show "(case routing ?d i of None \<Rightarrow> None | Some (s, t', b) \<Rightarrow> if t' = t then None else Some (s, t', b)) = Some e \<longleftrightarrow>
          (\<exists>r \<in> set (db_routes (w_db w')). rt_id r = i \<and> route_entry r = e)"
        unfolding routes using routing_Some [OF ok, of i e]
        by (cases "routing ?d i"; cases e) (auto simp: route_entry_def split: if_splits)
    qed
    with False ok' show ?thesis by simp
  qed
qed

lemma or_404_answer:
  assumes "answer (or_404 msg (q, w1) (\<lambda>x. Reply 200 (f x))) = (ok, w')"
  shows "w' = w1 \<and> (if ok then \<exists>x. q = Inr x else \<exists>e. q = Inl e)"
  using assms by (auto simp: answer_def or_404_def is_success_def internal_error_def split: sum.splits db_error.splits)

lemma or_500_answer:
  assumes "answer (or_500 (q, w1) (\<lambda>n. if n = 0 then Problem 404 msg else NoContent)) = (ok, w')"
  shows "w' = w1 \<and> (if ok then \<exists>n. q = Inr n \<and> n \<noteq> (0 :: nat) else q = Inr 0 \<or> (\<exists>e. q = Inl e))"
  using assms by (auto simp: answer_def or_500_def is_success_def internal_error_def split: sum.splits if_splits)

lemma with_id_answer:
  assumes "answer (with_id env pathID msg k w) = (ok, w')"
  shows "(\<not> ok \<and> w' = w \<and> e_Scan env pathID = None) \<or> (\<exists>i. e_Scan env pathID = Some i \<and> answer (k i w) = (ok, w'))"
  using assms by (auto simp: with_id_def parseUUID_def answer_def is_success_def split: option.splits)

text \<open>The last step of the two deletions: what the statement did and what was answered.\<close>

lemma delete_settled:
  assumes "w' = w1 \<and> (if done then \<exists>n. q = Inr n \<and> n \<noteq> (0 :: nat) else q = Inr 0 \<or> (\<exists>e. q = Inl e))"
    and "\<And>n. q = Inr n \<Longrightarrow> routes_ok (w_db w1) \<and>
      (if n = 0 then w_db w1 = w_db w else apply_op op (routing (w_db w)) = Some (routing (w_db w1)))"
    and "\<And>e. q = Inl e \<Longrightarrow> w_db w1 = w_db w" and "routes_ok (w_db w)" and "\<And>new. asked env req new = Some op"
  shows "routes_ok (w_db w') \<and>
    (if done then \<exists>new op. asked env req new = Some op \<and> apply_op op (routing (w_db w)) = Some (routing (w_db w'))
     else w_db w' = w_db w)"
proof (cases "done")
  case True
  then obtain n where "q = Inr n" "n \<noteq> 0" using assms(1) by auto
  with assms(2) have "routes_ok (w_db w1)" "apply_op op (routing (w_db w)) = Some (routing (w_db w1))" by simp_all
  with True assms(1) assms(5) show ?thesis by auto
next
  case False
  then have "w_db w1 = w_db w" using assms(1-3) by force
  with False assms(1,4) show ?thesis by simp
qed

lemma route_call_refines:
  assumes ok: "routes_ok (w_db w)" and call: "route_call env req w = (done, w')"
  shows "routes_ok (w_db w') \<and>
    (if done then \<exists>new op. asked env req new = Some op \<and> apply_op op (routing (w_db w)) = Some (routing (w_db w'))
     else w_db w' = w_db w)"
proof (cases req)
  case (CreateRoute body)
  obtain r w1 where run: "create_route env body w = (r, w1)" by (rule prod.exhaust)
  with call CreateRoute have c: "done = is_success r" "w1 = w'" by (simp_all add: answer_def)
  from run show ?thesis
  proof (cases rule: create_route_cases)
    case refused
    then show ?thesis using c ok by simp
  next
    case (created q s t route)
    have "asked env req (rt_id route) = Some (Add (rt_id route) s t (cr_Enabled q \<noteq> Some False))"
      using created CreateRoute by simp
    with create_route_refines [OF ok created(4)] created(5) c show ?thesis by (simp only: if_True) blast
  qed
next
  case (PatchRoute pathID body)
  let ?fields = "[(''enabled'', bool_field urr_Enabled_update)]" and ?zero = "\<lparr>urr_Enabled = False\<rparr>"
  from call PatchRoute have "answer (update_route env pathID body w) = (done, w')" by simp
  from with_id_answer [OF this [unfolded update_route_def]] show ?thesis
  proof (elim disjE exE conjE)
    assume "\<not> done" "w' = w"
    then show ?thesis using ok by simp
  next
    fix i assume i: "e_Scan env pathID = Some i" and k: "answer (case Decode_struct ?fields ?zero body of
       None \<Rightarrow> (Problem 400 ''invalid JSON body'', w)
     | Some req \<Rightarrow> or_404 ''route not found'' (UpdateRouteEnabled i DefaultTenantID (urr_Enabled req) w) (\<lambda>route.
         Reply 200 (toRouteResponse route))) = (done, w')"
    show ?thesis
    proof (cases "Decode_struct ?fields ?zero body")
      case None
      then show ?thesis using k ok by (simp add: answer_def is_success_def)
    next
      case (Some q)
      obtain res w1 where res: "UpdateRouteEnabled i DefaultTenantID (urr_Enabled q) w = (res, w1)" by (rule prod.exhaust)
      have a: "asked env req new = Some (Switch i (urr_Enabled q))" for new using PatchRoute i Some by simp
      have "w' = w1 \<and> (if done then \<exists>x. res = Inr x else \<exists>e. res = Inl e)"
        by (rule or_404_answer) (use k Some res in simp)
      moreover have "w_db w1 = w_db w" if "res = Inl e" for e
        using res that by (auto simp: UpdateRouteEnabled_def dest: exec_Inl_db)
      moreover have "routes_ok (w_db w1) \<and> apply_op (Switch i (urr_Enabled q)) (routing (w_db w)) = Some (routing (w_db w1))"
        if "res = Inr x" for x using update_route_refines [OF ok] res that by blast
      ultimately show ?thesis using a ok by (cases "done") (simp only: if_True if_False, blast, simp only: if_True if_False, metis)
    qed
  qed
next
  case (RemoveRoute pathID)
  from call RemoveRoute have "answer (delete_route env pathID w) = (done, w')" by simp
  from with_id_answer [OF this [unfolded delete_route_def]] show ?thesis
  proof (elim disjE exE conjE)
    assume "\<not> done" "w' = w"
    then show ?thesis using ok by simp
  next
    fix i assume i: "e_Scan env pathID = Some i" and k: "answer (or_500 (DeleteRoute i DefaultTenantID w) (\<lambda>n.
       if n = 0 then Problem 404 ''route not found'' else NoContent)) = (done, w')"
    obtain res w1 where res: "DeleteRoute i DefaultTenantID w = (res, w1)" by (rule prod.exhaust)
    have a: "asked env req new = Some (Remove i)" for new using RemoveRoute i by simp
    show ?thesis
    proof (rule delete_settled [OF or_500_answer [OF k [unfolded res]] _ _ ok a])
      show "w_db w1 = w_db w" if "res = Inl e" for e using res that by (auto simp: DeleteRoute_def dest: exec_Inl_db)
    qed (use res delete_route_refines [OF ok] in blast)
  qed
next
  case (RemoveDestination pathID)
  from call RemoveDestination have "answer (delete_destination env pathID w) = (done, w')" by simp
  from with_id_answer [OF this [unfolded delete_destination_def]] show ?thesis
  proof (elim disjE exE conjE)
    assume "\<not> done" "w' = w"
    then show ?thesis using ok by simp
  next
    fix i assume i: "e_Scan env pathID = Some i" and k: "answer (or_500 (DeleteDestination i DefaultTenantID w) (\<lambda>n.
       if n = 0 then Problem 404 ''destination not found'' else NoContent)) = (done, w')"
    obtain res w1 where res: "DeleteDestination i DefaultTenantID w = (res, w1)" by (rule prod.exhaust)
    have a: "asked env req new = Some (RemoveTarget i)" for new using RemoveDestination i by simp
    show ?thesis
    proof (rule delete_settled [OF or_500_answer [OF k [unfolded res]] _ _ ok a])
      show "w_db w1 = w_db w" if "res = Inl e" for e using res that by (auto simp: DeleteDestination_def dest: exec_Inl_db)
    qed (use res delete_destination_refines [OF ok] in blast)
  qed
qed

text \<open>
  Running requests against a component, and against a specification that says what a successful request does
  and that a refused one does nothing. An implementation that simulates the specification step by step under an
  invariant simulates it for every sequence of requests.
\<close>

primrec run_calls :: "('r \<Rightarrow> 's \<Rightarrow> bool \<times> 's) \<Rightarrow> 'r list \<Rightarrow> 's \<Rightarrow> bool list \<times> 's" where
  "run_calls step [] s = ([], s)"
| "run_calls step (r # rs) s =
     (let (ok, s1) = step r s; (oks, s2) = run_calls step rs s1 in (ok # oks, s2))"

fun spec_run :: "('r \<Rightarrow> 'a \<Rightarrow> 'a \<Rightarrow> bool) \<Rightarrow> ('r \<times> bool) list \<Rightarrow> 'a \<Rightarrow> 'a \<Rightarrow> bool" where
  "spec_run spec [] m m' \<longleftrightarrow> m' = m"
| "spec_run spec ((r, ok) # rs) m m' \<longleftrightarrow> (\<exists>m1. (if ok then spec r m m1 else m1 = m) \<and> spec_run spec rs m1 m')"

locale simulation =
  fixes inv :: "'s \<Rightarrow> bool" and abs :: "'s \<Rightarrow> 'a" and step :: "'r \<Rightarrow> 's \<Rightarrow> bool \<times> 's" and spec :: "'r \<Rightarrow> 'a \<Rightarrow> 'a \<Rightarrow> bool"
  assumes step_inv: "inv s \<Longrightarrow> step r s = (ok, s') \<Longrightarrow> inv s'"
    and step_done: "inv s \<Longrightarrow> step r s = (True, s') \<Longrightarrow> spec r (abs s) (abs s')"
    and step_refused: "inv s \<Longrightarrow> step r s = (False, s') \<Longrightarrow> abs s' = abs s"
begin

lemma run_refines:
  "inv s \<Longrightarrow> run_calls step rs s = (oks, s') \<Longrightarrow>
     inv s' \<and> length oks = length rs \<and> spec_run spec (zip rs oks) (abs s) (abs s')"
proof (induction rs arbitrary: s oks)
  case (Cons r rs)
  obtain ok s1 where 1: "step r s = (ok, s1)" by (rule prod.exhaust)
  obtain oks' s2 where 2: "run_calls step rs s1 = (oks', s2)" by (rule prod.exhaust)
  have r: "oks = ok # oks'" "s' = s2" using Cons.prems(2) 1 2 by simp_all
  have "if ok then spec r (abs s) (abs s1) else abs s1 = abs s"
    using step_done step_refused Cons.prems(1) 1 by (cases ok) auto
  with Cons.IH [OF step_inv [OF Cons.prems(1) 1] 2 [folded r(2)]] show ?case
    unfolding r(1) by (simp only: zip_Cons_Cons spec_run.simps list.size) blast
qed simp

end

definition does_asked :: "api_env \<Rightarrow> route_request \<Rightarrow> routing \<Rightarrow> routing \<Rightarrow> bool" where
  "does_asked env req m m' \<longleftrightarrow> (\<exists>new op. asked env req new = Some op \<and> apply_op op m = Some m')"

interpretation table: simulation "\<lambda>w. routes_ok (w_db w)" "\<lambda>w. routing (w_db w)" "route_call env" "does_asked env" for env
proof
  show "routes_ok (w_db w')" if "routes_ok (w_db w)" "route_call env req w = (ok, w')" for w req ok w'
    using route_call_refines [OF that] by blast
  show "does_asked env req (routing (w_db w)) (routing (w_db w'))"
    if "routes_ok (w_db w)" "route_call env req w = (True, w')" for w req w'
    using route_call_refines [OF that] by (simp add: does_asked_def)
  show "routing (w_db w') = routing (w_db w)" if "routes_ok (w_db w)" "route_call env req w = (False, w')" for w req w'
    using route_call_refines [OF that] by simp
qed

text \<open>
  C36. The routes API implements a routing table. For every sequence of requests that create, switch and delete
  routes or delete destinations, with any bodies and ids and any faults of the store, the rows stand for the table
  that results from exactly the operations answered with success, in their order, a refused or failed request
  changing nothing: a route is added only under a new id and for a pair that has none, a deleted destination
  takes its routes along, and the ids stay unique. And what the ingest path then reads for a source is exactly the
  set of destinations the table links to it and has switched on, each of them once.
\<close>

theorem routes_refine:
  assumes "routes_ok (w_db w)" and "run_calls (route_call env) reqs w = (oks, w')"
  shows "routes_ok (w_db w') \<and> length oks = length reqs \<and>
    spec_run (does_asked env) (zip reqs oks) (routing (w_db w)) (routing (w_db w')) \<and>
    (\<forall>sid. set (map tg_destination (enabled_targets (w_db w') sid)) = fan_out (routing (w_db w')) sid \<and>
       distinct (map tg_destination (enabled_targets (w_db w') sid)))"
  using table.run_refines [OF assms] fan_out_targets by blast

subsection \<open>Destinations the API stores\<close>

text \<open>A destination that a delivery can be sent to over HTTP: named, with an absolute URL, and limits that are set.\<close>

definition http_destination :: "api_env \<Rightarrow> destination \<Rightarrow> bool" where
  "http_destination env x \<longleftrightarrow> dst_name x \<noteq> '''' \<and>
     (case e_ParseURL env (dst_url x) of None \<Rightarrow> False | Some (scheme, host) \<Rightarrow> scheme \<in> {''http'', ''https''} \<and> host \<noteq> '''') \<and>
     (case dst_rate_limit x of None \<Rightarrow> True | Some r \<Rightarrow> 0 < r) \<and>
     dst_timeout_ms x \<noteq> 0 \<and> dst_max_attempts x \<noteq> 0 \<and> dst_backoff_base x \<noteq> 0 \<and> dst_backoff_max x \<noteq> 0"

lemma zero_default_ne: "d \<noteq> 0 \<Longrightarrow> zero_default n d \<noteq> 0"
  by (simp add: zero_default_def)

lemma decode_Inr:
  assumes "decodeDestinationRequest env body = Inr p"
  shows "dp_name p \<noteq> ''''" "\<exists>scheme host. e_ParseURL env (dp_url p) = Some (scheme, host) \<and> scheme \<in> {''http'', ''https''} \<and> host \<noteq> ''''"
    "dp_rate_limit p = Some r \<Longrightarrow> 0 < r"
    "dp_timeout_ms p \<noteq> 0" "dp_max_attempts p \<noteq> 0" "dp_backoff_base p \<noteq> 0" "dp_backoff_max p \<noteq> 0"
proof -
  obtain req where req: "Decode_struct destination_fields no_destination body = Some req"
    using assms unfolding decodeDestinationRequest_def by (cases "Decode_struct destination_fields no_destination body") simp_all
  have n: "dq_Name req \<noteq> ''''"
    using assms req unfolding decodeDestinationRequest_def by (cases "dq_Name req = ''''") simp_all
  obtain scheme host where u: "e_ParseURL env (dq_URL req) = Some (scheme, host)"
    using assms req n unfolding decodeDestinationRequest_def by (cases "e_ParseURL env (dq_URL req)") auto
  have g: "\<not> (scheme \<noteq> ''http'' \<and> scheme \<noteq> ''https'' \<or> host = '''')"
    using assms req n u unfolding decodeDestinationRequest_def
    by (cases "scheme \<noteq> ''http'' \<and> scheme \<noteq> ''https'' \<or> host = ''''") simp_all
  have l: "\<not> (case dq_RateLimitPerSecond req of None \<Rightarrow> False | Some r \<Rightarrow> r \<le> 0)"
    using assms req n u g unfolding decodeDestinationRequest_def
    by (cases "case dq_RateLimitPerSecond req of None \<Rightarrow> False | Some r \<Rightarrow> r \<le> 0") simp_all
  have p: "p = \<lparr>dp_name = dq_Name req, dp_url = dq_URL req,
       dp_auth_config = (case dq_AuthConfig req of None \<Rightarrow> ''{}'' | Some c \<Rightarrow> c),
       dp_timeout_ms = zero_default (dq_TimeoutMs req) defaultTimeoutMs, dp_rate_limit = dq_RateLimitPerSecond req,
       dp_max_attempts = zero_default (dq_MaxAttempts req) defaultMaxAttempts,
       dp_backoff_base = zero_default (dq_BackoffBaseSeconds req) defaultBackoffBaseSeconds,
       dp_backoff_max = zero_default (dq_BackoffMaxSeconds req) defaultBackoffMaxSeconds\<rparr>"
    using assms unfolding decodeDestinationRequest_def req option.case if_not_P [OF n] u prod.case if_not_P [OF g] if_not_P [OF l]
    by simp
  show "dp_name p \<noteq> ''''" using p n by simp
  show "\<exists>scheme host. e_ParseURL env (dp_url p) = Some (scheme, host) \<and> scheme \<in> {''http'', ''https''} \<and> host \<noteq> ''''"
    using p u g by (intro exI [of _ scheme] exI [of _ host]) simp
  show "dp_rate_limit p = Some r \<Longrightarrow> 0 < r" using p l by simp
  show "dp_timeout_ms p \<noteq> 0" "dp_max_attempts p \<noteq> 0" "dp_backoff_base p \<noteq> 0" "dp_backoff_max p \<noteq> 0"
    unfolding p by (simp_all add: zero_default_ne defaultTimeoutMs_def defaultMaxAttempts_def
        defaultBackoffBaseSeconds_def defaultBackoffMaxSeconds_def)
qed

lemma decode_http:
  assumes "decodeDestinationRequest env body = Inr p" "dst_name x = dp_name p" "dst_url x = dp_url p"
    "dst_rate_limit x = dp_rate_limit p" "dst_timeout_ms x = dp_timeout_ms p" "dst_max_attempts x = dp_max_attempts p"
    "dst_backoff_base x = dp_backoff_base p" "dst_backoff_max x = dp_backoff_max p"
  shows "http_destination env x"
proof -
  note p = decode_Inr [OF assms(1)]
  obtain scheme host where "e_ParseURL env (dst_url x) = Some (scheme, host)" "scheme \<in> {''http'', ''https''}" "host \<noteq> ''''"
    using p(2) assms(3) by auto
  moreover have "case dst_rate_limit x of None \<Rightarrow> True | Some r \<Rightarrow> 0 < r"
    using p(3) assms(4) by (cases "dp_rate_limit p") simp_all
  ultimately show ?thesis unfolding http_destination_def using p(1,4-7) assms by simp
qed

text \<open>The requests that change destinations.\<close>

datatype destination_request = CreateDestination bytes | PatchDestination string bytes | DropDestination string
  | Hold string | Release string

fun destination_call :: "api_env \<Rightarrow> destination_request \<Rightarrow> world \<Rightarrow> bool \<times> world" where
  "destination_call env (CreateDestination body) w = answer (create_destination env body w)"
| "destination_call env (PatchDestination pathID body) w = answer (update_destination_api env pathID body w)"
| "destination_call env (DropDestination pathID) w = answer (delete_destination env pathID w)"
| "destination_call env (Hold pathID) w = answer (pause env pathID w)"
| "destination_call env (Release pathID) w = answer (resume env pathID w)"

text \<open>A predicate on rows that the columns of a valid request establish and that a pause does not touch is kept by all of them.\<close>

definition columns_of :: "destination_params \<Rightarrow> destination \<Rightarrow> bool" where
  "columns_of p x \<longleftrightarrow> dst_name x = dp_name p \<and> dst_url x = dp_url p \<and> dst_rate_limit x = dp_rate_limit p \<and>
     dst_timeout_ms x = dp_timeout_ms p \<and> dst_max_attempts x = dp_max_attempts p \<and>
     dst_backoff_base x = dp_backoff_base p \<and> dst_backoff_max x = dp_backoff_max p"

lemma InsertDestination_all:
  assumes "InsertDestination tenant p w = (q, w')" "list_all P (db_destinations (w_db w))" "\<And>x. columns_of p x \<Longrightarrow> P x"
  shows "list_all P (db_destinations (w_db w'))"
  using assms(1,2) by (auto simp: InsertDestination_def exec_def Let_def columns_of_def intro!: assms(3) split: option.splits if_splits)

lemma UpdateDestination_all:
  assumes "UpdateDestination did tenant p w = (q, w')" "list_all P (db_destinations (w_db w))" "\<And>x. columns_of p x \<Longrightarrow> P x"
  shows "list_all P (db_destinations (w_db w'))"
proof -
  have "list_all P (update_where Q (\<lambda>x. x\<lparr>dst_name := dp_name p, dst_url := dp_url p, dst_auth_config := auth,
      dst_timeout_ms := dp_timeout_ms p, dst_rate_limit := dp_rate_limit p, dst_max_attempts := dp_max_attempts p,
      dst_backoff_base := dp_backoff_base p, dst_backoff_max := dp_backoff_max p, dst_updated_at := now\<rparr>)
      (db_destinations (w_db w)))" for Q auth now
    by (rule list_all_update_where [OF assms(2)]) (rule assms(3), simp add: columns_of_def)
  then show ?thesis using assms(1,2)
    by (auto simp: UpdateDestination_def exec_def returning_def split: option.splits if_splits list.splits)
qed

lemma update_destination_all:
  assumes "update_destination did tenant f w = (q, w')" "list_all P (db_destinations (w_db w))" "\<And>t x. P x \<Longrightarrow> P (f t x)"
  shows "list_all P (db_destinations (w_db w'))"
  using assms(1,2)
  by (auto simp: update_destination_def exec_def returning_def intro!: list_all_update_where assms(3) split: list.splits if_splits)

lemma DeleteDestination_all:
  "DeleteDestination did tenant w = (q, w') \<Longrightarrow> list_all P (db_destinations (w_db w)) \<Longrightarrow> list_all P (db_destinations (w_db w'))"
  by (auto simp: DeleteDestination_def exec_def delete_destinations_def Let_def list_all_iff split: if_splits)

lemma answer_or_404: "answer (or_404 msg q k) = (ok, w') \<Longrightarrow> w' = snd q"
  by (cases q) (auto simp: answer_def or_404_def split: sum.splits db_error.splits)

lemma answer_or_500: "answer (or_500 q k) = (ok, w') \<Longrightarrow> w' = snd q"
  by (cases q) (auto simp: answer_def or_500_def split: sum.splits)

lemma destination_call_all:
  assumes call: "destination_call env req w = (ok, w')" and all: "list_all P (db_destinations (w_db w))"
    and cols: "\<And>body p x. decodeDestinationRequest env body = Inr p \<Longrightarrow> columns_of p x \<Longrightarrow> P x"
    and paused: "\<And>x t. P x \<Longrightarrow> P (x\<lparr>dst_paused_at := t\<rparr>)"
  shows "list_all P (db_destinations (w_db w'))"
proof -
  have by_id: "list_all P (db_destinations (w_db w'))"
    if "answer (with_id env pathID msg k w) = (ok, w')"
      "\<And>i ok w'. answer (k i w) = (ok, w') \<Longrightarrow> list_all P (db_destinations (w_db w'))" for pathID msg k
    using with_id_answer [OF that(1)] that(2) all by blast
  show ?thesis
  proof (cases req)
    case (CreateDestination body)
    show ?thesis
    proof (cases "decodeDestinationRequest env body")
      case (Inl msg)
      then show ?thesis using call CreateDestination all by (simp add: create_destination_def answer_def)
    next
      case (Inr p)
      then have "w' = snd (InsertDestination DefaultTenantID p w)"
        using call CreateDestination by (intro answer_or_500) (simp add: create_destination_def)
      then show ?thesis using InsertDestination_all [OF surjective_pairing all cols [OF Inr]] by simp
    qed
  next
    case (PatchDestination pathID body)
    show ?thesis
    proof (rule by_id [OF call [unfolded PatchDestination destination_call.simps update_destination_api_def]])
      fix i ok w'
      assume k: "answer (case decodeDestinationRequest env body of Inl msg \<Rightarrow> (Problem 400 msg, w)
        | Inr p \<Rightarrow> or_404 ''destination not found'' (UpdateDestination i DefaultTenantID p w) (\<lambda>dest.
            Reply 200 (toDestinationResponse dest))) = (ok, w')"
      show "list_all P (db_destinations (w_db w'))"
      proof (cases "decodeDestinationRequest env body")
        case (Inl msg)
        then show ?thesis using k all by (simp add: answer_def)
      next
        case (Inr p)
        then have "w' = snd (UpdateDestination i DefaultTenantID p w)" using k by (intro answer_or_404) simp
        then show ?thesis using UpdateDestination_all [OF surjective_pairing all cols [OF Inr]] by simp
      qed
    qed
  next
    case (DropDestination pathID)
    show ?thesis
      by (rule by_id [OF call [unfolded DropDestination destination_call.simps delete_destination_def]])
        (drule answer_or_500, simp add: DeleteDestination_all [OF surjective_pairing all])
  next
    case (Hold pathID)
    show ?thesis
      by (rule by_id [OF call [unfolded Hold destination_call.simps pause_def]])
        (drule answer_or_404, simp add: PauseDestination_def update_destination_all [OF surjective_pairing all paused])
  next
    case (Release pathID)
    show ?thesis
      by (rule by_id [OF call [unfolded Release destination_call.simps resume_def]])
        (drule answer_or_404, simp add: ResumeDestination_def update_destination_all [OF surjective_pairing all paused])
  qed
qed

lemma destination_calls_all:
  assumes "run_calls (destination_call env) reqs w = (oks, w')" "list_all P (db_destinations (w_db w))"
    and "\<And>body p x. decodeDestinationRequest env body = Inr p \<Longrightarrow> columns_of p x \<Longrightarrow> P x"
    and "\<And>x t. P x \<Longrightarrow> P (x\<lparr>dst_paused_at := t\<rparr>)"
  shows "list_all P (db_destinations (w_db w'))"
  using assms(1,2)
proof (induction reqs arbitrary: w oks)
  case (Cons r rs)
  obtain ok w1 where 1: "destination_call env r w = (ok, w1)" by (rule prod.exhaust)
  obtain oks' w2 where 2: "run_calls (destination_call env) rs w1 = (oks', w2)" by (rule prod.exhaust)
  have w: "w' = w2" using Cons.prems(1) 1 2 by simp
  have "list_all P (db_destinations (w_db w1))"
    by (rule destination_call_all [OF 1 Cons.prems(2)]) (use assms(3,4) in blast)+
  then show ?case by (rule Cons.IH [OF 2 [folded w]])
qed simp

lemma columns_http: "decodeDestinationRequest env body = Inr p \<Longrightarrow> columns_of p x \<Longrightarrow> http_destination env x"
  by (rule decode_http) (simp_all add: columns_of_def)

text \<open>
  What the destinations API stores can be delivered to. If every destination is either a tunnel or named,
  with an absolute http or https URL, a positive rate limit if any, and no zero timeout, attempt limit or backoff,
  then this still holds after any sequence of requests that create, change, delete, pause and resume
  destinations, with any bodies; and the requests never make a tunnel: each tunnel destination afterwards was one
  before, under the same id (given that the URL parser reads the scheme of a tunnel URL as \<^verbatim>\<open>tunnel\<close>).
\<close>

theorem destinations_api_wf:
  assumes "list_all (\<lambda>x. IsURL (dst_url x) \<or> http_destination env x) (db_destinations (w_db w))"
    and "run_calls (destination_call env) reqs w = (oks, w')"
    and "\<And>u scheme host. IsURL u \<Longrightarrow> e_ParseURL env u = Some (scheme, host) \<Longrightarrow> scheme = ''tunnel''"
  shows "list_all (\<lambda>x. (IsURL (dst_url x) \<longrightarrow> dst_id x \<in> dst_id ` {y \<in> set (db_destinations (w_db w)). IsURL (dst_url y)}) \<and>
    (IsURL (dst_url x) \<or> http_destination env x)) (db_destinations (w_db w'))"
proof (rule destination_calls_all [OF assms(2)])
  show "list_all (\<lambda>x. (IsURL (dst_url x) \<longrightarrow> dst_id x \<in> dst_id ` {y \<in> set (db_destinations (w_db w)). IsURL (dst_url y)}) \<and>
    (IsURL (dst_url x) \<or> http_destination env x)) (db_destinations (w_db w))"
    using assms(1) by (auto simp: list_all_iff)
next
  fix body p x assume "decodeDestinationRequest env body = Inr p" "columns_of p x"
  then have h: "http_destination env x" by (rule columns_http)
  moreover have "\<not> IsURL (dst_url x)"
  proof
    assume "IsURL (dst_url x)"
    with h assms(3) have "''tunnel'' \<in> {''http'', ''https''}"
      by (auto simp: http_destination_def split: option.splits)
    then show False by simp
  qed
  ultimately show "(IsURL (dst_url x) \<longrightarrow> dst_id x \<in> dst_id ` {y \<in> set (db_destinations (w_db w)). IsURL (dst_url y)}) \<and>
    (IsURL (dst_url x) \<or> http_destination env x)" by blast
qed (simp add: http_destination_def)

subsection \<open>The handlers on the example database\<close>

definition routing_env :: api_env where
  "routing_env = \<lparr>e_Scan = scan_uuid, e_ParseTime = (\<lambda>_. None), e_UnmarshalTime = (\<lambda>_. None), e_MarshalTime = (\<lambda>_. None),
     e_ParseURL = (\<lambda>u. if IsURL u then Some (''tunnel'', drop 9 u)
       else if HasPrefix u ''http://'' then Some (''http'', drop 7 u) else None)\<rparr>"

definition paused_example :: destination where
  "paused_example = destination_example\<lparr>dst_tenant := DefaultTenantID\<rparr>"

definition routing_world :: world where
  "routing_world = world_example\<lparr>w_db := db_example\<lparr>db_destinations := [paused_example],
     db_routes := [route_example\<lparr>rt_tenant := DefaultTenantID\<rparr>],
     db_deliveries := [delivery_example\<lparr>dl_tenant := DefaultTenantID\<rparr>]\<rparr>\<rparr>"

definition held_world :: world where
  "held_world = (tick routing_world)\<lparr>w_db := (w_db routing_world)\<lparr>db_destinations := [paused_example\<lparr>dst_paused_at := Some 0\<rparr>]\<rparr>\<rparr>"

lemmas routing_defs = routing_world_def held_world_def paused_example_def example_defs

lemma scan_routing: "parseUUID routing_env (uuidString u) = Some u" "e_Scan routing_env (uuidString u) = Some u"
  by (simp_all add: parseUUID_def routing_env_def scan_uuidString)

lemma pause_example: "pause routing_env (uuidString 9) routing_world =
    (Reply 200 (toDestinationResponse (paused_example\<lparr>dst_paused_at := Some 0\<rparr>)), held_world)"
  by (simp add: pause_def with_id_def scan_routing PauseDestination_def update_destination_def exec_def returning_def or_404_def)
    (simp add: routing_defs)

theorem paused_gets_nothing_witness:
  "ws_sent (run_jobs [(outside_example 200, Map.empty, job_example 1)]
     \<lparr>ws_world = held_world, ws_pacer = Map.empty, ws_sent = []\<rparr>) = []"
proof -
  let ?s = "\<lparr>ws_world = held_world, ws_pacer = Map.empty, ws_sent = []\<rparr>"
  let ?jobs = "[(outside_example 200, Map.empty, job_example 1)]"
  have 1: "distinct (map dst_id (db_destinations (w_db routing_world)))" "distinct (map dl_id (db_deliveries (w_db routing_world)))"
    by (simp_all add: routing_world_def)
  have "ws_world ?s = held_world" by simp
  note use = paused_gets_nothing [OF pause_example scan_routing(1) 1 this refl, of ?jobs]
  have only: "db_destinations (w_db held_world) = [paused_example\<lparr>dst_paused_at := Some 0\<rparr>]" "dst_id paused_example = 9"
    by (simp_all add: held_world_def paused_example_def destination_example_def)
  obtain out where out: "ws_sent (run_jobs ?jobs ?s) = [] @ out"
    "\<forall>m \<in> set out. \<exists>dest e t. dest \<in> set (db_destinations (w_db held_world)) \<and> dst_id dest \<noteq> 9 \<and> carries m dest e t"
    using use by auto
  have "out = []"
  proof (rule ccontr)
    assume "out \<noteq> []"
    then have "hd out \<in> set out" by simp
    with out(2) show False by (auto simp: only)
  qed
  with out(1) show ?thesis by simp
qed

theorem routes_refine_witness:
  "\<exists>oks w'. run_calls (route_call routing_env) [RemoveRoute (uuidString 8), RemoveRoute (uuidString 8)] routing_world = (oks, w') \<and>
     spec_run (does_asked routing_env) (zip [RemoveRoute (uuidString 8), RemoveRoute (uuidString 8)] oks)
       [8 \<mapsto> (7, 9, True)] Map.empty \<and> fan_out (routing (w_db w')) 7 = {}"
proof -
  let ?reqs = "[RemoveRoute (uuidString 8), RemoveRoute (uuidString 8)]"
  have ok: "routes_ok (w_db routing_world)" by (simp add: routes_ok_def routing_defs)
  obtain oks w' where run: "run_calls (route_call routing_env) ?reqs routing_world = (oks, w')" by (rule prod.exhaust)
  note use = routes_refine [OF ok run]
  have "db_routes (w_db w') = []"
    using run by (auto simp: answer_def delete_route_def with_id_def scan_routing DeleteRoute_def exec_def or_500_def routing_defs)
  then have m: "routing (w_db w') = Map.empty" by (simp add: routing_def)
  have "routing (w_db routing_world) = [8 \<mapsto> (7, 9, True)]" by (simp add: routing_def route_entry_def routing_defs)
  with use m run show ?thesis by (auto simp: fan_out_def)
qed

theorem destinations_api_wf_witness:
  "http_destination routing_env (paused_example\<lparr>dst_paused_at := Some 0\<rparr>)"
proof -
  have run: "run_calls (destination_call routing_env) [Hold (uuidString 9)] routing_world = ([True], held_world)"
    by (simp add: pause_example answer_def is_success_def)
  have ini: "list_all (\<lambda>x. IsURL (dst_url x) \<or> http_destination routing_env x) (db_destinations (w_db routing_world))"
    by (simp add: http_destination_def routing_env_def routing_defs HasPrefix_def IsURL_def URLScheme_def)
  have tun: "scheme = ''tunnel''" if "IsURL u" "e_ParseURL routing_env u = Some (scheme, host)" for u scheme host
    using that by (simp add: routing_env_def)
  have "\<not> IsURL ''http://d''" by (simp add: IsURL_def URLScheme_def HasPrefix_def)
  with destinations_api_wf [OF ini run tun] show ?thesis
    by (simp add: held_world_def paused_example_def destination_example_def)
qed

definition rules_example :: rulesHandler where
  "rules_example = \<lparr>rh_cel = cel_example, rh_CompileError = (\<lambda>_. ''syntax error'')\<rparr>"

definition rule_body :: bytes where
  "rule_body = marshal_object [(''source_id'', marshal_string ''07''), (''name'', marshal_string ''no tests''),
     (''expression'', marshal_string ''true''), (''action'', marshal_string ''drop'')]"

definition dropping_rule :: rule where
  "dropping_rule = \<lparr>ru_id = 100, ru_tenant = DefaultTenantID, ru_source = 7, ru_name = ''no tests'', ru_expression = ''true'',
     ru_action = ''drop'', ru_route_dests = [], ru_priority = 100, ru_enabled = True, ru_created_at = 0, ru_updated_at = 0\<rparr>"

lemma rule_body_decoded: "Decode_struct rule_fields no_rule rule_body =
    Some (no_rule\<lparr>rlq_SourceID := ''07'', rlq_Name := ''no tests'', rlq_Expression := ''true'', rlq_Action := ''drop''\<rparr>)"
proof -
  let ?kvs = "[(''source_id'', ''07''), (''name'', ''no tests''), (''expression'', ''true''), (''action'', ''drop'')]"
  have b: "rule_body = marshal_object (map (\<lambda>(k, v). (k, marshal_string v)) ?kvs)" by (simp add: rule_body_def)
  show ?thesis unfolding b
    by (subst Decode_texts) (simp_all add: ascii_text_def set_text_def rule_fields_def string_field_def no_rule_def)
qed

lemma scan_07: "parseUUID routing_env ''07'' = Some 7"
  unfolding parseUUID_def routing_env_def by code_simp

lemma rule_created: "db_rules (w_db (rule_call rules_example routing_env (CreateRule rule_body) routing_world)) = [dropping_rule]"
  by (simp add: create_rule_def rule_body_decoded scan_07)
    (simp add: validate_rule_def no_rule_def rules_example_def Validate_def cel_example_def ActionDrop_def ActionRoute_def
      InsertRule_def exec_def rule_texts_ok_def rule_ok_def routing_defs dropping_rule_def Let_def)

theorem rules_api_sound_witness: "rule_sound cel_example dropping_rule"
proof -
  have "list_all (rule_sound (rh_cel rules_example)) (db_rules (w_db routing_world))"
    by (simp add: routing_world_def db_example_def empty_db_def)
  from rules_api_sound [OF this refl refl, of routing_env "[CreateRule rule_body]"] show ?thesis
    using rule_created by (simp add: rules_example_def)
qed

end
