(* ===== verification/Alerting.thy ===== *)
theory Alerting
  imports Json_Struct Buckets Api_Base
begin

text \<open>
  Alerting (\<^verbatim>\<open>internal/alerting\<close>): the configuration kept in the instance settings, the two conditions that one
  run of the periodic job evaluates, the cooldown between two alerts for the same destination and condition, and
  the fan-out to the channels. The channels themselves (an HTTP POST to Slack, SMTP) and the formatted texts of the
  alerts are parameters.
\<close>

subsection \<open>Configuration\<close>

definition instanceSettingKey :: string where "instanceSettingKey = ''alerting''"

record SlackConfig =
  slc_WebhookURL :: string

record SMTPConfig =
  smc_Host :: string
  smc_From :: string
  smc_To :: "string list"
  smc_Username :: string
  smc_Password :: string

record Config =
  cf_Disabled :: bool
  cf_CooldownMinutes :: int
  cf_WindowMinutes :: int
  cf_FailureThreshold :: real
  cf_MinDeliveries :: int
  cf_Slack :: "SlackConfig option"
  cf_SMTP :: "SMTPConfig option"
  cf_Enabled :: bool

definition no_config :: Config where
  "no_config = \<lparr>cf_Disabled = False, cf_CooldownMinutes = 0, cf_WindowMinutes = 0, cf_FailureThreshold = 0,
     cf_MinDeliveries = 0, cf_Slack = None, cf_SMTP = None, cf_Enabled = False\<rparr>"

text \<open>
  \<^verbatim>\<open>strconv.ParseFloat\<close> on a JSON number: the decimal value, rounded to a float64 (below the normal range to a
  multiple of the smallest subnormal); a magnitude that would round to infinity is an error.
\<close>

fun digits_value :: "nat \<Rightarrow> string \<Rightarrow> nat" where
  "digits_value n [] = n"
| "digits_value n (c # cs) = digits_value (10 * n + (of_char c - 48)) cs"

definition exponent_value :: "string \<Rightarrow> int" where
  "exponent_value s = (case s of
     [] \<Rightarrow> 0
   | c # cs \<Rightarrow> if c = CHR ''-'' then - int (digits_value 0 cs)
              else if c = CHR ''+'' then int (digits_value 0 cs)
              else int (digits_value 0 s))"

definition decimal_value :: "string \<Rightarrow> real" where
  "decimal_value lit =
     (let neg = (lit \<noteq> [] \<and> hd lit = CHR ''-'');
          s = (if neg then tl lit else lit);
          mant = takeWhile (\<lambda>c. c \<noteq> CHR ''e'' \<and> c \<noteq> CHR ''E'') s;
          ip = takeWhile (\<lambda>c. c \<noteq> CHR ''.'') mant;
          fp = drop (length ip + 1) mant;
          e = exponent_value (drop (length mant + 1) s);
          v = real (digits_value 0 (ip @ fp)) * 10 powi (e - int (length fp))
      in if neg then - v else v)"

definition ParseFloat :: "string \<Rightarrow> real option" where
  "ParseFloat lit =
     (let v = decimal_value lit in
      if \<bar>v\<bar> < 1 / 2 ^ 1022 then Some (of_int (rne (v * 2 ^ 1074)) / 2 ^ 1074)
      else if \<bar>fl64 v\<bar> \<ge> 2 ^ 1024 then None
      else Some (fl64 v))"

definition float_field :: "((real \<Rightarrow> real) \<Rightarrow> 'r \<Rightarrow> 'r) \<Rightarrow> 'r field" where
  "float_field upd raw v r = (case v of
     JNumber lit \<Rightarrow> map_option (\<lambda>x. upd (\<lambda>_. x) r) (ParseFloat lit) | JNull \<Rightarrow> Some r | _ \<Rightarrow> None)"

text \<open>A pointer to a struct: a second member of the same name is decoded into the struct of the first.\<close>

definition struct_ptr :: "('r \<Rightarrow> 's option) \<Rightarrow> (('s option \<Rightarrow> 's option) \<Rightarrow> 'r \<Rightarrow> 'r) \<Rightarrow> (string \<times> 's field) list \<Rightarrow> 's \<Rightarrow> 'r field" where
  "struct_ptr get upd fs zero raw v r = (case v of
     JNull \<Rightarrow> Some (upd (\<lambda>_. None) r)
   | _ \<Rightarrow> map_option (\<lambda>x. upd (\<lambda>_. Some x) r)
       (Unmarshal_struct fs (case get r of None \<Rightarrow> zero | Some x \<Rightarrow> x) raw))"

definition slack_fields :: "(string \<times> SlackConfig field) list" where
  "slack_fields = [(''webhook_url'', string_field slc_WebhookURL_update)]"

definition smtp_fields :: "(string \<times> SMTPConfig field) list" where
  "smtp_fields = [(''host'', string_field smc_Host_update), (''from'', string_field smc_From_update),
     (''to'', strings_field smc_To smc_To_update), (''username'', string_field smc_Username_update),
     (''password'', string_field smc_Password_update)]"

definition config_fields :: "(string \<times> Config field) list" where
  "config_fields = [(''disabled'', bool_field cf_Disabled_update), (''cooldown_minutes'', int64_field cf_CooldownMinutes_update),
     (''window_minutes'', int64_field cf_WindowMinutes_update), (''failure_threshold'', float_field cf_FailureThreshold_update),
     (''min_deliveries'', int64_field cf_MinDeliveries_update),
     (''slack'', struct_ptr cf_Slack cf_Slack_update slack_fields \<lparr>slc_WebhookURL = ''''\<rparr>),
     (''smtp'', struct_ptr cf_SMTP cf_SMTP_update smtp_fields
        \<lparr>smc_Host = '''', smc_From = '''', smc_To = [], smc_Username = '''', smc_Password = ''''\<rparr>)]"

definition applyDefaults :: "Config \<Rightarrow> Config" where
  "applyDefaults c = c\<lparr>
     cf_CooldownMinutes := (if cf_CooldownMinutes c \<le> 0 then 60 else cf_CooldownMinutes c),
     cf_WindowMinutes := (if cf_WindowMinutes c \<le> 0 then 15 else cf_WindowMinutes c),
     cf_MinDeliveries := (if cf_MinDeliveries c \<le> 0 then 20 else cf_MinDeliveries c)\<rparr>"

datatype alert_error = QueryFailed db_error | BadConfig | StateFailed db_error | NotifyFailed string string
  | MarkFailed db_error | Joined "alert_error list"

definition LoadConfig :: "world \<Rightarrow> (alert_error + Config) \<times> world" where
  "LoadConfig w =
     (case GetInstanceSetting instanceSettingKey w of
        (Inl NoRows, w1) \<Rightarrow> (Inr no_config, w1)
      | (Inl e, w1) \<Rightarrow> (Inl (QueryFailed e), w1)
      | (Inr raw, w1) \<Rightarrow>
          (case Unmarshal_struct config_fields no_config raw of
             None \<Rightarrow> (Inl BadConfig, w1)
           | Some c \<Rightarrow> (Inr (applyDefaults (c\<lparr>cf_Enabled := \<not> cf_Disabled c\<rparr>)), w1)))"

subsection \<open>Channels\<close>

record Alert =
  al_Condition :: string
  al_DestinationID :: string
  al_DestinationName :: string
  al_Detail :: string
  al_FiredAt :: time

record smtp_auth =
  sa_username :: string
  sa_password :: string
  sa_host :: string

record SMTPNotifier =
  sn_Addr :: string
  sn_From :: string
  sn_To :: "string list"
  sn_Auth :: "smtp_auth option"

definition newSMTPNotifier :: "SMTPConfig \<Rightarrow> SMTPNotifier" where
  "newSMTPNotifier c =
     (let host = (if CHR '':'' \<in> set (smc_Host c)
                  then rev (tl (dropWhile (\<lambda>ch. ch \<noteq> CHR '':'') (rev (smc_Host c)))) else smc_Host c)
      in \<lparr>sn_Addr = smc_Host c, sn_From = smc_From c, sn_To = smc_To c,
          sn_Auth = (if smc_Username c \<noteq> ''''
                     then Some \<lparr>sa_username = smc_Username c, sa_password = smc_Password c, sa_host = host\<rparr> else None)\<rparr>)"

datatype channel = Slack string | Smtp SMTPNotifier

definition buildNotifier :: "Config \<Rightarrow> channel list option" where
  "buildNotifier c =
     (let ns = (case cf_Slack c of None \<Rightarrow> [] | Some s \<Rightarrow> if slc_WebhookURL s \<noteq> '''' then [Slack (slc_WebhookURL s)] else []) @
               (case cf_SMTP c of None \<Rightarrow> [] | Some s \<Rightarrow> if smc_Host s \<noteq> '''' then [Smtp (newSMTPNotifier s)] else [])
      in if ns = [] then None else Some ns)"

text \<open>
  What is outside: the status of a POST (\<open>None\<close> when it gets no answer), \<^verbatim>\<open>smtp.SendMail\<close>, the \<^verbatim>\<open>%q\<close> of a name, a time in
  RFC 3339, and the texts of the two conditions, which \<^verbatim>\<open>fmt.Sprintf\<close> makes of the name, the numbers and the window.
\<close>

record alert_env =
  ae_Post :: "string \<Rightarrow> bytes \<Rightarrow> int option"
  ae_SendMail :: "SMTPNotifier \<Rightarrow> bytes \<Rightarrow> bool"
  ae_Quote :: "string \<Rightarrow> string"
  ae_RFC3339 :: "time \<Rightarrow> string"
  ae_dlq_detail :: "string \<Rightarrow> int \<Rightarrow> string"
  ae_rate_detail :: "real \<Rightarrow> int \<Rightarrow> int \<Rightarrow> int \<Rightarrow> real \<Rightarrow> string"

definition Subject :: "alert_env \<Rightarrow> Alert \<Rightarrow> string" where
  "Subject env a = ''[webhook-gateway] '' @ al_Condition a @ '' alert for '' @ ae_Quote env (al_DestinationName a)"

definition crlf :: string where "crlf = [CHR 0x0D, CHR 0x0A]"

definition Alert_Body :: "alert_env \<Rightarrow> Alert \<Rightarrow> string" where
  "Alert_Body env a = Subject env a @ [CHR 0x0A, CHR 0x0A] @ ''Destination: '' @ al_DestinationName a @ '' ('' @ al_DestinationID a @ '')'' @
     [CHR 0x0A] @ ''Condition: '' @ al_Condition a @ [CHR 0x0A] @ ''Detail: '' @ al_Detail a @ [CHR 0x0A] @ ''At: '' @ ae_RFC3339 env (al_FiredAt a)"

definition slack_Notify :: "alert_env \<Rightarrow> string \<Rightarrow> Alert \<Rightarrow> bool" where
  "slack_Notify env url a =
     (case ae_Post env url (marshal_object [(''text'', marshal_string (Alert_Body env a))]) of
        None \<Rightarrow> False | Some status \<Rightarrow> \<not> (status < 200 \<or> status \<ge> 300))"

fun join_with :: "string \<Rightarrow> string list \<Rightarrow> string" where
  "join_with sep [] = ''''"
| "join_with sep [x] = x"
| "join_with sep (x # y # zs) = x @ sep @ join_with sep (y # zs)"

definition smtp_Notify :: "alert_env \<Rightarrow> SMTPNotifier \<Rightarrow> Alert \<Rightarrow> bool" where
  "smtp_Notify env s a =
     ae_SendMail env s (''From: '' @ sn_From s @ crlf @ ''To: '' @ join_with '', '' (sn_To s) @ crlf @
       ''Subject: '' @ Subject env a @ crlf @ crlf @ Alert_Body env a @ crlf)"

fun Notify :: "alert_env \<Rightarrow> Alert \<Rightarrow> channel \<Rightarrow> bool" where
  "Notify env a (Slack url) = slack_Notify env url a"
| "Notify env a (Smtp s) = smtp_Notify env s a"

text \<open>The state of a run: the store, and every alert handed to a channel so far.\<close>

record alert_run =
  ar_world :: world
  ar_sent :: "(channel \<times> Alert) list"

text \<open>Every channel is tried; the result is whether none failed.\<close>

definition multi_Notify :: "alert_env \<Rightarrow> channel list \<Rightarrow> Alert \<Rightarrow> alert_run \<Rightarrow> bool \<times> alert_run" where
  "multi_Notify env ns a s = (list_all (Notify env a) ns, s\<lparr>ar_sent := ar_sent s @ map (\<lambda>n. (n, a)) ns\<rparr>)"

subsection \<open>One evaluation\<close>

definition minute :: duration where "minute = 60 * second"

text \<open>A Go time as pgx sends it to a \<^verbatim>\<open>timestamptz\<close> column: to the microsecond below.\<close>

definition timestamptz :: "time \<Rightarrow> time" where
  "timestamptz t = t div 1000 * 1000"

definition cooldown :: "Config \<Rightarrow> duration" where
  "cooldown cfg = int64_of (cf_CooldownMinutes cfg * minute)"

definition maybeFire :: "alert_env \<Rightarrow> Config \<Rightarrow> channel list \<Rightarrow> time \<Rightarrow> uuid \<Rightarrow> string \<Rightarrow> string \<Rightarrow> string \<Rightarrow> alert_run \<Rightarrow>
    alert_error option \<times> alert_run" where
  "maybeFire env cfg ns now did name condition detail s =
     (let fire = (\<lambda>s1.
            let a = \<lparr>al_Condition = condition, al_DestinationID = uuidString did, al_DestinationName = name,
                     al_Detail = detail, al_FiredAt = now\<rparr>;
                (ok, s2) = multi_Notify env ns a s1
            in if \<not> ok then (Some (NotifyFailed condition name), s2)
               else (case MarkAlertFired did condition (timestamptz now) (ar_world s2) of
                       (Inl e, w) \<Rightarrow> (Some (MarkFailed e), s2\<lparr>ar_world := w\<rparr>)
                     | (Inr _, w) \<Rightarrow> (None, s2\<lparr>ar_world := w\<rparr>)))
      in case GetAlertLastFired did condition (ar_world s) of
           (Inr fired, w) \<Rightarrow>
             if Sub now fired < cooldown cfg then (None, s\<lparr>ar_world := w\<rparr>) else fire (s\<lparr>ar_world := w\<rparr>)
         | (Inl NoRows, w) \<Rightarrow> fire (s\<lparr>ar_world := w\<rparr>)
         | (Inl e, w) \<Rightarrow> (Some (StateFailed e), s\<lparr>ar_world := w\<rparr>))"

text \<open>The alerts of one condition, one after the other, with the errors they leave.\<close>

primrec fire_all :: "('a \<Rightarrow> alert_run \<Rightarrow> alert_error option \<times> alert_run) \<Rightarrow> 'a list \<Rightarrow> alert_run \<Rightarrow> alert_error list \<times> alert_run" where
  "fire_all f [] s = ([], s)"
| "fire_all f (x # xs) s =
     (let (e, s1) = f x s; (es, s2) = fire_all f xs s1 in ((case e of None \<Rightarrow> es | Some err \<Rightarrow> err # es), s2))"

definition windowStart :: "Config \<Rightarrow> time \<Rightarrow> time" where
  "windowStart cfg now = now + int64_of (int64_of (- cf_WindowMinutes cfg) * minute)"

definition fire_dlq :: "alert_env \<Rightarrow> Config \<Rightarrow> channel list \<Rightarrow> time \<Rightarrow> uuid \<times> string \<Rightarrow> alert_run \<Rightarrow> alert_error option \<times> alert_run" where
  "fire_dlq env cfg ns now d =
     maybeFire env cfg ns now (fst d) (snd d) ''dlq'' (ae_dlq_detail env (snd d) (cf_WindowMinutes cfg))"

definition failure_rate :: "failure_rate_row \<Rightarrow> real" where
  "failure_rate r = fl64 (fl64 (of_int (fr_failures r)) / fl64 (of_int (fr_total r)))"

definition fire_rate :: "alert_env \<Rightarrow> Config \<Rightarrow> channel list \<Rightarrow> time \<Rightarrow> failure_rate_row \<Rightarrow> alert_run \<Rightarrow> alert_error option \<times> alert_run" where
  "fire_rate env cfg ns now r s =
     (if fr_total r < cf_MinDeliveries cfg then (None, s)
      else if failure_rate r < cf_FailureThreshold cfg then (None, s)
      else maybeFire env cfg ns now (fr_destination r) (fr_name r) ''failure_rate''
             (ae_rate_detail env (failure_rate r) (fr_failures r) (fr_total r) (cf_WindowMinutes cfg) (cf_FailureThreshold cfg)) s)"

definition joined :: "alert_error list \<Rightarrow> alert_error option" where
  "joined es = (if es = [] then None else Some (Joined es))"

definition Evaluator_Run :: "alert_env \<Rightarrow> Config \<Rightarrow> channel list \<Rightarrow> alert_run \<Rightarrow> alert_error option \<times> alert_run" where
  "Evaluator_Run env cfg ns s =
     (let now = w_now (ar_world s); since = timestamptz (windowStart cfg now) in
      case DeadLetteredSince since (ar_world s) of
        (Inl e, w) \<Rightarrow> (Some (QueryFailed e), s\<lparr>ar_world := w\<rparr>)
      | (Inr dlq, w) \<Rightarrow>
          (let (errs, s1) = fire_all (fire_dlq env cfg ns now) dlq (s\<lparr>ar_world := w\<rparr>) in
           if \<not> cf_FailureThreshold cfg > 0 then (joined errs, s1)
           else (case DeliveryFailureRatesSince since (ar_world s1) of
                   (Inl e, w2) \<Rightarrow> (Some (QueryFailed e), s1\<lparr>ar_world := w2\<rparr>)
                 | (Inr rates, w2) \<Rightarrow>
                     (let (errs2, s2) = fire_all (fire_rate env cfg ns now) rates (s1\<lparr>ar_world := w2\<rparr>)
                      in (joined (errs @ errs2), s2)))))"

definition CheckWorker_Work :: "alert_env \<Rightarrow> alert_run \<Rightarrow> alert_error option \<times> alert_run" where
  "CheckWorker_Work env s =
     (case LoadConfig (ar_world s) of
        (Inl e, w) \<Rightarrow> (Some e, s\<lparr>ar_world := w\<rparr>)
      | (Inr cfg, w) \<Rightarrow>
          if \<not> cf_Enabled cfg then (None, s\<lparr>ar_world := w\<rparr>)
          else (case buildNotifier cfg of
                  None \<Rightarrow> (None, s\<lparr>ar_world := w\<rparr>)
                | Some ns \<Rightarrow> Evaluator_Run env cfg ns (s\<lparr>ar_world := w\<rparr>)))"

subsection \<open>What one alert does\<close>

text \<open>The recorded time of the last alert of a destination and condition.\<close>

definition last_fired :: "database \<Rightarrow> uuid \<Rightarrow> string \<Rightarrow> time option" where
  "last_fired d did cond = map_option as_last_fired_at (find (alert_row did cond) (db_alerts d))"

definition cooling :: "Config \<Rightarrow> time \<Rightarrow> database \<Rightarrow> uuid \<Rightarrow> string \<Rightarrow> bool" where
  "cooling cfg now d did cond \<longleftrightarrow> (case last_fired d did cond of None \<Rightarrow> False | Some t \<Rightarrow> Sub now t < cooldown cfg)"

lemma one_row_find: "one_row (map f (filter P xs)) = (case find P xs of None \<Rightarrow> Inl NoRows | Some x \<Rightarrow> Inr (f x))"
  by (induction xs) auto

lemma GetAlertLastFired_last:
  assumes "GetAlertLastFired did cond w = (q, w')"
  shows "w_db w' = w_db w" "w_now w' = w_now w" "w_pg w' = w_pg w"
    "q = Inr t \<Longrightarrow> last_fired (w_db w) did cond = Some t" "q = Inl NoRows \<Longrightarrow> last_fired (w_db w) did cond = None"
    "q = Inl e \<Longrightarrow> e \<noteq> NoRows \<Longrightarrow> pg_fault (w_pg w) (w_step w)"
  using assms
  by (auto simp: GetAlertLastFired_def query_def exec_def one_row_find last_fired_def split: option.splits if_splits)

lemma find_update_where:
  assumes "\<And>x. P (f x) = P x"
  shows "find P (update_where P f xs) = map_option f (find P xs)"
  using assms by (induction xs) auto

lemma find_update_where_other:
  assumes "\<And>x. Q x \<Longrightarrow> \<not> P x \<and> \<not> P (f x)"
  shows "find P (update_where Q f xs) = find P xs"
  using assms by (induction xs) auto

lemma alert_row_unique: "alert_row did cond a \<Longrightarrow> alert_row did' cond' a \<longleftrightarrow> did' = did \<and> cond' = cond"
  by (auto simp: alert_row_def)

lemma find_append: "find P (xs @ ys) = (case find P xs of None \<Rightarrow> find P ys | Some x \<Rightarrow> Some x)"
  by (induction xs) auto

lemma MarkAlertFired_last:
  assumes "MarkAlertFired did cond t0 w = (q, w')"
  shows "w_now w' = w_now w" "w_pg w' = w_pg w"
    "\<exists>rows. w_db w' = (w_db w)\<lparr>db_alerts := rows\<rparr>"
    "(did', cond') \<noteq> (did, cond) \<Longrightarrow> last_fired (w_db w') did' cond' = last_fired (w_db w) did' cond'"
    "q = Inr u \<Longrightarrow> last_fired (w_db w') did cond = Some t0"
proof -
  let ?up = "update_where (alert_row did cond) (\<lambda>a. a\<lparr>as_last_fired_at := t0\<rparr>) (db_alerts (w_db w))"
  let ?new = "db_alerts (w_db w) @ [\<lparr>as_destination = did, as_condition = cond, as_last_fired_at = t0\<rparr>]"
  show "w_now w' = w_now w" "w_pg w' = w_pg w"
    using steadyD [OF steady_exec assms [unfolded MarkAlertFired_def]] by simp_all
  have no: "filter (alert_row did cond) xs = [] \<longleftrightarrow> find (alert_row did cond) xs = None" for xs
    by (induction xs) auto
  consider (same) e where "q = Inl e" "w_db w' = w_db w"
    | (new) "find (alert_row did cond) (db_alerts (w_db w)) = None" "w_db w' = (w_db w)\<lparr>db_alerts := ?new\<rparr>"
    | (upd) a where "find (alert_row did cond) (db_alerts (w_db w)) = Some a" "w_db w' = (w_db w)\<lparr>db_alerts := ?up\<rparr>"
    using assms by (auto simp: MarkAlertFired_def exec_def no split: if_splits)
  then have "(\<exists>rows. w_db w' = (w_db w)\<lparr>db_alerts := rows\<rparr>) \<and>
    ((did', cond') \<noteq> (did, cond) \<longrightarrow> last_fired (w_db w') did' cond' = last_fired (w_db w) did' cond') \<and>
    (q = Inr u \<longrightarrow> last_fired (w_db w') did cond = Some t0)"
  proof cases
    case same
    then show ?thesis by (intro conjI exI [of _ "db_alerts (w_db w)"]) simp_all
  next
    case new
    then show ?thesis by (auto simp: last_fired_def find_append alert_row_def split: option.splits)
  next
    case upd
    have "find (alert_row did' cond') ?up = find (alert_row did' cond') (db_alerts (w_db w))" if "(did', cond') \<noteq> (did, cond)"
      by (rule find_update_where_other) (use that in \<open>auto simp: alert_row_def\<close>)
    moreover have "find (alert_row did cond) ?up = Some (a\<lparr>as_last_fired_at := t0\<rparr>)"
      using upd(1) by (subst find_update_where) (simp_all add: alert_row_def)
    ultimately show ?thesis using upd(2) by (auto simp: last_fired_def)
  qed
  then show "\<exists>rows. w_db w' = (w_db w)\<lparr>db_alerts := rows\<rparr>"
    "(did', cond') \<noteq> (did, cond) \<Longrightarrow> last_fired (w_db w') did' cond' = last_fired (w_db w) did' cond'"
    "q = Inr u \<Longrightarrow> last_fired (w_db w') did cond = Some t0" by blast+
qed

text \<open>An alert is held back by its cooldown, or by a store that cannot be read, or it goes to every channel.\<close>

definition alert_for :: "uuid \<Rightarrow> string \<Rightarrow> Alert \<Rightarrow> bool" where
  "alert_for did cond a \<longleftrightarrow> al_DestinationID a = uuidString did \<and> al_Condition a = cond"

text \<open>What an alert leaves alone: everything but the log, the alert state and the count of statements.\<close>

definition kept :: "alert_run \<Rightarrow> alert_run \<Rightarrow> bool" where
  "kept s s' \<longleftrightarrow> w_now (ar_world s') = w_now (ar_world s) \<and> w_pg (ar_world s') = w_pg (ar_world s) \<and>
     (\<exists>rows. w_db (ar_world s') = (w_db (ar_world s))\<lparr>db_alerts := rows\<rparr>)"

lemma kept_trans: "kept s s1 \<Longrightarrow> kept s1 s2 \<Longrightarrow> kept s s2"
  by (auto simp: kept_def)

lemma maybeFire_cases:
  assumes run: "maybeFire env cfg ns now did name cond detail s = (e, s')"
  obtains (quiet) "ar_sent s' = ar_sent s" "w_db (ar_world s') = w_db (ar_world s)" "kept s s'"
      "cooling cfg now (w_db (ar_world s)) did cond \<or> pg_fault (w_pg (ar_world s)) (w_step (ar_world s))"
  | (fired) a where "alert_for did cond a" "ar_sent s' = ar_sent s @ map (\<lambda>n. (n, a)) ns" "kept s s'"
      "\<not> cooling cfg now (w_db (ar_world s)) did cond"
      "\<And>did' cond'. (did', cond') \<noteq> (did, cond) \<Longrightarrow>
         last_fired (w_db (ar_world s')) did' cond' = last_fired (w_db (ar_world s)) did' cond'"
      "e = None \<Longrightarrow> last_fired (w_db (ar_world s')) did cond = Some (timestamptz now)"
proof -
  obtain q w where g: "GetAlertLastFired did cond (ar_world s) = (q, w)" by (rule prod.exhaust)
  note gl = GetAlertLastFired_last [OF g]
  let ?a = "\<lparr>al_Condition = cond, al_DestinationID = uuidString did, al_DestinationName = name, al_Detail = detail, al_FiredAt = now\<rparr>"
  let ?s1 = "s\<lparr>ar_world := w\<rparr>" and ?s2 = "s\<lparr>ar_world := w, ar_sent := ar_sent s @ map (\<lambda>n. (n, ?a)) ns\<rparr>"
  let ?fire = "if \<not> list_all (Notify env ?a) ns then (Some (NotifyFailed cond name), ?s2)
     else (case MarkAlertFired did cond (timestamptz now) w of (Inl e, w) \<Rightarrow> (Some (MarkFailed e), ?s2\<lparr>ar_world := w\<rparr>)
           | (Inr _, w) \<Rightarrow> (None, ?s2\<lparr>ar_world := w\<rparr>))"
  obtain q2 w2 where m: "MarkAlertFired did cond (timestamptz now) w = (q2, w2)" by (rule prod.exhaust)
  have shape: "maybeFire env cfg ns now did name cond detail s = (case q of
      Inr t \<Rightarrow> if Sub now t < cooldown cfg then (None, ?s1) else ?fire
    | Inl err \<Rightarrow> if err = NoRows then ?fire else (Some (StateFailed err), ?s1))"
    unfolding maybeFire_def multi_Notify_def g
    by (cases q; cases q2) (auto simp: Let_def m split: db_error.splits)
  have kept1: "kept s ?s1"
    unfolding kept_def using gl(1-3) by (simp add: exI [of _ "db_alerts (w_db (ar_world s))"])
  have fires: thesis if f: "?fire = (e, s')" and c: "\<not> cooling cfg now (w_db (ar_world s)) did cond"
  proof -
    note ml = MarkAlertFired_last [OF m]
    have s': "s' = ?s2 \<and> e \<noteq> None \<or> s' = ?s2\<lparr>ar_world := w2\<rparr> \<and> (e = None \<longrightarrow> (\<exists>u. q2 = Inr u))"
      using f unfolding m by (auto split: if_splits sum.splits)
    have k: "kept s s'"
      using s' kept1 ml(1-3) by (auto simp: kept_def)
    have o: "last_fired (w_db (ar_world s')) did' cond' = last_fired (w_db (ar_world s)) did' cond'"
      if "(did', cond') \<noteq> (did, cond)" for did' cond'
      using s' gl(1) ml(4) [OF that] by auto
    have r: "last_fired (w_db (ar_world s')) did cond = Some (timestamptz now)" if "e = None"
      using s' ml(5) that by auto
    show thesis
      by (rule fired [of ?a, OF _ _ k c o r]) (use s' in \<open>auto simp: alert_for_def\<close>)
  qed
  show thesis
  proof (cases q)
    case (Inr t)
    show ?thesis
    proof (cases "Sub now t < cooldown cfg")
      case True
      then have "s' = ?s1" "cooling cfg now (w_db (ar_world s)) did cond"
        using run shape Inr gl(4) by (simp_all add: cooling_def)
      then show ?thesis using quiet gl(1) kept1 by simp
    next
      case False
      then show ?thesis using fires run shape Inr gl(4) by (simp add: cooling_def)
    qed
  next
    case (Inl err)
    show ?thesis
    proof (cases "err = NoRows")
      case True
      then show ?thesis using fires run shape Inl gl(5) by (simp add: cooling_def)
    next
      case False
      then have "s' = ?s1" using run shape Inl by simp
      then show ?thesis using quiet gl(1) kept1 gl(6) [OF Inl False] by simp
    qed
  qed
qed

subsection \<open>What a run keeps\<close>

text \<open>
  A property of the run's state that every single alert keeps (if \<open>strict\<close>, every alert that ends without an error)
  and that does not depend on the number of statements is kept by a whole evaluation.
\<close>

locale run_invariant =
  fixes env :: alert_env and cfg :: Config and ns :: "channel list" and now :: time and strict :: bool
    and I :: "alert_run \<Rightarrow> bool"
  assumes tick: "I s \<Longrightarrow> I (s\<lparr>ar_world := tick (ar_world s)\<rparr>)"
    and fire: "I s \<Longrightarrow> maybeFire env cfg ns now did name cond detail s = (e, s') \<Longrightarrow> (strict \<Longrightarrow> e = None) \<Longrightarrow> I s'"
begin

lemma fire_all_keeps:
  assumes "\<And>x s e s'. I s \<Longrightarrow> f x s = (e, s') \<Longrightarrow> (strict \<Longrightarrow> e = None) \<Longrightarrow> I s'"
  shows "I s \<Longrightarrow> fire_all f xs s = (es, s') \<Longrightarrow> (strict \<Longrightarrow> es = []) \<Longrightarrow> I s'"
proof (induction xs arbitrary: s es)
  case (Cons x xs)
  obtain e s1 where 1: "f x s = (e, s1)" by (rule prod.exhaust)
  obtain es' s2 where 2: "fire_all f xs s1 = (es', s2)" by (rule prod.exhaust)
  have r: "es = (case e of None \<Rightarrow> es' | Some err \<Rightarrow> err # es')" "s' = s2" using Cons.prems(2) 1 2 by simp_all
  have "strict \<Longrightarrow> e = None \<and> es' = []" using Cons.prems(3) r(1) by (cases e) auto
  then show ?case using Cons.IH [of s1 es'] assms [OF Cons.prems(1) 1] 2 r(2) by blast
qed simp

lemma dlq_keeps: "I s \<Longrightarrow> fire_dlq env cfg ns now d s = (e, s') \<Longrightarrow> (strict \<Longrightarrow> e = None) \<Longrightarrow> I s'"
  unfolding fire_dlq_def using fire by blast

lemma rate_keeps: "I s \<Longrightarrow> fire_rate env cfg ns now r s = (e, s') \<Longrightarrow> (strict \<Longrightarrow> e = None) \<Longrightarrow> I s'"
  unfolding fire_rate_def using fire by (auto split: if_splits)

lemma query_keeps: "I s \<Longrightarrow> query f (ar_world s) = (q, w) \<Longrightarrow> I (s\<lparr>ar_world := w\<rparr>)"
proof -
  assume "I s" "query f (ar_world s) = (q, w)"
  then have "w = tick (ar_world s)" by (auto simp: query_def exec_def tick_def split: if_splits sum.splits)
  with tick [OF \<open>I s\<close>] show "I (s\<lparr>ar_world := w\<rparr>)" by simp
qed

lemma dlqs_keep:
  assumes "I s" "fire_all (fire_dlq env cfg ns now) xs s = (es, s')" "strict \<Longrightarrow> es = []"
  shows "I s'"
  by (rule fire_all_keeps [of "fire_dlq env cfg ns now", OF _ assms(1,2)]) (use dlq_keeps assms(3) in blast)+

lemma rates_keep:
  assumes "I s" "fire_all (fire_rate env cfg ns now) xs s = (es, s')" "strict \<Longrightarrow> es = []"
  shows "I s'"
  by (rule fire_all_keeps [of "fire_rate env cfg ns now", OF _ assms(1,2)]) (use rate_keeps assms(3) in blast)+

lemma Run_keeps:
  assumes run: "Evaluator_Run env cfg ns s = (e, s')" and "I s" "w_now (ar_world s) = now" "strict \<Longrightarrow> e = None"
  shows "I s'"
proof -
  let ?since = "timestamptz (windowStart cfg now)"
  obtain q w where d: "DeadLetteredSince ?since (ar_world s) = (q, w)" by (rule prod.exhaust)
  have i1: "I (s\<lparr>ar_world := w\<rparr>)" using query_keeps [OF assms(2) d [unfolded DeadLetteredSince_def]] .
  show ?thesis
  proof (cases q)
    case (Inl err)
    then show ?thesis using run d assms(3) i1 by (simp add: Evaluator_Run_def Let_def)
  next
    case (Inr dlq)
    obtain es1 s1 where f1: "fire_all (fire_dlq env cfg ns now) dlq (s\<lparr>ar_world := w\<rparr>) = (es1, s1)" by (rule prod.exhaust)
    obtain q2 w2 where r: "DeliveryFailureRatesSince ?since (ar_world s1) = (q2, w2)" by (rule prod.exhaust)
    have shape: "(e, s') = (if \<not> cf_FailureThreshold cfg > 0 then (joined es1, s1)
        else (case q2 of Inl err \<Rightarrow> (Some (QueryFailed err), s1\<lparr>ar_world := w2\<rparr>)
              | Inr rates \<Rightarrow> (let (es2, s2) = fire_all (fire_rate env cfg ns now) rates (s1\<lparr>ar_world := w2\<rparr>) in (joined (es1 @ es2), s2))))"
      using run by (auto simp: Evaluator_Run_def Let_def assms(3) d Inr f1 r split: sum.splits)
    have i2: "I s1" if "strict \<Longrightarrow> es1 = []" using dlqs_keep [OF i1 f1] that by blast
    show ?thesis
    proof (cases "\<not> cf_FailureThreshold cfg > 0")
      case True
      then show ?thesis using shape i2 assms(4) by (auto simp: joined_def split: if_splits)
    next
      case False
      show ?thesis
      proof (cases q2)
        case (Inl err)
        then have "e = Some (QueryFailed err)" "s' = s1\<lparr>ar_world := w2\<rparr>" using shape False by simp_all
        then show ?thesis using i2 assms(4) query_keeps [OF _ r [unfolded DeliveryFailureRatesSince_def]] by blast
      next
        case (Inr rates)
        obtain es2 s2 where f2: "fire_all (fire_rate env cfg ns now) rates (s1\<lparr>ar_world := w2\<rparr>) = (es2, s2)" by (rule prod.exhaust)
        have r2: "e = joined (es1 @ es2)" "s' = s2" using shape False Inr f2 by simp_all
        then have es: "strict \<Longrightarrow> es1 = [] \<and> es2 = []" using assms(4) by (auto simp: joined_def split: if_splits)
        have "I (s1\<lparr>ar_world := w2\<rparr>)"
          using i2 es query_keeps [OF _ r [unfolded DeliveryFailureRatesSince_def]] by blast
        then show ?thesis using rates_keep [OF _ f2] es r2(2) by blast
      qed
    qed
  qed
qed

end

text \<open>The log only grows.\<close>

interpretation grows: run_invariant env cfg ns now False "\<lambda>s. \<exists>new. ar_sent s = sent @ new" for env cfg ns now sent
proof
  show "\<exists>new. ar_sent s' = sent @ new" if "\<exists>new. ar_sent s = sent @ new" "maybeFire env cfg ns now did name cond detail s = (e, s')"
    for s did name cond detail e s'
    using that(2) by (cases rule: maybeFire_cases) (use that(1) in auto)
qed simp

text \<open>An alert that is cooling down is not sent, and its recorded time stays.\<close>

definition cooled :: "Config \<Rightarrow> time \<Rightarrow> time \<Rightarrow> uuid \<Rightarrow> string \<Rightarrow> (channel \<times> Alert) list \<Rightarrow> alert_run \<Rightarrow> bool" where
  "cooled cfg now fired_at did cond sent s \<longleftrightarrow> last_fired (w_db (ar_world s)) did cond = Some fired_at \<and> Sub now fired_at < cooldown cfg \<and>
     filter (\<lambda>(n, a). alert_for did cond a) (ar_sent s) = sent"

lemma cooled_fire:
  assumes "cooled cfg now t did cond sent s" "maybeFire env cfg ns now did' name cond' detail s = (e, s')"
  shows "cooled cfg now t did cond sent s'"
  using assms(2)
proof (cases rule: maybeFire_cases)
  case quiet
  then show ?thesis using assms(1) by (simp add: cooled_def)
next
  case (fired a)
  have "(did, cond) \<noteq> (did', cond')" using fired(4) assms(1) by (auto simp: cooling_def cooled_def)
  then have "last_fired (w_db (ar_world s')) did cond = last_fired (w_db (ar_world s)) did cond" "\<not> alert_for did cond a"
    using fired(1,5) by (auto simp: alert_for_def uuidString_inj)
  then show ?thesis using assms(1) fired(2) by (simp add: cooled_def filter_map comp_def)
qed

interpretation cool: run_invariant env cfg ns now False "cooled cfg now t did cond sent" for env cfg ns now t did cond sent
  by unfold_locales (simp add: cooled_def, rule cooled_fire)

text \<open>What a run without errors has sent is recorded with the time of the run.\<close>

definition recorded_new :: "nat \<Rightarrow> time \<Rightarrow> alert_run \<Rightarrow> bool" where
  "recorded_new k now s \<longleftrightarrow> k \<le> length (ar_sent s) \<and> (\<forall>x \<in> set (drop k (ar_sent s)). \<exists>did.
     alert_for did (al_Condition (snd x)) (snd x) \<and>
     last_fired (w_db (ar_world s)) did (al_Condition (snd x)) = Some (timestamptz now))"

lemma recorded_new_fire:
  assumes "recorded_new k now s" "maybeFire env cfg ns now did name cond detail s = (None, s')"
  shows "recorded_new k now s'"
  using assms(2)
proof (cases rule: maybeFire_cases)
  case quiet
  then show ?thesis using assms(1) by (simp add: recorded_new_def)
next
  case (fired a)
  have r: "last_fired (w_db (ar_world s')) did' cond' = Some (timestamptz now)"
    if "last_fired (w_db (ar_world s)) did' cond' = Some (timestamptz now) \<or> (did', cond') = (did, cond)" for did' cond'
    using fired(5,6) that by (cases "(did', cond') = (did, cond)") auto
  have k: "k \<le> length (ar_sent s)" using assms(1) by (simp add: recorded_new_def)
  have "\<exists>did. alert_for did (al_Condition (snd x)) (snd x) \<and>
     last_fired (w_db (ar_world s')) did (al_Condition (snd x)) = Some (timestamptz now)"
    if "x \<in> set (drop k (ar_sent s'))" for x
  proof -
    have "x \<in> set (drop k (ar_sent s)) \<union> set (map (\<lambda>n. (n, a)) ns)" using that fired(2) k by simp
    then consider "x \<in> set (drop k (ar_sent s))" | "snd x = a" by auto
    then show ?thesis
    proof cases
      case 1
      then show ?thesis using assms(1) r unfolding recorded_new_def by blast
    next
      case 2
      then have "alert_for did (al_Condition (snd x)) (snd x)" "al_Condition (snd x) = cond"
        using fired(1) by (simp_all add: alert_for_def)
      then show ?thesis using r by blast
    qed
  qed
  with k fired(2) show ?thesis by (simp add: recorded_new_def)
qed

interpretation recording: run_invariant env cfg ns now True "recorded_new k now" for env cfg ns now k
proof
  show "recorded_new k now s'" if "recorded_new k now s" "maybeFire env cfg ns now did name cond detail s = (e, s')" "True \<Longrightarrow> e = None"
    for s did name cond detail e s'
    using recorded_new_fire [OF that(1)] that(2,3) by blast
qed (simp add: recorded_new_def)

text \<open>Apart from the alert state, a run leaves the database as it is.\<close>

interpretation rest: run_invariant env cfg ns now False "\<lambda>s. \<exists>rows. w_db (ar_world s) = d\<lparr>db_alerts := rows\<rparr>" for env cfg ns now d
proof
  show "\<exists>rows. w_db (ar_world s') = d\<lparr>db_alerts := rows\<rparr>"
    if "\<exists>rows. w_db (ar_world s) = d\<lparr>db_alerts := rows\<rparr>" "maybeFire env cfg ns now did name cond detail s = (e, s')"
    for s did name cond detail e s'
    using that(2) by (cases rule: maybeFire_cases) (use that(1) in \<open>auto simp: kept_def\<close>)
qed simp

subsection \<open>Runs of the periodic job\<close>

text \<open>The configuration in the settings; \<open>None\<close> when it cannot be decoded.\<close>

definition settings :: "database \<Rightarrow> Config option" where
  "settings d = (case find (\<lambda>r. is_key r = instanceSettingKey) (db_settings d) of
     None \<Rightarrow> Some no_config
   | Some row \<Rightarrow> map_option (\<lambda>c. applyDefaults (c\<lparr>cf_Enabled := \<not> cf_Disabled c\<rparr>))
       (Unmarshal_struct config_fields no_config (is_value row)))"

lemma LoadConfig_settings:
  assumes "LoadConfig w = (r, w')"
  shows "w' = tick w" "r = Inr c \<Longrightarrow> settings (w_db w) = Some c"
    "\<not> pg_fault (w_pg w) (w_step w) \<Longrightarrow> settings (w_db w) = Some c \<Longrightarrow> r = Inr c"
  using assms
  by (auto simp: LoadConfig_def settings_def GetInstanceSetting_def query_def exec_def one_row_find tick_def
      split: option.splits if_splits)

text \<open>The job at given times, each time with its own outside world.\<close>

primrec run_checks :: "(alert_env \<times> time) list \<Rightarrow> alert_run \<Rightarrow> alert_run" where
  "run_checks [] s = s"
| "run_checks (r # rs) s = run_checks rs (snd (CheckWorker_Work (fst r) (s\<lparr>ar_world := (ar_world s)\<lparr>w_now := snd r\<rparr>\<rparr>)))"

lemma CheckWorker_cases:
  assumes "CheckWorker_Work env s = (e, s')"
  obtains (none) "ar_sent s' = ar_sent s" "ar_world s' = tick (ar_world s)"
  | (run) cfg ns where "settings (w_db (ar_world s)) = Some cfg" "buildNotifier cfg = Some ns"
      "Evaluator_Run env cfg ns (s\<lparr>ar_world := tick (ar_world s)\<rparr>) = (e, s')"
proof -
  obtain r w where l: "LoadConfig (ar_world s) = (r, w)" by (rule prod.exhaust)
  note ls = LoadConfig_settings [OF l]
  show thesis
  proof (cases "\<exists>cfg ns. r = Inr cfg \<and> cf_Enabled cfg \<and> buildNotifier cfg = Some ns")
    case True
    then obtain cfg ns where c: "r = Inr cfg" "cf_Enabled cfg" "buildNotifier cfg = Some ns" by blast
    then have "Evaluator_Run env cfg ns (s\<lparr>ar_world := w\<rparr>) = (e, s')"
      using assms l by (simp add: CheckWorker_Work_def)
    then show thesis using run ls(1) ls(2) c(1,3) by blast
  next
    case False
    then have "s' = s\<lparr>ar_world := w\<rparr>"
      using assms l by (cases r) (auto simp: CheckWorker_Work_def split: if_splits option.splits)
    then show thesis using none ls(1) by simp
  qed
qed

lemma CheckWorker_grows:
  assumes "CheckWorker_Work env s = (e, s')"
  shows "(\<exists>new. ar_sent s' = ar_sent s @ new) \<and> (\<exists>rows. w_db (ar_world s') = (w_db (ar_world s))\<lparr>db_alerts := rows\<rparr>)"
  using assms
proof (cases rule: CheckWorker_cases)
  case none
  then show ?thesis by (simp add: exI [of _ "db_alerts (w_db (ar_world s))"])
next
  case (run cfg ns)
  have "\<exists>new. ar_sent s' = ar_sent s @ new" by (rule grows.Run_keeps [OF run(3) _ refl]) simp_all
  moreover have "\<exists>rows. w_db (ar_world s') = (w_db (ar_world s))\<lparr>db_alerts := rows\<rparr>"
    by (rule rest.Run_keeps [OF run(3) _ refl]) (simp_all add: exI [of _ "db_alerts (w_db (ar_world s))"])
  ultimately show ?thesis ..
qed

lemma settings_alerts: "settings (d\<lparr>db_alerts := rows\<rparr>) = settings d"
  by (simp add: settings_def)

lemma cooled_run:
  assumes run: "CheckWorker_Work env s = (e, s')" and cfg: "settings (w_db (ar_world s)) = Some cfg"
    and c: "cooled cfg (w_now (ar_world s)) t did cond sent s"
  shows "last_fired (w_db (ar_world s')) did cond = Some t \<and> filter (\<lambda>(n, a). alert_for did cond a) (ar_sent s') = sent"
  using run
proof (cases rule: CheckWorker_cases)
  case none
  then show ?thesis using c by (simp add: cooled_def)
next
  case (run cfg' ns)
  have "cooled cfg (w_now (ar_world s)) t did cond sent s'"
    by (rule cool.Run_keeps [of env cfg ns "s\<lparr>ar_world := tick (ar_world s)\<rparr>" e]) (use run cfg c in \<open>simp_all add: cooled_def\<close>)
  then show ?thesis by (simp add: cooled_def)
qed

lemma cooled_runs:
  assumes "settings (w_db (ar_world s)) = Some cfg" "last_fired (w_db (ar_world s)) did cond = Some t"
    and "\<forall>r \<in> set runs. Sub (snd r) t < cooldown cfg"
  shows "filter (\<lambda>(n, a). alert_for did cond a) (ar_sent (run_checks runs s)) = filter (\<lambda>(n, a). alert_for did cond a) (ar_sent s) \<and>
    (\<exists>new. ar_sent (run_checks runs s) = ar_sent s @ new)"
  using assms
proof (induction runs arbitrary: s)
  case (Cons r rs)
  let ?s = "s\<lparr>ar_world := (ar_world s)\<lparr>w_now := snd r\<rparr>\<rparr>"
  obtain e s1 where run: "CheckWorker_Work (fst r) ?s = (e, s1)" by (rule prod.exhaust)
  have c: "cooled cfg (w_now (ar_world ?s)) t did cond (filter (\<lambda>(n, a). alert_for did cond a) (ar_sent s)) ?s"
    using Cons.prems by (simp add: cooled_def)
  have cfg: "settings (w_db (ar_world ?s)) = Some cfg" using Cons.prems(1) by simp
  note one = cooled_run [OF run cfg c]
  have grow: "\<exists>new. ar_sent s1 = ar_sent s @ new" "settings (w_db (ar_world s1)) = Some cfg"
    using CheckWorker_grows [OF run] cfg by (auto simp: settings_alerts)
  have "\<forall>r \<in> set rs. Sub (snd r) t < cooldown cfg" using Cons.prems(3) by simp
  from Cons.IH [OF grow(2) _ this] one grow(1) show ?case by (auto simp: run)
qed simp

lemma Sub_below: "t < u + d \<Longrightarrow> 0 < d \<Longrightarrow> d < 2 ^ 63 \<Longrightarrow> Sub t u < d"
  by (simp add: Sub_def)

text \<open>
  C39. No alert storms: when a run of the alerting job ended without an error and has sent an alert, no later run, whenever
  and however often the job runs before the configured cooldown has passed since, sends an alert for the same
  destination and condition on any channel, whatever the channels and the store do meanwhile. (The time is kept to the
  microsecond below; the cooldown in minutes fits a 64-bit duration. Nothing is promised after a run that ended with an error:
  see below.)
\<close>

theorem alert_cooldown:
  assumes "CheckWorker_Work env s = (None, s1)" and "(n, a) \<in> set (drop (length (ar_sent s)) (ar_sent s1))"
    and "settings (w_db (ar_world s)) = Some cfg" and "cf_CooldownMinutes cfg * minute < 2 ^ 63" "0 < cf_CooldownMinutes cfg"
    and "\<And>env' t. (env', t) \<in> set runs \<Longrightarrow> t < timestamptz (w_now (ar_world s)) + cf_CooldownMinutes cfg * minute"
    and "(n', b) \<in> set (drop (length (ar_sent s1)) (ar_sent (run_checks runs s1)))"
  shows "\<not> (al_DestinationID b = al_DestinationID a \<and> al_Condition b = al_Condition a)"
proof -
  have cd: "cooldown cfg = cf_CooldownMinutes cfg * minute" "0 < cooldown cfg" "cooldown cfg < 2 ^ 63"
    using assms(4,5) by (simp_all add: cooldown_def int64_of_id minute_def second_def)
  have "\<exists>did. alert_for did (al_Condition a) a \<and>
      last_fired (w_db (ar_world s1)) did (al_Condition a) = Some (timestamptz (w_now (ar_world s)))"
    using assms(1)
  proof (cases rule: CheckWorker_cases)
    case none
    then show ?thesis using assms(2) by simp
  next
    case (run cfg' ns)
    have "recorded_new (length (ar_sent s)) (w_now (ar_world s)) s1"
      by (rule recording.Run_keeps [OF run(3)]) (simp_all add: recorded_new_def)
    with assms(2) show ?thesis by (force simp: recorded_new_def)
  qed
  then obtain did where did: "alert_for did (al_Condition a) a"
    "last_fired (w_db (ar_world s1)) did (al_Condition a) = Some (timestamptz (w_now (ar_world s)))" by blast
  have set1: "settings (w_db (ar_world s1)) = Some cfg"
    using CheckWorker_grows [OF assms(1)] assms(3) by (auto simp: settings_alerts)
  have "\<forall>r \<in> set runs. Sub (snd r) (timestamptz (w_now (ar_world s))) < cooldown cfg"
    using Sub_below [OF _ cd(2,3)] assms(6) cd(1) by auto
  note later = cooled_runs [OF set1 did(2) this]
  then obtain new where new: "ar_sent (run_checks runs s1) = ar_sent s1 @ new" by blast
  with later have "filter (\<lambda>(n, x). alert_for did (al_Condition a) x) new = []" by simp
  moreover have "(n', b) \<in> set new" using assms(7) new by simp
  ultimately have "\<not> alert_for did (al_Condition a) b" by (auto simp: filter_empty_conv)
  with did(1) show ?thesis by (auto simp: alert_for_def)
qed

text \<open>
  When one of the channels fails, the alert is not recorded for any of them: a channel that has taken it
  gets it again from the next run, however short the time since.
\<close>

lemma failed_channel_repeats:
  assumes up: "\<And>n. \<not> pg_fault (w_pg (ar_world s)) n"
    and hot: "\<not> cooling cfg now (w_db (ar_world s)) did cond" "\<not> cooling cfg now2 (w_db (ar_world s)) did cond"
    and a: "a = \<lparr>al_Condition = cond, al_DestinationID = uuidString did, al_DestinationName = name, al_Detail = detail, al_FiredAt = now\<rparr>"
    and failed: "\<not> list_all (Notify env a) ns"
    and run: "maybeFire env cfg ns now did name cond detail s = (e, s1)" "maybeFire env2 cfg ns now2 did name cond detail2 s1 = (e2, s2)"
  shows "e = Some (NotifyFailed cond name) \<and> w_db (ar_world s1) = w_db (ar_world s) \<and>
    (\<exists>b. alert_for did cond b \<and> ar_sent s2 = ar_sent s @ map (\<lambda>n. (n, a)) ns @ map (\<lambda>n. (n, b)) ns)"
proof -
  obtain q w where g: "GetAlertLastFired did cond (ar_world s) = (q, w)" by (rule prod.exhaust)
  note gl = GetAlertLastFired_last [OF g]
  have "e = Some (NotifyFailed cond name) \<and> s1 = s\<lparr>ar_world := w, ar_sent := ar_sent s @ map (\<lambda>n. (n, a)) ns\<rparr>"
    using run(1) failed up gl(4-6) hot(1) unfolding maybeFire_def multi_Notify_def g a
    by (auto simp: Let_def cooling_def split: sum.splits db_error.splits if_splits)
  then have first: "e = Some (NotifyFailed cond name)" "w_db (ar_world s1) = w_db (ar_world s)" "w_pg (ar_world s1) = w_pg (ar_world s)"
    "ar_sent s1 = ar_sent s @ map (\<lambda>n. (n, a)) ns"
    using gl(1,3) by simp_all
  from run(2) show ?thesis
  proof (cases rule: maybeFire_cases)
    case quiet
    then show ?thesis using hot(2) up first by simp
  next
    case (fired b)
    then show ?thesis using first by auto
  qed
qed

subsection \<open>Dead letters are reported\<close>

definition sent_everywhere :: "channel list \<Rightarrow> (channel \<times> Alert) list \<Rightarrow> uuid \<Rightarrow> string \<Rightarrow> bool" where
  "sent_everywhere ns sent did cond \<longleftrightarrow> (\<exists>a. alert_for did cond a \<and> (\<forall>n \<in> set ns. (n, a) \<in> set sent))"

lemma sent_everywhere_more: "sent_everywhere ns sent did cond \<Longrightarrow> sent_everywhere ns (sent @ rest2) did cond"
  by (auto simp: sent_everywhere_def)

lemma fire_all_dlq:
  assumes "\<And>n. \<not> pg_fault (w_pg (ar_world s)) n" "x \<in> set xs" "\<not> cooling cfg now (w_db (ar_world s)) (fst x) ''dlq''"
    and "fire_all (fire_dlq env cfg ns now) xs s = (es, s')" "ar_sent s = sent @ old"
  shows "\<exists>new. ar_sent s' = sent @ new \<and> sent_everywhere ns new (fst x) ''dlq''"
  using assms
proof (induction xs arbitrary: s es old)
  case (Cons y ys)
  obtain e s1 where 1: "fire_dlq env cfg ns now y s = (e, s1)" by (rule prod.exhaust)
  obtain es' s2 where 2: "fire_all (fire_dlq env cfg ns now) ys s1 = (es', s2)" by (rule prod.exhaust)
  have s': "s' = s2" using Cons.prems(4) 1 2 by simp
  have step: "maybeFire env cfg ns now (fst y) (snd y) ''dlq'' (ae_dlq_detail env (snd y) (cf_WindowMinutes cfg)) s = (e, s1)"
    using 1 by (simp add: fire_dlq_def)
  show ?case
  proof (cases "fst y = fst x")
    case True
    from step show ?thesis
    proof (cases rule: maybeFire_cases)
      case quiet
      then show ?thesis using Cons.prems(1,3) True by simp
    next
      case (fired a)
      have "\<exists>rest2. ar_sent s2 = (sent @ old @ map (\<lambda>n. (n, a)) ns) @ rest2"
        by (rule grows.dlqs_keep [OF _ 2]) (use fired(2) Cons.prems(5) in simp_all)
      then obtain rest2 where rest2: "ar_sent s2 = sent @ (old @ map (\<lambda>n. (n, a)) ns @ rest2)" by auto
      have "sent_everywhere ns (old @ map (\<lambda>n. (n, a)) ns @ rest2) (fst x) ''dlq''"
        unfolding sent_everywhere_def by (rule exI [of _ a]) (use fired(1) True in auto)
      with rest2 show ?thesis unfolding s' by blast
    qed
  next
    case False
    then have x: "x \<in> set ys" using Cons.prems(2) by auto
    from step show ?thesis
    proof (cases rule: maybeFire_cases)
      case quiet
      show ?thesis
        by (rule Cons.IH [OF _ x _ 2 [folded s'], of old]) (use quiet Cons.prems in \<open>simp_all add: kept_def\<close>)
    next
      case (fired a)
      have "last_fired (w_db (ar_world s1)) (fst x) ''dlq'' = last_fired (w_db (ar_world s)) (fst x) ''dlq''"
        using fired(5) False by simp
      then have nc: "\<not> cooling cfg now (w_db (ar_world s1)) (fst x) ''dlq''" using Cons.prems(3) by (simp add: cooling_def)
      show ?thesis
        by (rule Cons.IH [OF _ x nc 2 [folded s'], of "old @ map (\<lambda>n. (n, a)) ns"]) (use fired(2,3) Cons.prems in \<open>simp_all add: kept_def\<close>)
    qed
  qed
qed simp

lemma dead_lettered_row:
  assumes "\<not> pg_fault (w_pg w) (w_step w)" "x \<in> set (db_deliveries (w_db w))" "y \<in> set (db_destinations (w_db w))"
    and "dl_status x = ''dead_lettered''" "dl_dead_lettered_at x = Some t" "since \<le> t" "dst_id y = dl_destination x"
  shows "\<exists>rows. DeadLetteredSince since w = (Inr rows, tick w) \<and> (dst_id y, dst_name y) \<in> set rows"
  using assms unfolding DeadLetteredSince_def query_Inr by force

text \<open>
  C40. Dead letters are reported: with alerting configured and a store that answers, when a delivery was dead-lettered
  within the configured window to a destination that is not cooling down, the next run of the job hands an alert for
  that destination to every configured channel, even if the channels fail, for this destination or for any other one
  that is reported before it.
\<close>

theorem dlq_alerted:
  assumes "CheckWorker_Work env s = (e, s')" and "\<And>n. \<not> pg_fault (w_pg (ar_world s)) n"
    and "settings (w_db (ar_world s)) = Some cfg" "cf_Enabled cfg" "buildNotifier cfg = Some ns"
    and "x \<in> set (db_deliveries (w_db (ar_world s)))" "dl_status x = ''dead_lettered''" "dl_dead_lettered_at x = Some t"
    and "w_now (ar_world s) - cf_WindowMinutes cfg * minute \<le> t" "0 < cf_WindowMinutes cfg" "cf_WindowMinutes cfg * minute < 2 ^ 63"
    and "y \<in> set (db_destinations (w_db (ar_world s)))" "dst_id y = dl_destination x"
    and "\<not> cooling cfg (w_now (ar_world s)) (w_db (ar_world s)) (dst_id y) ''dlq''"
  shows "sent_everywhere ns (drop (length (ar_sent s)) (ar_sent s')) (dst_id y) ''dlq''"
proof -
  let ?now = "w_now (ar_world s)"
  let ?s = "s\<lparr>ar_world := tick (ar_world s)\<rparr>" and ?since = "timestamptz (windowStart cfg ?now)"
  obtain r w where l: "LoadConfig (ar_world s) = (r, w)" by (rule prod.exhaust)
  have r: "r = Inr cfg" "w = tick (ar_world s)"
    using LoadConfig_settings [OF l] assms(2,3) by blast+
  have run: "Evaluator_Run env cfg ns ?s = (e, s')"
    using assms(1,4,5) l r by (simp add: CheckWorker_Work_def)
  have W: "0 < cf_WindowMinutes cfg * minute" "cf_WindowMinutes cfg < 2 ^ 63"
    using assms(10,11) by (simp_all add: minute_def second_def)
  have "int64_of (- cf_WindowMinutes cfg) = - cf_WindowMinutes cfg"
    by (rule int64_of_id) (use W(2) assms(10) in simp_all)
  moreover have "int64_of (- (cf_WindowMinutes cfg * minute)) = - (cf_WindowMinutes cfg * minute)"
    by (rule int64_of_id) (use W(1) assms(11) in simp_all)
  ultimately have "windowStart cfg ?now = ?now - cf_WindowMinutes cfg * minute"
    by (simp add: windowStart_def)
  moreover have "timestamptz v \<le> v" for v by (simp add: timestamptz_def)
  ultimately have since: "?since \<le> t" using assms(9) order_trans by metis
  obtain rows where rows: "DeadLetteredSince ?since (tick (ar_world s)) = (Inr rows, tick (tick (ar_world s)))"
    "(dst_id y, dst_name y) \<in> set rows"
    using dead_lettered_row [of "tick (ar_world s)" x y t ?since] assms since by auto
  let ?s1 = "?s\<lparr>ar_world := tick (tick (ar_world s))\<rparr>"
  obtain es1 s1 where f1: "fire_all (fire_dlq env cfg ns ?now) rows ?s1 = (es1, s1)" by (rule prod.exhaust)
  have "\<exists>new. ar_sent s1 = ar_sent s @ new \<and> sent_everywhere ns new (fst (dst_id y, dst_name y)) ''dlq''"
    by (rule fire_all_dlq [OF _ rows(2) _ f1, of "ar_sent s" "[]"]) (use assms in simp_all)
  then obtain new where new: "ar_sent s1 = ar_sent s @ new" "sent_everywhere ns new (dst_id y) ''dlq''" by auto
  have "\<exists>rest2. ar_sent s' = ar_sent s1 @ rest2"
  proof (cases "\<not> cf_FailureThreshold cfg > 0")
    case True
    then have "s' = s1" using run rows f1 by (simp add: Evaluator_Run_def Let_def)
    then show ?thesis by simp
  next
    case False
    obtain q2 w2 where d: "DeliveryFailureRatesSince ?since (ar_world s1) = (q2, w2)" by (rule prod.exhaust)
    show ?thesis
    proof (cases q2)
      case (Inl err)
      then have "s' = s1\<lparr>ar_world := w2\<rparr>" using run rows f1 d False by (simp add: Evaluator_Run_def Let_def)
      then show ?thesis by simp
    next
      case (Inr rates)
      obtain es2 s2 where f2: "fire_all (fire_rate env cfg ns ?now) rates (s1\<lparr>ar_world := w2\<rparr>) = (es2, s2)" by (rule prod.exhaust)
      have "s' = s2" using run rows f1 d Inr f2 False by (simp add: Evaluator_Run_def Let_def)
      moreover have "\<exists>rest2. ar_sent s2 = ar_sent s1 @ rest2" by (rule grows.rates_keep [OF _ f2]) simp_all
      ultimately show ?thesis by simp
    qed
  qed
  then obtain rest2 where "ar_sent s' = ar_sent s @ new @ rest2" using new(1) by auto
  with sent_everywhere_more [OF new(2)] show ?thesis by simp
qed

subsection \<open>A run on the example database\<close>

definition alert_body :: bytes where
  "alert_body = ''{\"slack\":{\"webhook_url\":\"u\"}}''"

definition alert_config :: Config where
  "alert_config = no_config\<lparr>cf_CooldownMinutes := 60, cf_WindowMinutes := 15, cf_MinDeliveries := 20,
     cf_Slack := Some \<lparr>slc_WebhookURL = ''u''\<rparr>, cf_Enabled := True\<rparr>"

lemma alert_body_members:
  "\<exists>ms. json_Unmarshal alert_body = Some (JObject ms)" "object_members alert_body = [(''slack'', ''{\"webhook_url\":\"u\"}'')]"
  "json_Unmarshal ''{\"webhook_url\":\"u\"}'' = Some (JObject [(''webhook_url'', JString ''u'')])"
  "Unmarshal_struct slack_fields \<lparr>slc_WebhookURL = ''''\<rparr> ''{\"webhook_url\":\"u\"}'' = Some \<lparr>slc_WebhookURL = ''u''\<rparr>"
proof -
  have "json_Unmarshal alert_body = Some (JObject [(''slack'', JObject [(''webhook_url'', JString ''u'')])])" by code_simp
  then show "\<exists>ms. json_Unmarshal alert_body = Some (JObject ms)" by blast
  show "object_members alert_body = [(''slack'', ''{\"webhook_url\":\"u\"}'')]" by code_simp
  show "json_Unmarshal ''{\"webhook_url\":\"u\"}'' = Some (JObject [(''webhook_url'', JString ''u'')])" by code_simp
  show "Unmarshal_struct slack_fields \<lparr>slc_WebhookURL = ''''\<rparr> ''{\"webhook_url\":\"u\"}'' = Some \<lparr>slc_WebhookURL = ''u''\<rparr>" by code_simp
qed

lemma alert_body_decoded: "Unmarshal_struct config_fields no_config alert_body = Some (no_config\<lparr>cf_Slack := Some \<lparr>slc_WebhookURL = ''u''\<rparr>\<rparr>)"
proof -
  have "find (\<lambda>f. fold_key (fst f) = fold_key ''slack'') config_fields =
      Some (''slack'', struct_ptr cf_Slack cf_Slack_update slack_fields \<lparr>slc_WebhookURL = ''''\<rparr>)"
  proof -
    have "fold_key ''disabled'' \<noteq> fold_key ''slack''" "fold_key ''cooldown_minutes'' \<noteq> fold_key ''slack''"
      "fold_key ''window_minutes'' \<noteq> fold_key ''slack''" "fold_key ''failure_threshold'' \<noteq> fold_key ''slack''"
      "fold_key ''min_deliveries'' \<noteq> fold_key ''slack''" by code_simp+
    then show ?thesis by (simp add: config_fields_def)
  qed
  then have "set_member config_fields (''slack'', ''{\"webhook_url\":\"u\"}'') no_config =
      Some (no_config\<lparr>cf_Slack := Some \<lparr>slc_WebhookURL = ''u''\<rparr>\<rparr>)"
    using alert_body_members(3,4) by (simp add: set_member_def struct_ptr_def no_config_def)
  then show ?thesis using alert_body_members(1,2) by (auto simp: Unmarshal_struct_def)
qed

definition dead_letter :: delivery where
  "dead_letter = \<lparr>dl_id = 5, dl_tenant = 1, dl_event = 3, dl_destination = 9, dl_river_job = Some 1,
     dl_status = ''dead_lettered'', dl_attempt_count = 3, dl_next_attempt_at = None, dl_last_attempted_at = Some 0,
     dl_dead_lettered_at = Some 0, dl_created_at = 0, dl_updated_at = 0\<rparr>"

definition alert_start :: alert_run where
  "alert_start = \<lparr>ar_world = world_example\<lparr>w_db := db_example\<lparr>db_deliveries := [dead_letter],
     db_settings := [\<lparr>is_key = instanceSettingKey, is_value = alert_body, is_updated_at = 0\<rparr>]\<rparr>\<rparr>, ar_sent = []\<rparr>"

definition alert_outside :: alert_env where
  "alert_outside = \<lparr>ae_Post = (\<lambda>_ _. Some 200), ae_SendMail = (\<lambda>_ _. True), ae_Quote = (\<lambda>s. s), ae_RFC3339 = (\<lambda>_. ''''),
     ae_dlq_detail = (\<lambda>_ _. ''''), ae_rate_detail = (\<lambda>_ _ _ _ _. '''')\<rparr>"

lemma alert_settings: "settings (w_db (ar_world alert_start)) = Some alert_config"
  by (simp add: settings_def alert_start_def alert_body_decoded)
    (simp add: applyDefaults_def alert_config_def no_config_def)

lemma alert_start_state: "w_now (ar_world alert_start) = 0" "ar_sent alert_start = []"
  "\<not> pg_fault (w_pg (ar_world alert_start)) n" "buildNotifier alert_config = Some [Slack ''u'']" "cf_Enabled alert_config"
  "last_fired (w_db (ar_world alert_start)) 9 ''dlq'' = None" "cf_WindowMinutes alert_config = 15" "cf_CooldownMinutes alert_config = 60"
  by (simp_all add: alert_start_def example_defs buildNotifier_def alert_config_def no_config_def last_fired_def)

theorem dlq_alerted_witness:
  "\<exists>e s'. CheckWorker_Work alert_outside alert_start = (e, s') \<and> sent_everywhere [Slack ''u''] (ar_sent s') 9 ''dlq''"
proof -
  obtain e s' where run: "CheckWorker_Work alert_outside alert_start = (e, s')" by (rule prod.exhaust)
  have x: "dead_letter \<in> set (db_deliveries (w_db (ar_world alert_start)))" "dl_status dead_letter = ''dead_lettered''"
    "dl_dead_lettered_at dead_letter = Some 0" by (simp_all add: alert_start_def dead_letter_def)
  have y: "destination_example \<in> set (db_destinations (w_db (ar_world alert_start)))" "dst_id destination_example = dl_destination dead_letter"
    by (simp_all add: alert_start_def db_example_def destination_example_def dead_letter_def)
  have d: "dst_id destination_example = 9" by (simp add: destination_example_def)
  have w: "w_now (ar_world alert_start) - cf_WindowMinutes alert_config * minute \<le> 0" "0 < cf_WindowMinutes alert_config"
    "cf_WindowMinutes alert_config * minute < 2 ^ 63"
    by (simp_all add: alert_start_state minute_def second_def)
  have c: "\<not> cooling alert_config (w_now (ar_world alert_start)) (w_db (ar_world alert_start)) (dst_id destination_example) ''dlq''"
    by (simp add: cooling_def alert_start_state d)
  have "sent_everywhere [Slack ''u''] (drop (length (ar_sent alert_start)) (ar_sent s')) (dst_id destination_example) ''dlq''"
    by (rule dlq_alerted [OF run alert_start_state(3) alert_settings alert_start_state(5,4) x w y c])
  with run show ?thesis by (auto simp: alert_start_state d)
qed

lemma alert_ran: "\<exists>s1 a. CheckWorker_Work alert_outside alert_start = (None, s1) \<and> ar_sent s1 = [(Slack ''u'', a)]"
proof -
  obtain r w where l: "LoadConfig (ar_world alert_start) = (r, w)" by (rule prod.exhaust)
  have r: "r = Inr alert_config" "w = tick (ar_world alert_start)"
    using LoadConfig_settings [OF l] alert_settings alert_start_state(3) by blast+
  let ?s = "alert_start\<lparr>ar_world := tick (ar_world alert_start)\<rparr>"
  have dlq: "DeadLetteredSince (timestamptz (windowStart alert_config 0)) (tick (ar_world alert_start)) =
      (Inr [(9, ''d'')], tick (tick (ar_world alert_start)))"
    by (simp add: DeadLetteredSince_def query_Inr alert_start_def example_defs dead_letter_def timestamptz_def windowStart_def
        alert_config_def minute_def second_def int64_of_id)
  have "CheckWorker_Work alert_outside alert_start = Evaluator_Run alert_outside alert_config [Slack ''u''] ?s"
    using l r alert_start_state(4,5) by (simp add: CheckWorker_Work_def)
  also have "\<dots> = (let (errs, s1) = fire_all (fire_dlq alert_outside alert_config [Slack ''u''] 0) [(9, ''d'')]
      (?s\<lparr>ar_world := tick (tick (ar_world alert_start))\<rparr>) in (joined errs, s1))"
    by (simp add: Evaluator_Run_def alert_start_state dlq) (simp add: alert_config_def no_config_def)
  finally have run: "CheckWorker_Work alert_outside alert_start = \<dots>" .
  show ?thesis unfolding run
    by (simp add: fire_dlq_def maybeFire_def GetAlertLastFired_def query_def exec_def multi_Notify_def slack_Notify_def
        alert_outside_def MarkAlertFired_def joined_def)
      (simp add: alert_start_def example_defs)
qed

theorem alert_cooldown_witness:
  "\<exists>s1 a. CheckWorker_Work alert_outside alert_start = (None, s1) \<and> ar_sent s1 = [(Slack ''u'', a)] \<and>
     (\<forall>(n, b) \<in> set (drop 1 (ar_sent (run_checks [(alert_outside, 59 * minute)] s1))).
        \<not> (al_DestinationID b = al_DestinationID a \<and> al_Condition b = al_Condition a))"
proof -
  obtain s1 a where run: "CheckWorker_Work alert_outside alert_start = (None, s1)" "ar_sent s1 = [(Slack ''u'', a)]"
    using alert_ran by blast
  have m: "(Slack ''u'', a) \<in> set (drop (length (ar_sent alert_start)) (ar_sent s1))" by (simp add: run(2) alert_start_state)
  have b: "cf_CooldownMinutes alert_config * minute < 2 ^ 63" "0 < cf_CooldownMinutes alert_config"
    by (simp_all add: alert_start_state minute_def second_def)
  have t: "t < timestamptz (w_now (ar_world alert_start)) + cf_CooldownMinutes alert_config * minute"
    if "(env', t) \<in> set [(alert_outside, 59 * minute)]" for env' t
    using that by (simp add: alert_start_state timestamptz_def minute_def second_def)
  have "\<not> (al_DestinationID y = al_DestinationID a \<and> al_Condition y = al_Condition a)"
    if "(n, y) \<in> set (drop 1 (ar_sent (run_checks [(alert_outside, 59 * minute)] s1)))" for n y
    by (rule alert_cooldown [where runs = "[(alert_outside, 59 * minute)]" and n' = n, OF run(1) m alert_settings b t])
      (use that run(2) in simp_all)
  then have "\<forall>(n, b) \<in> set (drop 1 (ar_sent (run_checks [(alert_outside, 59 * minute)] s1))).
        \<not> (al_DestinationID b = al_DestinationID a \<and> al_Condition b = al_Condition a)" by blast
  with run show ?thesis by blast
qed

end
