(* ===== verification/System.thy ===== *)
theory System
  imports Tunnel_Session Replay Events_Api Auth Sources_Api Routing_Api Alerting
begin

text \<open>
  The gateway as a whole. Requests, delivery and replay jobs, alerts, tunnels and periodic jobs run
  concurrently, in several goroutines and several processes, on one database. What they share is the database, and PostgreSQL
  runs one statement or one transaction at a time as far as anyone can tell; so a run of the system is a sequence of
  atomic steps, each a statement or a transaction of the program with any arguments, and every interleaving of the
  entry points is such a sequence. The invariants of the store are proved for all of them.
\<close>

subsection \<open>Atomic steps\<close>

text \<open>A step reads (or time passes), executes a statement on its own, or runs one of the five transactions.\<close>

definition insert_replay :: "bytes \<Rightarrow> replay dbm" where
  "insert_replay filterJSON = inTx (bind (InsertReplay DefaultTenantID None filterJSON) (\<lambda>replay.
     bind (InsertReplayJob (uuidString (rp_id replay))) (\<lambda>_. ret replay)))"

inductive atomic :: "world \<Rightarrow> world \<Rightarrow> bool" where
  Read: "w_db w' = w_db w \<Longrightarrow> w_pg w' = w_pg w \<Longrightarrow> atomic w w'"
| Insert_source: "atomic w (snd (InsertSource t sp w))"
| Insert_destination: "atomic w (snd (InsertDestination t dp w))"
| Update_destination: "atomic w (snd (UpdateDestination i t dp w))"
| Pause_destination: "atomic w (snd (PauseDestination i t w))"
| Resume_destination: "atomic w (snd (ResumeDestination i t w))"
| Delete_destination: "atomic w (snd (DeleteDestination i t w))"
| Delete_tunnels: "atomic w (snd (DeleteStaleTunnelDestinations t w))"
| Insert_route: "atomic w (snd (InsertRoute t i j b w))"
| Update_route: "atomic w (snd (UpdateRouteEnabled i t b w))"
| Delete_route: "atomic w (snd (DeleteRoute i t w))"
| Insert_rule: "atomic w (snd (InsertRule t i rp w))"
| Update_rule: "atomic w (snd (UpdateRule i t rp w))"
| Delete_rule: "atomic w (snd (DeleteRule i t w))"
| Insert_key: "atomic w (snd (InsertApiKey t n p h ss w))"
| Revoke_key: "atomic w (snd (RevokeAPIKey i t w))"
| Touch_key: "atomic w (snd (TouchAPIKeyLastUsed i w))"
| Upsert_setting: "atomic w (snd (UpsertInstanceSetting k v w))"
| Finish_replay: "atomic w (snd (FinishReplay i st m q w))"
| Mark_alert: "atomic w (snd (MarkAlertFired i c tm w))"
| Clean_up: "atomic w (snd (DeleteExpiredDedupEntries w))"
| Process_event: "atomic w (snd (inTx (process_tx h s p) w))"
| Replay_event: "atomic w (snd (inTx (EnqueueDeliveries t i j) w))"
| Insert_replay: "atomic w (snd (insert_replay flt w))"
| Recover: "atomic w (snd (recover_tx i dest w))"
| Record_attempt: "result_ok r \<Longrightarrow> st = ''succeeded'' \<longrightarrow> ar_succeeded r \<Longrightarrow> atomic w (snd (recordAttempt i st r w))"

abbreviation runs :: "world \<Rightarrow> world \<Rightarrow> bool" where
  "runs \<equiv> atomic\<^sup>*\<^sup>*"

subsection \<open>Invariants of all runs\<close>

text \<open>\<open>commits I m\<close>: when the program succeeds, the invariant is kept; a transaction undoes the rest.\<close>

definition commits :: "(database \<Rightarrow> bool) \<Rightarrow> 'a dbm \<Rightarrow> bool" where
  "commits I m \<longleftrightarrow> (\<forall>w x w'. m w = (Inr x, w') \<longrightarrow> I (w_db w) \<longrightarrow> I (w_db w'))"

named_theorems commit_intros \<open>rules that decompose "this transaction keeps that invariant"\<close>

lemma commits_keeps: "keeps I m \<Longrightarrow> commits I m"
  unfolding commits_def using keepsD by blast

lemma commits_ret [commit_intros]: "commits I (ret x)"
  by (simp add: commits_def ret_def)

lemma commits_query [commit_intros]: "commits I (query f)"
  by (rule commits_keeps, rule keeps_query)

lemma commits_bind [commit_intros]: "commits I m \<Longrightarrow> (\<And>x. commits I (f x)) \<Longrightarrow> commits I (bind m f)"
  unfolding commits_def bind_Inr by blast

lemma commits_if [commit_intros]: "commits I m \<Longrightarrow> commits I m' \<Longrightarrow> commits I (if b then m else m')"
  by simp

lemma keeps_commit: "commits I m \<Longrightarrow> keeps I (inTx m)"
  unfolding keeps_def
proof (intro allI impI)
  fix w :: world
  assume "commits I m" "I (w_db w)"
  obtain r w' where t: "inTx m w = (r, w')" by fastforce
  show "I (w_db (snd (inTx m w)))"
  proof (cases r)
    case (Inl e)
    then show ?thesis using inTx_Inl_db [of m w e w'] t \<open>I (w_db w)\<close> by simp
  next
    case (Inr x)
    then obtain w1 where "m (tick w) = (Inr x, w1)" "w' = tick w1" using t by (auto simp: inTx_Inr)
    then show ?thesis using \<open>commits I m\<close> \<open>I (w_db w)\<close> t unfolding commits_def by (metis snd_conv tick_simps(2))
  qed
qed

text \<open>
  What an invariant has to survive: first the statements that do not concern deliveries, then what the
  transactions on deliveries do as a whole.
\<close>

locale table_invariant =
  fixes I :: "database \<Rightarrow> bool"
  assumes sources: "keeps I (InsertSource t sp)"
    and destinations: "keeps I (InsertDestination t dp)" "keeps I (UpdateDestination i t dp)"
      "keeps I (PauseDestination i t)" "keeps I (ResumeDestination i t)" "keeps I (DeleteDestination i t)"
      "keeps I (DeleteStaleTunnelDestinations t)"
    and routes: "keeps I (InsertRoute t i j b)" "keeps I (UpdateRouteEnabled i t b)" "keeps I (DeleteRoute i t)"
    and rules: "keeps I (InsertRule t i rp)" "keeps I (UpdateRule i t rp)" "keeps I (DeleteRule i t)"
    and keys: "keeps I (InsertApiKey t n p h ss)" "keeps I (RevokeAPIKey i t)" "keeps I (TouchAPIKeyLastUsed i)"
    and settings: "keeps I (UpsertInstanceSetting k v)"
    and replays: "keeps I (InsertReplay t q flt)" "keeps I (InsertReplayJob rid)" "keeps I (FinishReplay i st m q')"
    and alerts: "keeps I (MarkAlertFired i c tm)"
    and dedupe: "keeps I (ClaimDedupeKey i k j n')" "keeps I DeleteExpiredDedupEntries"
    and events: "keeps I (InsertEvent ep)" "keeps I (MarkEventDropped i c)"
locale store_invariant = table_invariant +
  assumes enqueue: "commits I (enqueue_target t i tg)"
    and recovery: "keeps I (recover_tx i dest)"
    and attempts: "result_ok r \<Longrightarrow> st = ''succeeded'' \<longrightarrow> ar_succeeded r \<Longrightarrow> keeps I (recordAttempt i st r)"
begin

lemma commits_EnqueueDeliveriesTo: "commits I (EnqueueDeliveriesTo t i ts)"
proof -
  have "commits I (for_each (enqueue_target t i) ts)"
    by (induction ts) (auto intro!: commit_intros enqueue)
  then show ?thesis unfolding EnqueueDeliveriesTo_def by (intro commit_intros)
qed

lemma commits_EnqueueDeliveries: "commits I (EnqueueDeliveries t i j)"
  unfolding EnqueueDeliveries_def ListEnabledDeliveryTargetsForSource_def
  by (intro commit_intros commits_EnqueueDeliveriesTo)

lemma commits_claim_key: "commits I (claim_key s i k)"
  unfolding commits_def
proof (intro allI impI)
  fix w x w' assume r: "claim_key s i k w = (Inr x, w')" and I: "I (w_db w)"
  have b: "keeps I (bind (MarkEventDropped i droppedReasonDuplicate) (\<lambda>_. ret True))" by (intro keeps_intros events)
  from r I show "I (w_db w')"
    by (auto simp: claim_key_def ret_def split: option.splits prod.splits sum.splits db_error.splits
        dest: keepsD [OF dedupe(1)] keepsD [OF b])
qed

lemma commits_process_tx: "commits I (process_tx h s p)"
  unfolding process_tx_def apply_decision_def ListEnabledRulesForSource_def ListDeliveryTargetsByDestinationIDs_def
  by (intro commit_intros commits_claim_key commits_EnqueueDeliveriesTo commits_EnqueueDeliveries commits_keeps [OF events(1)]
      commits_keeps [OF events(2)])

lemma keeps_insert_replay: "keeps I (insert_replay flt)"
  unfolding insert_replay_def by (intro keeps_intros replays)

lemmas kept = sources destinations routes rules keys settings replays alerts dedupe keeps_insert_replay recovery
  keeps_commit [OF commits_process_tx] keeps_commit [OF commits_EnqueueDeliveries]

lemma atomic_keeps: "atomic w w' \<Longrightarrow> I (w_db w) \<Longrightarrow> I (w_db w')"
proof (induction rule: atomic.induct)
  case (Record_attempt r st w i)
  then show ?case using attempts [OF Record_attempt(1,2), of i] by (simp add: keeps_def)
qed (use kept in \<open>simp_all add: keeps_def\<close>)

lemma runs_keep: "runs w w' \<Longrightarrow> I (w_db w) \<Longrightarrow> I (w_db w')"
  by (induction rule: rtranclp_induct) (auto dest: atomic_keeps)

end

text \<open>An invariant that the single statements on deliveries keep as well is kept by the transactions.\<close>

locale statement_invariant = table_invariant +
  assumes queue: "keeps I (river_InsertTx args n)"
    and deliveries: "keeps I (InsertDelivery t i j)" "keeps I (SetDeliveryRiverJobID i job)" "keeps I (ResetDeliveryForRecovery i)"
      "keeps I (RecordDeliveryOutcome i st)" "keeps I (InsertDeliveryAttempt ap)"

sublocale statement_invariant \<subseteq> store_invariant
proof
  show "commits I (enqueue_target t i tg)" for t i tg
    unfolding enqueue_target_def InsertDeliveryJob_def by (rule commits_keeps) (intro keeps_intros queue deliveries)
  show "keeps I (recover_tx i dest)" for i dest
    unfolding recover_tx_def InsertDeliveryJob_def by (intro keeps_intros queue deliveries)
  show "keeps I (recordAttempt i st r)" for i st r
    unfolding recordAttempt_def by (intro keeps_intros deliveries)
qed

subsection \<open>The invariants of the store\<close>

text \<open>Ids and the unique columns are unique.\<close>

definition keys_ok :: "database \<Rightarrow> bool" where
  "keys_ok d \<longleftrightarrow> distinct (map src_id (db_sources d)) \<and> distinct (map src_endpoint_path (db_sources d)) \<and>
     distinct (map dst_id (db_destinations d)) \<and> distinct (map ev_id (db_events d)) \<and>
     distinct (map rt_id (db_routes d)) \<and> distinct (map (\<lambda>r. (rt_source r, rt_destination r)) (db_routes d)) \<and>
     distinct (map jb_id (db_jobs d))"

text \<open>What a row refers to is there.\<close>

definition references_ok :: "database \<Rightarrow> bool" where
  "references_ok d \<longleftrightarrow>
     ev_source ` set (db_events d) \<subseteq> src_id ` set (db_sources d) \<and>
     rt_source ` set (db_routes d) \<subseteq> src_id ` set (db_sources d) \<and>
     rt_destination ` set (db_routes d) \<subseteq> dst_id ` set (db_destinations d) \<and>
     ru_source ` set (db_rules d) \<subseteq> src_id ` set (db_sources d) \<and>
     dl_event ` set (db_deliveries d) \<subseteq> ev_id ` set (db_events d) \<and>
     dl_destination ` set (db_deliveries d) \<subseteq> dst_id ` set (db_destinations d) \<and>
     dd_source ` set (db_dedup d) \<subseteq> src_id ` set (db_sources d) \<and>
     dd_event ` set (db_dedup d) \<subseteq> ev_id ` set (db_events d) \<and>
     as_destination ` set (db_alerts d) \<subseteq> dst_id ` set (db_destinations d)"

text \<open>Every delivery has been queued: the job it names exists and carries its id.\<close>

definition queued :: "database \<Rightarrow> bool" where
  "queued d \<longleftrightarrow> (\<forall>x \<in> set (db_deliveries d). \<exists>j \<in> set (db_jobs d). dl_river_job x = Some (jb_id j) \<and>
     (\<exists>args. jb_args j = DeliveryArgs args \<and> da_delivery_id args = uuidString (dl_id x)))"

lemma returning_Inr: "returning P f rows put = Inr (x, d) \<longleftrightarrow> (\<exists>r rs. filter P rows = r # rs \<and> x = f r \<and> d = put (update_where P f rows))"
  by (auto simp: returning_def split: list.splits)

lemmas statement_defs =
  InsertSource_def InsertDestination_def UpdateDestination_def PauseDestination_def ResumeDestination_def update_destination_def
  DeleteDestination_def DeleteStaleTunnelDestinations_def InsertRoute_def UpdateRouteEnabled_def DeleteRoute_def
  InsertRule_def UpdateRule_def DeleteRule_def InsertApiKey_def RevokeAPIKey_def TouchAPIKeyLastUsed_def
  UpsertInstanceSetting_def InsertReplay_def InsertReplayJob_def river_InsertTx_def FinishReplay_def MarkAlertFired_def
  ClaimDedupeKey_def DeleteExpiredDedupEntries_def InsertEvent_def MarkEventDropped_def

lemmas delivery_statement_defs =
  InsertDelivery_def SetDeliveryRiverJobID_def ResetDeliveryForRecovery_def RecordDeliveryOutcome_def InsertDeliveryAttempt_def

lemmas row_simps = Let_def returning_Inr map_update_where list_ex_iff

lemma distinct_map_filter: "distinct (map f xs) \<Longrightarrow> distinct (map f (filter P xs))"
  by (induction xs) auto

interpretation keyed: statement_invariant keys_ok
  by unfold_locales (unfold statement_defs delivery_statement_defs,
    (rule keeps_exec, auto simp: keys_ok_def row_simps delete_destinations_def distinct_map_filter
      split: option.splits if_splits list.splits)+)

lemma image_update_where: "(\<And>x. P x \<Longrightarrow> g (f x) = g x) \<Longrightarrow> g ` set (update_where P f xs) = g ` set xs"
  by (rule map_eq_set, rule map_update_where)

lemma image_subset_insertI: "A \<subseteq> B \<Longrightarrow> A \<subseteq> insert x B"
  by blast

lemma image_filter_subset: "f ` set xs \<subseteq> B \<Longrightarrow> f ` set (filter P xs) \<subseteq> B"
  by auto

lemma image_update_subset: "f ` set xs \<subseteq> B \<Longrightarrow> (\<And>x. f (g x) \<in> B) \<Longrightarrow> f ` set (update_where P g xs) \<subseteq> B"
  by (auto elim!: in_set_update_whereE)

lemma image_gone_subset:
  "f ` set rs \<subseteq> g ` set xs \<Longrightarrow> f ` set (filter (\<lambda>r. f r \<notin> g ` {x \<in> set xs. hit x}) rs) \<subseteq> g ` set (filter (\<lambda>x. \<not> hit x) xs)"
  by auto

lemma references_delete: "references_ok d \<Longrightarrow> references_ok (delete_destinations hit d)"
  by (simp add: references_ok_def delete_destinations_def Let_def image_filter_subset image_gone_subset del: set_filter)

interpretation refs: statement_invariant references_ok
proof unfold_locales
  show "keeps references_ok (DeleteDestination i t)" for i t
    unfolding DeleteDestination_def by (rule keeps_exec) (auto simp: Let_def references_delete)
  show "keeps references_ok (DeleteStaleTunnelDestinations t)" for t
    unfolding DeleteStaleTunnelDestinations_def by (rule keeps_exec) (auto simp: Let_def references_delete)
  show "keeps references_ok (ClaimDedupeKey i k j n)" for i k j n
    unfolding ClaimDedupeKey_def
    by (rule keeps_exec) (clarsimp simp: references_ok_def Let_def image_update_where image_update_subset split: if_splits list.splits)
  show "keeps references_ok (MarkAlertFired i c tm)" for i c tm
    unfolding MarkAlertFired_def
    by (rule keeps_exec) (clarsimp simp: references_ok_def image_update_where split: if_splits)
qed (unfold statement_defs delivery_statement_defs,
    (rule keeps_exec, clarsimp simp: references_ok_def row_simps image_update_where image_subset_insertI image_filter_subset
      simp del: set_filter split: option.splits if_splits list.splits)+)

text \<open>The history of deliveries looks at two tables only.\<close>

lemma history_frame:
  assumes "\<And>pg now n d x d'. f pg now n d = Inr (x, d') \<Longrightarrow> db_deliveries d' = db_deliveries d \<and> db_attempts d' = db_attempts d"
  shows "keeps deliveries_ok (exec f)"
proof (rule keeps_exec)
  fix pg now n d x d' assume "deliveries_ok d" "f pg now n d = Inr (x, d')"
  with assms [of pg now n d x d'] show "deliveries_ok d'" by (simp add: deliveries_ok_def attempts_of_def)
qed

lemma history_delete:
  assumes "deliveries_ok d"
  shows "deliveries_ok (delete_destinations hit d)"
proof -
  let ?g = "dst_id ` {x \<in> set (db_destinations d). hit x}"
  let ?a = "filter (\<lambda>a. at_delivery a \<notin> dl_id ` {x \<in> set (db_deliveries d). dl_destination x \<in> ?g}) (db_attempts d)"
  have dist: "distinct (map dl_id (db_deliveries d))" and att: "\<forall>a \<in> set (db_attempts d). at_delivery a \<in> dl_id ` set (db_deliveries d)"
    and hist: "\<forall>x \<in> set (db_deliveries d). history_ok x (attempts_of d (dl_id x))"
    using assms by (simp_all add: deliveries_ok_def)
  have "filter (\<lambda>a. at_delivery a = dl_id x) ?a = attempts_of d (dl_id x)"
    if x: "x \<in> set (db_deliveries d)" "dl_destination x \<notin> ?g" for x
  proof -
    have "dl_id x \<notin> dl_id ` {x \<in> set (db_deliveries d). dl_destination x \<in> ?g}"
      using dist x by (auto simp: distinct_map dest: inj_onD)
    then show ?thesis unfolding attempts_of_def filter_filter by (intro filter_cong refl) metis
  qed
  with hist have "\<forall>x \<in> set (db_deliveries d). dl_destination x \<notin> ?g \<longrightarrow> history_ok x (filter (\<lambda>a. at_delivery a = dl_id x) ?a)" by simp
  moreover have "\<forall>a \<in> set ?a. at_delivery a \<in> dl_id ` {x \<in> set (db_deliveries d). dl_destination x \<notin> ?g}"
    using att by (auto simp: image_iff) metis
  ultimately show ?thesis using dist
    by (simp add: deliveries_ok_def delete_destinations_def Let_def attempts_of_def distinct_map_filter)
qed

lemma history_update:
  assumes "deliveries_ok d" "\<And>x. dl_id (f x) = dl_id x" "\<And>x as. history_ok x as \<Longrightarrow> history_ok (f x) as"
  shows "deliveries_ok (d\<lparr>db_deliveries := update_where P f (db_deliveries d)\<rparr>)"
  using assms by (auto simp: deliveries_ok_def attempts_of_def map_update_where image_update_where elim!: in_set_update_whereE)

lemma history_enqueue: "commits deliveries_ok (enqueue_target t i tg)"
  unfolding commits_def
proof (intro allI impI)
  fix w u w' assume r: "enqueue_target t i tg w = (Inr u, w')" and ok: "deliveries_ok (w_db w)"
  obtain x j where x: "queued_for t i tg x j" "dl_id x \<notin> dl_id ` set (db_deliveries (w_db w))"
    "w_db w' = (w_db w)\<lparr>db_deliveries := db_deliveries (w_db w) @ [x], db_jobs := db_jobs (w_db w) @ [j]\<rparr>"
    using enqueue_target_Inr [OF r] by blast
  have "\<forall>a \<in> set (db_attempts (w_db w)). at_delivery a \<noteq> dl_id x" using ok x(2) unfolding deliveries_ok_def by metis
  then have "filter (\<lambda>a. at_delivery a = dl_id x) (db_attempts (w_db w)) = []" by (simp add: filter_empty_conv)
  moreover have "history_ok x []" using x(1) by (simp add: queued_for_def history_ok_def)
  ultimately show "deliveries_ok (w_db w')" using ok x(2) by (auto simp: x(3) deliveries_ok_def attempts_of_def)
qed

interpretation hist: store_invariant deliveries_ok
proof unfold_locales
  show "keeps deliveries_ok (DeleteDestination i t)" for i t
    unfolding DeleteDestination_def by (rule keeps_exec) (auto simp: Let_def history_delete)
  show "keeps deliveries_ok (DeleteStaleTunnelDestinations t)" for t
    unfolding DeleteStaleTunnelDestinations_def by (rule keeps_exec) (auto simp: Let_def history_delete)
  show "commits deliveries_ok (enqueue_target t i tg)" for t i tg by (rule history_enqueue)
  show "keeps deliveries_ok (recover_tx i dest)" for i dest
  proof -
    have "keeps deliveries_ok (ResetDeliveryForRecovery i)" unfolding ResetDeliveryForRecovery_def
      by (rule keeps_exec) (auto intro!: history_update simp: history_ok_def)
    moreover have "keeps deliveries_ok (SetDeliveryRiverJobID i job)" for job unfolding SetDeliveryRiverJobID_def
      by (rule keeps_exec) (auto intro!: history_update simp: history_ok_def)
    moreover have "keeps deliveries_ok (InsertDeliveryJob args n)" for args n unfolding InsertDeliveryJob_def river_InsertTx_def
      by (rule history_frame) (auto simp: Let_def split: if_splits)
    ultimately show ?thesis unfolding recover_tx_def by (intro keeps_intros)
  qed
  show "keeps deliveries_ok (recordAttempt i st r)" if "result_ok r" "st = ''succeeded'' \<longrightarrow> ar_succeeded r" for r st i
    unfolding keeps_def
  proof (intro allI impI)
    fix w :: world assume ok: "deliveries_ok (w_db w)"
    obtain res w' where run: "recordAttempt i st r w = (res, w')" by fastforce
    then show "deliveries_ok (w_db (snd (recordAttempt i st r w)))"
      using recordAttempt_Inl [of i st r w _ w'] recordAttempt_Inr(1) [of i st r w _ w'] recorded_ok that ok by (cases res) auto
  qed
qed (unfold statement_defs, (rule history_frame, auto simp: row_simps split: option.splits if_splits list.splits)+)

text \<open>A delivery and its job.\<close>

definition has_job :: "river_job list \<Rightarrow> delivery \<Rightarrow> bool" where
  "has_job js x \<longleftrightarrow> (\<exists>j \<in> set js. dl_river_job x = Some (jb_id j) \<and>
     (\<exists>args. jb_args j = DeliveryArgs args \<and> da_delivery_id args = uuidString (dl_id x)))"

lemma queued_iff: "queued d \<longleftrightarrow> (\<forall>x \<in> set (db_deliveries d). has_job (db_jobs d) x)"
  by (simp add: queued_def has_job_def)

lemma has_job_more: "has_job js x \<Longrightarrow> has_job (js @ new) x"
  by (auto simp: has_job_def)

lemma queued_frame:
  assumes "\<And>pg now n d x d'. f pg now n d = Inr (x, d') \<Longrightarrow>
    set (db_deliveries d') \<subseteq> set (db_deliveries d) \<and> (\<exists>new. db_jobs d' = db_jobs d @ new)"
  shows "keeps queued (exec f)"
proof (rule keeps_exec)
  fix pg now n d x d' assume "queued d" "f pg now n d = Inr (x, d')"
  with assms [of pg now n d x d'] show "queued d'" using has_job_more unfolding queued_iff by (metis subsetD)
qed

lemma recover_steps:
  assumes "bind (ResetDeliveryForRecovery i) (\<lambda>_. bind (InsertDeliveryJob args n) (\<lambda>job. SetDeliveryRiverJobID i job)) w = (Inr u, w')"
    and "da_delivery_id args = uuidString i"
  shows "\<exists>f j. w_db w' = (w_db w)\<lparr>db_deliveries := update_where (\<lambda>x. dl_id x = i) (\<lambda>x. x\<lparr>dl_river_job := Some (jb_id j)\<rparr>)
        (update_where (\<lambda>x. dl_id x = i) f (db_deliveries (w_db w))), db_jobs := db_jobs (w_db w) @ [j]\<rparr> \<and>
      (\<exists>args. jb_args j = DeliveryArgs args \<and> da_delivery_id args = uuidString i) \<and> (\<forall>x. dl_id (f x) = dl_id x)"
proof -
  define f where "f = (\<lambda>x. x\<lparr>dl_status := ''pending'', dl_dead_lettered_at := None, dl_next_attempt_at := None, dl_updated_at := w_now w\<rparr> :: delivery)"
  define j where "j = \<lparr>jb_id = pg_job_id (w_pg w) (Suc (w_step w)), jb_args = DeliveryArgs args, jb_max_attempts = (if n < 1 then 1 else n)\<rparr>"
  have "w_db w' = (w_db w)\<lparr>db_deliveries := update_where (\<lambda>x. dl_id x = i) (\<lambda>x. x\<lparr>dl_river_job := Some (jb_id j)\<rparr>)
        (update_where (\<lambda>x. dl_id x = i) f (db_deliveries (w_db w))), db_jobs := db_jobs (w_db w) @ [j]\<rparr>"
    using assms(1) by (auto simp: bind_Inr exec_Inr ResetDeliveryForRecovery_def InsertDeliveryJob_def river_InsertTx_def
        SetDeliveryRiverJobID_def Let_def f_def j_def split: if_splits)
  with assms(2) show ?thesis by (intro exI [of _ f] exI [of _ j]) (simp add: f_def j_def)
qed

lemma has_job_outcome: "has_job js (outcome st now x) = has_job js x"
  by (simp add: has_job_def outcome_def)

interpretation jobs: store_invariant queued
proof unfold_locales
  show "commits queued (enqueue_target t i tg)" for t i tg
    unfolding commits_def
  proof (intro allI impI)
    fix w u w' assume r: "enqueue_target t i tg w = (Inr u, w')" and ok: "queued (w_db w)"
    obtain x j where x: "queued_for t i tg x j"
      "w_db w' = (w_db w)\<lparr>db_deliveries := db_deliveries (w_db w) @ [x], db_jobs := db_jobs (w_db w) @ [j]\<rparr>"
      using enqueue_target_Inr [OF r] by blast
    have "has_job (db_jobs (w_db w) @ [j]) x" using x(1) by (auto simp: queued_for_def has_job_def)
    then show "queued (w_db w')" using ok has_job_more by (auto simp: queued_iff x(2))
  qed
  show "keeps queued (recover_tx i dest)" for i dest
    unfolding recover_tx_def
  proof (rule keeps_commit, unfold commits_def, intro allI impI)
    fix w u w'
    assume r: "bind (ResetDeliveryForRecovery i) (\<lambda>_.
      bind (InsertDeliveryJob \<lparr>da_delivery_id = uuidString i, da_backoff_base = dst_backoff_base dest,
              da_backoff_max = dst_backoff_max dest\<rparr> (dst_max_attempts dest)) (\<lambda>job. SetDeliveryRiverJobID i job)) w = (Inr u, w')"
      and ok: "queued (w_db w)"
    from r obtain f j where d: "w_db w' = (w_db w)\<lparr>db_deliveries := update_where (\<lambda>x. dl_id x = i) (\<lambda>x. x\<lparr>dl_river_job := Some (jb_id j)\<rparr>)
        (update_where (\<lambda>x. dl_id x = i) f (db_deliveries (w_db w))), db_jobs := db_jobs (w_db w) @ [j]\<rparr>"
      and j: "\<exists>args. jb_args j = DeliveryArgs args \<and> da_delivery_id args = uuidString i" and f: "\<And>x. dl_id (f x) = dl_id x"
      using recover_steps [OF r delivery_args.select_convs(1)] by blast
    have "has_job (db_jobs (w_db w) @ [j]) x"
      if x: "x \<in> set (update_where (\<lambda>x. dl_id x = i) (\<lambda>x. x\<lparr>dl_river_job := Some (jb_id j)\<rparr>)
        (update_where (\<lambda>x. dl_id x = i) f (db_deliveries (w_db w))))" for x
      using x
    proof (rule in_set_update_whereE)
      fix y assume "dl_id y = i" "x = y\<lparr>dl_river_job := Some (jb_id j)\<rparr>"
      with j show ?thesis by (simp add: has_job_def)
    next
      assume x': "x \<in> set (update_where (\<lambda>x. dl_id x = i) f (db_deliveries (w_db w)))" and ne: "dl_id x \<noteq> i"
      from x' have "x \<in> set (db_deliveries (w_db w))"
      proof (rule in_set_update_whereE)
        fix y assume "dl_id y = i" "x = f y"
        with f [of y] ne show ?thesis by simp
      qed
      then have "has_job (db_jobs (w_db w)) x" using ok by (simp add: queued_iff)
      then show ?thesis by (rule has_job_more)
    qed
    then show "queued (w_db w')" by (simp add: queued_iff d)
  qed
  show "keeps queued (recordAttempt i st r)" if "result_ok r" "st = ''succeeded'' \<longrightarrow> ar_succeeded r" for r st i
    unfolding keeps_def
  proof (intro allI impI)
    fix w :: world assume ok: "queued (w_db w)"
    obtain res w' where run: "recordAttempt i st r w = (res, w')" by fastforce
    have "queued d'" if rec: "recorded i st r now (w_db w) d'" for now d'
      using rec ok by (auto simp: recorded_def queued_iff has_job_outcome elim!: in_set_update_whereE)
    then show "queued (w_db (snd (recordAttempt i st r w)))"
      using run ok recordAttempt_Inl [of i st r w _ w'] recordAttempt_Inr(1) [of i st r w _ w'] by (cases res) auto
  qed
qed (unfold statement_defs, (rule queued_frame, auto simp: row_simps delete_destinations_def split: option.splits if_splits list.splits)+)

subsection \<open>The store stays consistent\<close>

lemmas invariants_kept = keyed.runs_keep refs.runs_keep hist.runs_keep jobs.runs_keep

text \<open>
  C12. However requests, workers and periodic jobs interleave, statement by statement and transaction by transaction, and
  whatever fails on the way, the store stays consistent: ids, endpoint paths and source/destination pairs stay unique; no
  event, route, rule, delivery, dedupe entry or alert refers to a row that is not there; every delivery
  has exactly the attempts its counter says, numbered without gaps, and is marked succeeded only when one of them was; and
  every delivery names a job of the queue that carries its id.
\<close>

theorem store_consistent:
  assumes "runs w w'" "keys_ok (w_db w)" "references_ok (w_db w)" "deliveries_ok (w_db w)" "queued (w_db w)"
  shows "keys_ok (w_db w') \<and> references_ok (w_db w') \<and> deliveries_ok (w_db w') \<and> queued (w_db w')"
  using invariants_kept [OF assms(1)] assms(2-) by blast

text \<open>From the example database, an event is replayed and its destination then deleted.\<close>

theorem store_consistent_witness:
  "\<exists>w w'. runs world_example w \<and> length (db_deliveries (w_db w)) = 1 \<and> runs w w' \<and> db_deliveries (w_db w') = [] \<and>
     keys_ok (w_db w') \<and> references_ok (w_db w') \<and> deliveries_ok (w_db w') \<and> queued (w_db w')"
proof -
  let ?w = "snd (inTx (EnqueueDeliveries 1 7 3) world_example)"
  let ?w' = "snd (DeleteDestination 9 1 ?w)"
  have 1: "runs world_example ?w" by (rule r_into_rtranclp) (rule atomic.Replay_event)
  have 2: "runs ?w ?w'" by (rule r_into_rtranclp) (rule atomic.Delete_destination)
  have "length (db_deliveries (w_db ?w)) = 1" "db_deliveries (w_db ?w') = []"
    by (simp_all add: EnqueueDeliveries_def EnqueueDeliveriesTo_def enqueue_target_def ListEnabledDeliveryTargetsForSource_def
        inTx_def bind_def query_def exec_def InsertDelivery_def InsertDeliveryJob_def river_InsertTx_def SetDeliveryRiverJobID_def
        DeleteDestination_def delete_destinations_def update_where_def enabled_targets_def target_of_def image_iff ret_def tick_def Let_def example_defs)
  moreover have "keys_ok (w_db world_example)" "references_ok (w_db world_example)" "deliveries_ok (w_db world_example)"
    "queued (w_db world_example)"
    by (simp_all add: keys_ok_def references_ok_def deliveries_ok_def queued_def example_defs)
  ultimately show ?thesis using 1 2 store_consistent [OF rtranclp_trans [OF 1 2]] by blast
qed

end
