(* ===== verification/Entry_Points.thy ===== *)
theory Entry_Points
  imports System
begin

text \<open>
  The entry points of the gateway: the ingest endpoint, the four kinds of jobs, the tunnel session, the start-up sweep and
  every handler of the management API. Each is shown to be a run of atomic steps, so that whatever is kept by
  all runs is kept by the whole gateway, however its entry points are called.
\<close>

subsection \<open>The calls\<close>

inductive entry :: "world \<Rightarrow> world \<Rightarrow> bool" where
  Time: "entry w (w\<lparr>w_now := now\<rparr>)"
| Ingest: "entry w (snd (snd (ingest h r w)))"
| Deliver: "entry (ws_world s) (ws_world (snd (Work out tunnels job s)))"
| Bulk_replay: "entry w (snd (ReplayWorker_Work env rid w))"
| Cleanup: "entry w (snd (CleanupWorker_Work w))"
| Alerts: "entry (ar_world a) (ar_world (snd (CheckWorker_Work aenv a)))"
| Sweep: "entry w (snd (Register w))"
| Open_tunnel: "entry w (snd (snd (open_tunnel name upgrade random ready (c :: conn) (reg, w))))"
| Close_tunnel: "entry w (snd (detach dest (reg :: conn registry, w)))"
| Gate: "entry w (snd (RequireScope au scope req w))"
| Touch: "entry w (snd (TouchAPIKeyLastUsed kid w))"
| Create_source: "entry w (snd (create_source sh rnd nonce body w))"
| List_sources: "entry w (snd (list_sources w))"
| Test_event: "entry w (snd (testEvent sh env path w))"
| List_events: "entry w (snd (list_events env q w))"
| Get_event: "entry w (snd (get_event env path w))"
| Trace: "entry w (snd (trace env path w))"
| Replay_one: "entry w (snd (replayEvent env path w))"
| Replay_many: "entry w (snd (bulkReplay env body w))"
| Get_replay: "entry w (snd (getReplay env path w))"
| Recover_delivery: "entry w (snd (recover env path w))"
| Create_key: "entry w (snd (create_key rnd body w))"
| List_keys: "entry w (snd (list_keys w))"
| Revoke_key_call: "entry w (snd (revoke_key env path w))"
| Create_destination: "entry w (snd (create_destination env body w))"
| List_destinations: "entry w (snd (list_destinations w))"
| Get_destination: "entry w (snd (get_destination env path w))"
| Update_destination_call: "entry w (snd (update_destination_api env path body w))"
| Delete_destination_call: "entry w (snd (delete_destination env path w))"
| Pause: "entry w (snd (pause env path w))"
| Resume: "entry w (snd (resume env path w))"
| Create_route: "entry w (snd (create_route env body w))"
| List_routes: "entry w (snd (list_routes env q w))"
| Update_route_call: "entry w (snd (update_route env path body w))"
| Delete_route_call: "entry w (snd (delete_route env path w))"
| Create_rule: "entry w (snd (create_rule rh env body w))"
| List_rules: "entry w (snd (list_rules w))"
| Get_rule: "entry w (snd (get_rule env path w))"
| Update_rule_call: "entry w (snd (update_rule rh env path body w))"
| Delete_rule_call: "entry w (snd (delete_rule env path w))"

subsection \<open>Each call is a run\<close>

named_theorems runs_intros \<open>"this call is a run of atomic steps"\<close>

lemma runs_atomic: "atomic w w' \<Longrightarrow> runs w w'"
  by (rule r_into_rtranclp)

lemma runs_same: "same_store w w' \<Longrightarrow> runs w w'"
  by (rule runs_atomic, rule atomic.Read) (simp_all add: same_store_def)

lemmas runs_statements [runs_intros] = atomic.intros(2-25) [THEN runs_atomic]

text \<open>The statements that read leave the store as it is.\<close>

lemma reads_query: "runs w (snd (query f w))"
  by (rule runs_same, rule same_store_query) (rule prod.collapse [symmetric])

lemma reads_text_query: "runs w (snd (text_query arg f w))"
  by (rule runs_atomic, rule atomic.Read) (auto simp: text_query_def exec_def split: sum.splits)

lemma reads_exec: "(\<And>pg now n d x d'. f pg now n d = Inr (x, d') \<Longrightarrow> d' = d) \<Longrightarrow> runs w (snd (exec f w))"
  by (rule runs_atomic, rule atomic.Read) (auto simp: exec_def split: sum.splits)

lemma runs_reads [runs_intros]:
  "runs w (snd (GetEvent i t w))" "runs w (snd (GetSource i t w))" "runs w (snd (GetSourceByEndpointPath p w))"
  "runs w (snd (GetSourceByName t p w))" "runs w (snd (ListSources t w))" "runs w (snd (GetDelivery i w))"
  "runs w (snd (GetDestination i t w))" "runs w (snd (ListDestinations t w))" "runs w (snd (ListRoutes t si di w))"
  "runs w (snd (GetRule i t w))" "runs w (snd (ListRules t w))" "runs w (snd (GetReplay i w))"
  "runs w (snd (ListEvents f c n w))" "runs w (snd (ListEventsForReplay f w))"
  "runs w (snd (ListEventDeliveries i t w))" "runs w (snd (ListEventDeliveryAttempts i t w))"
  "runs w (snd (DeadLetteredSince since w))" "runs w (snd (DeliveryFailureRatesSince since w))"
  "runs w (snd (GetAlertLastFired i p w))" "runs w (snd (GetAPIKeyByHash p w))" "runs w (snd (ListAPIKeys t w))"
  "runs w (snd (GetInstanceSetting p w))"
  unfolding GetEvent_def GetSource_def GetSourceByEndpointPath_def GetSourceByName_def ListSources_def GetDelivery_def
    GetDestination_def ListDestinations_def ListRoutes_def GetRule_def ListRules_def GetReplay_def ListEventDeliveries_def
    ListEventDeliveryAttempts_def DeadLetteredSince_def DeliveryFailureRatesSince_def GetAlertLastFired_def GetAPIKeyByHash_def
    ListAPIKeys_def GetInstanceSetting_def ListEvents_def ListEventsForReplay_def
  by (rule reads_query reads_text_query | rule reads_exec, simp split: if_splits)+

text \<open>Control structure: a call runs its first statement and then, on what it gave, the rest.\<close>

lemma runs_case [runs_intros]:
  "runs w (snd p) \<Longrightarrow> (\<And>r w1. runs w1 (snd (k r w1))) \<Longrightarrow> runs w (snd (case p of (r, w1) \<Rightarrow> k r w1))"
  by (cases p) (auto intro: rtranclp_trans)

lemma runs_branch [runs_intros]:
  "(\<And>e. runs w (snd (f e))) \<Longrightarrow> (\<And>x. runs w (snd (g x))) \<Longrightarrow> runs w (snd (case_sum f g r))"
  "runs w (snd n) \<Longrightarrow> (\<And>x. runs w (snd (s x))) \<Longrightarrow> runs w (snd (case_option n s v))"
  "runs w (snd a) \<Longrightarrow> runs w (snd b) \<Longrightarrow> runs w (snd (if c then a else b))"
  by (simp_all split: sum.split option.split)

lemma runs_db_error [runs_intros]:
  "runs w (snd a) \<Longrightarrow> runs w (snd b) \<Longrightarrow> runs w (snd c) \<Longrightarrow> runs w (snd d) \<Longrightarrow> runs w (snd e) \<Longrightarrow> runs w (snd f) \<Longrightarrow>
     runs w (snd (case_db_error a b c d e f err))"
  by (simp split: db_error.split)

lemma runs_end [runs_intros]: "runs w (snd (x, w))"
  by simp

lemma runs_or_500 [runs_intros]: "runs w (snd q) \<Longrightarrow> runs w (snd (or_500 q k))"
  by (auto simp: or_500_def split: prod.split sum.split)

lemma runs_or_404 [runs_intros]: "runs w (snd q) \<Longrightarrow> runs w (snd (or_404 msg q k))"
  by (auto simp: or_404_def split: prod.split sum.split db_error.split)

lemma runs_with_id [runs_intros]: "(\<And>x. runs w (snd (k x w))) \<Longrightarrow> runs w (snd (with_id env path msg k w))"
  by (simp add: with_id_def split: option.split)

lemma runs_bind [runs_intros]: "runs w (snd (m w)) \<Longrightarrow> (\<And>x w1. runs w1 (snd (f x w1))) \<Longrightarrow> runs w (snd (bind m f w))"
  unfolding bind_def by (intro runs_intros)

lemma runs_ret [runs_intros]: "runs w (snd (ret x w))"
  by (simp add: ret_def)

lemma runs_ProcessEvent [runs_intros]: "runs w (snd (ProcessEvent h s body hs w))"
  unfolding ProcessEvent_def by (intro runs_intros)

text \<open>The handlers of the API.\<close>

lemma runs_sources:
  "runs w (snd (create_source sh rnd nonce body w))" "runs w (snd (list_sources w))" "runs w (snd (testEvent sh env path w))"
  unfolding create_source_def list_sources_def testEvent_def by (intro runs_intros)+

lemma runs_events:
  "runs w (snd (list_events env q w))" "runs w (snd (get_event env path w))" "runs w (snd (trace env path w))"
  unfolding list_events_def get_event_def trace_def by (intro runs_intros)+

lemma runs_replays:
  "runs w (snd (replayEvent env path w))" "runs w (snd (bulkReplay env body w))" "runs w (snd (getReplay env path w))"
  "runs w (snd (recover env path w))"
  unfolding replayEvent_def bulkReplay_def getReplay_def recover_def insert_replay_def [symmetric] by (intro runs_intros)+

lemma runs_keys:
  "runs w (snd (RequireScope au scope req w))" "runs w (snd (create_key rnd body w))" "runs w (snd (list_keys w))"
  "runs w (snd (revoke_key env path w))"
proof -
  have "runs w (snd (require_bearer au scope req w))" unfolding require_bearer_def Let_def by (intro runs_intros)
  then show "runs w (snd (RequireScope au scope req w))"
    by (auto simp: RequireScope_def split: option.split prod.split bool.split)
  show "runs w (snd (create_key rnd body w))"
    unfolding create_key_def Let_def case_prod_unfold by (intro runs_intros)
qed (unfold list_keys_def revoke_key_def, (intro runs_intros)+)

lemma runs_destinations:
  "runs w (snd (create_destination env body w))" "runs w (snd (list_destinations w))" "runs w (snd (get_destination env path w))"
  "runs w (snd (update_destination_api env path body w))" "runs w (snd (delete_destination env path w))"
  "runs w (snd (pause env path w))" "runs w (snd (resume env path w))"
  unfolding create_destination_def list_destinations_def get_destination_def update_destination_api_def delete_destination_def
    pause_def resume_def by (intro runs_intros)+

lemma runs_routes:
  "runs w (snd (create_route env body w))" "runs w (snd (list_routes env q w))" "runs w (snd (update_route env path body w))"
  "runs w (snd (delete_route env path w))"
  unfolding create_route_def list_routes_def update_route_def delete_route_def Let_def by (intro runs_intros)+

lemma runs_rules:
  "runs w (snd (create_rule rh env body w))" "runs w (snd (list_rules w))" "runs w (snd (get_rule env path w))"
  "runs w (snd (update_rule rh env path body w))" "runs w (snd (delete_rule env path w))"
  unfolding create_rule_def list_rules_def get_rule_def update_rule_def delete_rule_def by (intro runs_intros)+

text \<open>The ingest endpoint and the jobs.\<close>

lemma runs_ingest: "runs w (snd (snd (ingest h r w)))"
proof -
  obtain res w1 where g: "GetSourceByEndpointPath (rq_path r) w = (res, w1)" by fastforce
  then have 1: "runs w w1" using runs_reads(3) [of w "rq_path r"] by simp
  have 2: "runs w1 (snd (ProcessEvent h' s body hs w1))" for h' s body hs by (rule runs_ProcessEvent)
  have "snd (snd (ingest h r w)) = w1 \<or> (\<exists>h' s body hs. snd (snd (ingest h r w)) = snd (ProcessEvent h' s body hs w1))"
    by (auto simp: ingest_def g Let_def split: sum.split db_error.split prod.split read_result.split) (metis snd_conv)+
  with 1 2 show ?thesis by (auto intro: rtranclp_trans)
qed

lemma runs_Work: "runs (ws_world s) (ws_world (snd (Work out tunnels job s)))"
proof -
  obtain r s' where run: "Work out tunnels job s = (r, s')" by fastforce
  from run have "runs (ws_world s) (ws_world s')"
  proof (cases rule: Work_cases)
    case idle
    show ?thesis by (rule runs_same) (rule idle(1))
  next
    case (tried x dest sent w p)
    let ?st = "deliveryStatus (fst sent) (dj_attempt job) (dj_max_attempts job)"
    have "atomic w (snd (recordAttempt (dl_id x) ?st (fst sent) w))"
      using tried(3) by (intro atomic.Record_attempt)
        (auto simp: sends_def deliveryStatus_def statusSucceeded_def statusFailed_def statusDeadLettered_def)
    moreover have "ws_world s' = snd (recordAttempt (dl_id x) ?st (fst sent) w)"
      using tried(5) by (auto simp: finish_attempt_def Let_def split: prod.splits sum.splits)
    ultimately show ?thesis using runs_same [OF tried(4)] by (auto intro: rtranclp.rtrancl_into_rtrancl)
  qed
  with run show ?thesis by simp
qed

lemma runs_replay_events: "runs w (snd (snd (replay_events t evs n w)))"
proof (induction t evs n w rule: replay_events.induct)
  case (2 t eid sid evs n w)
  have 1: "runs w (snd (replayOne t sid eid w))" unfolding replayOne_def by (rule runs_intros)
  show ?case
  proof (cases "replayOne t sid eid w")
    case (Pair r w1)
    with 1 2 show ?thesis by (cases r) (auto intro: rtranclp_trans)
  qed
qed simp

lemma runs_replay_fail [runs_intros]: "runs w (replay_fail rid m n w)"
  unfolding replay_fail_def by (rule runs_intros)

lemma runs_replay_run [runs_intros]: "runs w (snd (replay_run rid t evs w))"
proof -
  obtain v n w1 where e: "replay_events t evs 0 w = (v, n, w1)" by (metis prod_cases3)
  then have "runs w w1" using runs_replay_events [of w t evs 0] by simp
  moreover have "runs w1 (snd (replay_run rid t evs w))"
    unfolding replay_run_def e using atomic.Finish_replay [THEN runs_atomic] runs_replay_fail
    by (auto split: option.split prod.split sum.split) (metis snd_conv)+
  ultimately show ?thesis by (rule rtranclp_trans)
qed

lemma runs_end_with [runs_intros]: "runs w w' \<Longrightarrow> runs w (snd (x, w'))"
  by simp

lemma runs_ReplayWorker_Work: "runs w (snd (ReplayWorker_Work env rid w))"
  unfolding ReplayWorker_Work_def by (intro runs_intros)

lemma runs_Cleanup: "runs w (snd (CleanupWorker_Work w))"
  unfolding CleanupWorker_Work_def by (intro runs_intros)

lemma runs_LoadConfig: "runs w (snd (LoadConfig w))"
  unfolding LoadConfig_def by (intro runs_intros)

lemma runs_maybeFire: "runs (ar_world s) (ar_world (snd (maybeFire env cfg ns now i name c det s)))"
proof -
  obtain r w1 where g: "GetAlertLastFired i c (ar_world s) = (r, w1)" by fastforce
  then have 1: "runs (ar_world s) w1" using runs_reads(19) [of "ar_world s" i c] by simp
  have 2: "runs w1 (snd (MarkAlertFired i c t w1))" for t by (rule runs_intros)
  have "ar_world (snd (maybeFire env cfg ns now i name c det s)) \<in> {w1, snd (MarkAlertFired i c (timestamptz now) w1)}"
    by (auto simp: maybeFire_def g multi_Notify_def Let_def split: sum.split db_error.split prod.split)
  with 1 2 show ?thesis by (auto intro: rtranclp_trans)
qed

lemma runs_fire_all:
  assumes "\<And>x s. runs (ar_world s) (ar_world (snd (f x s)))"
  shows "runs (ar_world s) (ar_world (snd (fire_all f xs s)))"
proof (induction xs arbitrary: s)
  case (Cons x xs)
  from rtranclp_trans [OF assms [of s x] Cons [of "snd (f x s)"]] show ?case by (simp add: Let_def case_prod_unfold)
qed simp

lemma runs_Evaluator_Run: "runs (ar_world s) (ar_world (snd (Evaluator_Run env cfg ns s)))"
proof -
  let ?now = "w_now (ar_world s)" and ?since = "timestamptz (windowStart cfg (w_now (ar_world s)))"
  have dlq: "runs (ar_world s) (ar_world (snd (fire_all (fire_dlq env cfg ns ?now) xs s)))" for xs s
    by (rule runs_fire_all) (simp add: fire_dlq_def runs_maybeFire)
  have rate: "runs (ar_world s) (ar_world (snd (fire_all (fire_rate env cfg ns ?now) xs s)))" for xs s
    by (rule runs_fire_all) (simp add: fire_rate_def runs_maybeFire)
  obtain r w1 where q: "DeadLetteredSince ?since (ar_world s) = (r, w1)" by fastforce
  then have 1: "runs (ar_world s) w1" using runs_reads(17) [of "ar_world s" ?since] by simp
  show ?thesis
  proof (cases r)
    case (Inl e)
    with q 1 show ?thesis by (simp add: Evaluator_Run_def Let_def)
  next
    case (Inr xs)
    obtain errs s1 where f: "fire_all (fire_dlq env cfg ns ?now) xs (s\<lparr>ar_world := w1\<rparr>) = (errs, s1)" by fastforce
    with dlq [of "s\<lparr>ar_world := w1\<rparr>" xs] have 2: "runs w1 (ar_world s1)" by simp
    obtain r2 w2 where q2: "DeliveryFailureRatesSince ?since (ar_world s1) = (r2, w2)" by fastforce
    then have 3: "runs (ar_world s1) w2" using runs_reads(18) [of "ar_world s1" ?since] by simp
    have "runs (ar_world s1) (ar_world (snd (Evaluator_Run env cfg ns s)))"
    proof (cases r2)
      case (Inl e)
      then show ?thesis using q Inr f q2 3 by (simp add: Evaluator_Run_def Let_def \<open>r = Inr xs\<close>)
    next
      case rates: (Inr ys)
      have "runs w2 (ar_world (snd (fire_all (fire_rate env cfg ns ?now) ys (s1\<lparr>ar_world := w2\<rparr>))))"
        using rate [of "s1\<lparr>ar_world := w2\<rparr>" ys] by simp
      with 3 have "runs (ar_world s1) (ar_world (snd (fire_all (fire_rate env cfg ns ?now) ys (s1\<lparr>ar_world := w2\<rparr>))))"
        by (rule rtranclp_trans)
      then show ?thesis using q Inr f q2 rates by (simp add: Evaluator_Run_def Let_def case_prod_unfold)
    qed
    with 1 2 show ?thesis by (metis rtranclp_trans)
  qed
qed

lemma runs_CheckWorker: "runs (ar_world s) (ar_world (snd (CheckWorker_Work env s)))"
proof -
  obtain r w1 where l: "LoadConfig (ar_world s) = (r, w1)" by fastforce
  then have 1: "runs (ar_world s) w1" using runs_LoadConfig [of "ar_world s"] by simp
  have 2: "runs w1 (ar_world (snd (Evaluator_Run env cfg ns (s\<lparr>ar_world := w1\<rparr>))))" for cfg ns
    using runs_Evaluator_Run [of "s\<lparr>ar_world := w1\<rparr>"] by simp
  from 1 2 show ?thesis
    by (auto simp: CheckWorker_Work_def l split: sum.split option.split intro: rtranclp_trans)
qed

text \<open>Tunnel sessions.\<close>

lemma runs_resolveSources: "runs w (snd (resolveSources name w))"
  unfolding resolveSources_def by (intro runs_intros)

lemma runs_attach: "runs w (snd (attach random w))"
  unfolding attach_def Let_def by (intro runs_intros)

lemma runs_for_each: "(\<And>x w. runs w (snd (f x w))) \<Longrightarrow> runs w (snd (for_each f xs w))"
  by (induction xs arbitrary: w) (auto intro: runs_intros)

lemma runs_routeSources: "runs w (snd (routeSources dest ss w))"
  unfolding routeSources_def by (rule runs_for_each) (intro runs_intros)

lemma runs_detach: "runs w (snd (detach dest (reg, w)))"
  unfolding detach_def by simp (rule runs_intros)

lemma runs_open_tunnel: "runs w (snd (snd (open_tunnel name upgrade random ready c (reg, w))))"
proof -
  obtain r1 w1 where 1: "resolveSources name w = (r1, w1)" by fastforce
  obtain r2 w2 where 2: "attach random w1 = (r2, w2)" by fastforce
  have a: "runs w w1" "runs w w2"
    using runs_resolveSources [of w name] runs_attach [of w1 random] by (auto simp: 1 2 intro: rtranclp_trans)
  have b: "runs w w3" if r: "routeSources d ss w2 = (r3, w3)" for d ss r3 w3
    using runs_routeSources [of w2 d ss] a(2) by (auto simp: r intro: rtranclp_trans)
  have c: "runs w (snd (detach d (reg', w3)))" if "runs w w3" for d w3 and reg' :: "'a registry"
    by (rule rtranclp_trans [OF that runs_detach])
  show ?thesis using a b c
    by (auto simp: open_tunnel_def 1 2 Let_def split: sum.split prod.split)
qed

lemma runs_Register: "runs w (snd (Register w))"
  unfolding Register_def by (rule runs_intros)

text \<open>PostgreSQL itself does not change on the way.\<close>

lemma steady_if [keeps_intros]: "steady m \<Longrightarrow> steady m' \<Longrightarrow> steady (if b then m else m')"
  by simp

lemma steady_claim_key [keeps_intros]: "steady (claim_key s i k)"
  unfolding steady_def
proof
  fix w
  have "steady (bind (MarkEventDropped i droppedReasonDuplicate) (\<lambda>_. ret True))" by (intro keeps_intros claim_steady)
  note drop = this [unfolded steady_def, rule_format]
  show "w_pg (snd (claim_key s i k w)) = w_pg w \<and> w_now (snd (claim_key s i k w)) = w_now w"
    by (auto simp: claim_key_def ret_def drop split: option.splits prod.splits sum.splits db_error.splits
        dest: steadyD [OF claim_steady(1)])
qed

lemma exec_pg: "w_pg (snd (exec f w)) = w_pg w"
  using steady_exec [of f] by (simp add: steady_def)

lemma atomic_pg: "atomic w w' \<Longrightarrow> w_pg w' = w_pg w"
proof (induction rule: atomic.induct)
  case (Process_event w h s p)
  have "steady (inTx (process_tx h s p))"
    unfolding process_tx_def apply_decision_def ListEnabledRulesForSource_def ListDeliveryTargetsByDestinationIDs_def
      InsertEvent_def MarkEventDropped_def by (intro keeps_intros)
  then show ?case by (simp add: steady_def)
next
  case (Insert_replay w flt)
  have "steady (insert_replay flt)"
    unfolding insert_replay_def InsertReplay_def InsertReplayJob_def river_InsertTx_def by (intro keeps_intros)
  then show ?case by (simp add: steady_def)
next
  case (Recover w i dest)
  have "steady (recover_tx i dest)"
    unfolding recover_tx_def InsertDeliveryJob_def river_InsertTx_def delivery_statement_defs by (intro keeps_intros)
  then show ?case by (simp add: steady_def)
next
  case (Record_attempt r st w i)
  have "steady (recordAttempt i st r)" unfolding recordAttempt_def delivery_statement_defs by (intro keeps_intros)
  then show ?case by (simp add: steady_def)
next
  case (Replay_event w t i j)
  have "steady (inTx (EnqueueDeliveries t i j))" by (intro keeps_intros)
  then show ?case by (simp add: steady_def)
qed (simp_all add: statement_defs exec_pg)

lemma runs_pg: "runs w w' \<Longrightarrow> w_pg w' = w_pg w"
  by (induction rule: rtranclp_induct) (simp_all add: atomic_pg)

subsection \<open>The gateway\<close>

text \<open>
  C13. Whatever entry point of the gateway is called, with whatever arguments and whatever the outside answers, what it does
  to the store is a sequence of the atomic steps: single statements and whole transactions. With the invariants of all
  runs, each of them therefore leaves the store consistent, also when it fails half-way or runs beside others.
\<close>

theorem entry_refines:
  assumes "entry w w'"
  shows "runs w w'"
  using assms
proof (induction rule: entry.induct)
  case (Time w now)
  show ?case by (rule runs_atomic, rule atomic.Read) simp_all
next
  case (Touch w kid)
  show ?case by (rule runs_intros)
qed (rule runs_ingest runs_Work runs_ReplayWorker_Work runs_Cleanup runs_CheckWorker runs_Register runs_open_tunnel runs_detach
    runs_keys runs_sources runs_events runs_replays runs_destinations runs_routes runs_rules)+

theorem entry_refines_witness:
  "runs world_example (snd (snd (ingest handler_example request_example world_example)))"
  by (rule entry_refines) (rule entry.Ingest)

end
