(* ===== verification/Spec2Isabelle.thy ===== *)
theory Spec2Isabelle
  imports Gateway_Config Cli_Client Dashboard Entry_Points
begin

text \<open>
  A verification of the webhook gateway.

  \<^bold>\<open>The program.\<close> The gateway receives webhooks of many providers over HTTP, checks their signatures, stores them in
  PostgreSQL, drops duplicates, lets rules drop or route them, and delivers them to destinations with retries, over HTTP or
  through a WebSocket tunnel to a developer's machine. A management API behind sessions and scoped API keys configures
  sources, destinations, routes and rules, shows events, and replays or recovers deliveries. Periodic jobs clean up the dedupe
  index and send alerts. All components share one database; the jobs between them are rows of the River queue in it.

  \<^bold>\<open>The theories and the code they model\<close> (paths under \<^verbatim>\<open>src/internal\<close>):

  \<^item> \<open>Prelude\<close>, \<open>Go_Strings\<close>, \<open>Go_Paths\<close>, \<open>Codecs\<close>, \<open>Hashes\<close>, \<open>Json\<close>, \<open>Json_Struct\<close>, \<open>Floats\<close>: what the program uses of Go's standard
    library, computed: strings, headers, paths, integers at their width, hex and base64, SHA-1, SHA-256 and HMAC, the JSON
    scanner, decoder and encoder with the decoding of structs, and the rounding of float64.
  \<^item> \<open>Store\<close>, \<open>Queries\<close>: the tables of \<^verbatim>\<open>db/models.go\<close> as a record of row lists, and every statement of \<^verbatim>\<open>db/*.sql.go\<close> as a
    function on it with its constraints, defaults and cascades. A \<open>world\<close> is a database, a clock, a count of statements and
    PostgreSQL: which statements fail, which ids are generated, which texts and JSON it takes. \<open>inTx\<close> is a transaction
    that is rolled back when a statement or the commit fails.
  \<^item> \<open>Sourcedef\<close>: \<^verbatim>\<open>sourcedef\<close>; \<open>Secrets\<close>: \<^verbatim>\<open>crypto\<close> (AES-256-GCM is computed); \<open>Rules\<close>: \<^verbatim>\<open>rules\<close>; \<open>Queue\<close>: \<^verbatim>\<open>queue\<close>.
  \<^item> \<open>Dedupe\<close>, \<open>Buckets\<close>, \<open>Ingest\<close>: \<^verbatim>\<open>ingest\<close>, with the pacer of \<^verbatim>\<open>delivery/pacing.go\<close> beside the rate limiter it resembles.
  \<^item> \<open>Retry\<close>, \<open>Delivery\<close>: \<^verbatim>\<open>delivery\<close> but the replay worker, which is in \<open>Replay\<close> with \<^verbatim>\<open>api/replay.go\<close> and \<^verbatim>\<open>api/deliveries.go\<close>.
  \<^item> \<open>Tunnel\<close>, \<open>Tunnel_Session\<close>: \<^verbatim>\<open>tunnel\<close>; a connection is a step relation in which any number of calls of \<^verbatim>\<open>Deliver\<close>, the reader
    the client and the end of a call's context interleave.
  \<^item> \<open>Api_Base\<close>, \<open>Events_Api\<close>, \<open>Sources_Api\<close>, \<open>Routing_Api\<close>: \<^verbatim>\<open>api/respond.go\<close>, \<^verbatim>\<open>events.go\<close>, \<^verbatim>\<open>sources.go\<close> and \<^verbatim>\<open>providers.go\<close>, \<^verbatim>\<open>destinations.go\<close>,
    \<^verbatim>\<open>routes.go\<close> and \<^verbatim>\<open>rules.go\<close>. A handler is a function from the request and the world to a typed reply, before it is
    encoded, and the world after it.
  \<^item> \<open>Auth\<close>: \<^verbatim>\<open>auth\<close>, \<^verbatim>\<open>api/middleware/auth.go\<close>, \<^verbatim>\<open>api/auth.go\<close>, \<^verbatim>\<open>api/apikeys.go\<close>; \<open>Alerting\<close>: \<^verbatim>\<open>alerting\<close>.
  \<^item> \<open>Gateway_Config\<close>: \<^verbatim>\<open>config\<close> and \<^verbatim>\<open>src/cmd/gateway/main.go\<close>; \<open>Dashboard\<close>: \<^verbatim>\<open>src/web/dashboard\<close>.
  \<^item> \<open>Cli_Tunnel\<close>, \<open>Cli_Client\<close>: the command-line client under \<^verbatim>\<open>src/cli/internal\<close>, that is the other end of the tunnel (\<^verbatim>\<open>tunnel\<close>, \<^verbatim>\<open>forward\<close>)
    and the API client, the stored credentials and the commands (\<^verbatim>\<open>client\<close>, \<^verbatim>\<open>config\<close>, \<^verbatim>\<open>cli\<close>).
  \<^item> \<open>System\<close>, \<open>Entry_Points\<close>: the gateway as a transition system. An atomic step is one statement or one whole transaction with any
    arguments; a run is any sequence of them, so it covers every interleaving of requests, jobs and processes.

  \<^bold>\<open>What is shown.\<close>

  \<^item> Ingest: an acknowledged webhook is stored verbatim with exactly the deliveries its verdict asks for, a refused one leaves no
    trace, a well-formed one is accepted; dedupe keys are exclusive within their window under every interleaving, and the
    clean-up is invisible; the rate limit holds up to rounding; rules decide by priority.
  \<^item> Signatures and secrets: what is signed verifies, what verifies was signed recently (but for one overflow of the code), ciphertexts open
    exactly to what was sealed.
  \<^item> Delivery: only due deliveries are sent, every attempt is recorded once with the status its result justifies, succeeded
    deliveries are never sent again, retries stay in their window; the pacer's waits are bounded.
  \<^item> Tunnel: an acknowledgement is returned only to the call it answers, nothing leaks, calls end after the connection does, frames
    round-trip, and a session, whatever went through it, leaves no trace but jobs that send nothing.
  \<^item> API: sources, destinations and rules stay well formed whatever is posted; the routes refine an abstract routing table; a pause
    defers and loses nothing; pages and traces are complete; replay counts are truthful and recovery is atomic; the gate
    lets in exactly the holders of a credential (but for an admin password that looks like a key); sessions and keys live exactly
    as long as they should.
  \<^item> Alerting: no alert within the cooldown of one that every channel took, and dead letters are reported.
  \<^item> The whole store: in every run, ids and unique columns stay unique, references resolve, the attempt history agrees with each
    delivery, and every delivery has its job; every entry point of the gateway is such a run. From the two, and from what ingest and
    the worker do, a theorem of this theory follows a webhook from the provider to the destination.
  \<^item> Process and client: the configuration is loaded exactly as documented and decides exactly what a process mounts, behind
    which gate; the tunnel works end to
    end, from the frame the gateway writes to the acknowledgement it reads; login stores what works; a replayed event is the
    provider's request; the client's waits are bounded; the dashboard serves no file outside its tree.

  The interfaces between components are locales, interpreted on the model: the laws of encodings, of rounding, of the invariants that
  statements keep and that runs keep, of simulations, and of what a run of alerts keeps.

  \<^bold>\<open>Parameters.\<close> What is not code of the program is an argument: PostgreSQL and River (in the world), cel-go, YAML, the parsing of URLs,
  UUIDs and RFC 3339 times, HTTP clients and responses, WebSocket sockets, SMTP, random bytes, the \<^verbatim>\<open>%q\<close> and \<^verbatim>\<open>%f\<close> of fmt. Where a
  theorem relies on them it says so in its hypotheses, and its witness instantiates them.

  \<^bold>\<open>Bounds.\<close> Ids are finite, so a store that never runs out of new ids is only assumed healthy for the statements a request needs (a
  linear function of its targets). The loops of the program are structural recursions; the only fuel is the number of
  pages a client follows, and any number that covers the events is enough. Times are nanoseconds since 1970, durations and
  counters wrap where the code's do.

  \<^bold>\<open>Simplifications.\<close> A commit that fails is taken to have rolled back (a connection may also be lost after the server has committed),
  and transactions are whole steps, while PostgreSQL's default isolation lets their statements interleave. River's own
  maintenance, which deletes jobs some time after they ended, is no step, so a delivery has its job as far as the gateway's own
  statements go. A message beyond the read limit of a WebSocket is an error of the socket, like any other.

  \<^bold>\<open>Not modelled.\<close> Logging, metrics, health checks and what the client prints (output only); flag parsing and signals; the registration of
  handlers under method and path patterns (the \<^verbatim>\<open>Register\<close> functions, which only call \<^verbatim>\<open>http.ServeMux\<close>); connection pools,
  migrations and the set-up of River's clients, which are calls into libraries; the TypeScript of the dashboard. The update of \<^verbatim>\<open>last_used_at\<close>,
  which a goroutine makes after a request, is a step of its own in the transition system.
\<close>

subsection \<open>From the provider to the destination\<close>

text \<open>A destination that answers a request with a 2xx, with headers and a body the store takes.\<close>

definition takes :: "outside \<Rightarrow> postgres \<Rightarrow> destination \<Rightarrow> http_out \<Rightarrow> http_response \<Rightarrow> bool" where
  "takes env pg dest req resp \<longleftrightarrow>
     o_NewRequest env (dst_url dest) = None \<and> o_Do env (timeout_of dest) req = Inr resp \<and>
     200 \<le> hr_status resp \<and> hr_status resp < 300 \<and>
     pg_jsonb pg (marshal_header (ho_header req)) \<noteq> None \<and> pg_jsonb pg (marshal_header (hr_header resp)) \<noteq> None \<and>
     text_opt pg (kept_body resp) \<and> pg_text pg (StatusText (hr_status resp))"

text \<open>A later state of the worker in which the delivery still waits, and its event and destination are as they were.\<close>

definition waits :: "worker_state \<Rightarrow> delivery \<Rightarrow> event \<Rightarrow> destination \<Rightarrow> bool" where
  "waits st x e dest \<longleftrightarrow> store_up (ws_world st) \<and> e \<in> set (db_events (w_db (ws_world st))) \<and>
     (\<exists>y. due (w_db (ws_world st)) y dest \<and> dl_id y = dl_id x \<and> dl_event y = dl_event x)"

lemma acknowledged:
  assumes "ingest h r w = (resp, h', w')" "rs_status resp = 200" "dedup_pk (w_db w)"
    and "s \<in> set (db_sources (w_db w))" "src_endpoint_path s = rq_path r" "distinct (map src_endpoint_path (db_sources (w_db w)))"
  obtains e where "processed (w_pg w) h (w_now w) s (rq_body r) (rq_header r) (w_db w) e (w_db w')"
  using assms(1)
proof (cases rule: ingest_cases)
  case (stored s' w1 l row v)
  have "s' = s" using assms(4-6) stored(2,3) unfolding distinct_map inj_on_def by metis
  then have "\<exists>e. processed (w_pg w1) (h\<lparr>h_limiter := l\<rparr>) (w_now w1) s (rq_body r) (rq_header r) (w_db w1) e (w_db w')"
    using stored ProcessEvent_processed assms(3) by fastforce
  with stored that show thesis by (auto simp: processed_limiter)
qed (use assms(2) in auto)

text \<open>
  C5. From the provider to the destination: a webhook that is acknowledged and for which the rules and routes name a plain HTTP
  destination leaves one pending delivery with a job for it; and however the gateway goes on, when the job runs while the delivery
  still waits and the destination answers with a 2xx, then the job completes, exactly one request was made, to the destination's
  URL, with the provider's body byte for byte, the provider's content type and the delivery's id, and the delivery is
  marked succeeded.
\<close>

theorem webhook_delivered:
  assumes ack: "ingest h r w = (resp, h', w')" "rs_status resp = 200"
    and inv: "keys_ok (w_db w)" "deliveries_ok (w_db w)" "dedup_pk (w_db w)"
    and src: "s \<in> set (db_sources (w_db w))" "src_endpoint_path s = rq_path r"
    and verdict: "webhook_verdict h (w_db w) (w_now w) s (rq_body r) (rq_header r) = Deliver ts" "target_of dest \<in> set ts"
    and dest: "dst_rate_limit dest = None" "\<not> IsURL (dst_url dest)"
  shows "\<exists>e x j args. ev_raw_body e = rq_body r \<and> x \<in> set (db_deliveries (w_db w')) \<and> dl_status x = ''pending'' \<and>
     dl_tenant x = src_tenant s \<and> dl_destination x = dst_id dest \<and> dl_event x = ev_id e \<and> e \<in> set (db_events (w_db w')) \<and>
     j \<in> set (db_jobs (w_db w')) \<and> jb_args j = DeliveryArgs args \<and> da_delivery_id args = uuidString (dl_id x) \<and>
     (\<forall>env tunnels job st req resp'. runs w' (ws_world st) \<and> waits st x e dest \<and> dj_args job = args \<and>
        (\<forall>i. o_Scan env (uuidString i) = Some i) \<and>
        req = delivery_request dest (rq_body r) (ev_content_type e) (uuidString (dl_id x)) \<and>
        takes env (w_pg (ws_world st)) dest req resp' \<longrightarrow>
        (\<exists>st' y. Work env tunnels job st = (Completed, st') \<and> ws_sent st' = ws_sent st @ [Post req] \<and>
           ho_url req = dst_url dest \<and> ho_body req = rq_body r \<and>
           y \<in> set (db_deliveries (w_db (ws_world st'))) \<and> dl_id y = dl_id x \<and> dl_status y = ''succeeded''))"
proof -
  have paths: "distinct (map src_endpoint_path (db_sources (w_db w)))" using inv(1) by (simp add: keys_ok_def)
  obtain e where p: "processed (w_pg w) h (w_now w) s (rq_body r) (rq_header r) (w_db w) e (w_db w')"
    using acknowledged [OF ack inv(3) src paths] .
  then obtain rows where e: "ev_raw_body e = rq_body r"
    and f: "fanned_out (src_tenant s) (ev_id e) ts ((w_db w)\<lparr>db_events := db_events (w_db w) @ [e], db_dedup := rows\<rparr>) (w_db w')"
    unfolding processed_def verdict(1) by (auto simp: stored_as_def)
  obtain x j where q: "queued_for (src_tenant s) (ev_id e) (target_of dest) x j"
    and xj: "x \<in> set (db_deliveries (w_db w'))" "j \<in> set (db_jobs (w_db w'))"
    and ev: "db_events (w_db w') = db_events ((w_db w)\<lparr>db_events := db_events (w_db w) @ [e], db_dedup := rows\<rparr>)"
    by (rule fanned_out_target [OF f verdict(2)])
  define args where "args = \<lparr>da_delivery_id = uuidString (dl_id x), da_backoff_base = dst_backoff_base dest,
      da_backoff_max = dst_backoff_max dest\<rparr>"
  have w': "runs w w'" using runs_ingest [of w h r] ack(1) by simp
  have "\<exists>st' y. Work env tunnels job st = (Completed, st') \<and> ws_sent st' = ws_sent st @ [Post req] \<and>
           ho_url req = dst_url dest \<and> ho_body req = rq_body r \<and>
           y \<in> set (db_deliveries (w_db (ws_world st'))) \<and> dl_id y = dl_id x \<and> dl_status y = ''succeeded''"
    if run: "runs w' (ws_world st)" and wt: "waits st x e dest" and job: "dj_args job = args"
      and scan: "\<forall>i. o_Scan env (uuidString i) = Some i"
      and req: "req = delivery_request dest (rq_body r) (ev_content_type e) (uuidString (dl_id x))"
      and ok: "takes env (w_pg (ws_world st)) dest req resp'" for env tunnels job st req resp'
  proof -
    obtain y where y: "due (w_db (ws_world st)) y dest" "dl_id y = dl_id x" "dl_event y = ev_id e"
      using wt q by (auto simp: waits_def queued_for_def)
    have keys: "keys_ok (w_db (ws_world st))" and hist: "deliveries_ok (w_db (ws_world st))"
      using keyed.runs_keep hist.runs_keep rtranclp_trans [OF w' run] inv by blast+
    obtain res st' where W: "Work env tunnels job st = (res, st')" by fastforce
    have "da_delivery_id (dj_args job) = uuidString (dl_id x)" by (simp add: job args_def)
    with W Work_answered [of st env job y dest e req resp' tunnels res st'] keys hist wt y scan dest ok req e
    show ?thesis
      by (auto simp: keys_ok_def waits_def takes_def status_decision_def delivery_request_def Let_def)
  qed
  then show ?thesis using e q xj ev unfolding queued_for_def target_of_def
    by (intro exI [of _ e] exI [of _ x] exI [of _ j] exI [of _ args]) (auto simp: args_def)
qed

lemma processed_frame:
  assumes "processed pg h now s body headers d e d'"
  shows "db_attempts d' = db_attempts d" "db_destinations d' = db_destinations d"
  using assms by (auto simp: processed_def fanned_out_def)

theorem webhook_delivered_witness:
  "\<exists>w' job st' y req. snd (snd (ingest handler_example request_example world_example)) = w' \<and>
     Work (outside_example 200\<lparr>o_Scan := scan_uuid\<rparr>) Map.empty job \<lparr>ws_world = w', ws_pacer = Map.empty, ws_sent = []\<rparr> = (Completed, st') \<and>
     ws_sent st' = [Post req] \<and> ho_url req = ''http://d'' \<and> ho_body req = ''x'' \<and>
     y \<in> set (db_deliveries (w_db (ws_world st'))) \<and> dl_status y = ''succeeded''"
proof -
  let ?env = "outside_example 200\<lparr>o_Scan := scan_uuid\<rparr>" and ?w = world_example and ?r = request_example
  obtain resp h' w' where i: "ingest handler_example ?r ?w = (resp, h', w')" by (metis prod_cases3)
  have 200: "rs_status resp = 200" using acceptable_received [OF acceptable_example] i by (simp add: received_def)
  have inv: "keys_ok (w_db ?w)" "deliveries_ok (w_db ?w)" "dedup_pk (w_db ?w)"
    by (simp_all add: keys_ok_def deliveries_ok_def dedup_pk_def example_defs)
  have src: "source_example \<in> set (db_sources (w_db ?w))" "src_endpoint_path source_example = rq_path ?r"
    by (simp_all add: example_defs request_example_def)
  have vd: "webhook_verdict handler_example (w_db ?w) (w_now ?w) source_example (rq_body ?r) (rq_header ?r) = Deliver [target_of destination_example]"
    by (simp add: webhook_verdict_def is_duplicate_def live_key_def rule_decision_def enabled_rules_def enabled_targets_def
        Evaluate_def no_decision_def example_defs ActionDrop_def ActionRoute_def split: option.split)
  have dest: "dst_rate_limit destination_example = None" "\<not> IsURL (dst_url destination_example)"
    by (simp_all add: destination_example_def IsURL_def URLScheme_def HasPrefix_def)
  obtain e' where "processed (w_pg ?w) handler_example (w_now ?w) source_example (rq_body ?r) (rq_header ?r) (w_db ?w) e' (w_db w')"
    using acknowledged [OF i 200 inv(3) src] inv(1) by (auto simp: keys_ok_def)
  note frame = processed_frame [OF this]
  have pg: "w_pg w' = pg_example" using runs_pg [OF runs_ingest [of ?w handler_example ?r]] i by (simp add: world_example_def)
  let ?st = "\<lparr>ws_world = w', ws_pacer = Map.empty, ws_sent = []\<rparr>" and ?resp = "\<lparr>hr_status = 200, hr_header = [], hr_body = ''no''\<rparr>"
  obtain e x j args where x: "x \<in> set (db_deliveries (w_db w'))" "dl_status x = ''pending''" "dl_tenant x = src_tenant source_example"
      "dl_destination x = dst_id destination_example" "dl_event x = ev_id e" "e \<in> set (db_events (w_db w'))"
    and go: "\<forall>env tunnels job st req resp'. runs w' (ws_world st) \<and> waits st x e destination_example \<and> dj_args job = args \<and>
        (\<forall>i. o_Scan env (uuidString i) = Some i) \<and>
        req = delivery_request destination_example (rq_body ?r) (ev_content_type e) (uuidString (dl_id x)) \<and>
        takes env (w_pg (ws_world st)) destination_example req resp' \<longrightarrow>
        (\<exists>st' y. Work env tunnels job st = (Completed, st') \<and> ws_sent st' = ws_sent st @ [Post req] \<and>
           ho_url req = dst_url destination_example \<and> ho_body req = rq_body ?r \<and>
           y \<in> set (db_deliveries (w_db (ws_world st'))) \<and> dl_id y = dl_id x \<and> dl_status y = ''succeeded'')"
    using webhook_delivered [OF i 200 inv src vd list.set_intros(1) dest] by blast
  let ?job = "\<lparr>dj_args = args, dj_attempt = 1, dj_max_attempts = 3\<rparr>"
    and ?req = "delivery_request destination_example (rq_body ?r) (ev_content_type e) (uuidString (dl_id x))"
  have "waits ?st x e destination_example"
    using x frame by (auto simp: waits_def store_up_def due_def pg example_defs intro!: exI [of _ x])
  moreover have "takes ?env (w_pg (ws_world ?st)) destination_example ?req ?resp"
    by (auto simp: takes_def outside_example_def pg pg_example_def text_opt_def split: option.split)
  ultimately obtain st' y where "Work ?env Map.empty ?job ?st = (Completed, st')" "ws_sent st' = ws_sent ?st @ [Post ?req]"
    "ho_url ?req = dst_url destination_example" "ho_body ?req = rq_body ?r" "y \<in> set (db_deliveries (w_db (ws_world st')))"
    "dl_status y = ''succeeded''"
    using go [rule_format, of ?st ?job ?env ?req ?resp Map.empty] scan_uuidString by auto
  then show ?thesis using i
    by (intro exI [of _ w'] exI [of _ ?job] exI [of _ st'] exI [of _ y] exI [of _ ?req])
      (simp_all add: destination_example_def request_example_def)
qed

subsection \<open>A tunnel leaves nothing behind\<close>

text \<open>The database without a destination and everything that belongs to it.\<close>

definition without :: "uuid \<Rightarrow> database \<Rightarrow> database" where
  "without i d = d\<lparr>
     db_destinations := filter (\<lambda>x. dst_id x \<noteq> i) (db_destinations d),
     db_routes := filter (\<lambda>r. rt_destination r \<noteq> i) (db_routes d),
     db_deliveries := filter (\<lambda>x. dl_destination x \<noteq> i) (db_deliveries d),
     db_attempts := filter (\<lambda>a. \<not> list_ex (\<lambda>x. dl_destination x = i \<and> dl_id x = at_delivery a) (db_deliveries d)) (db_attempts d),
     db_alerts := filter (\<lambda>a. as_destination a \<noteq> i) (db_alerts d)\<rparr>"

lemma filter_other: "i \<notin> A \<Longrightarrow> f ` set xs \<subseteq> A \<Longrightarrow> filter (\<lambda>x. f x \<noteq> i) xs = xs"
  by (auto simp: filter_id_conv)

lemma delete_without:
  assumes "references_ok d" "list_all (\<lambda>x. dst_tenant x = t) (db_destinations d)"
  shows "delete_destinations (\<lambda>x. dst_id x = i \<and> dst_tenant x = t) d = without i d"
proof -
  let ?gone = "dst_id ` {x \<in> set (db_destinations d). dst_id x = i \<and> dst_tenant x = t}"
  have hit: "filter (\<lambda>x. \<not> (dst_id x = i \<and> dst_tenant x = t)) (db_destinations d) = filter (\<lambda>x. dst_id x \<noteq> i) (db_destinations d)"
    using assms(2) by (intro filter_cong refl) (auto simp: list_all_iff)
  show ?thesis
  proof (cases "i \<in> dst_id ` set (db_destinations d)")
    case True
    then have gone: "?gone = {i}" using assms(2) by (force simp: list_all_iff)
    have "filter (\<lambda>a. at_delivery a \<notin> dl_id ` {x \<in> set (db_deliveries d). dl_destination x \<in> {i}}) (db_attempts d) =
        filter (\<lambda>a. \<not> list_ex (\<lambda>x. dl_destination x = i \<and> dl_id x = at_delivery a) (db_deliveries d)) (db_attempts d)"
      by (intro filter_cong refl) (force simp: list_ex_iff)
    then show ?thesis unfolding delete_destinations_def without_def Let_def gone hit by simp
  next
    case False
    then have gone: "?gone = {}" by auto
    have "filter (\<lambda>r. rt_destination r \<noteq> i) (db_routes d) = db_routes d"
      "filter (\<lambda>x. dl_destination x \<noteq> i) (db_deliveries d) = db_deliveries d" "filter (\<lambda>a. as_destination a \<noteq> i) (db_alerts d) = db_alerts d"
      by (rule filter_other [OF False], use assms(1) in \<open>simp add: references_ok_def\<close>)+
    moreover have "\<not> list_ex (\<lambda>x. dl_destination x = i \<and> dl_id x = k) (db_deliveries d)" for k
      using assms(1) False by (auto simp: references_ok_def list_ex_iff)
    ultimately show ?thesis unfolding delete_destinations_def without_def Let_def gone hit by simp
  qed
qed

lemma refs_of_consistent: "references_ok d \<Longrightarrow> deliveries_ok d \<Longrightarrow> refs_to_destinations d"
  by (auto simp: references_ok_def deliveries_ok_def refs_to_destinations_def)

lemma Work_sends_stored:
  assumes "o_Scan env (da_delivery_id (dj_args job)) = Some i" "i \<notin> dl_id ` set (db_deliveries (w_db (ws_world s)))"
  shows "ws_sent (snd (Work env tunnels job s)) = ws_sent s"
proof -
  obtain r s' where run: "Work env tunnels job s = (r, s')" by (rule prod.exhaust)
  from run show ?thesis
  proof (cases rule: Work_cases)
    case idle
    with run show ?thesis by simp
  next
    case (tried x dest out w p)
    then show ?thesis using assms by (auto simp: due_def same_store_def)
  qed
qed

text \<open>
  C27. A tunnel leaves nothing behind. A session is opened on a consistent store; then anything may happen, events that are
  delivered or wait for delivery down the tunnel included; then the session is closed and its delete is executed. The database is
  then what it was just before, without the ephemeral destination and without its routes, its deliveries with their attempts,
  and its alert state, and nothing else is lost; the registry no longer resolves the destination. Jobs of the
  deliveries that went with it may still be in the queue, but running one sends nothing. If nothing happened in between, the
  database is exactly what it was before the session. (All destinations belong to the one tenant the gateway has.)
\<close>

theorem tunnel_leaves_nothing:
  assumes inv: "references_ok (w_db w)" "deliveries_ok (w_db w)"
    and opened: "open_tunnel name upgrade random ready conn (reg, w) = (Attached dest frame, reg1, w1)"
    and traffic: "runs w1 w2" "list_all (\<lambda>x. dst_tenant x = DefaultTenantID) (db_destinations (w_db w2))"
    and closed: "\<not> pg_fault (w_pg w2) (w_step w2)" "detach dest (reg2, w2) = (reg3, w3)"
  shows "w_db w3 = without (dst_id dest) (w_db w2) \<and> reg3 = reg2(dst_id dest := None) \<and>
    dst_id dest \<notin> dst_id ` set (db_destinations (w_db w)) \<and> dest \<in> set (db_destinations (w_db w1)) \<and>
    (\<forall>x env tunnels job s. x \<in> set (db_deliveries (w_db w2)) \<and> dl_destination x = dst_id dest \<and>
       o_Scan env (da_delivery_id (dj_args job)) = Some (dl_id x) \<and> w_db (ws_world s) = w_db w3 \<longrightarrow>
       ws_sent (snd (Work env tunnels job s)) = ws_sent s) \<and>
    (w2 = w1 \<longrightarrow> w_db w3 = w_db w)"
proof -
  have w1: "runs w w1" using runs_open_tunnel [of w name upgrade random ready conn reg] opened by simp
  have ok: "references_ok (w_db w2)" "deliveries_ok (w_db w2)"
    using refs.runs_keep hist.runs_keep rtranclp_trans [OF w1 traffic(1)] inv by blast+
  have "w_db w3 = delete_destinations (\<lambda>x. dst_id x = dst_id dest \<and> dst_tenant x = DefaultTenantID) (w_db w2)"
    "reg3 = reg2(dst_id dest := None)"
    using closed by (auto simp: detach_def unregister_def DeleteDestination_def exec_def Let_def)
  note gone = this(1) [unfolded delete_without [OF ok(1) traffic(2)]] this(2)
  have idle: "ws_sent (snd (Work env tunnels job s)) = ws_sent s"
    if "x \<in> set (db_deliveries (w_db w2))" "dl_destination x = dst_id dest" "o_Scan env (da_delivery_id (dj_args job)) = Some (dl_id x)"
      "w_db (ws_world s) = w_db w3" for x env tunnels job s
  proof (rule Work_sends_stored [OF that(3)])
    have "y = x" if "y \<in> set (db_deliveries (w_db w2))" "dl_id y = dl_id x" for y
      using key_unique [OF _ that(1) \<open>x \<in> set (db_deliveries (w_db w2))\<close> that(2)] ok(2) by (simp add: deliveries_ok_def)
    then show "dl_id x \<notin> dl_id ` set (db_deliveries (w_db (ws_world s)))" using that(2) by (auto simp: that(4) gone(1) without_def)
  qed
  have same: "w_db w3 = w_db w" if "w2 = w1"
    using detach_restores [OF refs_of_consistent [OF inv] opened] closed that by (auto simp: detach_def)
  from open_tunnel_Attached [OF opened] show ?thesis using gone idle same by auto
qed

text \<open>A tunnel is opened, an event is replayed to both destinations, and the tunnel is closed.\<close>

theorem tunnel_leaves_nothing_witness:
  "\<exists>frame reg1 w1 w2. open_tunnel ''all'' True ''ABCD'' True () (Map.empty, world_example) = (Attached tunnel_example frame, reg1, w1) \<and>
     runs w1 w2 \<and> map dl_destination (db_deliveries (w_db w2)) = [9, 101] \<and>
     map dl_destination (db_deliveries (w_db (snd (detach tunnel_example (reg1, w2))))) = [9] \<and>
     db_destinations (w_db (snd (detach tunnel_example (reg1, w2)))) = [destination_example]"
proof -
  obtain frame w1 where o: "open_tunnel ''all'' True ''ABCD'' True () (Map.empty, world_example) = (Attached tunnel_example frame, [101 \<mapsto> ()], w1)"
    and w1: "w_db w1 = session_db" "w_pg w1 = pg_example" "w_now w1 = 0"
    using session_example by blast
  let ?w2 = "snd (inTx (EnqueueDeliveries 1 7 3) w1)"
  have run: "runs w1 ?w2" by (rule r_into_rtranclp) (rule atomic.Replay_event)
  have w2: "map dl_destination (db_deliveries (w_db ?w2)) = [9, 101] \<and> db_destinations (w_db ?w2) = [destination_example, tunnel_example] \<and>
      w_pg ?w2 = pg_example"
    by (simp add: EnqueueDeliveries_def EnqueueDeliveriesTo_def enqueue_target_def ListEnabledDeliveryTargetsForSource_def
        inTx_def bind_def query_def exec_def InsertDelivery_def InsertDeliveryJob_def river_InsertTx_def SetDeliveryRiverJobID_def
        update_where_def enabled_targets_def target_of_def image_iff ret_def tick_def Let_def w1 session_db_def tunnel_example_def example_defs)
  have inv: "references_ok (w_db world_example)" "deliveries_ok (w_db world_example)"
    by (simp_all add: references_ok_def deliveries_ok_def example_defs)
  have t: "list_all (\<lambda>x. dst_tenant x = DefaultTenantID) (db_destinations (w_db ?w2))" "\<not> pg_fault (w_pg ?w2) (w_step ?w2)"
    using w2 by (simp_all add: tunnel_example_def destination_example_def DefaultTenantID_def pg_example_def)
  have "w_db (snd (detach tunnel_example ([101 \<mapsto> ()], ?w2))) = without (dst_id tunnel_example) (w_db ?w2)"
    using tunnel_leaves_nothing [OF inv o run t prod.collapse [symmetric]] by blast
  moreover have "map dl_destination (filter (\<lambda>x. dl_destination x \<noteq> 101) (db_deliveries (w_db ?w2))) = [9]"
    using w2 by (auto simp: map_eq_Cons_conv)
  ultimately show ?thesis using o run w2
    by (intro exI [of _ frame] exI [of _ "[101 \<mapsto> ()]"] exI [of _ w1] exI [of _ ?w2]) (simp add: without_def tunnel_example_def destination_example_def)
qed

end
